(* ===== verification/Prelude.thy ===== *)
theory Prelude
  imports Complex_Main "HOL-Library.Word" "HOL-Library.Sublist"
begin

text \<open>
  Shared vocabulary of the development: the fixed-width integers of the program, the faults a C++
  expression can end in, the byte-string operations of \<^verbatim>\<open>std::string\<close> the sources use, and the
  lemma collections the component theories draw on.
\<close>

section \<open>Lemma collections\<close>

named_theorems cxx_res \<open>unfolding rules for results that may carry a fault\<close>
named_theorems str_ops \<open>facts on the std::string operations\<close>
named_theorems u64_bounds \<open>bounds of fixed-width words read as naturals\<close>

section \<open>Fixed-width integers\<close>

type_synonym u16 = "16 word"
type_synonym u32 = "32 word"
type_synonym u64 = "64 word"

declare of_nat_unat [simp del]

lemma unat_u64_less [u64_bounds]: "unat (w :: u64) < 2 ^ 64"
  using unsigned_less [of w] by simp

lemma unat_u32_less [u64_bounds]: "unat (w :: u32) < 2 ^ 32"
  using unsigned_less [of w] by simp

lemma unat_u16_less [u64_bounds]: "unat (w :: u16) < 2 ^ 16"
  using unsigned_less [of w] by simp

lemma unat_ucast_u32_u64 [simp]: "unat (ucast (w :: u32) :: u64) = unat w"
proof -
  have "unat w < 2 ^ 64" using unat_u32_less [of w] by simp
  then show ?thesis by (simp add: unsigned_ucast_eq take_bit_nat_eq_self)
qed

lemma unat_ucast_u16_u64 [simp]: "unat (ucast (w :: u16) :: u64) = unat w"
proof -
  have "unat w < 2 ^ 64" using unat_u16_less [of w] by simp
  then show ?thesis by (simp add: unsigned_ucast_eq take_bit_nat_eq_self)
qed

lemma unat_ucast_u16_u32 [simp]: "unat (ucast (w :: u16) :: u32) = unat w"
proof -
  have "unat w < 2 ^ 32" using unat_u16_less [of w] by simp
  then show ?thesis by (simp add: unsigned_ucast_eq take_bit_nat_eq_self)
qed

lemma uint_unat_u64: "uint (w :: u64) = int (unat w)"
  by (simp add: of_nat_unat)

lemma unat_add_u64:
  "unat (a :: u64) + unat b < 2 ^ 64 \<Longrightarrow> unat (a + b) = unat a + unat b"
  by (simp add: unat_word_ariths)

lemma unat_mult_u64:
  "unat (a :: u64) * unat b < 2 ^ 64 \<Longrightarrow> unat (a * b) = unat a * unat b"
  by (simp add: unat_word_ariths)

lemma unat_sub_u64: "b \<le> (a :: u64) \<Longrightarrow> unat (a - b) = unat a - unat b"
  by (simp add: unat_sub)

lemma unat_min_word: "unat (min (a :: u64) b) = min (unat a) (unat b)"
  by (simp add: min_def word_le_nat_alt)

lemma unat_max_word: "unat (max (a :: u64) b) = max (unat a) (unat b)"
  by (simp add: max_def word_le_nat_alt)

lemma u64_eqI: "unat (a :: u64) = unat b \<Longrightarrow> a = b"
  by (simp add: word_unat_eq_iff)

section \<open>Faults\<close>

text \<open>
  A C++ expression that does not return throws one of the standard exceptions or, as a
  floating-to-integer cast out of range does, has undefined behaviour. A handler
  \<^verbatim>\<open>catch (const std::exception&)\<close> catches all of them but the last one.
\<close>

datatype fault =
    Runtime_error string
  | Out_of_range string
  | Logic_error string
  | Json_error string
  | Undefined_behaviour

type_synonym 'a res = "fault + 'a"

definition res_bind :: "'a res \<Rightarrow> ('a \<Rightarrow> 'b res) \<Rightarrow> 'b res" where
  "res_bind m f = (case m of Inl e \<Rightarrow> Inl e | Inr x \<Rightarrow> f x)"

lemma res_bind_simps [simp]:
  "res_bind (Inl e) f = Inl e"
  "res_bind (Inr x) f = f x"
  by (simp_all add: res_bind_def)

lemma res_bind_Inr_iff [cxx_res]:
  "res_bind m f = Inr y \<longleftrightarrow> (\<exists>x. m = Inr x \<and> f x = Inr y)"
  by (cases m) simp_all

lemma res_bind_Inl_iff [cxx_res]:
  "res_bind m f = Inl e \<longleftrightarrow> m = Inl e \<or> (\<exists>x. m = Inr x \<and> f x = Inl e)"
  by (cases m) simp_all

definition returns :: "'a res \<Rightarrow> bool" where
  "returns m \<longleftrightarrow> (\<exists>x. m = Inr x)"

lemma returns_simps [simp]: "returns (Inr x)" "\<not> returns (Inl e)"
  by (simp_all add: returns_def)

text \<open>\<open>what e\<close> is the text \<^verbatim>\<open>std::exception::what\<close> gives a handler.\<close>

fun what :: "fault \<Rightarrow> string" where
  "what (Runtime_error m) = m"
| "what (Out_of_range m) = m"
| "what (Logic_error m) = m"
| "what (Json_error m) = m"
| "what Undefined_behaviour = []"

section \<open>Characters\<close>

definition code_of :: "char \<Rightarrow> int" where
  "code_of c = of_char c"

lemma code_of_bounds: "0 \<le> code_of c" "code_of c < 256"
proof -
  have "code_of c = code_of c mod 256" by (simp add: code_of_def)
  then show "0 \<le> code_of c" "code_of c < 256"
    by (metis pos_mod_sign zero_less_numeral, metis pos_mod_bound zero_less_numeral)
qed

definition is_digit :: "char \<Rightarrow> bool" where
  "is_digit c \<longleftrightarrow> 48 \<le> code_of c \<and> code_of c \<le> 57"

definition is_upper :: "char \<Rightarrow> bool" where
  "is_upper c \<longleftrightarrow> 65 \<le> code_of c \<and> code_of c \<le> 90"

definition is_space :: "char \<Rightarrow> bool" where
  "is_space c \<longleftrightarrow> code_of c = 32 \<or> (9 \<le> code_of c \<and> code_of c \<le> 13)"

definition to_lower :: "char \<Rightarrow> char" where
  "to_lower c = (if is_upper c then char_of (code_of c + 32) else c)"

text \<open>In ASCII the addition sets bit 5: a faster equation for evaluation.\<close>

lemma to_lower_bits [code]:
  "to_lower c = (if is_upper c then
     (case c of Char b0 b1 b2 b3 b4 b5 b6 b7 \<Rightarrow> Char b0 b1 b2 b3 b4 True b6 b7) else c)"
proof (cases c)
  case (Char b0 b1 b2 b3 b4 b5 b6 b7)
  have "char_of (of_char c + 32 :: int) = Char b0 b1 b2 b3 b4 True b6 b7" if "is_upper c"
  proof (rule of_char_eqI [where 'a = int])
    have "\<not> b5" using that
      by (cases b0; cases b1; cases b2; cases b3; cases b4; cases b5; cases b6; cases b7)
        (simp_all add: Char is_upper_def code_of_def)
    moreover from this have "(of_char c + 32 :: int) < 256"
      using that by (simp add: is_upper_def code_of_def)
    ultimately show "of_char (char_of (of_char c + 32 :: int)) =
        (of_char (Char b0 b1 b2 b3 b4 True b6 b7) :: int)"
      using code_of_bounds(1) [of c] by (simp add: Char code_of_def)
  qed
  then show ?thesis by (simp add: to_lower_def code_of_def Char)
qed

text \<open>\<^verbatim>\<open>Lower\<close> of the sources: \<^verbatim>\<open>std::tolower\<close> on every byte, in the C locale.\<close>

definition lower :: "string \<Rightarrow> string" where
  "lower = map to_lower"

lemma is_upper_to_lower [simp]: "\<not> is_upper (to_lower c)"
  by (auto simp: to_lower_def is_upper_def code_of_def)

lemma to_lower_idem [simp]: "to_lower (to_lower c) = to_lower c"
  by (simp add: to_lower_def [of "to_lower c"])

lemma lower_idem [simp]: "lower (lower s) = lower s"
  by (simp add: lower_def)

lemma lower_Nil [simp]: "lower [] = []" "lower s = [] \<longleftrightarrow> s = []"
  by (simp_all add: lower_def)

lemma lower_append [simp]: "lower (s @ t) = lower s @ lower t"
  by (simp add: lower_def)

lemma length_lower [simp]: "length (lower s) = length s"
  by (simp add: lower_def)

lemma lower_drop: "lower (drop n s) = drop n (lower s)"
  by (simp add: lower_def drop_map)

lemma lower_take: "lower (take n s) = take n (lower s)"
  by (simp add: lower_def take_map)

section \<open>Searching strings\<close>

text \<open>\<^verbatim>\<open>s.find(t)\<close>: the first position of \<open>t\<close> in \<open>s\<close>, \<open>None\<close> for \<^verbatim>\<open>npos\<close>.\<close>

fun str_find :: "string \<Rightarrow> string \<Rightarrow> nat option" where
  "str_find [] t = (if t = [] then Some 0 else None)"
| "str_find (c # s) t =
     (if prefix t (c # s) then Some 0 else map_option Suc (str_find s t))"

definition has :: "string \<Rightarrow> string \<Rightarrow> bool" where
  "has s t \<longleftrightarrow> str_find s t \<noteq> None"

lemma str_find_Some_split:
  "str_find s t = Some n \<Longrightarrow> n \<le> length s \<and> s = take n s @ t @ drop (n + length t) s"
proof (induction s arbitrary: n)
  case Nil
  then show ?case by (simp split: if_splits)
next
  case (Cons c s)
  show ?case
  proof (cases "prefix t (c # s)")
    case True
    with Cons.prems show ?thesis by (auto simp: prefix_def)
  next
    case False
    with Cons.prems obtain m where "str_find s t = Some m" and n: "n = Suc m"
      by auto
    with Cons.IH [of m] show ?thesis by simp
  qed
qed

lemma str_find_append: "str_find (a @ t @ b) t \<noteq> None"
proof (induction a)
  case Nil
  show ?case
  proof (cases "t @ b")
    case Nil
    then show ?thesis by simp
  next
    case (Cons x xs)
    then have "prefix t (x # xs)" unfolding prefix_def by metis
    with Cons show ?thesis by simp
  qed
next
  case (Cons c a)
  then show ?case by simp
qed

lemma has_sublist [str_ops]: "has s t \<longleftrightarrow> sublist t s"
proof
  assume "has s t"
  then obtain n where "str_find s t = Some n" by (auto simp: has_def)
  then have "s = take n s @ t @ drop (n + length t) s"
    using str_find_Some_split by blast
  then show "sublist t s" unfolding sublist_def by metis
next
  assume "sublist t s"
  then obtain a b where "s = a @ t @ b" by (auto simp: sublist_def)
  then show "has s t" using str_find_append unfolding has_def by metis
qed

lemma has_append [str_ops]: "has (a @ t @ b) t"
  by (simp add: has_sublist)

lemma has_trans [str_ops]: "has s t \<Longrightarrow> has t u \<Longrightarrow> has s u"
  by (auto simp: has_sublist intro: sublist_order.order.trans)

lemma has_Nil: "\<not> has [] (c # t)"
  by (simp add: has_def)

text \<open>\<^verbatim>\<open>s.rfind(c)\<close> for a character.\<close>

fun str_rfind_char :: "string \<Rightarrow> char \<Rightarrow> nat option" where
  "str_rfind_char [] c = None"
| "str_rfind_char (x # s) c =
     (case str_rfind_char s c of Some n \<Rightarrow> Some (Suc n)
      | None \<Rightarrow> if x = c then Some 0 else None)"

fun str_find_char :: "string \<Rightarrow> char \<Rightarrow> nat option" where
  "str_find_char [] c = None"
| "str_find_char (x # s) c = (if x = c then Some 0 else map_option Suc (str_find_char s c))"

lemma str_find_char_Some:
  "str_find_char s c = Some n \<Longrightarrow> n < length s \<and> s ! n = c \<and> c \<notin> set (take n s)"
  by (induction s arbitrary: n) (auto split: if_splits)

lemma str_find_char_None: "str_find_char s c = None \<longleftrightarrow> c \<notin> set s"
  by (induction s) auto

lemma str_rfind_char_None: "str_rfind_char s c = None \<longleftrightarrow> c \<notin> set s"
  by (induction s) (auto split: option.splits)

lemma str_rfind_char_Some:
  "str_rfind_char s c = Some n \<Longrightarrow> n < length s \<and> s ! n = c \<and> c \<notin> set (drop (Suc n) s)"
proof (induction s arbitrary: n)
  case Nil
  then show ?case by simp
next
  case (Cons x s)
  then show ?case
    by (cases "str_rfind_char s c") (auto simp: str_rfind_char_None split: if_splits)
qed

definition ends_with :: "string \<Rightarrow> string \<Rightarrow> bool" where
  "ends_with s t \<longleftrightarrow> length t \<le> length s \<and> drop (length s - length t) s = t"

lemma ends_with_suffix [str_ops]: "ends_with s t \<longleftrightarrow> suffix t s"
proof
  assume "ends_with s t"
  then have "s = take (length s - length t) s @ t"
    unfolding ends_with_def by (metis append_take_drop_id)
  then show "suffix t s" unfolding suffix_def by blast
next
  assume "suffix t s"
  then show "ends_with s t" by (auto simp: suffix_def ends_with_def)
qed

text \<open>A text between single quotes, as the error messages have it.\<close>

definition quoted :: "string \<Rightarrow> string" where
  "quoted s = [CHR 0x27] @ s @ [CHR 0x27]"

section \<open>Decimal numbers\<close>

text \<open>\<^verbatim>\<open>std::to_string\<close> of an unsigned integer.\<close>

definition digit_char :: "int \<Rightarrow> char" where
  "digit_char n = char_of (48 + n mod 10)"

function int_to_dec :: "int \<Rightarrow> string" where
  "int_to_dec n = (if n < 10 then [digit_char n] else int_to_dec (n div 10) @ [digit_char (n mod 10)])"
  by pat_completeness auto
termination
  by (relation "measure nat") auto

declare int_to_dec.simps [simp del]

definition nat_to_dec :: "nat \<Rightarrow> string" where
  "nat_to_dec n = int_to_dec (int n)"

definition digit_val :: "char \<Rightarrow> int" where
  "digit_val c = code_of c - 48"

text \<open>The value of a string of decimal digits; \<^verbatim>\<open>std::stod\<close> reads its digits with it.\<close>

definition dec_to_int :: "string \<Rightarrow> int" where
  "dec_to_int s = foldl (\<lambda>a c. 10 * a + digit_val c) 0 s"

lemma dec_to_int_Nil [simp]: "dec_to_int [] = 0"
  by (simp add: dec_to_int_def)

lemma dec_to_int_snoc: "dec_to_int (s @ [c]) = 10 * dec_to_int s + digit_val c"
  by (simp add: dec_to_int_def)

lemma digit_char_facts [simp]:
  "0 \<le> n \<Longrightarrow> n < 10 \<Longrightarrow> is_digit (digit_char n)"
  "0 \<le> n \<Longrightarrow> n < 10 \<Longrightarrow> digit_val (digit_char n) = n"
  by (simp_all add: is_digit_def digit_val_def digit_char_def code_of_def)

lemma int_to_dec_digits: "0 \<le> n \<Longrightarrow> list_all is_digit (int_to_dec n)"
proof (induction n rule: int_to_dec.induct)
  case (1 n)
  then show ?case by (cases "n < 10") (auto simp: int_to_dec.simps [of n])
qed

lemma int_to_dec_nonempty [simp]: "int_to_dec n \<noteq> []"
  by (simp add: int_to_dec.simps [of n])

lemma dec_to_int_to_dec: "0 \<le> n \<Longrightarrow> dec_to_int (int_to_dec n) = n"
proof (induction n rule: int_to_dec.induct)
  case (1 n)
  show ?case
  proof (cases "n < 10")
    case True
    then show ?thesis using 1 by (simp add: int_to_dec.simps [of n] dec_to_int_def)
  next
    case False
    then have "dec_to_int (int_to_dec n) = 10 * (n div 10) + n mod 10"
      using 1 by (simp add: int_to_dec.simps [of n] dec_to_int_snoc)
    then show ?thesis by simp
  qed
qed

lemma nat_to_dec_inj: "nat_to_dec m = nat_to_dec n \<longleftrightarrow> m = n"
  unfolding nat_to_dec_def by (metis dec_to_int_to_dec of_nat_0_le_iff of_nat_eq_iff)

lemma dec_to_int_nonneg: "list_all is_digit s \<Longrightarrow> 0 \<le> dec_to_int s"
  by (induction s rule: rev_induct) (auto simp: dec_to_int_snoc digit_val_def is_digit_def)

section \<open>Lists\<close>

lemma filter_take_while_first: "find P xs = None \<longleftrightarrow> filter P xs = []"
  by (induction xs) auto

lemma sum_list_mono2:
  "length xs = length ys \<Longrightarrow> (\<And>i. i < length xs \<Longrightarrow> xs ! i \<le> ys ! i) \<Longrightarrow>
     sum_list xs \<le> (sum_list ys :: nat)"
proof (induction xs ys rule: list_induct2)
  case Nil
  then show ?case by simp
next
  case (Cons x xs y ys)
  have "x \<le> y" using Cons.prems [of 0] by simp
  moreover have "sum_list xs \<le> sum_list ys"
    using Cons.prems Cons.IH by (metis length_Cons nth_Cons_Suc Suc_less_eq)
  ultimately show ?case by simp
qed

end
