(* ===== verification/Binary64.thy ===== *)
theory Binary64
  imports Prelude "HOL-Library.Log_Nat"
begin

text \<open>
  The program's \<^verbatim>\<open>double\<close>: IEEE 754 binary64 with round-to-nearest-even, as exact rationals that
  are rounded after every operation. \<open>Fin x\<close> is the finite double of value \<open>x\<close>; the two zeros of
  the format are one value here (no code of the repository tells them apart in a decision).
  Every definition computes, so that concrete runs are evaluated in the kernel.
\<close>

section \<open>Rounding to 53 bits\<close>

text \<open>The exponent of the leading bit: \<open>2 powi bexp x \<le> \<bar>x\<bar> < 2 powi (bexp x + 1)\<close>.\<close>

definition bexp :: "rat \<Rightarrow> int" where
  "bexp x = (let (n, d) = quotient_of \<bar>x\<bar>; k = bitlen n - bitlen d
             in if 2 powi k \<le> \<bar>x\<bar> then k else k - 1)"

text \<open>Round to an integer, ties to even.\<close>

definition rne :: "rat \<Rightarrow> int" where
  "rne x = (let f = \<lfloor>x\<rfloor>; d = x - of_int f
            in if d < 1/2 then f else if 1/2 < d then f + 1 else if even f then f else f + 1)"

definition round_at :: "int \<Rightarrow> rat \<Rightarrow> rat" where
  "round_at e x = of_int (rne (x / 2 powi e)) * 2 powi e"

definition ulp_exp :: "rat \<Rightarrow> int" where
  "ulp_exp x = max (bexp x - 52) (-1074)"

definition round53 :: "rat \<Rightarrow> rat" where
  "round53 x = (if x = 0 then 0 else round_at (ulp_exp x) x)"

lemma bexp_bounds:
  assumes "x \<noteq> 0"
  shows "2 powi bexp x \<le> \<bar>x\<bar>" "\<bar>x\<bar> < 2 powi (bexp x + 1)"
proof -
  obtain n d where q: "quotient_of \<bar>x\<bar> = (n, d)" by fastforce
  have d: "0 < d" using quotient_of_denom_pos [OF q] .
  have xnd: "\<bar>x\<bar> = of_int n / of_int d" using quotient_of_div [OF q] .
  have n: "0 < n"
    using assms d xnd by (metis abs_le_zero_iff div_by_1 linorder_not_less of_int_0 of_int_le_0_iff
        divide_nonpos_pos of_int_0_less_iff)
  define k where "k = bitlen n - bitlen d"
  have pw: "(2::rat) powi bitlen m = of_int (2 ^ nat (bitlen m))" if "0 < m" for m
    using that by (simp add: power_int_def bitlen_nonneg)
  have pw1: "(2::rat) powi (bitlen m - 1) = of_int (2 ^ nat (bitlen m - 1))" if "0 < m" for m
    using that by (simp add: power_int_def bitlen_ge_iff_power)
  have up: "(of_int m :: rat) < 2 powi bitlen m" and lo: "2 powi (bitlen m - 1) \<le> (of_int m :: rat)"
    if "0 < m" for m
    using bitlen_bounds [OF that] that by (simp_all only: pw pw1 of_int_less_iff of_int_le_iff)
  have "\<bar>x\<bar> < 2 powi bitlen n / 2 powi (bitlen d - 1)"
    unfolding xnd using up [OF n] lo [OF d] n by (intro frac_less) auto
  also have "\<dots> = 2 powi (k + 1)"
    by (simp add: k_def algebra_simps flip: power_int_diff)
  finally have A: "\<bar>x\<bar> < 2 powi (k + 1)" .
  have "2 powi (k - 1) = 2 powi (bitlen n - 1) / (2 powi bitlen d :: rat)"
    by (simp add: k_def algebra_simps flip: power_int_diff)
  also have "\<dots> \<le> \<bar>x\<bar>"
    unfolding xnd using up [OF d] lo [OF n] d n by (intro frac_le) auto
  finally have B: "2 powi (k - 1) \<le> \<bar>x\<bar>" .
  have e: "bexp x = (if 2 powi k \<le> \<bar>x\<bar> then k else k - 1)"
    by (simp add: bexp_def q k_def Let_def)
  show "2 powi bexp x \<le> \<bar>x\<bar>" "\<bar>x\<bar> < 2 powi (bexp x + 1)"
    using A B by (simp_all add: e)
qed

lemma powi2_less_iff: "(2::rat) powi a < 2 powi b \<longleftrightarrow> a < b"
  by (metis linorder_neqE_linordered_idom not_less_iff_gr_or_eq one_less_numeral_iff
      power_int_strict_increasing semiring_norm(76))

lemma powi2_le_iff: "(2::rat) powi a \<le> 2 powi b \<longleftrightarrow> a \<le> b"
  using powi2_less_iff [of b a] by (simp add: linorder_not_less flip: linorder_not_less)

lemma bexp_less: "x \<noteq> 0 \<Longrightarrow> \<bar>x\<bar> < 2 powi k \<Longrightarrow> bexp x < k"
  using bexp_bounds(1) [of x] powi2_less_iff [of "bexp x" k] by linarith

lemma bexp_ge: "x \<noteq> 0 \<Longrightarrow> 2 powi k \<le> \<bar>x\<bar> \<Longrightarrow> k \<le> bexp x"
  using bexp_bounds(2) [of x] powi2_less_iff [of k "bexp x + 1"] by linarith

lemma bexp_mono: "0 < x \<Longrightarrow> x \<le> y \<Longrightarrow> bexp x \<le> bexp y"
  using bexp_bounds(1) [of x] by (intro bexp_ge) auto

lemma bexp_minus [simp]: "bexp (- x) = bexp x"
  by (simp add: bexp_def)

lemma rne_bounds: "\<lfloor>x\<rfloor> \<le> rne x" "rne x \<le> \<lfloor>x\<rfloor> + 1"
  by (simp_all add: rne_def Let_def)

lemma rne_err: "\<bar>of_int (rne x) - x\<bar> \<le> 1 / 2"
proof -
  have "of_int \<lfloor>x\<rfloor> \<le> x" "x < of_int \<lfloor>x\<rfloor> + 1"
    using floor_correct [of x] by simp_all
  then show ?thesis by (auto simp: rne_def Let_def abs_le_iff)
qed

lemma rne_of_int [simp]: "rne (of_int n) = n"
  by (simp add: rne_def)

lemma rne_0 [simp]: "rne 0 = 0"
  by (simp add: rne_def)

lemma rne_mono:
  assumes "x \<le> y" shows "rne x \<le> rne y"
proof (cases "\<lfloor>x\<rfloor> = \<lfloor>y\<rfloor>")
  case True
  with assms show ?thesis by (auto simp: rne_def Let_def)
next
  case False
  with floor_mono [OF assms] have "\<lfloor>x\<rfloor> + 1 \<le> \<lfloor>y\<rfloor>" by simp
  then show ?thesis using rne_bounds(2) [of x] rne_bounds(1) [of y] by linarith
qed

lemma rne_minus [simp]: "rne (- x) = - rne x"
proof (cases "x = of_int \<lfloor>x\<rfloor>")
  case True
  then show ?thesis by (metis of_int_minus rne_of_int)
next
  case False
  have "\<lfloor>- x\<rfloor> = - \<lfloor>x\<rfloor> - 1"
    using False of_int_floor_le [of x] by (intro floor_unique) (auto simp: less_le, linarith)
  then show ?thesis by (auto simp: rne_def Let_def)
qed

lemma round_at_err: "\<bar>round_at e x - x\<bar> \<le> 2 powi (e - 1)"
proof -
  have "round_at e x - x = (of_int (rne (x / 2 powi e)) - x / 2 powi e) * 2 powi e"
    by (simp add: round_at_def left_diff_distrib)
  then have "\<bar>round_at e x - x\<bar> = \<bar>of_int (rne (x / 2 powi e)) - x / 2 powi e\<bar> * 2 powi e"
    by (simp add: abs_mult)
  also have "\<dots> \<le> 1 / 2 * 2 powi e"
    by (intro mult_right_mono rne_err) simp
  also have "\<dots> = 2 powi (e - 1)"
    by (simp add: power_int_diff)
  finally show ?thesis .
qed

lemma round_at_mono: "x \<le> y \<Longrightarrow> round_at e x \<le> round_at e y"
  unfolding round_at_def by (intro mult_right_mono of_int_le_iff [THEN iffD2] rne_mono divide_right_mono) auto

lemma round_at_exact: "x = of_int m * 2 powi e' \<Longrightarrow> e \<le> e' \<Longrightarrow> round_at e x = x"
proof -
  assume x: "x = of_int m * 2 powi e'" and le: "e \<le> e'"
  have "x / 2 powi e = of_int m * 2 powi (e' - e)"
    by (simp add: x power_int_diff)
  also have "\<dots> = of_int (m * 2 ^ nat (e' - e))"
    using le by (simp add: power_int_def)
  finally have q: "x / 2 powi e = of_int (m * 2 ^ nat (e' - e))" .
  then have "of_int (rne (x / 2 powi e)) = x / 2 powi e" by (simp only: rne_of_int)
  then show ?thesis by (simp add: round_at_def)
qed

lemma round53_0 [simp]: "round53 0 = 0"
  by (simp add: round53_def)

lemma round53_minus: "round53 (- x) = - round53 x"
  by (simp add: round53_def round_at_def ulp_exp_def)

lemma ulp_exp_minus [simp]: "ulp_exp (- x) = ulp_exp x"
  by (simp add: ulp_exp_def)

text \<open>A number of at most 53 significant bits on the grid of the format is rounded to itself.\<close>

lemma round53_exact_aux:
  assumes "\<bar>m\<bar> < 2 ^ 53" "-1074 \<le> e"
  shows "round53 (of_int m * 2 powi e) = of_int m * 2 powi e"
proof (cases "m = 0")
  case True
  then show ?thesis by simp
next
  case False
  let ?x = "of_int m * 2 powi e :: rat"
  have "\<bar>?x\<bar> = of_int \<bar>m\<bar> * 2 powi e" by (simp add: abs_mult)
  also have "\<dots> < of_int (2 ^ 53) * 2 powi e"
    using assms(1) by (intro mult_strict_right_mono) (simp_all only: of_int_less_iff, simp)
  also have "\<dots> = 2 powi (e + 53)"
    by (simp add: power_int_add)
  finally have "bexp ?x < e + 53"
    using False by (intro bexp_less) auto
  with assms(2) have "ulp_exp ?x \<le> e" by (simp add: ulp_exp_def)
  then show ?thesis using False round_at_exact [of ?x m e] by (simp add: round53_def)
qed

lemma round53_exact:
  assumes "\<bar>m\<bar> \<le> 2 ^ 53" "-1074 \<le> e"
  shows "round53 (of_int m * 2 powi e) = of_int m * 2 powi e"
proof (cases "\<bar>m\<bar> = 2 ^ 53")
  case False
  with assms show ?thesis by (intro round53_exact_aux) auto
next
  case True
  define s where "s = sgn m"
  have m: "m = s * 2 ^ 52 * 2" and s: "\<bar>s * 2 ^ 52\<bar> < (2::int) ^ 53"
    using True by (auto simp: s_def sgn_if abs_if split: if_splits)
  have "of_int m * 2 powi e = (of_int (s * 2 ^ 52) * 2 powi (e + 1) :: rat)"
    by (simp add: m power_int_add)
  then show ?thesis using round53_exact_aux [OF s, of "e + 1"] assms(2) by simp
qed

lemma round53_of_int: "\<bar>n\<bar> \<le> 2 ^ 53 \<Longrightarrow> round53 (of_int n) = of_int n"
  using round53_exact [of n 0] by simp

lemma round53_of_nat: "n \<le> 2 ^ 53 \<Longrightarrow> round53 (of_nat n) = of_nat n"
  using round53_of_int [of "int n"] by simp

lemma round53_pow2: "-1074 \<le> e \<Longrightarrow> round53 (2 powi e) = 2 powi e"
  using round53_exact [of 1 e] by simp

lemma round53_power2: "round53 (2 ^ n) = 2 ^ n"
  using round53_pow2 [of "int n"] by simp

text \<open>Rounding is monotone, and so keeps every bound that is itself a double.\<close>

lemma round53_mono_pos:
  assumes "0 < x" "x \<le> y" shows "round53 x \<le> round53 y"
proof -
  have le: "ulp_exp x \<le> ulp_exp y" using bexp_mono [OF assms] by (simp add: ulp_exp_def)
  show ?thesis
  proof (cases "ulp_exp x = ulp_exp y")
    case True
    then show ?thesis using assms round_at_mono [of x y] by (simp add: round53_def)
  next
    case False
    let ?b = "bexp y"
    have e: "ulp_exp y = ?b - 52" and ll: "bexp x < ?b" and g: "ulp_exp x \<le> ?b"
      using le False by (auto simp: ulp_exp_def max_def split: if_splits)
    have "x < 2 powi (bexp x + 1)" using bexp_bounds(2) [of x] assms by simp
    also have "\<dots> \<le> 2 powi ?b" using ll by (simp add: powi2_le_iff)
    finally have "round_at (ulp_exp x) x \<le> round_at (ulp_exp x) (2 powi ?b)"
      by (intro round_at_mono) simp
    also have "\<dots> = 2 powi ?b" using round_at_exact [of _ 1 ?b] g by simp
    also have "\<dots> = round_at (ulp_exp y) (2 powi ?b)"
      using round_at_exact [of "2 powi ?b" 1 ?b "ulp_exp y"] e by simp
    also have "\<dots> \<le> round_at (ulp_exp y) y"
      using bexp_bounds(1) [of y] assms by (intro round_at_mono) simp
    finally show ?thesis using assms by (simp add: round53_def)
  qed
qed

lemma round53_nonneg: "0 \<le> x \<Longrightarrow> 0 \<le> round53 x"
proof (cases "x = 0")
  case False
  assume "0 \<le> x"
  then have "round_at (ulp_exp x) 0 \<le> round_at (ulp_exp x) x" by (rule round_at_mono)
  then show ?thesis using False by (simp add: round53_def round_at_def)
qed simp

lemma round53_mono: "x \<le> y \<Longrightarrow> round53 x \<le> round53 y"
proof -
  assume le: "x \<le> y"
  consider "0 < x" | "y < 0" | "x \<le> 0" "0 \<le> y" by linarith
  then show ?thesis
  proof cases
    case 1
    with le show ?thesis by (rule round53_mono_pos [rotated 1])
  next
    case 2
    with le have "round53 (- y) \<le> round53 (- x)" by (intro round53_mono_pos) auto
    then show ?thesis by (simp add: round53_minus)
  next
    case 3
    then have "0 \<le> round53 (- x)" "0 \<le> round53 y" by (auto intro: round53_nonneg)
    then show ?thesis by (simp add: round53_minus)
  qed
qed

lemma round53_le_exact: "x \<le> y \<Longrightarrow> round53 y = y \<Longrightarrow> round53 x \<le> y"
  using round53_mono [of x y] by simp

lemma round53_ge_exact: "y \<le> x \<Longrightarrow> round53 y = y \<Longrightarrow> y \<le> round53 x"
  using round53_mono [of y x] by simp

lemma round53_pos:
  assumes "2 powi (-1074) \<le> x" shows "0 < round53 x"
proof -
  have "2 powi (-1074) \<le> round53 x"
    using assms by (intro round53_ge_exact round53_pow2) auto
  moreover have "(0::rat) < 2 powi (-1074)" by simp
  ultimately show ?thesis by linarith
qed

text \<open>The error of one rounding: half an ulp, relative above the subnormal range.\<close>

definition unit_roundoff :: rat where
  "unit_roundoff = 1 / 2 ^ 53"

definition tiny :: rat where
  "tiny = 2 powi (-1075)"

lemma round53_err: "\<bar>round53 x - x\<bar> \<le> unit_roundoff * \<bar>x\<bar> + tiny"
proof (cases "x = 0")
  case True
  then show ?thesis by (simp add: tiny_def)
next
  case False
  have a: "2 powi (bexp x - 53) \<le> unit_roundoff * \<bar>x\<bar>"
    using bexp_bounds(1) [OF False] by (simp add: unit_roundoff_def power_int_diff divide_right_mono)
  have "\<bar>round53 x - x\<bar> \<le> 2 powi (ulp_exp x - 1)"
    using False round_at_err [of "ulp_exp x" x] by (simp add: round53_def)
  also have "\<dots> \<le> unit_roundoff * \<bar>x\<bar> + tiny"
  proof (cases "ulp_exp x = bexp x - 52")
    case True
    then have "ulp_exp x - 1 = bexp x - 53" by simp
    then have "2 powi (ulp_exp x - 1) = (2 powi (bexp x - 53) :: rat)" by (rule arg_cong)
    moreover have "0 \<le> tiny" by (simp add: tiny_def)
    ultimately show ?thesis using a by linarith
  next
    case f: False
    then have "ulp_exp x = -1074" by (auto simp: ulp_exp_def max_def split: if_splits)
    then show ?thesis by (simp add: tiny_def unit_roundoff_def)
  qed
  finally show ?thesis .
qed

lemma round53_idem: "round53 (round53 x) = round53 x"
proof (cases "x = 0")
  case False
  let ?e = "ulp_exp x"
  have "bexp x + 1 \<le> ?e + 53" by (simp add: ulp_exp_def)
  then have "2 powi (bexp x + 1) \<le> (2 powi (?e + 53) :: rat)" by (simp only: powi2_le_iff)
  then have "\<bar>x\<bar> \<le> 2 powi (?e + 53)" using bexp_bounds(2) [OF False] by linarith
  then have "\<bar>x\<bar> / 2 powi ?e \<le> of_int (2 ^ 53)"
    by (simp add: power_int_add pos_divide_le_eq)
  then have "rne (\<bar>x\<bar> / 2 powi ?e) \<le> 2 ^ 53"
    using rne_mono [of "\<bar>x\<bar> / 2 powi ?e" "of_int (2 ^ 53)"] by (simp only: rne_of_int)
  moreover have "0 \<le> rne (\<bar>x\<bar> / 2 powi ?e)"
    using rne_mono [of 0 "\<bar>x\<bar> / 2 powi ?e"] by (simp add: rne_def)
  moreover have "\<bar>rne (x / 2 powi ?e)\<bar> = \<bar>rne (\<bar>x\<bar> / 2 powi ?e)\<bar>"
    by (cases "0 \<le> x") auto
  ultimately have "\<bar>rne (x / 2 powi ?e)\<bar> \<le> 2 ^ 53" by linarith
  then have "round53 (of_int (rne (x / 2 powi ?e)) * 2 powi ?e) = of_int (rne (x / 2 powi ?e)) * 2 powi ?e"
    by (intro round53_exact) (simp_all add: ulp_exp_def)
  then show ?thesis using False by (simp add: round53_def [of x] round_at_def)
qed simp

section \<open>The type and its operations\<close>

datatype double = Fin rat | PInf | NInf | NaN

definition rnd :: "rat \<Rightarrow> double" where
  "rnd x = (let y = round53 x in
     if y \<noteq> 0 \<and> 1024 \<le> bexp y then (if 0 < y then PInf else NInf) else Fin y)"

fun dadd :: "double \<Rightarrow> double \<Rightarrow> double" where
  "dadd (Fin a) (Fin b) = rnd (a + b)"
| "dadd NaN _ = NaN"
| "dadd _ NaN = NaN"
| "dadd PInf NInf = NaN"
| "dadd NInf PInf = NaN"
| "dadd PInf _ = PInf"
| "dadd _ PInf = PInf"
| "dadd NInf _ = NInf"
| "dadd _ NInf = NInf"

fun dneg :: "double \<Rightarrow> double" where
  "dneg (Fin a) = Fin (- a)"
| "dneg PInf = NInf"
| "dneg NInf = PInf"
| "dneg NaN = NaN"

definition dsub :: "double \<Rightarrow> double \<Rightarrow> double" where
  "dsub a b = dadd a (dneg b)"

definition inf_of_sign :: "rat \<Rightarrow> double" where
  "inf_of_sign s = (if 0 < s then PInf else if s < 0 then NInf else NaN)"

fun dsgn :: "double \<Rightarrow> rat" where
  "dsgn (Fin a) = sgn a"
| "dsgn PInf = 1"
| "dsgn NInf = -1"
| "dsgn NaN = 0"

fun dmul :: "double \<Rightarrow> double \<Rightarrow> double" where
  "dmul (Fin a) (Fin b) = rnd (a * b)"
| "dmul a b = inf_of_sign (dsgn a * dsgn b)"

text \<open>Division by zero takes the zero as positive.\<close>

fun ddiv :: "double \<Rightarrow> double \<Rightarrow> double" where
  "ddiv (Fin a) (Fin b) = (if b = 0 then inf_of_sign a else rnd (a / b))"
| "ddiv NaN _ = NaN"
| "ddiv _ NaN = NaN"
| "ddiv (Fin a) _ = Fin 0"
| "ddiv a (Fin b) = inf_of_sign (dsgn a * (if b = 0 then 1 else sgn b))"
| "ddiv _ _ = NaN"

fun dlt :: "double \<Rightarrow> double \<Rightarrow> bool" where
  "dlt (Fin a) (Fin b) = (a < b)"
| "dlt NaN _ = False"
| "dlt _ NaN = False"
| "dlt NInf b = (b \<noteq> NInf)"
| "dlt a PInf = (a \<noteq> PInf)"
| "dlt _ _ = False"

definition dle :: "double \<Rightarrow> double \<Rightarrow> bool" where
  "dle a b \<longleftrightarrow> dlt a b \<or> (a = b \<and> a \<noteq> NaN)"

definition is_finite :: "double \<Rightarrow> bool" where
  "is_finite a \<longleftrightarrow> (case a of Fin _ \<Rightarrow> True | _ \<Rightarrow> False)"

text \<open>\<^verbatim>\<open>std::min\<close> and \<^verbatim>\<open>std::max\<close>: the first argument unless the comparison says otherwise.\<close>

definition dmin :: "double \<Rightarrow> double \<Rightarrow> double" where
  "dmin a b = (if dlt b a then b else a)"

definition dmax :: "double \<Rightarrow> double \<Rightarrow> double" where
  "dmax a b = (if dlt a b then b else a)"

text \<open>Conversions: from an integer (rounded) and to \<^verbatim>\<open>uint64_t\<close> (towards zero, undefined
  when the truncated value does not fit).\<close>

definition d_of_int :: "int \<Rightarrow> double" where
  "d_of_int i = rnd (of_int i)"

definition d_of_u64 :: "u64 \<Rightarrow> double" where
  "d_of_u64 w = Fin (round53 (of_int (uint w)))"

fun cast_u64 :: "double \<Rightarrow> u64 res" where
  "cast_u64 (Fin x) =
     (if -1 < x \<and> x < 2 ^ 64 then Inr (word_of_int (if x < 0 then 0 else \<lfloor>x\<rfloor>))
      else Inl Undefined_behaviour)"
| "cast_u64 _ = Inl Undefined_behaviour"

text \<open>A decimal numeral of the source text: the double nearest to it.\<close>

abbreviation lit :: "rat \<Rightarrow> double" where
  "lit x \<equiv> Fin (round53 x)"

section \<open>Lemmas on the operations\<close>

named_theorems dbl_ops \<open>unfolding rules for double comparisons, min and max\<close>

lemma Fin_cmp [dbl_ops]:
  "dlt (Fin a) (Fin b) \<longleftrightarrow> a < b" "dle (Fin a) (Fin b) \<longleftrightarrow> a \<le> b"
  by (auto simp: dle_def)

lemma dmin_Fin [dbl_ops]: "dmin (Fin a) (Fin b) = Fin (min a b)"
  by (simp add: dmin_def min_def)

lemma dmax_Fin [dbl_ops]: "dmax (Fin a) (Fin b) = Fin (max a b)"
  by (simp add: dmax_def max_def)

lemma dmin_Fin_PInf [simp]: "dmin (Fin a) PInf = Fin a"
  by (simp add: dmin_def)

lemma dmin_Fin_NaN [simp]: "dmin (Fin a) NaN = Fin a"
  by (simp add: dmin_def)

lemma rnd_finite: "\<bar>x\<bar> < 2 ^ 1023 \<Longrightarrow> rnd x = Fin (round53 x)"
proof -
  assume x: "\<bar>x\<bar> < 2 ^ 1023"
  have "round53 x \<le> 2 ^ 1023" "round53 (- x) \<le> 2 ^ 1023"
    using x by (intro round53_le_exact round53_power2, linarith)+
  then have "\<bar>round53 x\<bar> \<le> 2 powi 1023" by (simp add: round53_minus abs_le_iff)
  moreover have "(2::rat) powi 1023 < 2 powi 1024" by (simp only: powi2_less_iff)
  ultimately have "round53 x \<noteq> 0 \<longrightarrow> bexp (round53 x) < 1024"
    using bexp_less [of "round53 x" 1024] by linarith
  then show ?thesis by (auto simp: rnd_def Let_def)
qed

lemma rnd_small: "\<bar>x\<bar> < 2 ^ 200 \<Longrightarrow> rnd x = Fin (round53 x)"
proof -
  assume "\<bar>x\<bar> < 2 ^ 200"
  moreover have "(2::rat) ^ 200 < 2 ^ 1023" by (rule power_strict_increasing) simp_all
  ultimately show ?thesis by (intro rnd_finite) (rule less_trans)
qed

lemma rnd_exact: "round53 x = x \<Longrightarrow> 0 \<le> x \<Longrightarrow> x < 2 ^ 200 \<Longrightarrow> rnd x = Fin x"
  using rnd_small [of x] by simp

lemma rnd_nonneg: "0 \<le> x \<Longrightarrow> rnd x = PInf \<or> (\<exists>y\<ge>0. rnd x = Fin y \<and> y = round53 x)"
  using round53_nonneg [of x] by (auto simp: rnd_def Let_def)

lemma rnd_Fin: "rnd x = Fin y \<Longrightarrow> y = round53 x"
  by (auto simp: rnd_def Let_def split: if_splits)

lemma rnd_cases: "rnd x = Fin (round53 x) \<or> rnd x = PInf \<or> rnd x = NInf"
  by (auto simp: rnd_def Let_def)

lemma d_of_u64_nat: "d_of_u64 w = Fin (round53 (of_nat (unat w)))"
  by (simp add: d_of_u64_def uint_unat_u64 del: of_int_uint)

lemma d_of_u64_exact: "unat w \<le> 2 ^ 53 \<Longrightarrow> d_of_u64 w = Fin (of_nat (unat w))"
  by (simp add: d_of_u64_nat round53_of_nat)

lemma d_of_u64_bounds: "\<exists>x. d_of_u64 w = Fin x \<and> 0 \<le> x \<and> x \<le> 2 ^ 64"
proof -
  have "(of_nat (unat w) :: rat) \<le> of_nat (2 ^ 64)"
    using unat_u64_less [of w] by (intro of_nat_mono) simp
  then have "round53 (of_nat (unat w)) \<le> 2 ^ 64"
    by (intro round53_le_exact round53_power2) simp
  then show ?thesis by (simp add: d_of_u64_nat round53_nonneg)
qed

lemma d_of_u64_mono: "a \<le> b \<Longrightarrow> dle (d_of_u64 a) (d_of_u64 b)"
  by (simp add: d_of_u64_nat dbl_ops round53_mono word_le_nat_alt)

lemma d_of_u64_0 [simp]: "d_of_u64 0 = Fin 0"
  by (simp add: d_of_u64_nat)

lemma d_of_u64_pos: "0 < w \<Longrightarrow> \<exists>x\<ge>1. d_of_u64 w = Fin x"
proof -
  assume "0 < w"
  then have "1 \<le> unat w" by (simp add: word_less_nat_alt)
  then have "1 \<le> (of_nat (unat w) :: rat)" by simp
  then have "1 \<le> round53 (of_nat (unat w))"
    using round53_power2 [of 0] by (intro round53_ge_exact) simp_all
  then show ?thesis by (simp add: d_of_u64_nat)
qed

lemma cast_u64_Fin:
  assumes "0 \<le> x" "x < 2 ^ 64"
  shows "cast_u64 (Fin x) = Inr (word_of_int \<lfloor>x\<rfloor>)" "unat (word_of_int \<lfloor>x\<rfloor> :: u64) = nat \<lfloor>x\<rfloor>"
proof -
  show "cast_u64 (Fin x) = Inr (word_of_int \<lfloor>x\<rfloor>)" using assms by simp
  have "\<lfloor>x\<rfloor> < 2 ^ 64" using assms(2) by (simp add: floor_less_iff)
  then show "unat (word_of_int \<lfloor>x\<rfloor> :: u64) = nat \<lfloor>x\<rfloor>"
    using assms(1) by (simp add: unsigned_of_int take_bit_int_eq_self)
qed

lemma cast_u64_Inr:
  "cast_u64 d = Inr w \<Longrightarrow> \<exists>x. d = Fin x \<and> -1 < x \<and> x < 2 ^ 64 \<and> unat w = nat \<lfloor>x\<rfloor>"
  by (cases d) (auto split: if_splits simp: cast_u64_Fin(2))

lemma round53_nat_ge1: "1 \<le> n \<Longrightarrow> 1 \<le> round53 (of_nat n)"
  using round53_power2 [of 0] by (intro round53_ge_exact) simp_all

lemma round53_le_pow2: "x \<le> 2 ^ k \<Longrightarrow> round53 x \<le> 2 ^ k"
  by (intro round53_le_exact round53_power2)

lemma tiny_le: "tiny \<le> 2 powi (-153)"
  unfolding tiny_def by (simp only: powi2_le_iff)

text \<open>Above \<open>2 powi (-100)\<close> one rounding is a relative error of at most \<open>2 * unit_roundoff\<close>.\<close>

lemma round53_up:
  assumes "2 powi (-100) \<le> x" shows "round53 x \<le> x * (1 + 2 * unit_roundoff)"
proof -
  have "2 powi (-100) * unit_roundoff \<le> x * unit_roundoff"
    using assms by (intro mult_right_mono) (simp_all add: unit_roundoff_def)
  moreover have "2 powi (-153) = (2 powi (-100) * unit_roundoff :: rat)"
    by (simp add: unit_roundoff_def power_int_minus)
  ultimately have "tiny \<le> x * unit_roundoff" using tiny_le by linarith
  moreover have "0 < (2::rat) powi (-100)" by simp
  then have "\<bar>x\<bar> = x" using assms by linarith
  ultimately show ?thesis using round53_err [of x] by (simp add: algebra_simps abs_le_iff)
qed

lemma round53_add_err:
  assumes "0 \<le> x" "x \<le> c" shows "\<bar>round53 x - x\<bar> \<le> unit_roundoff * c + tiny"
proof -
  have "unit_roundoff * \<bar>x\<bar> \<le> unit_roundoff * c"
    using assms by (intro mult_left_mono) (simp_all add: unit_roundoff_def)
  then show ?thesis using round53_err [of x] by linarith
qed

end
