(* ===== verification/Units.thy ===== *)
theory Units
  imports Binary64
begin

text \<open>
  \<^verbatim>\<open>src/units.cc\<close>: the operator's spellings of durations, sizes and network rates, and the
  texts printed back. Rates come in as SI bits and are kept as bytes per second.
\<close>

section \<open>Numbers with a unit\<close>

text \<open>
  The scanning loop of \<^verbatim>\<open>ParseNumberSuffix\<close>: digits and at most one dot. It returns what it
  consumed, what is left, and whether it saw a digit.
\<close>

fun scan_number :: "string \<Rightarrow> bool \<Rightarrow> bool \<Rightarrow> string \<times> string \<times> bool" where
  "scan_number [] saw_dot saw_digit = ([], [], saw_digit)"
| "scan_number (c # s) saw_dot saw_digit =
     (if is_digit c then
        (let (num, rest, d) = scan_number s saw_dot True in (c # num, rest, d))
      else if c = CHR ''.'' \<and> \<not> saw_dot then
        (let (num, rest, d) = scan_number s True saw_digit in (c # num, rest, d))
      else ([], c # s, saw_digit))"

text \<open>
  \<^verbatim>\<open>std::stod\<close> on a text of the form sign, digits, dot, digits: the nearest double, and
  \<^verbatim>\<open>std::out_of_range\<close> where \<^verbatim>\<open>strtod\<close> reports a range error (overflow, or a tiny
  result that is not exact).
\<close>

definition decimal_value :: "string \<Rightarrow> rat" where
  "decimal_value s =
     (let neg = (s \<noteq> [] \<and> hd s = CHR ''-'');
          body = (if s \<noteq> [] \<and> hd s \<in> {CHR ''+'', CHR ''-''} then tl s else s);
          ip = takeWhile (\<lambda>c. c \<noteq> CHR ''.'') body;
          fp = drop (Suc (length ip)) body;
          v = of_int (dec_to_int (ip @ fp)) / 10 ^ length fp
      in if neg then - v else v)"

definition stod :: "string \<Rightarrow> double res" where
  "stod s = (let v = decimal_value s in
     if v = 0 then Inr (Fin 0)
     else case rnd v of
         Fin y \<Rightarrow> (if bexp (round_at (bexp v - 52) v) < -1022 \<and> y \<noteq> v
                   then Inl (Out_of_range ''stod'') else Inr (Fin y))
       | _ \<Rightarrow> Inl (Out_of_range ''stod''))"

text \<open>\<open>None\<close> is the \<^verbatim>\<open>false\<close> the function returns.\<close>

definition ParseNumberSuffix :: "string \<Rightarrow> (double \<times> string) option res" where
  "ParseNumberSuffix s =
     (if s = [] then Inr None
      else let signed = (hd s \<in> {CHR ''+'', CHR ''-''});
               sgn = (if signed then take 1 s else []);
               body = (if signed then tl s else s);
               (num, rest, saw_digit) = scan_number body False False
           in if \<not> saw_digit \<or> num = [] then Inr None
              else res_bind (stod (sgn @ num)) (\<lambda>v. Inr (Some (v, rest))))"

section \<open>Sizes, durations, rates\<close>

text \<open>SI (kB, MB, ...: powers of 1000) against binary (KiB, MiB, ...: powers of 1024).\<close>

definition size_multiplier :: "string \<Rightarrow> double option" where
  "size_multiplier u =
     (if u = [] \<or> u = ''b'' \<or> u = ''byte'' \<or> u = ''bytes'' then Some (Fin 1)
      else if u = ''kib'' then Some (Fin 1024)
      else if u = ''mib'' then Some (Fin (1024 ^ 2))
      else if u = ''gib'' then Some (Fin (1024 ^ 3))
      else if u = ''tib'' then Some (Fin (1024 ^ 4))
      else if u = ''k'' \<or> u = ''kb'' then Some (Fin (10 ^ 3))
      else if u = ''m'' \<or> u = ''mb'' then Some (Fin (10 ^ 6))
      else if u = ''g'' \<or> u = ''gb'' then Some (Fin (10 ^ 9))
      else if u = ''t'' \<or> u = ''tb'' then Some (Fin (10 ^ 12))
      else None)"

definition ScaleBytes :: "double \<Rightarrow> string \<Rightarrow> u64 res" where
  "ScaleBytes value unit_in =
     (case size_multiplier (lower unit_in) of
        None \<Rightarrow> Inl (Runtime_error (''unknown size unit '' @ quoted unit_in))
      | Some mul \<Rightarrow>
          if dlt value (Fin 0) then Inl (Runtime_error ''size must be non-negative'')
          else cast_u64 (dadd (dmul value mul) (Fin (1/2))))"

definition BitsPerSecToBytesPerSec :: "double \<Rightarrow> u64 res" where
  "BitsPerSecToBytesPerSec bits_per_sec =
     (if dlt bits_per_sec (Fin 0) then Inl (Runtime_error ''rate must be non-negative'')
      else cast_u64 (dadd (ddiv bits_per_sec (Fin 8)) (Fin (1/2))))"

definition ParseDurationString :: "string \<Rightarrow> double res" where
  "ParseDurationString s =
     res_bind (ParseNumberSuffix s) (\<lambda>p. case p of
        None \<Rightarrow> Inl (Runtime_error (''cannot parse duration '' @ quoted s))
      | Some (value, unit) \<Rightarrow>
          if dlt value (Fin 0) then Inl (Runtime_error ''duration must be non-negative'')
          else let u = lower unit in
            if u = [] \<or> u = ''s'' \<or> u = ''sec'' \<or> u = ''secs'' \<or> u = ''seconds'' then Inr value
            else if u = ''m'' \<or> u = ''min'' \<or> u = ''mins'' \<or> u = ''minutes''
              then Inr (dmul value (Fin 60))
            else if u = ''h'' \<or> u = ''hr'' \<or> u = ''hrs'' \<or> u = ''hour'' \<or> u = ''hours''
              then Inr (dmul value (Fin 3600))
            else Inl (Runtime_error (''unknown duration unit '' @ quoted unit)))"

definition IsUncappedRateToken :: "string \<Rightarrow> bool" where
  "IsUncappedRateToken s = (if s = [] then True else lower s = ''uncapped'')"

definition byte_rate_error :: "string \<Rightarrow> fault" where
  "byte_rate_error s = Runtime_error
     (''byte rates like '' @ quoted s @ '' are not accepted; use Mbps/Gbps (SI bits)'')"

definition rate_unit_error :: "string \<Rightarrow> fault" where
  "rate_unit_error unit = Runtime_error
     (''unknown rate unit '' @ quoted unit @ '' (use Mbps/Gbps/bps)'')"

definition rate_multiplier :: "string \<Rightarrow> double option" where
  "rate_multiplier pfx =
     (if pfx = [] \<or> pfx = ''b'' then Some (Fin 1)
      else if pfx = ''k'' \<or> pfx = ''kb'' then Some (Fin (10 ^ 3))
      else if pfx = ''m'' \<or> pfx = ''mb'' then Some (Fin (10 ^ 6))
      else if pfx = ''g'' \<or> pfx = ''gb'' then Some (Fin (10 ^ 9))
      else if pfx = ''t'' \<or> pfx = ''tb'' then Some (Fin (10 ^ 12))
      else None)"

definition ParseRateString :: "string \<Rightarrow> u64 res" where
  "ParseRateString s =
     (if ends_with s ''/s'' \<or> ends_with s ''/S'' then Inl (byte_rate_error s)
      else res_bind (ParseNumberSuffix s) (\<lambda>p. case p of
         None \<Rightarrow> Inl (Runtime_error (''cannot parse rate '' @ quoted s))
       | Some (value, unit) \<Rightarrow>
           if dlt value (Fin 0) then Inl (Runtime_error ''rate must be non-negative'')
           else if unit = [] then BitsPerSecToBytesPerSec value
           else let u = lower unit in
             if has u ''ibps'' \<or> ends_with unit ''Bps'' then Inl (byte_rate_error s)
             else if \<not> ends_with u ''bps'' then Inl (rate_unit_error unit)
             else let pfx = take (length u - 3) u in
               case rate_multiplier pfx of
                 None \<Rightarrow> Inl (rate_unit_error unit)
               | Some mul \<Rightarrow>
                   BitsPerSecToBytesPerSec
                     (if pfx = [] \<or> pfx = ''b'' then value else dmul value mul)))"

definition ParseTargetRateString :: "string \<Rightarrow> u64 res" where
  "ParseTargetRateString s = (if IsUncappedRateToken s then Inr 0 else ParseRateString s)"

definition ParseSizeString :: "string \<Rightarrow> u64 res" where
  "ParseSizeString s =
     res_bind (ParseNumberSuffix s) (\<lambda>p. case p of
        None \<Rightarrow> Inl (Runtime_error (''cannot parse size '' @ quoted s))
      | Some (value, unit) \<Rightarrow> ScaleBytes value unit)"

section \<open>Printing\<close>

text \<open>\<^verbatim>\<open>printf\<close>'s \<^verbatim>\<open>%.kf\<close>: the exact value of the double, rounded to \<open>k\<close> decimals.\<close>

definition zero_pad :: "nat \<Rightarrow> string \<Rightarrow> string" where
  "zero_pad k s = replicate (k - length s) (CHR ''0'') @ s"

definition fmt_fixed_rat :: "nat \<Rightarrow> rat \<Rightarrow> string" where
  "fmt_fixed_rat k x =
     (let n = rne (\<bar>x\<bar> * 10 ^ k)
      in (if x < 0 then ''-'' else []) @ int_to_dec (n div 10 ^ k) @
         (if k = 0 then [] else CHR ''.'' # zero_pad k (int_to_dec (n mod 10 ^ k))))"

fun fmt_f :: "nat \<Rightarrow> double \<Rightarrow> string" where
  "fmt_f k (Fin x) = fmt_fixed_rat k x"
| "fmt_f k PInf = ''inf''"
| "fmt_f k NInf = ''-inf''"
| "fmt_f k NaN = ''nan''"

definition FormatBytes :: "u64 \<Rightarrow> string" where
  "FormatBytes n =
     (if 10 ^ 9 \<le> n then fmt_f 2 (ddiv (d_of_u64 n) (Fin (10 ^ 9))) @ '' GB''
      else if 10 ^ 6 \<le> n then fmt_f 2 (ddiv (d_of_u64 n) (Fin (10 ^ 6))) @ '' MB''
      else if 10 ^ 3 \<le> n then fmt_f 2 (ddiv (d_of_u64 n) (Fin (10 ^ 3))) @ '' kB''
      else int_to_dec (uint n) @ '' B'')"

definition FormatRate :: "u64 \<Rightarrow> string" where
  "FormatRate bytes_per_sec =
     (let bits = dmul (d_of_u64 bytes_per_sec) (Fin 8) in
      if dle (Fin (10 ^ 12)) bits then fmt_f 2 (ddiv bits (Fin (10 ^ 12))) @ '' Tbps''
      else if dle (Fin (10 ^ 9)) bits then fmt_f 2 (ddiv bits (Fin (10 ^ 9))) @ '' Gbps''
      else if dle (Fin (10 ^ 6)) bits then fmt_f 2 (ddiv bits (Fin (10 ^ 6))) @ '' Mbps''
      else if dle (Fin (10 ^ 3)) bits then fmt_f 2 (ddiv bits (Fin (10 ^ 3))) @ '' kbps''
      else fmt_f 0 bits @ '' bps'')"

definition FormatDuration :: "double \<Rightarrow> string" where
  "FormatDuration seconds =
     (if dle (Fin 3600) seconds then fmt_f 2 (ddiv seconds (Fin 3600)) @ '' h''
      else if dle (Fin 60) seconds then fmt_f 2 (ddiv seconds (Fin 60)) @ '' m''
      else fmt_f 2 seconds @ '' s'')"

section \<open>Scanning\<close>

lemma to_lower_digit: "is_digit c \<Longrightarrow> to_lower c = c"
  by (auto simp: to_lower_def is_digit_def is_upper_def)

lemma scan_number_append: "scan_number s dot d = (num, rest, d') \<Longrightarrow> s = num @ rest"
  by (induction s dot d arbitrary: num rest d' rule: scan_number.induct)
    (auto split: if_splits prod.splits)

text \<open>A character a number can go on with.\<close>


definition number_char :: "char \<Rightarrow> bool" where
  "number_char c \<longleftrightarrow> is_digit c \<or> c = CHR ''.''"

lemma scan_number_chars:
  "scan_number s dot d = (num, rest, d') \<Longrightarrow> list_all number_char num"
  by (induction s dot d arbitrary: num rest d' rule: scan_number.induct)
    (auto split: if_splits prod.splits simp: number_char_def)

lemma scan_number_digits:
  assumes "list_all is_digit ds" "rest = [] \<or> \<not> number_char (hd rest)"
  shows "scan_number (ds @ rest) dot d = (ds, rest, d \<or> ds \<noteq> [])"
  using assms(1)
proof (induction ds arbitrary: d)
  case Nil
  with assms(2) show ?case by (cases rest) (auto simp: number_char_def)
next
  case (Cons c ds)
  then show ?case by simp
qed

lemma digit_not_sign: "is_digit c \<Longrightarrow> c \<notin> {CHR ''+'', CHR ''-'', CHR ''.''}"
  by (auto simp: is_digit_def code_of_def)

lemma decimal_value_int: "0 \<le> n \<Longrightarrow> decimal_value (int_to_dec n) = of_int n"
proof -
  assume n: "0 \<le> n"
  have d: "list_all is_digit (int_to_dec n)" using n by (rule int_to_dec_digits)
  then have "is_digit (hd (int_to_dec n))" by (cases "int_to_dec n") auto
  then have h: "hd (int_to_dec n) \<noteq> CHR ''+''" "hd (int_to_dec n) \<noteq> CHR ''-''"
    using digit_not_sign by auto
  have "\<forall>c\<in>set (int_to_dec n). c \<noteq> CHR ''.''"
    using d digit_not_sign by (auto simp: list_all_iff)
  then have tw: "takeWhile (\<lambda>c. c \<noteq> CHR ''.'') (int_to_dec n) = int_to_dec n"
    by (simp add: takeWhile_eq_all_conv)
  show ?thesis using h n by (simp add: decimal_value_def Let_def tw dec_to_int_to_dec)
qed

lemma rnd_of_int: "\<bar>n\<bar> \<le> 2 ^ 53 \<Longrightarrow> rnd (of_int n) = Fin (of_int n)"
proof -
  assume n: "\<bar>n\<bar> \<le> 2 ^ 53"
  have "\<bar>of_int n :: rat\<bar> < 2 ^ 64" using n by (simp flip: of_int_abs)
  then show ?thesis using n by (simp add: rnd_small round53_of_int)
qed

lemma stod_int: "0 \<le> n \<Longrightarrow> n \<le> 2 ^ 53 \<Longrightarrow> stod (int_to_dec n) = Inr (Fin (of_int n))"
  by (simp add: stod_def decimal_value_int rnd_of_int Let_def)

lemma ParseNumberSuffix_int:
  assumes "0 \<le> n" "n \<le> 2 ^ 53" "u = [] \<or> \<not> number_char (hd u)"
  shows "ParseNumberSuffix (int_to_dec n @ u) = Inr (Some (Fin (of_int n), u))"
proof -
  have d: "list_all is_digit (int_to_dec n)" using assms(1) by (rule int_to_dec_digits)
  then have "is_digit (hd (int_to_dec n))" by (cases "int_to_dec n") auto
  then have h: "hd (int_to_dec n @ u) \<notin> {CHR ''+'', CHR ''-''}"
    using digit_not_sign by (auto simp: hd_append)
  show ?thesis
    using h scan_number_digits [OF d assms(3), of False False] stod_int [OF assms(1,2)]
    by (simp add: ParseNumberSuffix_def)
qed

lemma ParseNumberSuffix_suffix:
  "ParseNumberSuffix s = Inr (Some (v, u)) \<Longrightarrow>
     \<exists>num. s = num @ u \<and> num \<noteq> [] \<and> (\<exists>y. v = Fin y) \<and> (u = [] \<longrightarrow> number_char (last s))"
proof -
  assume p: "ParseNumberSuffix s = Inr (Some (v, u))"
  define sgn where "sgn = (if hd s \<in> {CHR ''+'', CHR ''-''} then take 1 s else [])"
  define body where "body = (if hd s \<in> {CHR ''+'', CHR ''-''} then tl s else s)"
  obtain num d where sc: "scan_number body False False = (num, u, d)"
    and num: "num \<noteq> []" and st: "stod (sgn @ num) = Inr v" and s: "s \<noteq> []"
    using p by (auto simp: ParseNumberSuffix_def sgn_def body_def Let_def cxx_res
        split: if_splits prod.splits)
  have "s = sgn @ body" using s by (cases s) (auto simp: sgn_def body_def)
  then have split: "s = (sgn @ num) @ u" using scan_number_append [OF sc] by simp
  have fin: "\<exists>y. v = Fin y"
    using st by (auto simp: stod_def Let_def split: if_splits double.splits; metis)
  show ?thesis using split fin num scan_number_chars [OF sc] by (auto simp: list_all_iff)
qed

section \<open>What the parsers accept\<close>

lemma number_char_lower: "number_char c \<Longrightarrow> to_lower c = c"
  by (cases "is_digit c")
    (simp add: to_lower_digit, simp add: number_char_def to_lower_def is_upper_def code_of_def)

lemma unit_head:
  assumes "lower u = v" "v = [] \<or> \<not> number_char (hd v)"
  shows "u = [] \<or> \<not> number_char (hd u)"
  using assms number_char_lower by (cases u) (auto simp: lower_def)

lemma unit_letters:
  "\<not> number_char CHR ''b''" "\<not> number_char CHR ''k''" "\<not> number_char CHR ''m''"
  "\<not> number_char CHR ''g''" "\<not> number_char CHR ''t''"
  by (simp_all add: number_char_def is_digit_def code_of_def)

definition size_units :: "string list" where
  "size_units = [[], ''b'', ''byte'', ''bytes'', ''kib'', ''mib'', ''gib'', ''tib'', ''k'', ''kb'',
     ''m'', ''mb'', ''g'', ''gb'', ''t'', ''tb'']"

definition rate_prefixes :: "string list" where
  "rate_prefixes = [[], ''b'', ''k'', ''kb'', ''m'', ''mb'', ''g'', ''gb'', ''t'', ''tb'']"

lemma size_multiplier_None: "u \<notin> set size_units \<Longrightarrow> size_multiplier u = None"
  by (simp add: size_multiplier_def size_units_def)

lemma rate_multiplier_None: "p \<notin> set rate_prefixes \<Longrightarrow> rate_multiplier p = None"
  by (simp add: rate_multiplier_def rate_prefixes_def)

lemma size_unit_head:
  "size_multiplier u = Some m \<Longrightarrow> u = [] \<or> \<not> number_char (hd u)"
  using size_multiplier_None [of u] unfolding size_units_def
  by (cases "u \<in> set size_units") (auto simp: size_units_def unit_letters)

lemma rate_unit_head:
  "rate_multiplier p = Some m \<Longrightarrow> \<not> number_char (hd (p @ ''bps''))"
  using rate_multiplier_None [of p]
  by (cases "p \<in> set rate_prefixes") (auto simp: rate_prefixes_def unit_letters)

lemma half_up_cast:
  assumes "0 \<le> k" "k < 2 ^ 49"
  shows "cast_u64 (dadd (Fin (of_int k / 8)) (Fin (1/2))) = Inr (word_of_int ((k + 4) div 8))"
proof -
  have x: "of_int k / 8 + 1 / 2 = (of_int (k + 4) * 2 powi (-3) :: rat)"
    by (simp add: power_int_minus field_simps)
  have r: "round53 (of_int (k + 4) * 2 powi (-3)) = of_int (k + 4) * 2 powi (-3)"
    using assms by (intro round53_exact) auto
  have "k + 4 < 2 ^ 50" using assms(2) by simp
  then have "(of_int (k + 4) :: rat) < of_int (2 ^ 50)" by (simp only: of_int_less_iff)
  then have k: "(of_int (k + 4) :: rat) < 2 ^ 50" by simp
  have b: "(of_int (k + 4) * 2 powi (-3) :: rat) < 2 ^ 50" "0 \<le> (of_int (k + 4) * 2 powi (-3) :: rat)"
    using k assms(1) by (simp_all add: power_int_minus)
  have l: "(of_int (k + 4) * 2 powi (-3) :: rat) < 2 ^ 200"
    using less_trans [OF b(1) power_strict_increasing [of 50 200 2]] by simp
  have d: "dadd (Fin (of_int k / 8)) (Fin (1/2)) = Fin (of_int (k + 4) * 2 powi (-3))"
    unfolding dadd.simps x by (rule rnd_exact [OF r b(2) l])
  have f: "\<lfloor>of_int (k + 4) * 2 powi (-3) :: rat\<rfloor> = (k + 4) div 8"
  proof -
    have "(of_int (k + 4) * 2 powi (-3) :: rat) = of_int (k + 4) / of_int 8"
      by (simp add: power_int_minus)
    then show ?thesis by (simp only: floor_divide_of_int_eq)
  qed
  have l64: "(of_int (k + 4) * 2 powi (-3) :: rat) < 2 ^ 64"
    using b(1) by simp
  show ?thesis by (simp only: d cast_u64_Fin(1) [OF b(2) l64] f)
qed


lemma half_up_int:
  assumes "0 \<le> k" "k < 2 ^ 52"
  shows "cast_u64 (dadd (Fin (of_int k)) (Fin (1/2))) = Inr (word_of_int k)"
proof -
  have x: "of_int k + 1 / 2 = (of_int (2 * k + 1) * 2 powi (-1) :: rat)"
    by (simp add: power_int_minus field_simps)
  have r: "round53 (of_int (2 * k + 1) * 2 powi (-1)) = of_int (2 * k + 1) * 2 powi (-1)"
    using assms by (intro round53_exact) auto
  have "2 * k + 1 < 2 ^ 53" using assms(2) by simp
  then have "(of_int (2 * k + 1) :: rat) < of_int (2 ^ 53)" by (simp only: of_int_less_iff)
  then have b: "(of_int (2 * k + 1) * 2 powi (-1) :: rat) < 2 ^ 53"
      "0 \<le> (of_int (2 * k + 1) * 2 powi (-1) :: rat)"
    using assms(1) by (simp_all add: power_int_minus)
  have l: "(of_int (2 * k + 1) * 2 powi (-1) :: rat) < 2 ^ 200"
    using less_trans [OF b(1) power_strict_increasing [of 53 200 2]] by simp
  have d: "dadd (Fin (of_int k)) (Fin (1/2)) = Fin (of_int (2 * k + 1) * 2 powi (-1))"
    unfolding dadd.simps x by (rule rnd_exact [OF r b(2) l])
  have f: "\<lfloor>of_int (2 * k + 1) * 2 powi (-1) :: rat\<rfloor> = k"
    unfolding x [symmetric] by (rule floor_unique) simp_all
  have l64: "(of_int (2 * k + 1) * 2 powi (-1) :: rat) < 2 ^ 64"
    using b(1) by simp
  show ?thesis by (simp only: d cast_u64_Fin(1) [OF b(2) l64] f)
qed

lemma dmul_int:
  "\<bar>m * n\<bar> \<le> 2 ^ 53 \<Longrightarrow> dmul (Fin (of_int m)) (Fin (of_int n)) = Fin (of_int (m * n))"
  using rnd_of_int [of "m * n"] by simp

text \<open>The units a size may have: a byte, and SI (powers of 1000) or binary (powers of 1024) multiples of it, in lower
  case.\<close>

definition si_prefixes :: "(char \<times> nat) list" where
  "si_prefixes = [(CHR ''k'', 1), (CHR ''m'', 2), (CHR ''g'', 3), (CHR ''t'', 4)]"

definition size_table :: "(string \<times> int) list" where
  "size_table = map (\<lambda>u. (u, 1)) [[], ''b'', ''byte'', ''bytes'']
     @ concat (map (\<lambda>(c, k). [([c], 1000 ^ k), (c # ''b'', 1000 ^ k), (c # ''ib'', 1024 ^ k)]) si_prefixes)"

lemma size_multiplier_table: "size_multiplier u = map_option (\<lambda>m. Fin (of_int m)) (map_of size_table u)"
  by (simp add: size_multiplier_def size_table_def si_prefixes_def)

lemma size_table_pos: "map_of size_table u = Some m \<Longrightarrow> 1 \<le> m"
  by (auto simp: size_table_def si_prefixes_def split: if_splits)

text \<open>C39. A size is a whole number and a unit, in any case: it is exactly the number times 1, a power of 1000 (k, kB, M, MB,
  G, GB, T, TB) or a power of 1024 (KiB, MiB, GiB, TiB), for every product below 2^52, and any other unit is an error
  that names it. (Fractions such as 1.5GiB are parsed as well; they are not the matter of this property.)
\<close>

theorem ParseSize_exact:
  assumes "0 \<le> n" "n \<le> 2 ^ 53" "u = [] \<or> \<not> number_char (hd u)"
  shows "case map_of size_table (lower u) of
      None \<Rightarrow> ParseSizeString (int_to_dec n @ u) = Inl (Runtime_error (''unknown size unit '' @ quoted u))
    | Some m \<Rightarrow> n * m < 2 ^ 52 \<longrightarrow> ParseSizeString (int_to_dec n @ u) = Inr (word_of_int (n * m))"
proof (cases "map_of size_table (lower u)")
  case None
  then show ?thesis
    by (simp add: ParseSizeString_def ParseNumberSuffix_int [OF assms] ScaleBytes_def size_multiplier_table)
next
  case (Some m)
  note m = size_table_pos [OF Some]
  have "ParseSizeString (int_to_dec n @ u) = Inr (word_of_int (n * m))" if b: "n * m < 2 ^ 52"
  proof -
    have "dmul (Fin (of_int n)) (Fin (of_int m)) = Fin (of_int (n * m))"
      using assms(1) b m by (intro dmul_int) (simp add: abs_mult)
    then show ?thesis
      using assms(1) b m half_up_int [of "n * m"]
      by (simp add: ParseSizeString_def ParseNumberSuffix_int [OF assms] ScaleBytes_def size_multiplier_table Some dbl_ops)
  qed
  then show ?thesis using Some by simp
qed

theorem ParseSize_exact_witness:
  "ParseSizeString (int_to_dec 32 @ ''MiB'') = Inr (word_of_int (32 * 1048576))
   \<and> ParseSizeString (int_to_dec 5 @ ''kB'') = Inr (word_of_int 5000)
   \<and> ParseSizeString (int_to_dec 5 @ ''kilo'') = Inl (Runtime_error (''unknown size unit '' @ quoted ''kilo''))"
proof -
  have t: "map_of size_table (lower ''MiB'') = Some 1048576" "map_of size_table (lower ''kB'') = Some 1000"
    "map_of size_table (lower ''kilo'') = None" by code_simp+
  have h: "\<not> number_char (hd ''MiB'')" "\<not> number_char (hd ''kB'')" "\<not> number_char (hd ''kilo'')" by code_simp+
  show ?thesis
    using ParseSize_exact [of 32 "''MiB''"] ParseSize_exact [of 5 "''kB''"] ParseSize_exact [of 5 "''kilo''"] t h by simp
qed

lemma rate_unit_ok:
  assumes "rate_multiplier (lower p) = Some m"
  shows "ends_with (lower p @ ''bps'') ''bps''" "\<not> has (lower p @ ''bps'') ''ibps''"
    "\<not> ends_with (p @ ''bps'') ''Bps''"
proof -
  show "ends_with (lower p @ ''bps'') ''bps''" by (simp add: ends_with_def)
  show "\<not> ends_with (p @ ''bps'') ''Bps''" by (simp add: ends_with_def)
  have "lower p \<in> set rate_prefixes" using assms rate_multiplier_None by fastforce
  then show "\<not> has (lower p @ ''bps'') ''ibps''"
    by (auto simp: rate_prefixes_def has_def)
qed

lemma bits_to_bytes_int:
  assumes "0 \<le> k" "k < 2 ^ 49"
  shows "BitsPerSecToBytesPerSec (Fin (of_int k)) = Inr (word_of_int ((k + 4) div 8))"
proof -
  have x: "(of_int k / 8 :: rat) = of_int k * 2 powi (-3)"
    by (simp add: power_int_minus)
  have r: "round53 (of_int k * 2 powi (-3)) = of_int k * 2 powi (-3)"
    using assms by (intro round53_exact) auto
  have "(of_int k :: rat) < of_int (2 ^ 49)" using assms(2) by (simp only: of_int_less_iff)
  then have b: "(of_int k * 2 powi (-3) :: rat) < 2 ^ 50" "0 \<le> (of_int k * 2 powi (-3) :: rat)"
    using assms(1) by (simp_all add: power_int_minus)
  have l: "(of_int k * 2 powi (-3) :: rat) < 2 ^ 200"
    using less_trans [OF b(1) power_strict_increasing [of 50 200 2]] by simp
  have "ddiv (Fin (of_int k)) (Fin 8) = Fin (of_int k / 8)"
    unfolding ddiv.simps x using rnd_exact [OF r b(2) l] by simp
  then show ?thesis
    using half_up_cast [OF assms] assms(1) by (simp add: BitsPerSecToBytesPerSec_def dbl_ops)
qed

text \<open>A rate spelled as a decimal integer and an SI bit unit (\<^verbatim>\<open>bps\<close>, \<^verbatim>\<open>kbps\<close>,
  \<^verbatim>\<open>Mbps\<close>, \<^verbatim>\<open>Gbps\<close>, \<^verbatim>\<open>Tbps\<close>) is stored as the nearest number of bytes per second.
\<close>

theorem ParseRate_exact:
  assumes "rate_multiplier (lower p) = Some (Fin (of_int m))" "1 \<le> m" "0 \<le> n" "n * m < 2 ^ 49"
  shows "ParseRateString (int_to_dec n @ p @ ''bps'') = Inr (word_of_int ((n * m + 4) div 8))"
proof -
  have n: "n \<le> 2 ^ 53"
    using assms(2-4) mult_left_mono [of 1 m n] by simp
  have bps: "lower ''bps'' = ''bps''"
    by (simp add: lower_def to_lower_def is_upper_def code_of_def)
  then have low: "lower (p @ ''bps'') = lower p @ ''bps''" by simp
  have u: "p @ ''bps'' = [] \<or> \<not> number_char (hd (p @ ''bps''))"
    using rate_unit_head [OF assms(1)] by (intro unit_head [OF low]) simp
  have slash: "\<not> ends_with (int_to_dec n @ p @ ''bps'') ''/s''" "\<not> ends_with (int_to_dec n @ p @ ''bps'') ''/S''"
    by (simp_all add: ends_with_suffix suffix_def)
  have mul: "dmul (Fin (of_int n)) (Fin (of_int m)) = Fin (of_int (n * m))"
    using assms(2-4) by (intro dmul_int) (simp add: abs_mult)
  have one: "m = 1" if "lower p = [] \<or> lower p = ''b''"
    using that assms(1) by (auto simp: rate_multiplier_def)
  have cast: "BitsPerSecToBytesPerSec (Fin (of_int (n * m))) = Inr (word_of_int ((n * m + 4) div 8))"
    using assms(2-4) by (intro bits_to_bytes_int) simp_all
  show ?thesis
    using assms rate_unit_ok [OF assms(1)] slash mul one cast
    by (auto simp: ParseRateString_def ParseNumberSuffix_int [OF assms(3) n u] low bps dbl_ops Let_def)
qed

theorem ParseRate_exact_witness:
  "ParseRateString (int_to_dec 280 @ ''M'' @ ''bps'') = Inr (word_of_int ((280 * 1000000 + 4) div 8))"
  by (rule ParseRate_exact) (code_simp, simp_all)

text \<open>byte-rate spellings are never read as bit rates. A text that ends in \<^verbatim>\<open>Bps\<close> (upper-case
  B: megabytes, not megabits) or in \<^verbatim>\<open>/s\<close> is an error, whatever precedes it.
\<close>

theorem byte_rates_rejected:
  assumes "ends_with s ''Bps'' \<or> ends_with s ''/s''"
  shows "\<not> returns (ParseRateString s)"
proof (cases "ends_with s ''/s''")
  case True
  then show ?thesis by (simp add: ParseRateString_def)
next
  case False
  with assms obtain a where a: "s = a @ ''Bps''"
    by (auto simp: ends_with_suffix suffix_def)
  show ?thesis
  proof (cases "ParseNumberSuffix s")
    case (Inl e)
    then show ?thesis by (simp add: ParseRateString_def)
  next
    case (Inr r)
    show ?thesis
    proof (cases r)
      case None
      with Inr show ?thesis by (simp add: ParseRateString_def)
    next
      case (Some vu)
      obtain v u where vu: "vu = (v, u)" by fastforce
      with Inr Some have "\<exists>num. s = num @ u \<and> num \<noteq> [] \<and> (\<exists>y. v = Fin y) \<and> (u = [] \<longrightarrow> number_char (last s))"
        by (intro ParseNumberSuffix_suffix) simp
      then obtain num where num: "s = num @ u" and ne: "u \<noteq> []"
        using a by (auto simp: number_char_def is_digit_def code_of_def)
      have "drop (length s - 3) s = ''Bps''" by (simp add: a)
      moreover have "drop (length s - 3) s = drop (length u - 3) u" if "3 \<le> length u"
        using that by (simp add: num)
      ultimately have "ends_with u ''Bps'' \<or> length u < 3"
        by (auto simp: ends_with_def numeral_3_eq_3)
      then have "ends_with u ''Bps'' \<or> \<not> ends_with (lower u) ''bps''"
        by (auto simp: ends_with_def)
      with Inr Some vu ne show ?thesis
        by (auto simp: ParseRateString_def Let_def)
    qed
  qed
qed

theorem byte_rates_rejected_witness: "\<not> returns (ParseRateString ''35MBps'')"
  by (rule byte_rates_rejected) (simp add: ends_with_def)

text \<open>a duration that parses is never negative and never a NaN; every rejected duration is reported
  by an exception.
\<close>

theorem ParseDuration_nonneg:
  "case ParseDurationString s of Inr d \<Rightarrow> dle (Fin 0) d | Inl e \<Rightarrow> e \<noteq> Undefined_behaviour"
proof (cases "ParseNumberSuffix s")
  case (Inl e)
  then have "e \<noteq> Undefined_behaviour"
    by (auto simp: ParseNumberSuffix_def stod_def Let_def cxx_res split: if_splits prod.splits double.splits)
  with Inl show ?thesis by (simp add: ParseDurationString_def)
next
  case (Inr r)
  show ?thesis
  proof (cases r)
    case None
    with Inr show ?thesis by (simp add: ParseDurationString_def)
  next
    case (Some vu)
    obtain v u where vu: "vu = (v, u)" by fastforce
    obtain y where y: "v = Fin y" using ParseNumberSuffix_suffix Inr Some vu by blast
    have scaled: "dle (Fin 0) (dmul (Fin y) (Fin k))" if "0 \<le> y" "0 \<le> k" for k
      using rnd_nonneg [of "y * k"] that by (auto simp: dle_def)
    show ?thesis using scaled
      by (auto simp: ParseDurationString_def Inr Some vu y dbl_ops Let_def)
  qed
qed

text \<open>
  A decimal with more than 308 integer digits leaves \<^verbatim>\<open>ParseDurationString\<close> as
  \<^verbatim>\<open>std::out_of_range\<close>, a \<^verbatim>\<open>std::logic_error\<close>; the header promises
  \<^verbatim>\<open>std::runtime_error\<close> for every failure.
\<close>

lemma stod_overflow:
  assumes "2 ^ 1024 \<le> n" shows "stod (int_to_dec n) = Inl (Out_of_range ''stod'')"
proof -
  have n: "0 \<le> n" using assms by (rule order_trans [rotated]) simp
  have "(of_int (2 ^ 1024) :: rat) \<le> of_int n" using assms by (simp only: of_int_le_iff)
  then have "2 ^ 1024 \<le> round53 (of_int n)"
    by (intro round53_ge_exact round53_power2) (simp only: of_int_power of_int_numeral)
  then have g: "2 powi 1024 \<le> \<bar>round53 (of_int n)\<bar>" "0 < round53 (of_int n)"
    using zero_less_power [of "2::rat" 1024] by (simp_all only: power_int_numeral, linarith+)
  then have "1024 \<le> bexp (round53 (of_int n))" by (intro bexp_ge) simp_all
  then have "rnd (of_int n) = PInf" using g by (simp add: rnd_def Let_def)
  moreover have "n \<noteq> 0" using assms by (metis not_le power_eq_0_iff zero_less_numeral zero_less_power)
  ultimately show ?thesis using n by (simp add: stod_def decimal_value_int Let_def)
qed

text \<open>a size whose product with its unit is at least 2^64 reaches the conversion to
  \<^verbatim>\<open>uint64_t\<close> unchecked: the result is undefined behaviour, not an error message.
\<close>

theorem ParseSize_overflow_undefined:
  "ParseSizeString ''99999999999TB'' = Inl Undefined_behaviour"
  by code_simp

end
