(* ===== verification/RunConfig.thy ===== *)
theory RunConfig
  imports Binary64
begin

text \<open>
  \<^verbatim>\<open>include/xrdhover/run_config.hh\<close> and \<^verbatim>\<open>src/run_config.cc\<close>: the configuration of
  one run, the sizing policy (bytes per session, bytes per operation, capacity of the token bucket),
  URL joining and the file list.
\<close>

section \<open>The configuration record\<close>

datatype PatternType = Sequential | Random | Vector | Mixed

record RunConfig =
  rc_run_id :: string
  rc_duration_s :: double
  rc_endpoint :: string
  rc_files :: "string list"
  rc_filelist_path :: string
  rc_target_rate_bytes_per_s :: u64
  rc_target_rate_input :: string
  rc_max_inflight :: u32
  rc_pattern :: PatternType
  rc_chunk_size :: u32
  rc_vector_chunks :: u16
  rc_vector_fraction :: double
  rc_max_bytes :: u64
  rc_max_bytes_auto :: bool
  rc_seed :: u64
  rc_dry_run :: bool
  rc_session_timeout_s :: double
  rc_connection_window_s :: int
  rc_connection_retry :: int
  rc_request_timeout_s :: int
  rc_results_dir :: string
  rc_snapshot_interval_s :: double
  rc_job_id :: string
  rc_write_results :: bool
  rc_target :: string
  rc_pushgateway_url :: string
  rc_pushgateway_job :: string
  rc_pushgateway_keep :: bool
  rc_chirp_classads :: bool
  rc_chirp_prom_path :: string
  rc_chirp_binary :: string
  rc_schema_version :: int
  rc_auth_mode :: string
  rc_workload_hash :: string
  rc_workload_resolved_json :: string
  rc_site_map_path :: string
  rc_sitename_query :: bool

definition default_RunConfig :: RunConfig where
  "default_RunConfig =
     \<lparr> rc_run_id = ''run'', rc_duration_s = Fin 30, rc_endpoint = [], rc_files = [],
       rc_filelist_path = [], rc_target_rate_bytes_per_s = 0, rc_target_rate_input = [],
       rc_max_inflight = 16, rc_pattern = Sequential, rc_chunk_size = 2 ^ 20,
       rc_vector_chunks = 8, rc_vector_fraction = lit (4 / 10), rc_max_bytes = 0,
       rc_max_bytes_auto = False, rc_seed = 1, rc_dry_run = False,
       rc_session_timeout_s = Fin 60, rc_connection_window_s = 15, rc_connection_retry = 2,
       rc_request_timeout_s = 60, rc_results_dir = ''results'', rc_snapshot_interval_s = Fin 15,
       rc_job_id = [], rc_write_results = True, rc_target = ''default'',
       rc_pushgateway_url = [], rc_pushgateway_job = ''xrdhover'', rc_pushgateway_keep = False,
       rc_chirp_classads = False, rc_chirp_prom_path = [], rc_chirp_binary = [],
       rc_schema_version = 0, rc_auth_mode = [], rc_workload_hash = [],
       rc_workload_resolved_json = [], rc_site_map_path = [], rc_sitename_query = True \<rparr>"

fun PatternTypeName :: "PatternType \<Rightarrow> string" where
  "PatternTypeName Sequential = ''sequential''"
| "PatternTypeName Random = ''random''"
| "PatternTypeName Vector = ''vector''"
| "PatternTypeName Mixed = ''mixed''"

section \<open>Sizing policy\<close>

definition kAutoMaxAmortizeSec :: double where "kAutoMaxAmortizeSec = Fin 8"
definition kAutoMaxFloorChunks :: u32 where "kAutoMaxFloorChunks = 4"
definition kAutoMaxHardCapBytes :: u64 where "kAutoMaxHardCapBytes = 32 * 1000 * 1000"
definition kRateHeadroomSec :: double where "kRateHeadroomSec = Fin 2"
definition kDrainWaitCapSec :: double where "kDrainWaitCapSec = Fin 120"
definition kDrainTimeoutGraceSec :: double where "kDrainTimeoutGraceSec = Fin 15"

definition chunk_bytes :: "RunConfig \<Rightarrow> u64" where
  "chunk_bytes cfg = max (ucast (rc_chunk_size cfg)) 1"

definition ComputeAutoMaxBytes :: "RunConfig \<Rightarrow> u64 res" where
  "ComputeAutoMaxBytes cfg =
     (if rc_target_rate_bytes_per_s cfg = 0 then Inl (Runtime_error ''--max-bytes auto requires --rate'')
      else let w = max (rc_max_inflight cfg) 1;
               chunk = chunk_bytes cfg;
               rate = d_of_u64 (rc_target_rate_bytes_per_s cfg)
           in res_bind (cast_u64 (dmul (ddiv rate (d_of_u64 (ucast w))) kAutoMaxAmortizeSec)) (\<lambda>bytes.
              let floor_b = chunk * ucast kAutoMaxFloorChunks
              in res_bind (cast_u64 (dmul rate kRateHeadroomSec)) (\<lambda>aggregate_cap.
                 let ceil_b = min aggregate_cap kAutoMaxHardCapBytes;
                     bytes = min (max bytes floor_b) ceil_b;
                     aligned = (bytes + chunk - 1) div chunk * chunk;
                     aligned = (if ceil_b < aligned then ceil_b div chunk * chunk else aligned)
                 in Inr (max aligned chunk))))"

definition ComputeOpBytes :: "RunConfig \<Rightarrow> bool \<Rightarrow> u64" where
  "ComputeOpBytes cfg use_vector =
     (let chunk = chunk_bytes cfg
      in if use_vector then chunk * ucast (max 1 (rc_vector_chunks cfg)) else chunk)"

definition ComputeBucketCapacity :: "RunConfig \<Rightarrow> u64" where
  "ComputeBucketCapacity cfg =
     (if rc_target_rate_bytes_per_s cfg = 0 then 0
      else let may_vector = (rc_pattern cfg = Vector \<or> rc_pattern cfg = Mixed)
           in ComputeOpBytes cfg may_vector)"

definition ResolveRunConfig :: "RunConfig \<Rightarrow> RunConfig res" where
  "ResolveRunConfig cfg =
     (if rc_target_rate_bytes_per_s cfg = 0 then
        (if rc_max_bytes_auto cfg \<or> rc_max_bytes cfg = 0 then
           Inl (Runtime_error (''uncapped rate requires explicit max_bytes (SIZE > 0); ''
             @ [CHR 0x27] @ ''auto'' @ [CHR 0x27] @ '' and 0 are not allowed''))
         else Inr cfg)
      else if rc_max_bytes_auto cfg then
        res_bind (ComputeAutoMaxBytes cfg) (\<lambda>b. Inr (cfg \<lparr> rc_max_bytes := b \<rparr>))
      else Inr cfg)"

section \<open>URLs and file lists\<close>

definition JoinUrl :: "string \<Rightarrow> string \<Rightarrow> string" where
  "JoinUrl endpoint path =
     (if path = [] then endpoint
      else if take 7 path = ''root://'' then path
      else if endpoint = [] then path
      else let ep = (if last endpoint \<noteq> CHR ''/'' then endpoint @ ''/'' else endpoint)
           in if hd path = CHR ''/'' then ep @ path else ep @ path)"

text \<open>
  \<^verbatim>\<open>std::getline\<close> over a whole file: the pieces between newlines; a final newline does not
  start another line.
\<close>

fun getlines :: "string \<Rightarrow> string list" where
  "getlines [] = []"
| "getlines (c # s) =
     (if c = CHR 0x0A then [] # getlines s
      else case getlines s of [] \<Rightarrow> [[c]] | l # ls \<Rightarrow> (c # l) # ls)"

definition is_blank :: "char \<Rightarrow> bool" where
  "is_blank c \<longleftrightarrow> c = CHR '' '' \<or> c = CHR 0x09 \<or> c = CHR 0x0D"

definition trim_blanks :: "string \<Rightarrow> string" where
  "trim_blanks line = rev (dropWhile is_blank (rev (dropWhile is_blank line)))"

text \<open>The file as the stream delivers it: \<open>None\<close> where it cannot be opened.\<close>

definition LoadFileList :: "string \<Rightarrow> string option \<Rightarrow> string list res" where
  "LoadFileList path content =
     (case content of
        None \<Rightarrow> Inl (Runtime_error (''cannot open filelist: '' @ path))
      | Some text \<Rightarrow>
          let files = filter (\<lambda>l. l \<noteq> [] \<and> hd l \<noteq> CHR ''#'') (map trim_blanks (getlines text))
          in if files = [] then Inl (Runtime_error (''filelist is empty: '' @ path))
             else Inr files)"

section \<open>The sizing policy on natural numbers\<close>

text \<open>The same computation without a width: what the code computes where nothing wraps.\<close>

definition auto_align :: "nat \<Rightarrow> nat \<Rightarrow> nat \<Rightarrow> nat" where
  "auto_align bytes chunk cap =
     (let ceil_b = min cap 32000000;
          b = min (max bytes (4 * chunk)) ceil_b;
          aligned = (b + chunk - 1) div chunk * chunk
      in max (if ceil_b < aligned then ceil_b div chunk * chunk else aligned) chunk)"

lemma div_mult_mono: "(a::nat) \<le> b \<Longrightarrow> a div c * c \<le> b div c * c"
  by (simp add: div_le_mono)

lemma capped_mono:
  "(x::nat) \<le> y \<Longrightarrow> (x \<le> c \<Longrightarrow> x \<le> f) \<Longrightarrow> (if c < x then f else x) \<le> (if c < y then f else y)"
  by (cases "c < x"; cases "c < y") auto

lemma multiple_le_floor: "(x::nat) div c * c \<le> b \<Longrightarrow> x div c * c \<le> b div c * c"
  by (cases "c = 0") (auto simp: less_eq_div_iff_mult_less_eq)

lemma auto_align_mono: "b \<le> b' \<Longrightarrow> auto_align b chunk cap \<le> auto_align b' chunk cap"
  unfolding auto_align_def Let_def
  by (intro max.mono order_refl capped_mono div_mult_mono diff_le_mono add_right_mono min.mono
      max.mono multiple_le_floor) assumption+

lemma capped_le: "(f::nat) \<le> c \<Longrightarrow> (if c < x then f else x) \<le> c"
  by simp

lemma auto_align_bounds:
  assumes "0 < chunk"
  shows "chunk dvd auto_align b chunk cap" "chunk \<le> auto_align b chunk cap"
    "auto_align b chunk cap \<le> max chunk (min cap 32000000)"
proof -
  show "chunk dvd auto_align b chunk cap" by (simp add: auto_align_def Let_def max_def)
  show "chunk \<le> auto_align b chunk cap" by (simp add: auto_align_def Let_def)
  show "auto_align b chunk cap \<le> max chunk (min cap 32000000)"
    unfolding auto_align_def Let_def max.commute [of chunk]
    by (intro max.mono order_refl capped_le div_times_less_eq_dividend)
qed

lemma chunk_bytes_bounds: "0 < unat (chunk_bytes cfg)" "unat (chunk_bytes cfg) < 2 ^ 32"
  using unat_u32_less [of "rc_chunk_size cfg"] by (auto simp: chunk_bytes_def unat_max_word)

lemma unat_floor_chunks: "unat (chunk_bytes cfg * ucast kAutoMaxFloorChunks) = 4 * unat (chunk_bytes cfg)"
  using chunk_bytes_bounds(2) [of cfg]
  by (subst unat_mult_u64) (simp_all add: kAutoMaxFloorChunks_def)

definition share_bytes :: "u64 \<Rightarrow> u32 \<Rightarrow> rat" where
  "share_bytes rate w =
     round53 (round53 (round53 (of_nat (unat rate)) / round53 (of_nat (unat w))) * 8)"

lemma share_bytes_bounds:
  assumes "unat rate \<le> 2 ^ 60" "1 \<le> unat w"
  shows "0 \<le> share_bytes rate w" "share_bytes rate w \<le> 2 ^ 63"
    "cast_u64 (dmul (ddiv (d_of_u64 rate) (d_of_u64 (ucast w))) kAutoMaxAmortizeSec)
       = Inr (word_of_int \<lfloor>share_bytes rate w\<rfloor>)"
proof -
  let ?R = "round53 (of_nat (unat rate))" and ?W = "round53 (of_nat (unat w))"
  have R: "0 \<le> ?R" "?R \<le> 2 ^ 60"
    using round53_le_pow2 [of "of_nat (unat rate)" 60] assms(1) by (simp_all add: round53_nonneg)
  have W: "1 \<le> ?W" using round53_nat_ge1 [OF assms(2)] .
  have q: "0 \<le> ?R / ?W" "?R / ?W \<le> ?R"
    using R W by (simp_all add: pos_divide_le_eq mult_le_cancel_left1)
  then have q': "0 \<le> round53 (?R / ?W)" "round53 (?R / ?W) \<le> 2 ^ 60"
    using R(2) round53_le_pow2 [of "?R / ?W" 60] by (simp_all add: round53_nonneg)
  then have "round53 (?R / ?W) * 8 \<le> 2 ^ 63" by simp
  then show A: "0 \<le> share_bytes rate w" and B: "share_bytes rate w \<le> 2 ^ 63"
    unfolding share_bytes_def using q'(1) round53_le_pow2 [of "round53 (?R / ?W) * 8" 63]
    by (simp_all add: round53_nonneg)
  have small: "rnd x = Fin (round53 x)" if "0 \<le> x" "x \<le> 2 ^ 63" for x
    using that less_le_trans [of "x" "2 ^ 64" "2 ^ 200"] by (intro rnd_small) simp
  have "ddiv (d_of_u64 rate) (d_of_u64 (ucast w)) = Fin (round53 (?R / ?W))"
    using W q R(2) small [of "?R / ?W"] by (simp add: d_of_u64_nat)
  then have "dmul (ddiv (d_of_u64 rate) (d_of_u64 (ucast w))) kAutoMaxAmortizeSec = Fin (share_bytes rate w)"
    using q' small [of "round53 (?R / ?W) * 8"] by (simp add: kAutoMaxAmortizeSec_def share_bytes_def)
  then show "cast_u64 (dmul (ddiv (d_of_u64 rate) (d_of_u64 (ucast w))) kAutoMaxAmortizeSec)
       = Inr (word_of_int \<lfloor>share_bytes rate w\<rfloor>)"
    using A B cast_u64_Fin(1) [of "share_bytes rate w"] by simp
qed

lemma share_bytes_antimono:
  assumes "1 \<le> unat w" "unat w \<le> unat w'"
  shows "share_bytes rate w' \<le> share_bytes rate w"
proof -
  have W: "1 \<le> round53 (of_nat (unat w))" using assms(1) by (rule round53_nat_ge1)
  have "round53 (of_nat (unat w)) \<le> round53 (of_nat (unat w'))"
    using assms(2) by (intro round53_mono) simp
  then have "round53 (of_nat (unat rate)) / round53 (of_nat (unat w'))
      \<le> round53 (of_nat (unat rate)) / round53 (of_nat (unat w))"
    using W by (intro divide_left_mono round53_nonneg) auto
  then show ?thesis unfolding share_bytes_def
    by (intro round53_mono mult_right_mono) auto
qed

definition headroom_bytes :: "u64 \<Rightarrow> rat" where
  "headroom_bytes rate = round53 (round53 (of_nat (unat rate)) * 2)"

lemma headroom_bytes_bounds:
  assumes "unat rate \<le> 2 ^ 60"
  shows "0 \<le> headroom_bytes rate" "headroom_bytes rate \<le> 2 ^ 61"
    "cast_u64 (dmul (d_of_u64 rate) kRateHeadroomSec) = Inr (word_of_int \<lfloor>headroom_bytes rate\<rfloor>)"
proof -
  let ?R = "round53 (of_nat (unat rate))"
  have R: "0 \<le> ?R" "?R \<le> 2 ^ 60"
    using round53_le_pow2 [of "of_nat (unat rate)" 60] assms(1) by (simp_all add: round53_nonneg)
  then have "?R * 2 \<le> 2 ^ 61" by simp
  then show A: "0 \<le> headroom_bytes rate" and B: "headroom_bytes rate \<le> 2 ^ 61"
    unfolding headroom_bytes_def using R(1) round53_le_pow2 [of "?R * 2" 61]
    by (simp_all add: round53_nonneg)
  have "dmul (d_of_u64 rate) kRateHeadroomSec = Fin (headroom_bytes rate)"
    using R rnd_small [of "?R * 2"] less_le_trans [of "?R * 2" "2 ^ 62" "2 ^ 200"]
    by (simp add: d_of_u64_nat kRateHeadroomSec_def headroom_bytes_def)
  then show "cast_u64 (dmul (d_of_u64 rate) kRateHeadroomSec) = Inr (word_of_int \<lfloor>headroom_bytes rate\<rfloor>)"
    using A B cast_u64_Fin(1) [of "headroom_bytes rate"] by simp
qed

lemma inflight_ge1: "1 \<le> unat (max (w :: u32) 1)"
  by (simp add: max_def word_le_nat_alt word_less_nat_alt)

lemma ComputeAutoMaxBytes_nat:
  assumes "rc_target_rate_bytes_per_s cfg \<noteq> 0" "unat (rc_target_rate_bytes_per_s cfg) \<le> 2 ^ 60"
  shows "\<exists>r. ComputeAutoMaxBytes cfg = Inr r \<and>
    unat r = auto_align (nat \<lfloor>share_bytes (rc_target_rate_bytes_per_s cfg) (max (rc_max_inflight cfg) 1)\<rfloor>)
      (unat (chunk_bytes cfg)) (nat \<lfloor>headroom_bytes (rc_target_rate_bytes_per_s cfg)\<rfloor>)"
proof -
  define rate where "rate = rc_target_rate_bytes_per_s cfg"
  define w where "w = max (rc_max_inflight cfg) 1"
  define c where "c = chunk_bytes cfg"
  define bytes :: u64 where "bytes = word_of_int \<lfloor>share_bytes rate w\<rfloor>"
  define agg :: u64 where "agg = word_of_int \<lfloor>headroom_bytes rate\<rfloor>"
  have rate: "unat rate \<le> 2 ^ 60" using assms(2) by (simp add: rate_def)
  have w: "1 \<le> unat w" unfolding w_def by (rule inflight_ge1)
  have ub: "unat bytes = nat \<lfloor>share_bytes rate w\<rfloor>" unfolding bytes_def
    using share_bytes_bounds(1,2) [OF rate w] by (intro cast_u64_Fin(2)) auto
  have ua: "unat agg = nat \<lfloor>headroom_bytes rate\<rfloor>" unfolding agg_def
    using headroom_bytes_bounds(1,2) [OF rate] by (intro cast_u64_Fin(2)) auto
  define cl where "cl = min agg kAutoMaxHardCapBytes"
  define b where "b = min (max bytes (c * ucast kAutoMaxFloorChunks)) cl"
  have ucl: "unat cl = min (unat agg) 32000000" by (simp add: cl_def unat_min_word kAutoMaxHardCapBytes_def)
  have ubb: "unat b = min (max (unat bytes) (4 * unat c)) (unat cl)"
    by (simp add: b_def unat_min_word unat_max_word unat_floor_chunks c_def)
  have c: "0 < unat c" "unat c < 2 ^ 32" unfolding c_def by (rule chunk_bytes_bounds)+
  have "unat b \<le> 32000000" by (simp add: ubb ucl)
  then have lt: "unat b + unat c < 2 ^ 64" using c(2) by simp
  then have s: "unat (b + c - 1) = unat b + unat c - 1"
    using c(1) by (subst unat_sub_u64) (auto simp: unat_add_u64 word_le_nat_alt)
  have dm: "unat (x div c * c) = unat x div unat c * unat c" for x
  proof -
    have "unat x div unat c * unat c < 2 ^ 64"
      using unat_u64_less [of x] div_times_less_eq_dividend [of "unat x" "unat c"] by linarith
    then show ?thesis by (subst unat_mult_u64) (simp_all add: unat_div)
  qed
  define al where "al = (b + c - 1) div c * c"
  have al: "unat al = (unat b + unat c - 1) div unat c * unat c" by (simp add: al_def dm s)
  have "unat (max (if cl < al then cl div c * c else al) c) = auto_align (unat bytes) (unat c) (unat agg)"
    by (simp only: unat_max_word if_distrib [of unat] dm word_less_nat_alt auto_align_def Let_def al ubb ucl)
  moreover have "ComputeAutoMaxBytes cfg = Inr (max (if cl < al then cl div c * c else al) c)"
    using assms(1) share_bytes_bounds(3) [OF rate w] headroom_bytes_bounds(3) [OF rate]
    by (simp add: ComputeAutoMaxBytes_def Let_def flip: rate_def w_def c_def bytes_def agg_def cl_def b_def al_def)
  ultimately show ?thesis using ub ua by (simp flip: rate_def w_def c_def)
qed

text \<open>C38. for every rate the program can be given in practice (below 2^60 bytes per second) the
  automatic session budget is computed without undefined behaviour; it is a whole number of chunks,
  at least one, and stays within the hard cap of 32 MB unless a single chunk is larger than that.
\<close>

theorem auto_max_bytes_bounds:
  assumes "rc_target_rate_bytes_per_s cfg \<noteq> 0" "unat (rc_target_rate_bytes_per_s cfg) \<le> 2 ^ 60"
  shows "\<exists>r. ComputeAutoMaxBytes cfg = Inr r \<and> unat (chunk_bytes cfg) dvd unat r
    \<and> unat (chunk_bytes cfg) \<le> unat r \<and> unat r \<le> max (unat (chunk_bytes cfg)) (unat kAutoMaxHardCapBytes)"
proof -
  have "min x 32000000 \<le> (32000000 :: nat)" for x by simp
  then have "auto_align b (unat (chunk_bytes cfg)) x \<le> max (unat (chunk_bytes cfg)) 32000000" for b x
    using auto_align_bounds(3) [OF chunk_bytes_bounds(1) [of cfg], of b x] by (meson max.mono order.trans order_refl)
  then show ?thesis
    using ComputeAutoMaxBytes_nat [OF assms] auto_align_bounds(1,2) [OF chunk_bytes_bounds(1) [of cfg]]
    by (auto simp: kAutoMaxHardCapBytes_def)
qed

text \<open>the budget shrinks as more sessions share the rate: with everything else equal, a larger
  \<^verbatim>\<open>max_inflight\<close> never yields a larger budget.
\<close>

theorem auto_max_bytes_antimono:
  assumes "rc_target_rate_bytes_per_s cfg \<noteq> 0" "unat (rc_target_rate_bytes_per_s cfg) \<le> 2 ^ 60"
    and "rc_max_inflight cfg \<le> w"
    and "ComputeAutoMaxBytes cfg = Inr r" "ComputeAutoMaxBytes (cfg \<lparr> rc_max_inflight := w \<rparr>) = Inr r'"
  shows "r' \<le> r"
proof -
  let ?cfg = "cfg \<lparr> rc_max_inflight := w \<rparr>"
  have "unat (max (rc_max_inflight cfg) 1) \<le> unat (max w 1)"
    using assms(3) by (simp add: max_def word_le_nat_alt)
  then have "share_bytes (rc_target_rate_bytes_per_s cfg) (max w 1)
      \<le> share_bytes (rc_target_rate_bytes_per_s cfg) (max (rc_max_inflight cfg) 1)"
    by (rule share_bytes_antimono [OF inflight_ge1])
  then show ?thesis
    using ComputeAutoMaxBytes_nat [of cfg] ComputeAutoMaxBytes_nat [of ?cfg] assms
    by (auto simp: word_le_nat_alt chunk_bytes_def intro!: auto_align_mono nat_mono floor_mono)
qed

definition demo_cfg :: RunConfig where
  "demo_cfg = default_RunConfig \<lparr> rc_endpoint := ''root://h:1094/'', rc_files := [''/store/a''],
     rc_target_rate_bytes_per_s := 52428800, rc_max_inflight := 8, rc_max_bytes_auto := True \<rparr>"

lemma demo_cfg_sel [simp]:
  "rc_target_rate_bytes_per_s demo_cfg = 52428800" "rc_max_inflight demo_cfg = 8"
  "rc_max_bytes_auto demo_cfg" "rc_endpoint demo_cfg = ''root://h:1094/''"
  by (simp_all add: demo_cfg_def default_RunConfig_def)

theorem auto_max_bytes_bounds_witness:
  "\<exists>r. ComputeAutoMaxBytes demo_cfg = Inr r \<and> unat (chunk_bytes demo_cfg) dvd unat r
    \<and> unat (chunk_bytes demo_cfg) \<le> unat r
    \<and> unat r \<le> max (unat (chunk_bytes demo_cfg)) (unat kAutoMaxHardCapBytes)"
  by (rule auto_max_bytes_bounds) simp_all

lemma demo_auto_8: "ComputeAutoMaxBytes demo_cfg = Inr 31457280"
  by code_simp

lemma demo_auto_32: "ComputeAutoMaxBytes (demo_cfg \<lparr> rc_max_inflight := 32 \<rparr>) = Inr 13631488"
  by code_simp

theorem auto_max_bytes_antimono_witness: "(13631488 :: u64) \<le> 31457280"
  by (rule auto_max_bytes_antimono [OF _ _ _ demo_auto_8 demo_auto_32]) simp_all

text \<open>resolving a configuration is rejected exactly for an uncapped rate without an explicit
  session budget; otherwise only \<^verbatim>\<open>max_bytes\<close> may change, and only in automatic mode.
\<close>

lemma ResolveRunConfig_spec:
  "((\<exists>m. ResolveRunConfig cfg = Inl (Runtime_error m)) \<longleftrightarrow>
      rc_target_rate_bytes_per_s cfg = 0 \<and> (rc_max_bytes_auto cfg \<or> rc_max_bytes cfg = 0)) \<and>
   (case ResolveRunConfig cfg of
      Inl e \<Rightarrow> rc_target_rate_bytes_per_s cfg = 0 \<or> rc_max_bytes_auto cfg
    | Inr cfg' \<Rightarrow>
        if rc_target_rate_bytes_per_s cfg = 0 then cfg' = cfg \<and> 0 < rc_max_bytes cfg'
        else if rc_max_bytes_auto cfg
          then ComputeAutoMaxBytes cfg = Inr (rc_max_bytes cfg')
               \<and> cfg' = cfg \<lparr> rc_max_bytes := rc_max_bytes cfg' \<rparr>
        else cfg' = cfg)"
proof -
  have no_throw: "ComputeAutoMaxBytes cfg \<noteq> Inl (Runtime_error m)" if "rc_target_rate_bytes_per_s cfg \<noteq> 0" for m
  proof -
    have "cast_u64 d \<noteq> Inl (Runtime_error m)" for d by (cases d) auto
    with that show ?thesis by (auto simp: ComputeAutoMaxBytes_def Let_def cxx_res)
  qed
  then show ?thesis
    by (cases "ComputeAutoMaxBytes cfg") (auto simp: ResolveRunConfig_def word_gt_0)
qed

section \<open>URLs and file lists: properties\<close>

lemma take_append_short: "length b \<le> n \<Longrightarrow> n \<le> length a \<Longrightarrow> take n (a @ c) = take n a"
  by simp

text \<open>with a \<^verbatim>\<open>root://\<close> endpoint every joined URL is a \<^verbatim>\<open>root://\<close> URL, for every path.
\<close>

theorem JoinUrl_root:
  assumes "take 7 endpoint = ''root://''"
  shows "take 7 (JoinUrl endpoint path) = ''root://''"
proof -
  have "length (take 7 endpoint) = 7" unfolding assms by simp
  then have len: "7 \<le> length endpoint" by simp
  then show ?thesis using assms
    by (auto simp: JoinUrl_def Let_def)
qed

theorem JoinUrl_root_witness: "take 7 (JoinUrl ''root://h:1094/'' ''/store/a'') = ''root://''"
  by (rule JoinUrl_root) simp

lemma getlines_line:
  "CHR 0x0A \<notin> set l \<Longrightarrow> getlines (l @ CHR 0x0A # s) = l # getlines s"
  by (induction l) auto

lemma getlines_unlines:
  "list_all (\<lambda>l. CHR 0x0A \<notin> set l) ls \<Longrightarrow> getlines (concat (map (\<lambda>l. l @ [CHR 0x0A]) ls)) = ls"
  by (induction ls) (auto simp: getlines_line)

definition clean_line :: "string \<Rightarrow> bool" where
  "clean_line l \<longleftrightarrow> l \<noteq> [] \<and> \<not> is_blank (hd l) \<and> \<not> is_blank (last l) \<and> hd l \<noteq> CHR ''#''"

lemma dropWhile_hd: "dropWhile P xs \<noteq> [] \<Longrightarrow> \<not> P (hd (dropWhile P xs))"
  by (induction xs) auto

lemma trim_blanks_ends:
  assumes "trim_blanks l \<noteq> []"
  shows "\<not> is_blank (hd (trim_blanks l))" "\<not> is_blank (last (trim_blanks l))"
proof -
  let ?a = "dropWhile is_blank l"
  let ?b = "dropWhile is_blank (rev ?a)"
  have b: "?b \<noteq> []" using assms by (simp add: trim_blanks_def)
  then have "\<not> is_blank (hd ?b)" by (rule dropWhile_hd)
  then show "\<not> is_blank (last (trim_blanks l))" using b by (simp add: trim_blanks_def last_rev)
  have a: "?a \<noteq> []" using b by (cases ?a) auto
  have "suffix ?b (rev ?a)" by (rule suffix_dropWhile)
  then have "prefix (rev ?b) ?a" by (simp add: suffix_to_prefix)
  then obtain zs where "?a = rev ?b @ zs" by (auto simp: prefix_def)
  then have "hd ?a = hd (rev ?b)" using b hd_append2 [of "rev ?b" zs] by simp
  then show "\<not> is_blank (hd (trim_blanks l))" using dropWhile_hd [OF a] by (simp add: trim_blanks_def)
qed

lemma trim_blanks_clean: "clean_line l \<Longrightarrow> trim_blanks l = l"
proof -
  assume c: "clean_line l"
  then have "dropWhile is_blank l = l" by (cases l) (auto simp: clean_line_def)
  moreover have "dropWhile is_blank (rev l) = rev l"
    using c by (cases l rule: rev_cases) (auto simp: clean_line_def)
  ultimately show ?thesis by (simp add: trim_blanks_def)
qed

text \<open>A loaded file list is never empty, and no entry is empty, a comment, or surrounded by
  blanks; the only failures are a file that cannot be opened and one without entries.
\<close>

theorem LoadFileList_clean:
  "case LoadFileList p content of
     Inr fs \<Rightarrow> fs \<noteq> [] \<and> list_all clean_line fs \<and> content \<noteq> None
   | Inl e \<Rightarrow> e = Runtime_error ((if content = None then ''cannot open filelist: '' else ''filelist is empty: '') @ p)"
  using trim_blanks_ends
  by (auto simp: LoadFileList_def Let_def list_all_iff clean_line_def split: option.splits)

text \<open>a file of clean lines, one per line, loads as exactly those lines in their order.
\<close>

lemma LoadFileList_roundtrip:
  assumes "fs \<noteq> []" "list_all clean_line fs" "list_all (\<lambda>l. CHR 0x0A \<notin> set l) fs"
  shows "LoadFileList p (Some (concat (map (\<lambda>l. l @ [CHR 0x0A]) fs))) = Inr fs"
proof -
  have "filter (\<lambda>l. l \<noteq> [] \<and> hd l \<noteq> CHR ''#'') (map trim_blanks fs) = fs"
    using assms(2) by (induction fs) (auto simp: trim_blanks_clean, auto simp: clean_line_def)
  then show ?thesis
    using assms by (simp add: LoadFileList_def getlines_unlines Let_def)
qed

lemma LoadFileList_roundtrip_witness:
  "LoadFileList ''files.txt'' (Some (concat (map (\<lambda>l. l @ [CHR 0x0A]) [''/store/a'', ''/store/b'']))) =
     Inr [''/store/a'', ''/store/b'']"
  by (rule LoadFileList_roundtrip) (simp_all add: clean_line_def is_blank_def)

end
