(* ===== verification/Machines.thy ===== *)
theory Machines
  imports Prelude
begin

text \<open>
  The contracts the stateful components share. A component is a state type with an operation
  \<open>step s x\<close> for every call \<open>x\<close>; \<open>machine\<close> asks that every call keeps an invariant,
  \<open>budget_machine\<close> adds a level that a call may raise only by what it is allowed to, and
  \<open>ledger_machine\<close> an account that every call keeps balanced. The lemmas lift the one-step laws to
  whole runs once; each component interprets the locale on its own operations.
\<close>

section \<open>Runs\<close>

text \<open>The sum, along a run, of what each call contributes in the state it finds.\<close>

fun trace_sum :: "('s \<Rightarrow> 'o \<Rightarrow> 's) \<Rightarrow> ('s \<Rightarrow> 'o \<Rightarrow> 'a::comm_monoid_add) \<Rightarrow> 's \<Rightarrow> 'o list \<Rightarrow> 'a" where
  "trace_sum step f s [] = 0"
| "trace_sum step f s (x # xs) = f s x + trace_sum step f (step s x) xs"

lemma trace_sum_append:
  "trace_sum step f s (xs @ ys) = trace_sum step f s xs + trace_sum step f (foldl step s xs) ys"
  by (induction xs arbitrary: s) (simp_all add: add.assoc)

lemma trace_sum_plus:
  "trace_sum step (\<lambda>s x. f s x + g s x) s xs = trace_sum step f s xs + trace_sum step g s xs"
  by (induction xs arbitrary: s) (simp_all add: algebra_simps)

lemma trace_sum_const:
  "trace_sum step (\<lambda>s x. c :: 'a::comm_semiring_1) s xs = of_nat (length xs) * c"
  by (induction xs arbitrary: s) (simp_all add: algebra_simps)

lemma trace_sum_telescope:
  "trace_sum step (\<lambda>s x. h (step s x) - h s :: 'a::ab_group_add) s xs = h (foldl step s xs) - h s"
  by (induction xs arbitrary: s) simp_all

lemma trace_sum_mult:
  "trace_sum step (\<lambda>s x. f s x * c :: 'a::comm_semiring_1) s xs = trace_sum step f s xs * c"
  by (induction xs arbitrary: s) (simp_all add: algebra_simps)

section \<open>Accounts with several columns\<close>

instantiation prod :: (ab_group_add, ab_group_add) ab_group_add
begin

definition zero_prod :: "'a \<times> 'b" where
  "zero_prod = (0, 0)"

definition plus_prod :: "'a \<times> 'b \<Rightarrow> 'a \<times> 'b \<Rightarrow> 'a \<times> 'b" where
  "plus_prod x y = (fst x + fst y, snd x + snd y)"

definition minus_prod :: "'a \<times> 'b \<Rightarrow> 'a \<times> 'b \<Rightarrow> 'a \<times> 'b" where
  "minus_prod x y = (fst x - fst y, snd x - snd y)"

definition uminus_prod :: "'a \<times> 'b \<Rightarrow> 'a \<times> 'b" where
  "uminus_prod x = (- fst x, - snd x)"

instance
  by standard (auto simp: zero_prod_def plus_prod_def minus_prod_def uminus_prod_def add.assoc add.commute)

end

lemma pair_columns [simp]:
  "fst (x + y :: 'a::ab_group_add \<times> 'b::ab_group_add) = fst x + fst y"
  "snd (x + y :: 'a::ab_group_add \<times> 'b::ab_group_add) = snd x + snd y"
  "fst (0 :: 'a::ab_group_add \<times> 'b::ab_group_add) = 0" "snd (0 :: 'a::ab_group_add \<times> 'b::ab_group_add) = 0"
  by (simp_all add: plus_prod_def zero_prod_def)

lemma pair_add [simp]: "(a, b) + (c, d) = (a + c, b + d :: 'b::ab_group_add)" for a c :: "'a::ab_group_add"
  by (simp add: plus_prod_def)

lemma trace_sum_fst: "fst (trace_sum step f s xs) = trace_sum step (\<lambda>s x. fst (f s x)) s xs"
  by (induction xs arbitrary: s) simp_all

lemma trace_sum_snd: "snd (trace_sum step f s xs) = trace_sum step (\<lambda>s x. snd (f s x)) s xs"
  by (induction xs arbitrary: s) simp_all

lemma trace_sum_map: "trace_sum step (\<lambda>_. f) s xs = sum_list (map f xs)"
  by (induction xs arbitrary: s) simp_all

section \<open>Contracts\<close>

locale machine =
  fixes step :: "'s \<Rightarrow> 'o \<Rightarrow> 's" and inv :: "'s \<Rightarrow> bool" and ok :: "'o \<Rightarrow> bool"
  assumes inv_step: "inv s \<Longrightarrow> ok x \<Longrightarrow> inv (step s x)"
begin

lemma inv_run: "inv s \<Longrightarrow> list_all ok xs \<Longrightarrow> inv (foldl step s xs)"
  by (induction xs arbitrary: s) (auto intro: inv_step)

lemma inv_prefix: "inv s \<Longrightarrow> list_all ok (xs @ ys) \<Longrightarrow> inv (foldl step s xs)"
  by (rule inv_run) simp_all

end

locale budget_machine = machine step inv ok
  for step :: "'s \<Rightarrow> 'o \<Rightarrow> 's" and inv :: "'s \<Rightarrow> bool" and ok :: "'o \<Rightarrow> bool" +
  fixes level :: "'s \<Rightarrow> rat" and gain :: "'s \<Rightarrow> 'o \<Rightarrow> rat"
  assumes level_step: "inv s \<Longrightarrow> ok x \<Longrightarrow> level (step s x) \<le> level s + gain s x"
begin

lemma level_run:
  "inv s \<Longrightarrow> list_all ok xs \<Longrightarrow> level (foldl step s xs) \<le> level s + trace_sum step gain s xs"
proof (induction xs arbitrary: s)
  case Nil
  then show ?case by simp
next
  case (Cons x xs)
  then have "level (foldl step (step s x) xs) \<le> level (step s x) + trace_sum step gain (step s x) xs"
    by (intro Cons.IH inv_step) auto
  with level_step [of s x] Cons.prems show ?case by (simp add: algebra_simps)
qed

end

locale ledger_machine = machine step inv ok
  for step :: "'s \<Rightarrow> 'o \<Rightarrow> 's" and inv :: "'s \<Rightarrow> bool" and ok :: "'o \<Rightarrow> bool" +
  fixes bal :: "'s \<Rightarrow> 'a::ab_group_add" and delta :: "'s \<Rightarrow> 'o \<Rightarrow> 'a"
  assumes bal_step: "inv s \<Longrightarrow> ok x \<Longrightarrow> bal (step s x) = bal s + delta s x"
begin

lemma bal_run:
  "inv s \<Longrightarrow> list_all ok xs \<Longrightarrow> bal (foldl step s xs) = bal s + trace_sum step delta s xs"
proof (induction xs arbitrary: s)
  case Nil
  then show ?case by simp
next
  case (Cons x xs)
  then have "bal (foldl step (step s x) xs) = bal (step s x) + trace_sum step delta (step s x) xs"
    by (intro Cons.IH inv_step) auto
  with bal_step [of s x] Cons.prems show ?case by (simp add: algebra_simps)
qed

end

end
