(* ===== verification/TokenBucket.thy ===== *)
theory TokenBucket
  imports Machines Binary64
begin

text \<open>
  \<^verbatim>\<open>src/token_bucket.cc\<close>: the bytes-per-second bucket that paces every read. The steady clock
  is an argument of each operation, in nanoseconds; every operation is one critical section of the
  code's mutex, so a run of the bucket is a list of operations with the time each one reads.
\<close>

section \<open>State and operations\<close>

record TokenBucket =
  tb_rate_bytes_per_s :: u64
  tb_capacity :: u64
  tb_tokens :: double
  tb_last :: int

text \<open>\<^verbatim>\<open>std::chrono::duration<double>(ns).count()\<close>.\<close>

definition seconds_of_ns :: "int \<Rightarrow> double" where
  "seconds_of_ns ns = ddiv (d_of_int ns) (Fin (10 ^ 9))"

definition new_TokenBucket :: "u64 \<Rightarrow> u64 \<Rightarrow> int \<Rightarrow> TokenBucket" where
  "new_TokenBucket rate capacity_bytes now =
     (let cap = (if 0 < capacity_bytes then capacity_bytes else if 0 < rate then rate else 1)
      in \<lparr> tb_rate_bytes_per_s = rate, tb_capacity = cap, tb_tokens = d_of_u64 cap, tb_last = now \<rparr>)"

definition RefillUnlocked :: "TokenBucket \<Rightarrow> int \<Rightarrow> TokenBucket" where
  "RefillUnlocked b now =
     (if tb_rate_bytes_per_s b = 0 then b
      else let dt = seconds_of_ns (now - tb_last b)
           in if dle dt (Fin 0) then b
              else b \<lparr> tb_tokens := dmin (d_of_u64 (tb_capacity b))
                          (dadd (tb_tokens b) (dmul dt (d_of_u64 (tb_rate_bytes_per_s b)))),
                       tb_last := now \<rparr>)"

definition TryAcquire :: "TokenBucket \<Rightarrow> int \<Rightarrow> u64 \<Rightarrow> bool \<times> TokenBucket" where
  "TryAcquire b now n =
     (if tb_rate_bytes_per_s b = 0 \<or> n = 0 then (True, b)
      else if tb_capacity b < n then (False, b)
      else let b = RefillUnlocked b now
           in if dlt (tb_tokens b) (d_of_u64 n) then (False, b)
              else (True, b \<lparr> tb_tokens := dsub (tb_tokens b) (d_of_u64 n) \<rparr>))"

definition SecondsUntil :: "TokenBucket \<Rightarrow> int \<Rightarrow> u64 \<Rightarrow> double \<times> TokenBucket" where
  "SecondsUntil b now n =
     (if tb_rate_bytes_per_s b = 0 \<or> n = 0 then (Fin 0, b)
      else if tb_capacity b < n then (Fin (10 ^ 12), b)
      else let b = RefillUnlocked b now
           in if dle (d_of_u64 n) (tb_tokens b) then (Fin 0, b)
              else (ddiv (dsub (d_of_u64 n) (tb_tokens b)) (d_of_u64 (tb_rate_bytes_per_s b)), b))"

definition Refund :: "TokenBucket \<Rightarrow> int \<Rightarrow> u64 \<Rightarrow> TokenBucket" where
  "Refund b now n =
     (if tb_rate_bytes_per_s b = 0 \<or> n = 0 then b
      else let b = RefillUnlocked b now
           in b \<lparr> tb_tokens := dmin (d_of_u64 (tb_capacity b)) (dadd (tb_tokens b) (d_of_u64 n)) \<rparr>)"

text \<open>
  The blocking loop, for one thread. \<open>clk k\<close> is the \<open>k\<close>-th reading of the clock; sleeping only
  moves the readings. The length of a sleep is a conversion of a double to a 64-bit count of
  nanoseconds, undefined where it does not fit. \<open>None\<close> is a loop still running when the fuel ends.
\<close>

definition sleep_ns :: "double \<Rightarrow> int res" where
  "sleep_ns secs = (case dmul secs (Fin (10 ^ 9)) of
      Fin x \<Rightarrow> (if \<bar>x\<bar> < 2 ^ 63 then Inr (if x < 0 then \<lceil>x\<rceil> else \<lfloor>x\<rfloor>) else Inl Undefined_behaviour)
    | _ \<Rightarrow> Inl Undefined_behaviour)"

fun AcquireUntil_loop ::
  "nat \<Rightarrow> (nat \<Rightarrow> int) \<Rightarrow> nat \<Rightarrow> TokenBucket \<Rightarrow> u64 \<Rightarrow> int \<Rightarrow> (bool \<times> TokenBucket) res option" where
  "AcquireUntil_loop 0 clk k b n deadline = None"
| "AcquireUntil_loop (Suc fuel) clk k b n deadline =
     (let b = RefillUnlocked b (clk k)
      in if dle (d_of_u64 n) (tb_tokens b)
         then Some (Inr (True, b \<lparr> tb_tokens := dsub (tb_tokens b) (d_of_u64 n) \<rparr>))
         else let now = clk (Suc k)
              in if deadline \<le> now then Some (Inr (False, b))
                 else let b = RefillUnlocked b now;
                          deficit = dsub (d_of_u64 n) (tb_tokens b)
                      in if dle deficit (Fin 0)
                         then AcquireUntil_loop fuel clk (k + 2) b n deadline
                         else case sleep_ns (ddiv deficit (d_of_u64 (tb_rate_bytes_per_s b))) of
                             Inl e \<Rightarrow> Some (Inl e)
                           | Inr _ \<Rightarrow> AcquireUntil_loop fuel clk (k + 2) b n deadline)"

definition AcquireUntil ::
  "nat \<Rightarrow> (nat \<Rightarrow> int) \<Rightarrow> TokenBucket \<Rightarrow> u64 \<Rightarrow> int \<Rightarrow> (bool \<times> TokenBucket) res option" where
  "AcquireUntil fuel clk b n deadline =
     (if tb_rate_bytes_per_s b = 0 \<or> n = 0 then Some (Inr (True, b))
      else if tb_capacity b < n then Some (Inr (False, b))
      else AcquireUntil_loop fuel clk 0 b n deadline)"

section \<open>The bucket stays between empty and full\<close>

definition cap_of :: "TokenBucket \<Rightarrow> rat" where
  "cap_of b = round53 (of_nat (unat (tb_capacity b)))"

definition tokens_of :: "TokenBucket \<Rightarrow> rat" where
  "tokens_of b = (case tb_tokens b of Fin t \<Rightarrow> t | _ \<Rightarrow> 0)"

text \<open>The steady clock is a 64-bit count of nanoseconds; differences of readings fit as well.\<close>

definition clock_ok :: "int \<Rightarrow> bool" where
  "clock_ok t \<longleftrightarrow> \<bar>t\<bar> < 2 ^ 62"

definition bucket_ok :: "TokenBucket \<Rightarrow> bool" where
  "bucket_ok b \<longleftrightarrow> 0 < tb_capacity b \<and> tb_tokens b = Fin (tokens_of b)
     \<and> 0 \<le> tokens_of b \<and> tokens_of b \<le> cap_of b \<and> clock_ok (tb_last b)"

lemma cap_of_double [simp]: "d_of_u64 (tb_capacity b) = Fin (cap_of b)"
  by (simp add: cap_of_def d_of_u64_nat)

lemma cap_of_update [simp]:
  "cap_of (b \<lparr> tb_tokens := t, tb_last := l \<rparr>) = cap_of b" "cap_of (b \<lparr> tb_tokens := t \<rparr>) = cap_of b"
  by (simp_all add: cap_of_def)

lemma tokens_of_update [simp]:
  "tokens_of (b \<lparr> tb_tokens := Fin t, tb_last := l \<rparr>) = t" "tokens_of (b \<lparr> tb_tokens := Fin t \<rparr>) = t"
  by (simp_all add: tokens_of_def)

lemma cap_of_nonneg: "0 \<le> cap_of b"
  by (simp add: cap_of_def round53_nonneg)

lemma cap_of_exact: "unat (tb_capacity b) \<le> 2 ^ 53 \<Longrightarrow> cap_of b = of_nat (unat (tb_capacity b))"
  by (simp add: cap_of_def round53_of_nat)

lemma new_bucket_ok: "clock_ok now \<Longrightarrow> bucket_ok (new_TokenBucket rate cap now)"
  by (auto simp: new_TokenBucket_def Let_def bucket_ok_def tokens_of_def cap_of_def d_of_u64_nat
      round53_nonneg word_gt_0)

section \<open>Refilling\<close>

text \<open>The values the code computes, as rationals.\<close>

definition secs_q :: "int \<Rightarrow> rat" where
  "secs_q ns = round53 (round53 (of_int ns) / 10 ^ 9)"

definition refill_q :: "int \<Rightarrow> u64 \<Rightarrow> rat" where
  "refill_q ns rate = round53 (secs_q ns * round53 (of_nat (unat rate)))"

lemma clock_diff: "clock_ok a \<Longrightarrow> clock_ok b \<Longrightarrow> \<bar>a - b\<bar> \<le> 2 ^ 63"
  by (simp add: clock_ok_def abs_less_iff abs_le_iff)

lemma rat_of_int_bound: "\<bar>n\<bar> \<le> 2 ^ k \<Longrightarrow> \<bar>of_int n :: rat\<bar> \<le> 2 ^ k"
proof -
  assume "\<bar>n\<bar> \<le> 2 ^ k"
  then have "of_int \<bar>n\<bar> \<le> (of_int (2 ^ k) :: rat)" by (simp only: of_int_le_iff)
  then show ?thesis by simp
qed

lemma round53_abs_le: "\<bar>x\<bar> \<le> 2 ^ k \<Longrightarrow> \<bar>round53 x\<bar> \<le> 2 ^ k"
  using round53_le_pow2 [of x k] round53_le_pow2 [of "- x" k] by (simp add: round53_minus abs_le_iff)

lemma rnd_le_pow2: "\<bar>x\<bar> \<le> 2 ^ k \<Longrightarrow> k < 200 \<Longrightarrow> rnd x = Fin (round53 x)"
  using power_strict_increasing [of k 200 "2::rat"] by (intro rnd_small) simp

lemma seconds_of_ns_Fin:
  assumes "\<bar>ns\<bar> \<le> 2 ^ 63"
  shows "seconds_of_ns ns = Fin (secs_q ns)" "\<bar>secs_q ns\<bar> \<le> 2 ^ 63"
proof -
  have a: "\<bar>of_int ns :: rat\<bar> \<le> 2 ^ 63" using assms by (rule rat_of_int_bound)
  then have b: "\<bar>round53 (of_int ns)\<bar> \<le> 2 ^ 63" by (rule round53_abs_le)
  then have c: "\<bar>round53 (of_int ns) / 10 ^ 9\<bar> \<le> 2 ^ 63" by (simp add: abs_le_iff)
  then show "\<bar>secs_q ns\<bar> \<le> 2 ^ 63" unfolding secs_q_def by (rule round53_abs_le)
  show "seconds_of_ns ns = Fin (secs_q ns)"
    using rnd_le_pow2 [OF a] rnd_le_pow2 [OF c] by (simp add: seconds_of_ns_def d_of_int_def secs_q_def)
qed

lemma secs_q_sign: "0 < ns \<Longrightarrow> 0 < secs_q ns" "ns \<le> 0 \<Longrightarrow> secs_q ns \<le> 0"
proof -
  assume "0 < ns"
  then have "1 \<le> (of_int ns :: rat)" by simp
  then have "1 \<le> round53 (of_int ns)"
    using round53_power2 [of 0] by (intro round53_ge_exact) simp_all
  moreover have "(2::rat) powi (-1074) \<le> 2 powi (-30)" by (simp only: powi2_le_iff)
  then have "(2::rat) powi (-1074) \<le> 1 / 10 ^ 9" by (rule order_trans) (simp add: power_int_minus)
  ultimately show "0 < secs_q ns" unfolding secs_q_def
    by (intro round53_pos) (simp add: divide_right_mono order_trans)
next
  assume "ns \<le> 0"
  then have "round53 (of_int ns) \<le> 0" using round53_mono [of "of_int ns" 0] by simp
  then show "secs_q ns \<le> 0" unfolding secs_q_def using round53_mono [of "round53 (of_int ns) / 10 ^ 9" 0] by (simp add: divide_nonpos_pos)
qed

lemma refill_Fin:
  assumes "0 < ns" "ns \<le> 2 ^ 63"
  shows "dmul (seconds_of_ns ns) (d_of_u64 rate) = Fin (refill_q ns rate)" "0 \<le> refill_q ns rate"
    "refill_q ns rate \<le> 2 ^ 127"
proof -
  have s: "seconds_of_ns ns = Fin (secs_q ns)" "0 < secs_q ns" "secs_q ns \<le> 2 ^ 63"
    using seconds_of_ns_Fin [of ns] secs_q_sign(1) [of ns] assms by simp_all
  obtain R where R: "d_of_u64 rate = Fin R" "0 \<le> R" "R \<le> 2 ^ 64" "R = round53 (of_nat (unat rate))"
    using d_of_u64_bounds [of rate] by (auto simp: d_of_u64_nat)
  have "secs_q ns * R \<le> 2 ^ 63 * 2 ^ 64" using s R by (intro mult_mono) simp_all
  then have m: "\<bar>secs_q ns * R\<bar> \<le> 2 ^ 127" using s R by (simp flip: power_add)
  show "dmul (seconds_of_ns ns) (d_of_u64 rate) = Fin (refill_q ns rate)"
    using rnd_le_pow2 [OF m] by (simp add: s R(1) refill_q_def flip: R(4))
  show "0 \<le> refill_q ns rate" using s R by (simp add: refill_q_def round53_nonneg)
  show "refill_q ns rate \<le> 2 ^ 127" using round53_abs_le [OF m] by (simp add: refill_q_def abs_le_iff flip: R(4))
qed

lemma cap_of_le: "cap_of b \<le> 2 ^ 64"
  using d_of_u64_bounds [of "tb_capacity b"] by (simp add: cap_of_def d_of_u64_nat)

lemma RefillUnlocked_eq:
  assumes "bucket_ok b" "clock_ok now"
  shows "RefillUnlocked b now =
    (if tb_rate_bytes_per_s b = 0 \<or> now \<le> tb_last b then b
     else b \<lparr> tb_tokens := Fin (min (cap_of b) (round53 (tokens_of b
              + refill_q (now - tb_last b) (tb_rate_bytes_per_s b)))), tb_last := now \<rparr>)"
proof -
  let ?ns = "now - tb_last b"
  have ns: "\<bar>?ns\<bar> \<le> 2 ^ 63" using assms by (intro clock_diff) (auto simp: bucket_ok_def)
  then have s: "seconds_of_ns ?ns = Fin (secs_q ?ns)" by (rule seconds_of_ns_Fin)
  show ?thesis
  proof (cases "tb_rate_bytes_per_s b = 0 \<or> now \<le> tb_last b")
    case True
    then show ?thesis using s secs_q_sign(2) [of ?ns]
      by (auto simp: RefillUnlocked_def Let_def dbl_ops)
  next
    case False
    then have pos: "0 < ?ns" "?ns \<le> 2 ^ 63" using ns by simp_all
    note r = refill_Fin [OF pos, of "tb_rate_bytes_per_s b"]
    have t: "tb_tokens b = Fin (tokens_of b)" "0 \<le> tokens_of b" "tokens_of b \<le> cap_of b"
      using assms(1) by (auto simp: bucket_ok_def)
    have "\<bar>tokens_of b + refill_q ?ns (tb_rate_bytes_per_s b)\<bar> \<le> 2 ^ 128"
      using t r cap_of_le [of b] by simp
    then have "rnd (tokens_of b + refill_q ?ns (tb_rate_bytes_per_s b))
        = Fin (round53 (tokens_of b + refill_q ?ns (tb_rate_bytes_per_s b)))"
      by (rule rnd_le_pow2) simp
    then show ?thesis using False secs_q_sign(1) [OF pos(1)]
      by (simp add: RefillUnlocked_def Let_def s r(1) [unfolded s] t(1) dbl_ops)
  qed
qed

lemma RefillUnlocked_frame [simp]:
  "tb_rate_bytes_per_s (RefillUnlocked b now) = tb_rate_bytes_per_s b"
  "tb_capacity (RefillUnlocked b now) = tb_capacity b"
  "cap_of (RefillUnlocked b now) = cap_of b"
  by (simp_all add: RefillUnlocked_def Let_def cap_of_def)

lemma RefillUnlocked_ok:
  assumes "bucket_ok b" "clock_ok now" shows "bucket_ok (RefillUnlocked b now)"
proof -
  have "0 \<le> round53 (tokens_of b + refill_q (now - tb_last b) (tb_rate_bytes_per_s b))"
    if "tb_last b < now"
  proof -
    have "\<bar>now - tb_last b\<bar> \<le> 2 ^ 63" using assms by (intro clock_diff) (auto simp: bucket_ok_def)
    with that have "0 \<le> refill_q (now - tb_last b) (tb_rate_bytes_per_s b)"
      by (intro refill_Fin) simp_all
    then show ?thesis using assms(1) by (intro round53_nonneg) (simp add: bucket_ok_def)
  qed
  then show ?thesis using assms cap_of_nonneg [of b]
    by (auto simp: RefillUnlocked_eq bucket_ok_def)
qed

text \<open>Taking and giving back, on a bucket that has been refilled.\<close>

lemma take_Fin:
  assumes "bucket_ok b" "\<not> dlt (tb_tokens b) (d_of_u64 n)"
  shows "dsub (tb_tokens b) (d_of_u64 n) = Fin (round53 (tokens_of b - round53 (of_nat (unat n))))"
    "round53 (of_nat (unat n)) \<le> tokens_of b"
proof -
  let ?n = "round53 (of_nat (unat n))"
  have t: "tb_tokens b = Fin (tokens_of b)" "tokens_of b \<le> 2 ^ 64"
    using assms(1) cap_of_le [of b] by (auto simp: bucket_ok_def)
  show le: "?n \<le> tokens_of b" using assms(2) t by (simp add: d_of_u64_nat dbl_ops)
  have "0 \<le> ?n" by (simp add: round53_nonneg)
  then have "\<bar>tokens_of b + - ?n\<bar> \<le> 2 ^ 64" using le t(2) by simp
  then show "dsub (tb_tokens b) (d_of_u64 n) = Fin (round53 (tokens_of b - ?n))"
    using rnd_le_pow2 [of "tokens_of b + - ?n" 64] by (simp add: dsub_def t(1) d_of_u64_nat)
qed

lemma give_Fin:
  assumes "bucket_ok b"
  shows "dmin (d_of_u64 (tb_capacity b)) (dadd (tb_tokens b) (d_of_u64 n))
    = Fin (min (cap_of b) (round53 (tokens_of b + round53 (of_nat (unat n)))))"
proof -
  have t: "tb_tokens b = Fin (tokens_of b)" "0 \<le> tokens_of b" "tokens_of b \<le> 2 ^ 64"
    using assms(1) cap_of_le [of b] by (auto simp: bucket_ok_def)
  have "0 \<le> round53 (of_nat (unat n))" "round53 (of_nat (unat n)) \<le> 2 ^ 64"
    using d_of_u64_bounds [of n] by (auto simp: d_of_u64_nat)
  then have "\<bar>tokens_of b + round53 (of_nat (unat n))\<bar> \<le> 2 ^ 65" using t by simp
  then have r: "rnd (tokens_of b + round53 (of_nat (unat n)))
      = Fin (round53 (tokens_of b + round53 (of_nat (unat n))))" by (rule rnd_le_pow2) simp
  have n: "d_of_u64 n = Fin (round53 (of_nat (unat n)))" by (rule d_of_u64_nat)
  show ?thesis unfolding t(1) n dadd.simps r cap_of_double dmin_Fin by (rule refl)
qed

lemma bucket_ok_update:
  "bucket_ok b \<Longrightarrow> 0 \<le> t \<Longrightarrow> t \<le> cap_of b \<Longrightarrow> bucket_ok (b \<lparr> tb_tokens := Fin t \<rparr>)"
  by (simp add: bucket_ok_def)

lemma TryAcquire_frame [simp]:
  "tb_rate_bytes_per_s (snd (TryAcquire b now n)) = tb_rate_bytes_per_s b"
  "tb_capacity (snd (TryAcquire b now n)) = tb_capacity b"
  by (simp_all add: TryAcquire_def Let_def)

lemma Refund_frame [simp]:
  "tb_rate_bytes_per_s (Refund b now n) = tb_rate_bytes_per_s b"
  "tb_capacity (Refund b now n) = tb_capacity b"
  by (simp_all add: Refund_def Let_def)

lemma TryAcquire_ok:
  assumes "bucket_ok b" "clock_ok now" shows "bucket_ok (snd (TryAcquire b now n))"
proof -
  let ?b = "RefillUnlocked b now"
  have ok: "bucket_ok ?b" using assms by (rule RefillUnlocked_ok)
  have "bucket_ok (?b \<lparr> tb_tokens := dsub (tb_tokens ?b) (d_of_u64 n) \<rparr>)"
    if "\<not> dlt (tb_tokens ?b) (d_of_u64 n)"
  proof -
    note t = take_Fin [OF ok that]
    have "0 \<le> round53 (tokens_of ?b - round53 (of_nat (unat n)))"
      using t(2) by (intro round53_nonneg) simp
    moreover have "round53 (tokens_of ?b - round53 (of_nat (unat n))) \<le> cap_of ?b"
      using ok round53_nonneg [of "of_nat (unat n)"] unfolding cap_of_def
      by (intro round53_le_exact round53_idem) (auto simp: bucket_ok_def cap_of_def)
    ultimately show ?thesis unfolding t(1) by (rule bucket_ok_update [OF ok])
  qed
  then show ?thesis using assms(1) ok by (simp add: TryAcquire_def Let_def)
qed

lemma Refund_ok:
  assumes "bucket_ok b" "clock_ok now" shows "bucket_ok (Refund b now n)"
proof -
  let ?b = "RefillUnlocked b now"
  have ok: "bucket_ok ?b" using assms by (rule RefillUnlocked_ok)
  have "0 \<le> round53 (tokens_of ?b + round53 (of_nat (unat n)))"
    using ok by (intro round53_nonneg add_nonneg_nonneg) (auto simp: bucket_ok_def round53_nonneg)
  then have "bucket_ok (?b \<lparr> tb_tokens := dmin (d_of_u64 (tb_capacity ?b)) (dadd (tb_tokens ?b) (d_of_u64 n)) \<rparr>)"
    unfolding give_Fin [OF ok] using cap_of_nonneg [of ?b] by (intro bucket_ok_update ok) simp_all
  then show ?thesis using assms(1) by (simp add: Refund_def Let_def)
qed


section \<open>Runs of the bucket\<close>

text \<open>A call of the bucket with the time it reads, and the bytes it grants or gives back.\<close>

datatype tb_op = Take u64 | Give u64

fun tb_step :: "TokenBucket \<Rightarrow> int \<times> tb_op \<Rightarrow> TokenBucket" where
  "tb_step b (now, Take n) = snd (TryAcquire b now n)"
| "tb_step b (now, Give n) = Refund b now n"

fun tb_granted :: "TokenBucket \<Rightarrow> int \<times> tb_op \<Rightarrow> rat" where
  "tb_granted b (now, Take n) = (if fst (TryAcquire b now n) then of_nat (unat n) else 0)"
| "tb_granted b (now, Give n) = 0"

fun tb_given :: "TokenBucket \<Rightarrow> int \<times> tb_op \<Rightarrow> rat" where
  "tb_given b (now, Take n) = 0"
| "tb_given b (now, Give n) = of_nat (unat n)"

definition tb_inv :: "u64 \<Rightarrow> u64 \<Rightarrow> int \<Rightarrow> TokenBucket \<Rightarrow> bool" where
  "tb_inv r c t1 b \<longleftrightarrow> bucket_ok b \<and> tb_rate_bytes_per_s b = r \<and> tb_capacity b = c \<and> tb_last b \<le> t1"

fun tb_call_ok :: "int \<Rightarrow> int \<times> tb_op \<Rightarrow> bool" where
  "tb_call_ok t1 (now, x) \<longleftrightarrow> clock_ok now \<and> now \<le> t1"

text \<open>The bytes \<open>ns\<close> nanoseconds are worth at rate \<open>r\<close>.\<close>

definition worth :: "u64 \<Rightarrow> int \<Rightarrow> rat" where
  "worth r ns = of_nat (unat r) * of_int ns / 10 ^ 9"

definition tb_gain :: "u64 \<Rightarrow> u64 \<Rightarrow> TokenBucket \<Rightarrow> int \<times> tb_op \<Rightarrow> rat" where
  "tb_gain r c b x = tb_given b x - tb_granted b x
     + (worth r (tb_last (tb_step b x)) - worth r (tb_last b)) * (1 + 1 / 2 ^ 49)
     + of_nat (unat c) / 2 ^ 51"

lemma RefillUnlocked_last:
  assumes "bucket_ok b" "clock_ok now"
  shows "tb_last (RefillUnlocked b now) = (if tb_rate_bytes_per_s b = 0 then tb_last b else max (tb_last b) now)"
  using assms by (simp add: RefillUnlocked_eq)

lemma tb_step_last:
  assumes "bucket_ok b" "clock_ok now"
  shows "tb_last b \<le> tb_last (tb_step b (now, x))" "tb_last (tb_step b (now, x)) \<le> max (tb_last b) now"
  using RefillUnlocked_last [OF assms] by (cases x; simp add: TryAcquire_def Refund_def Let_def)+

lemma tb_step_inv: "tb_inv r c t1 b \<Longrightarrow> tb_call_ok t1 x \<Longrightarrow> tb_inv r c t1 (tb_step b x)"
proof -
  assume a: "tb_inv r c t1 b" "tb_call_ok t1 x"
  obtain now y where x: "x = (now, y)" by (cases x)
  have o: "bucket_ok b" "clock_ok now" "now \<le> t1" "tb_last b \<le> t1" using a by (auto simp: x tb_inv_def)
  have "tb_last (tb_step b x) \<le> t1" using tb_step_last(2) [OF o(1,2), of y] o(3,4) by (simp add: x)
  moreover have "bucket_ok (tb_step b x)"
    using TryAcquire_ok [OF o(1,2)] Refund_ok [OF o(1,2)] by (cases y) (simp_all add: x)
  ultimately show ?thesis using a(1) by (cases y) (simp_all add: x tb_inv_def)
qed

text \<open>One refill never credits more than the elapsed time is worth, up to rounding.\<close>

lemma four_roundings: "(1 + 2 * unit_roundoff) ^ 4 \<le> 1 + 1 / 2 ^ 49"
  by (simp add: unit_roundoff_def power4_eq_xxxx)

lemma refill_q_le:
  assumes "0 < ns" "r \<noteq> 0"
  shows "refill_q ns r \<le> worth r ns * (1 + 1 / 2 ^ 49)"
proof -
  let ?g = "1 + 2 * unit_roundoff"
  let ?D = "round53 (of_int ns)" and ?R = "round53 (of_nat (unat r))"
  have g: "1 \<le> ?g" by (simp add: unit_roundoff_def)
  have small: "(2::rat) powi (-100) \<le> 1 / 2 ^ 40" "(1::rat) / 2 ^ 40 \<le> 1"
    by (simp_all add: power_int_minus)
  have n: "1 \<le> (of_int ns :: rat)" and r: "1 \<le> (of_nat (unat r) :: rat)"
    using assms by (simp_all add: unat_gt_0 Suc_le_eq)
  have D1: "1 \<le> ?D" using n round53_power2 [of 0] by (intro round53_ge_exact) simp_all
  have D: "?D \<le> of_int ns * ?g" using n small by (intro round53_up) linarith
  have R1: "1 \<le> ?R" using r round53_power2 [of 0] by (intro round53_ge_exact) simp_all
  have R: "?R \<le> of_nat (unat r) * ?g" using r small by (intro round53_up) linarith
  have q: "1 / 2 ^ 40 \<le> ?D / 10 ^ 9" using D1 by (simp add: pos_le_divide_eq)
  have "round53 (1 / 2 ^ 40) = 1 / 2 ^ 40" using round53_pow2 [of "-40"] by (simp add: power_int_minus)
  with q have S1: "1 / 2 ^ 40 \<le> secs_q ns" unfolding secs_q_def by (rule round53_ge_exact)
  have S: "secs_q ns \<le> ?D / 10 ^ 9 * ?g" unfolding secs_q_def using q small by (intro round53_up) linarith
  have "1 / 2 ^ 40 * 1 \<le> secs_q ns * ?R" using S1 R1 by (intro mult_mono) simp_all
  then have "refill_q ns r \<le> secs_q ns * ?R * ?g" unfolding refill_q_def using small by (intro round53_up) linarith
  also have "secs_q ns * ?R \<le> (?D / 10 ^ 9 * ?g) * (of_nat (unat r) * ?g)"
    using S R S1 R1 D1 g by (intro mult_mono) simp_all
  also have "?D / 10 ^ 9 * ?g \<le> (of_int ns * ?g) / 10 ^ 9 * ?g"
    using D g by (intro mult_right_mono divide_right_mono) simp_all
  finally have "refill_q ns r \<le> (of_int ns * ?g) / 10 ^ 9 * ?g * (of_nat (unat r) * ?g) * ?g"
    using g r by (simp add: mult_right_mono)
  also have "\<dots> = worth r ns * ?g ^ 4" by (simp add: worth_def power4_eq_xxxx)
  also have "\<dots> \<le> worth r ns * (1 + 1 / 2 ^ 49)"
    using four_roundings n by (intro mult_left_mono) (simp_all add: worth_def)
  finally show ?thesis .
qed


lemma round_slack: "0 \<le> x \<Longrightarrow> x \<le> C \<Longrightarrow> 1 \<le> C \<Longrightarrow> round53 x \<le> x + C / 2 ^ 52"
proof -
  assume a: "0 \<le> x" "x \<le> C" "1 \<le> C"
  have "(2::rat) powi (-153) \<le> 1 / 2 ^ 53" by (simp add: power_int_minus)
  then have "tiny \<le> 1 / 2 ^ 53" using tiny_le by linarith
  then have "unit_roundoff * C + tiny \<le> C / 2 ^ 52"
    using a(3) by (simp add: unit_roundoff_def)
  then show ?thesis using round53_add_err [OF a(1,2)] by (simp add: abs_le_iff)
qed

lemma min_slack: "0 \<le> x \<Longrightarrow> 1 \<le> C \<Longrightarrow> min C (round53 x) \<le> x + C / 2 ^ 52"
  using round_slack [of x C] by (cases "x \<le> C") (auto simp: min_le_iff_disj)

lemma worth_mono: "a \<le> b \<Longrightarrow> worth r a \<le> worth r b"
  by (simp add: worth_def divide_right_mono mult_left_mono)

lemma worth_diff: "worth r a - worth r b = worth r (a - b)"
  by (simp add: worth_def algebra_simps diff_divide_distrib)

lemma Refill_level:
  assumes "bucket_ok b" "clock_ok now" "tb_rate_bytes_per_s b \<noteq> 0" "1 \<le> cap_of b"
  shows "tokens_of (RefillUnlocked b now) \<le> tokens_of b
    + (worth (tb_rate_bytes_per_s b) (tb_last (RefillUnlocked b now)) - worth (tb_rate_bytes_per_s b) (tb_last b))
      * (1 + 1 / 2 ^ 49) + cap_of b / 2 ^ 52"
proof (cases "now \<le> tb_last b")
  case True
  then show ?thesis using assms by (simp add: RefillUnlocked_eq)
next
  case False
  let ?ns = "now - tb_last b" and ?r = "tb_rate_bytes_per_s b"
  have ns: "0 < ?ns" using False by simp
  have "\<bar>?ns\<bar> \<le> 2 ^ 63" using assms by (intro clock_diff) (auto simp: bucket_ok_def)
  with ns have "0 \<le> refill_q ?ns ?r" by (intro refill_Fin) simp_all
  then have "0 \<le> tokens_of b + refill_q ?ns ?r" using assms(1) by (simp add: bucket_ok_def)
  from min_slack [OF this assms(4)] refill_q_le [OF ns assms(3)]
  show ?thesis using False assms(1-3) by (simp add: RefillUnlocked_eq worth_diff)
qed

lemma Take_level:
  assumes "bucket_ok b" "unat n \<le> unat (tb_capacity b)" "unat (tb_capacity b) \<le> 2 ^ 53"
    "\<not> dlt (tb_tokens b) (d_of_u64 n)" "1 \<le> cap_of b"
  shows "tokens_of (b \<lparr> tb_tokens := dsub (tb_tokens b) (d_of_u64 n) \<rparr>)
    \<le> tokens_of b - of_nat (unat n) + cap_of b / 2 ^ 52"
proof -
  have n: "round53 (of_nat (unat n)) = of_nat (unat n)" using assms(2,3) by (intro round53_of_nat) simp
  note t = take_Fin [OF assms(1,4), unfolded n]
  have "tokens_of b - of_nat (unat n) \<le> cap_of b" using assms(1) by (simp add: bucket_ok_def)
  then show ?thesis using t round_slack [of "tokens_of b - of_nat (unat n)"] assms(5) by simp
qed

lemma Give_level:
  assumes "bucket_ok b" "unat (tb_capacity b) \<le> 2 ^ 53" "1 \<le> cap_of b"
  shows "tokens_of (b \<lparr> tb_tokens := dmin (d_of_u64 (tb_capacity b)) (dadd (tb_tokens b) (d_of_u64 n)) \<rparr>)
    \<le> tokens_of b + of_nat (unat n) + cap_of b / 2 ^ 52"
proof (cases "unat n \<le> 2 ^ 53")
  case True
  then have n: "round53 (of_nat (unat n)) = of_nat (unat n)" by (rule round53_of_nat)
  have "0 \<le> tokens_of b + of_nat (unat n)" using assms(1) by (simp add: bucket_ok_def)
  from min_slack [OF this assms(3)] show ?thesis by (simp only: give_Fin [OF assms(1)] n tokens_of_update)
next
  case False
  then have "cap_of b \<le> of_nat (unat n)" using assms(2) by (simp add: cap_of_exact)
  moreover have "0 \<le> cap_of b / 2 ^ 52" "0 \<le> tokens_of b" using assms(1,3) by (auto simp: bucket_ok_def)
  ultimately show ?thesis unfolding give_Fin [OF assms(1)] tokens_of_update by linarith
qed


lemma tb_step_level:
  assumes "bucket_ok b" "clock_ok now" "tb_rate_bytes_per_s b \<noteq> 0" "unat (tb_capacity b) \<le> 2 ^ 53"
  shows "tokens_of (tb_step b (now, x))
    \<le> tokens_of b + tb_gain (tb_rate_bytes_per_s b) (tb_capacity b) b (now, x)"
proof -
  let ?b = "RefillUnlocked b now" and ?r = "tb_rate_bytes_per_s b"
  have ok: "bucket_ok ?b" using assms(1,2) by (rule RefillUnlocked_ok)
  have c: "cap_of b = of_nat (unat (tb_capacity b))" using assms(4) by (rule cap_of_exact)
  have "1 \<le> unat (tb_capacity b)" using assms(1) by (simp add: bucket_ok_def word_less_nat_alt)
  then have c1: "1 \<le> cap_of b" by (simp add: c)
  have w: "0 \<le> worth ?r (tb_last ?b) - worth ?r (tb_last b)"
    using RefillUnlocked_last [OF assms(1,2)] worth_mono [of "tb_last b" "tb_last ?b" ?r] by simp
  note R = Refill_level [OF assms(1-3) c1]
  have s: "cap_of b / 2 ^ 52 + cap_of b / 2 ^ 52 = of_nat (unat (tb_capacity b)) / 2 ^ 51" by (simp add: c)
  have z: "0 \<le> cap_of b / 2 ^ 52" using c1 by simp
  show ?thesis
  proof (cases x)
    case (Take n)
    consider "n = 0 \<or> tb_capacity b < n" | "n \<noteq> 0" "n \<le> tb_capacity b" by (meson not_less)
    then show ?thesis
    proof cases
      case 1
      then show ?thesis using assms(3) z s by (auto simp: Take TryAcquire_def tb_gain_def)
    next
      case 2
      then have n: "\<not> tb_capacity b < n" "unat n \<le> unat (tb_capacity ?b)" by (simp_all add: word_le_nat_alt not_less)
      show ?thesis
      proof (cases "dlt (tb_tokens ?b) (d_of_u64 n)")
        case True
        then show ?thesis using 2 n assms(3) R s z by (simp add: Take TryAcquire_def tb_gain_def Let_def)
      next
        case False
        have "tokens_of (?b \<lparr> tb_tokens := dsub (tb_tokens ?b) (d_of_u64 n) \<rparr>)
            \<le> tokens_of ?b - of_nat (unat n) + cap_of b / 2 ^ 52"
          using Take_level [OF ok n(2) _ False] assms(4) c1 by simp
        then show ?thesis using False 2 n assms(3) R s
          by (simp add: Take TryAcquire_def tb_gain_def Let_def)
      qed
    qed
  next
    case (Give n)
    show ?thesis
    proof (cases "n = 0")
      case True
      then show ?thesis using z s by (simp add: Give Refund_def tb_gain_def)
    next
      case False
      have "tokens_of (?b \<lparr> tb_tokens := dmin (d_of_u64 (tb_capacity ?b)) (dadd (tb_tokens ?b) (d_of_u64 n)) \<rparr>)
          \<le> tokens_of ?b + of_nat (unat n) + cap_of b / 2 ^ 52"
        using Give_level [OF ok, of n] assms(4) c1 by simp
      then show ?thesis using False assms(3) R s by (simp add: Give Refund_def tb_gain_def Let_def)
    qed
  qed
qed

interpretation tb: budget_machine tb_step "\<lambda>b. tb_inv r c t1 b \<and> r \<noteq> 0 \<and> unat c \<le> 2 ^ 53"
  "tb_call_ok t1" tokens_of "tb_gain r c" for r c t1
proof
  fix b x
  assume a: "tb_inv r c t1 b \<and> r \<noteq> 0 \<and> unat c \<le> 2 ^ 53" "tb_call_ok t1 x"
  then show "tb_inv r c t1 (tb_step b x) \<and> r \<noteq> 0 \<and> unat c \<le> 2 ^ 53" by (simp add: tb_step_inv)
  obtain now y where x: "x = (now, y)" by (cases x)
  with a have "bucket_ok b" "clock_ok now" "tb_rate_bytes_per_s b = r" "tb_capacity b = c"
    by (auto simp: tb_inv_def)
  with tb_step_level [of b now y] a show "tokens_of (tb_step b x) \<le> tokens_of b + tb_gain r c b x"
    by (auto simp: x)
qed

lemma trace_sum_tb_gain:
  "trace_sum tb_step (tb_gain r c) b xs = trace_sum tb_step tb_given b xs - trace_sum tb_step tb_granted b xs
     + (worth r (tb_last (foldl tb_step b xs)) - worth r (tb_last b)) * (1 + 1 / 2 ^ 49)
     + of_nat (length xs) * (of_nat (unat c) / 2 ^ 51)"
proof (induction xs arbitrary: b)
  case Nil
  then show ?case by simp
next
  case (Cons x xs)
  define k :: rat where "k = 1 + 1 / 2 ^ 49"
  define e :: rat where "e = of_nat (unat c) / 2 ^ 51"
  show ?case using Cons [of "tb_step b x"] unfolding trace_sum.simps tb_gain_def [of r c b x] foldl.simps k_def [symmetric] e_def [symmetric]
    by (simp add: algebra_simps)
qed

lemma tb_run_ok:
  "tb_inv r c t1 b \<Longrightarrow> list_all (tb_call_ok t1) xs \<Longrightarrow> tb_inv r c t1 (foldl tb_step b xs)"
  by (induction xs arbitrary: b) (auto intro: tb_step_inv)

text \<open>C32. The bucket never holds less than nothing nor more than its capacity: whatever calls are
  made on a fresh bucket, at whatever (also backward) clock readings, its tokens stay a finite
  double between 0 and the capacity, which no call changes.\<close>

theorem TokenBucket_level:
  assumes "clock_ok t0" "list_all (tb_call_ok t1) xs"
  shows "\<exists>t. tb_tokens (foldl tb_step (new_TokenBucket rate cap t0) xs) = Fin t \<and> 0 \<le> t
     \<and> dle (Fin t) (d_of_u64 (tb_capacity (new_TokenBucket rate cap t0)))
     \<and> tb_capacity (foldl tb_step (new_TokenBucket rate cap t0) xs) = tb_capacity (new_TokenBucket rate cap t0)"
proof -
  let ?b = "new_TokenBucket rate cap t0" and ?t = "max t0 t1"
  have "tb_call_ok t1 x \<Longrightarrow> tb_call_ok ?t x" for x by (cases x) auto
  then have "list_all (tb_call_ok ?t) xs" using assms(2) by (simp add: list_all_iff)
  moreover have "tb_inv rate (tb_capacity ?b) ?t ?b"
    using new_bucket_ok [OF assms(1)] by (simp add: tb_inv_def new_TokenBucket_def Let_def)
  ultimately have "tb_inv rate (tb_capacity ?b) ?t (foldl tb_step ?b xs)" by (intro tb_run_ok)
  then show ?thesis using cap_of_double [of ?b] cap_of_double [of "foldl tb_step ?b xs"]
    by (auto simp: tb_inv_def bucket_ok_def dbl_ops simp del: cap_of_double)
qed

lemma TokenBucket_level_witness:
  "\<exists>t. tb_tokens (foldl tb_step (new_TokenBucket 100 50 0) [(5, Take 50), (3, Give 7), (10 ^ 9, Take 20)])
     = Fin t \<and> 0 \<le> t"
  using TokenBucket_level [of 0 "10 ^ 9" "[(5, Take 50), (3, Give 7), (10 ^ 9, Take 20)]" 100 50]
  by (simp add: clock_ok_def) blast

text \<open>C8. The rate limit. Over any sequence of calls up to time \<open>t1\<close>, the bytes granted are at most
  the capacity (the initial burst), plus the bytes refunded, plus what the elapsed time is worth
  at the rate; the binary64 arithmetic of the code adds a relative error of \<open>2 ^ - 49\<close> on the
  elapsed time and \<open>2 ^ - 51\<close> of the capacity per call.\<close>

theorem TokenBucket_rate_limit:
  assumes "0 < rate" "0 < cap" "unat cap \<le> 2 ^ 53" "clock_ok t0" "t0 \<le> t1"
    and "list_all (tb_call_ok t1) xs"
  shows "trace_sum tb_step tb_granted (new_TokenBucket rate cap t0) xs
    \<le> of_nat (unat cap) + trace_sum tb_step tb_given (new_TokenBucket rate cap t0) xs
      + worth rate (t1 - t0) * (1 + 1 / 2 ^ 49) + of_nat (length xs) * (of_nat (unat cap) / 2 ^ 51)"
proof -
  let ?b = "new_TokenBucket rate cap t0"
  have c: "tb_capacity ?b = cap" "tb_last ?b = t0" "tb_rate_bytes_per_s ?b = rate"
    using assms(2) by (simp_all add: new_TokenBucket_def Let_def)
  have i: "tb_inv rate cap t1 ?b \<and> rate \<noteq> 0 \<and> unat cap \<le> 2 ^ 53"
    using new_bucket_ok [OF assms(4)] assms(1,3,5) by (simp add: tb_inv_def c)
  have f: "tb_inv rate cap t1 (foldl tb_step ?b xs)" using tb.inv_run [OF i assms(6)] by simp
  have "tokens_of ?b \<le> of_nat (unat cap)"
    using i cap_of_exact [of ?b] by (simp add: tb_inv_def bucket_ok_def c)
  moreover have "worth rate (tb_last (foldl tb_step ?b xs)) \<le> worth rate t1"
    using f by (intro worth_mono) (simp add: tb_inv_def)
  then have "(worth rate (tb_last (foldl tb_step ?b xs)) - worth rate (tb_last ?b)) * (1 + 1 / 2 ^ 49)
      \<le> worth rate (t1 - t0) * (1 + 1 / 2 ^ 49)"
    unfolding worth_diff [symmetric] c by (intro mult_right_mono) simp_all
  moreover have "0 \<le> tokens_of (foldl tb_step ?b xs)" using f by (simp add: tb_inv_def bucket_ok_def)
  ultimately show ?thesis using tb.level_run [OF i assms(6)] unfolding trace_sum_tb_gain by linarith
qed

lemma TokenBucket_rate_limit_witness:
  "trace_sum tb_step tb_granted (new_TokenBucket 100 50 0) [(5, Take 50), (10 ^ 9, Give 8)]
    \<le> 50 + trace_sum tb_step tb_given (new_TokenBucket 100 50 0) [(5, Take 50), (10 ^ 9, Give 8)]
      + worth 100 (10 ^ 9) * (1 + 1 / 2 ^ 49) + 2 * (50 / 2 ^ 51)"
  using TokenBucket_rate_limit [of 100 50 0 "10 ^ 9" "[(5, Take 50), (10 ^ 9, Give 8)]"]
  by (simp add: clock_ok_def)


section \<open>The blocking wait\<close>

lemma sleep_ns_returns:
  assumes "0 \<le> x" "x \<le> 2 ^ 33" shows "\<exists>k. sleep_ns (Fin x) = Inr k"
proof -
  have "x * 10 ^ 9 \<le> 2 ^ 33 * 10 ^ 9" using assms by (intro mult_right_mono) simp_all
  then have a: "x * 10 ^ 9 \<le> 2 ^ 63 - 2 ^ 10" "0 \<le> x * 10 ^ 9" using assms by simp_all
  have "round53 (2 ^ 63 - 2 ^ 10) = (2 ^ 63 - 2 ^ 10 :: rat)"
    using round53_exact [of "2 ^ 53 - 1" 10] by simp
  then have "round53 (x * 10 ^ 9) \<le> 2 ^ 63 - 2 ^ 10" using a(1) by (intro round53_le_exact)
  then have "\<bar>round53 (x * 10 ^ 9)\<bar> < 2 ^ 63" using round53_nonneg [OF a(2)] by simp
  moreover have "rnd (x * 10 ^ 9) = Fin (round53 (x * 10 ^ 9))"
    using a by (intro rnd_le_pow2 [of _ 63]) simp_all
  ultimately show ?thesis by (simp add: sleep_ns_def)
qed

lemma deficit_sleep:
  assumes ok: "bucket_ok b" and n: "unat n \<le> 2 ^ 53" "unat n \<le> 2 ^ 32 * unat (tb_rate_bytes_per_s b)"
    and r: "0 < tb_rate_bytes_per_s b" and d: "\<not> dle (dsub (d_of_u64 n) (tb_tokens b)) (Fin 0)"
  shows "\<exists>k. sleep_ns (ddiv (dsub (d_of_u64 n) (tb_tokens b)) (d_of_u64 (tb_rate_bytes_per_s b))) = Inr k"
proof -
  let ?N = "of_nat (unat n) :: rat" and ?R = "round53 (of_nat (unat (tb_rate_bytes_per_s b)))"
  let ?d = "round53 (?N + - tokens_of b)"
  have t: "tb_tokens b = Fin (tokens_of b)" "0 \<le> tokens_of b" "tokens_of b \<le> 2 ^ 64"
    using ok cap_of_le [of b] by (auto simp: bucket_ok_def)
  have rN: "round53 ?N = ?N" using n(1) by (rule round53_of_nat)
  have "?N \<le> of_nat (2 ^ 53)" using n(1) by (intro of_nat_mono)
  then have N: "?N \<le> 2 ^ 53" by simp
  then have "\<bar>?N + - tokens_of b\<bar> \<le> 2 ^ 64" using t by (simp add: abs_le_iff)
  then have "rnd (?N + - tokens_of b) = Fin ?d" by (rule rnd_le_pow2) simp
  then have s: "dsub (d_of_u64 n) (tb_tokens b) = Fin ?d" by (simp add: dsub_def t(1) d_of_u64_nat rN)
  have d0: "0 < ?d" using d by (simp add: s dbl_ops)
  have dN: "?d \<le> ?N" using t(2) rN by (intro round53_le_exact) simp_all
  have "unat (tb_rate_bytes_per_s b) \<ge> 1" using r by (simp add: word_less_nat_alt)
  then have R1: "1 \<le> ?R" by (rule round53_nat_ge1)
  have R2: "?N \<le> 2 ^ 32 * ?R"
  proof (cases "unat (tb_rate_bytes_per_s b) \<le> 2 ^ 53")
    case True
    have "?N \<le> of_nat (2 ^ 32 * unat (tb_rate_bytes_per_s b))" using n(2) by (intro of_nat_mono)
    then show ?thesis using round53_of_nat [OF True] by simp
  next
    case False
    then have "(of_nat (2 ^ 53) :: rat) \<le> of_nat (unat (tb_rate_bytes_per_s b))" by (intro of_nat_mono) simp
    then have "2 ^ 53 \<le> ?R" by (intro round53_ge_exact round53_power2) simp
    then show ?thesis using N by simp
  qed
  have q: "0 \<le> ?d / ?R" "?d / ?R \<le> 2 ^ 32" using d0 R1 R2 dN by (simp_all add: pos_divide_le_eq)
  then have "rnd (?d / ?R) = Fin (round53 (?d / ?R))" by (intro rnd_le_pow2 [of _ 32]) simp_all
  moreover have "0 \<le> round53 (?d / ?R)" "round53 (?d / ?R) \<le> 2 ^ 32"
    using round53_nonneg [OF q(1)] round53_le_pow2 [OF q(2)] by simp_all
  ultimately show ?thesis using R1 sleep_ns_returns [of "round53 (?d / ?R)"]
    unfolding s unfolding d_of_u64_nat by simp
qed

lemma AcquireUntil_loop_returns:
  assumes "\<And>j. clock_ok (clk j)" "0 < n" "0 < r" "unat n \<le> 2 ^ 53" "unat n \<le> 2 ^ 32 * unat r"
  shows "bucket_ok b \<Longrightarrow> tb_rate_bytes_per_s b = r \<Longrightarrow> i < fuel \<Longrightarrow> deadline \<le> clk (k + 2 * i + 1) \<Longrightarrow>
    \<exists>g b'. AcquireUntil_loop fuel clk k b n deadline = Some (Inr (g, b')) \<and> bucket_ok b'"
proof (induction fuel arbitrary: k b i)
  case 0
  then show ?case by simp
next
  case (Suc fuel)
  let ?b = "RefillUnlocked b (clk k)" and ?b2 = "RefillUnlocked (RefillUnlocked b (clk k)) (clk (Suc k))"
  have ok: "bucket_ok ?b" "bucket_ok ?b2" using Suc.prems(1) assms(1) by (simp_all add: RefillUnlocked_ok)
  have r: "tb_rate_bytes_per_s ?b2 = r" using Suc.prems(2) by simp
  show ?case
  proof (cases "dle (d_of_u64 n) (tb_tokens ?b)")
    case True
    have t: "tb_tokens ?b = Fin (tokens_of ?b)" using ok(1) by (simp add: bucket_ok_def)
    have nl: "\<not> dlt (tb_tokens ?b) (d_of_u64 n)" using True by (simp add: t d_of_u64_nat dbl_ops)
    note tk = take_Fin [OF ok(1) nl]
    have "round53 (tokens_of ?b - round53 (of_nat (unat n))) \<le> cap_of ?b"
      using ok(1) round53_nonneg [of "of_nat (unat n)"] unfolding cap_of_def
      by (intro round53_le_exact round53_idem) (auto simp: bucket_ok_def cap_of_def)
    then have "bucket_ok (?b \<lparr> tb_tokens := dsub (tb_tokens ?b) (d_of_u64 n) \<rparr>)"
      unfolding tk(1) using tk(2) by (intro bucket_ok_update ok(1) round53_nonneg) simp_all
    then show ?thesis using True by (auto simp: Let_def)
  next
    case False
    show ?thesis
    proof (cases "deadline \<le> clk (Suc k)")
      case True
      then show ?thesis using False ok(1) by (auto simp: Let_def)
    next
      case late: False
      with Suc.prems(4) obtain j where j: "i = Suc j" by (cases i) auto
      have again: "\<exists>g b'. AcquireUntil_loop fuel clk (k + 2) ?b2 n deadline = Some (Inr (g, b')) \<and> bucket_ok b'"
        using Suc.IH [OF ok(2) r, of j "k + 2"] Suc.prems(3,4) by (simp add: j add.commute)
      show ?thesis
      proof (cases "dle (dsub (d_of_u64 n) (tb_tokens ?b2)) (Fin 0)")
        case True
        then show ?thesis using False late again by (simp add: Let_def)
      next
        case deficit: False
        then have "\<exists>s. sleep_ns (ddiv (dsub (d_of_u64 n) (tb_tokens ?b2)) (d_of_u64 (tb_rate_bytes_per_s ?b2))) = Inr s"
          using ok(2) assms by (intro deficit_sleep) (simp_all add: Suc.prems(2))
        then show ?thesis using False late deficit again by (auto simp: Let_def)
      qed
    qed
  qed
qed

text \<open>C34. The blocking acquire ends: for any request the capacity can hold that the rate supplies
  within \<open>2 ^ 32\<close> seconds, once a reading of the clock taken at the end of a round (the odd ones) has
  reached the deadline, the loop has returned, with or without the tokens, and left the bucket
  well formed. No conversion on the way is undefined.\<close>

theorem AcquireUntil_returns:
  assumes "bucket_ok b" "\<forall>j. clock_ok (clk j)" "unat n \<le> 2 ^ 53"
    and "unat n \<le> 2 ^ 32 * unat (tb_rate_bytes_per_s b)" "i < fuel" "deadline \<le> clk (2 * i + 1)"
  shows "\<exists>g b'. AcquireUntil fuel clk b n deadline = Some (Inr (g, b')) \<and> bucket_ok b'"
proof (cases "tb_rate_bytes_per_s b = 0 \<or> n = 0 \<or> tb_capacity b < n")
  case True
  then show ?thesis using assms(1) by (auto simp: AcquireUntil_def)
next
  case False
  then have "0 < n" "0 < tb_rate_bytes_per_s b" by (simp_all add: word_gt_0)
  with assms have "\<exists>g b'. AcquireUntil_loop fuel clk 0 b n deadline = Some (Inr (g, b')) \<and> bucket_ok b'"
    by (intro AcquireUntil_loop_returns) simp_all
  then show ?thesis using False by (simp add: AcquireUntil_def)
qed

lemma AcquireUntil_returns_witness:
  "\<exists>g b'. AcquireUntil 3 (\<lambda>j. min (int j) 100) (new_TokenBucket 100 50 0) 40 5 = Some (Inr (g, b')) \<and> bucket_ok b'"
proof (rule AcquireUntil_returns [where i = 2])
  show "bucket_ok (new_TokenBucket 100 50 0)" by (rule new_bucket_ok) (simp add: clock_ok_def)
  show "\<forall>j. clock_ok (min (int j) 100)" by (simp add: clock_ok_def min_less_iff_disj)
qed (simp_all add: new_TokenBucket_def)

end
