(* ===== verification/Inflight.thy ===== *)
theory Inflight
  imports Machines
begin

text \<open>
  \<^verbatim>\<open>src/inflight.cc\<close>: the counting semaphore that caps the open file sessions. Each operation is
  one critical section; the blocking acquire is its wake-up: the predicate is evaluated under the
  lock, and the wait goes on (\<open>None\<close>) while there is no free slot and the deadline is not reached.
\<close>

record InFlightSemaphore =
  sem_max :: u32
  sem_current :: u32

definition new_InFlightSemaphore :: "u32 \<Rightarrow> InFlightSemaphore" where
  "new_InFlightSemaphore m = \<lparr> sem_max = (if m = 0 then 1 else m), sem_current = 0 \<rparr>"

definition sem_AcquireUntil :: "InFlightSemaphore \<Rightarrow> bool \<Rightarrow> (bool \<times> InFlightSemaphore) option" where
  "sem_AcquireUntil s expired =
     (if sem_current s < sem_max s then Some (True, s \<lparr> sem_current := sem_current s + 1 \<rparr>)
      else if expired then Some (False, s) else None)"

definition sem_TryAcquire :: "InFlightSemaphore \<Rightarrow> bool \<times> InFlightSemaphore" where
  "sem_TryAcquire s =
     (if sem_max s \<le> sem_current s then (False, s)
      else (True, s \<lparr> sem_current := sem_current s + 1 \<rparr>))"

definition sem_Release :: "InFlightSemaphore \<Rightarrow> InFlightSemaphore" where
  "sem_Release s = (if 0 < sem_current s then s \<lparr> sem_current := sem_current s - 1 \<rparr> else s)"

section \<open>Calls, and what they take and give back\<close>

datatype sem_op = SemTry | SemWake bool | SemRelease

fun sem_step :: "InFlightSemaphore \<Rightarrow> sem_op \<Rightarrow> InFlightSemaphore" where
  "sem_step s SemTry = snd (sem_TryAcquire s)"
| "sem_step s (SemWake expired) = (case sem_AcquireUntil s expired of None \<Rightarrow> s | Some (_, s') \<Rightarrow> s')"
| "sem_step s SemRelease = sem_Release s"

text \<open>\<open>1\<close> for a slot obtained, \<open>-1\<close> for a slot freed.\<close>

fun sem_slots :: "InFlightSemaphore \<Rightarrow> sem_op \<Rightarrow> int" where
  "sem_slots s SemTry = (if fst (sem_TryAcquire s) then 1 else 0)"
| "sem_slots s (SemWake expired) =
     (case sem_AcquireUntil s expired of Some (True, _) \<Rightarrow> 1 | _ \<Rightarrow> 0)"
| "sem_slots s SemRelease = (if sem_current s = 0 then 0 else -1)"

definition sem_ok :: "InFlightSemaphore \<Rightarrow> bool" where
  "sem_ok s \<longleftrightarrow> 0 < sem_max s \<and> sem_current s \<le> sem_max s"

lemma uint_inc_u32: "(a :: u32) < b \<Longrightarrow> uint (a + 1) = uint a + 1"
  using uint_lt2p [of b] by (simp add: word_less_def uint_word_ariths)

lemma uint_dec_u32: "0 < (a :: u32) \<Longrightarrow> uint (a - 1) = uint a - 1"
  using uint_lt2p [of a] by (simp add: word_less_def uint_word_ariths)

lemma sem_take_ok: "sem_ok s \<Longrightarrow> sem_current s < sem_max s \<Longrightarrow>
    sem_ok (s \<lparr> sem_current := sem_current s + 1 \<rparr>)"
  using uint_inc_u32 [of "sem_current s" "sem_max s"] by (simp add: sem_ok_def word_le_def word_less_def)

lemma sem_step_max [simp]: "sem_max (sem_step s x) = sem_max s"
  by (cases x) (simp_all add: sem_TryAcquire_def sem_AcquireUntil_def sem_Release_def)

lemma sem_step_ok: "sem_ok s \<Longrightarrow> sem_ok (sem_step s x)"
proof (cases x)
  case SemRelease
  assume "sem_ok s"
  then show ?thesis using SemRelease uint_dec_u32 [of "sem_current s"]
    by (auto simp: sem_ok_def sem_Release_def word_le_def word_less_def)
qed (auto simp: sem_TryAcquire_def sem_AcquireUntil_def intro: sem_take_ok)

lemma sem_step_balance: "uint (sem_current (sem_step s x)) = uint (sem_current s) + sem_slots s x"
  using uint_inc_u32 [of "sem_current s" "sem_max s"] uint_dec_u32 [of "sem_current s"]
  by (cases x) (auto simp: sem_TryAcquire_def sem_AcquireUntil_def sem_Release_def not_le word_gt_0)

interpretation sem: ledger_machine sem_step "\<lambda>s. sem_ok s \<and> sem_max s = m" "\<lambda>_. True"
  "\<lambda>s. uint (sem_current s)" sem_slots for m
  by unfold_locales (auto simp: sem_step_ok sem_step_balance)

text \<open>C33. The semaphore never admits more than its cap, and its counter is the number of slots
  held: after any sequence of calls, slots obtained minus slots freed lies between 0 and the cap
  (at least 1, also for a configured 0), and the counter equals it; the 32-bit counter never wraps.\<close>

theorem InFlight_bound:
  "let s = foldl sem_step (new_InFlightSemaphore m) xs;
       held = trace_sum sem_step sem_slots (new_InFlightSemaphore m) xs
   in uint (sem_current s) = held \<and> 0 \<le> held \<and> held \<le> max 1 (uint m) \<and> sem_max s = (if m = 0 then 1 else m)"
proof -
  let ?s = "new_InFlightSemaphore m"
  have i: "sem_ok ?s \<and> sem_max ?s = (if m = 0 then 1 else m)"
    by (simp add: sem_ok_def new_InFlightSemaphore_def word_gt_0)
  have l: "list_all (\<lambda>_. True) xs" by (simp add: list_all_iff)
  have b: "uint (sem_current (foldl sem_step ?s xs)) = trace_sum sem_step sem_slots ?s xs"
    using sem.bal_run [OF i l] by (simp add: new_InFlightSemaphore_def)
  have o: "sem_ok (foldl sem_step ?s xs)" "sem_max (foldl sem_step ?s xs) = (if m = 0 then 1 else m)"
    using sem.inv_run [OF i l] by simp_all
  then have "uint (sem_current (foldl sem_step ?s xs)) \<le> max 1 (uint m)"
    by (auto simp: sem_ok_def word_le_def split: if_splits)
  with b o(2) show ?thesis using uint_ge_0 [of "sem_current (foldl sem_step ?s xs)"]
    by (simp add: Let_def)
qed

end
