(* ===== verification/ErrorClassifier.thy ===== *)
theory ErrorClassifier
  imports Prelude
begin

text \<open>
  \<^verbatim>\<open>src/error_classifier.cc\<close> and the classification half of \<^verbatim>\<open>src/soft_fault_log.cc\<close>: the class of a
  failed XRootD operation, from its status code, its error number and the text of the error.
\<close>

datatype ErrorClass = NoError | Auth | Timeout | Connection | ServerError | NotFound | ClientError
  | RedirectLoop | Trust | Expired | NoReplicas | Unknown

definition ErrorClassName :: "ErrorClass \<Rightarrow> string" where
  "ErrorClassName c = (case c of
      NoError \<Rightarrow> ''none'' | Auth \<Rightarrow> ''auth'' | Timeout \<Rightarrow> ''timeout'' | Connection \<Rightarrow> ''connection''
    | ServerError \<Rightarrow> ''server_error'' | NotFound \<Rightarrow> ''not_found'' | ClientError \<Rightarrow> ''client_error''
    | RedirectLoop \<Rightarrow> ''redirect_loop'' | Trust \<Rightarrow> ''trust'' | Expired \<Rightarrow> ''expired''
    | NoReplicas \<Rightarrow> ''no_replicas'' | Unknown \<Rightarrow> ''unknown'')"

text \<open>\<open>has_any msg ws\<close>: one of the \<^verbatim>\<open>msg.find(w) != npos\<close> of a condition holds.\<close>

definition has_any :: "string \<Rightarrow> string list \<Rightarrow> bool" where
  "has_any msg ws \<longleftrightarrow> (\<exists>w\<in>set ws. has msg w)"

lemma has_any_Nil [simp]: "\<not> has_any msg []"
  by (simp add: has_any_def)

lemma has_any_Cons [code]: "has_any msg (w # ws) \<longleftrightarrow> has msg w \<or> has_any msg ws"
  by (simp add: has_any_def)

lemma has_any_Nil_code [code]: "has_any msg [] = False"
  by simp

text \<open>The words of the conditions, in the order of the function.\<close>

definition auth_words :: "string list" where
  "auth_words = [''not authorized'', ''authentication'', ''permission denied'', ''eacces'', ''gss error'']"

definition not_found_words :: "string list" where
  "not_found_words = [''not found'', ''no such file'']"

definition redirect_words :: "string list" where
  "redirect_words = [''redirect limit'', ''redirect loop'', ''too many redirects'', ''redirectlimit'']"

definition timeout_words :: "string list" where
  "timeout_words = [''timeout'', ''timed out'']"

definition trust_words :: "string list" where
  "trust_words = [''certificate verify'', ''unable to get local issuer'', ''unknown ca'',
     ''self signed certificate'', ''certificate unknown'', ''sslv3 alert certificate'', ''x509_v_err'']"

definition connection_words :: "string list" where
  "connection_words = [''tls'', ''error_ssl'', ''ssl'', ''handshake'', ''connection'', ''connect'', ''socket'',
     ''resource temporarily unavailable'', ''network is unreachable'']"

text \<open>The \<^verbatim>\<open>switch\<close> on \<^verbatim>\<open>XrdCl::Status::code\<close>.\<close>

definition status_class :: "int \<Rightarrow> ErrorClass option" where
  "status_class status_code =
     (if status_code = 16 then Some NoReplicas
      else if status_code \<in> {101, 102, 104, 105, 106, 107, 108, 109, 110, 202} then Some Connection
      else if status_code \<in> {203, 204} then Some Auth
      else if status_code = 304 then Some NotFound
      else if status_code = 306 then Some RedirectLoop
      else if status_code \<in> {303, 307, 400} then Some ServerError
      else None)"

definition ClassifyXRootDError :: "int \<Rightarrow> int \<Rightarrow> string \<Rightarrow> ErrorClass" where
  "ClassifyXRootDError status_code err_code message =
     (let msg = lower message in
      if err_code = 3010 \<or> has_any msg auth_words then Auth
      else if err_code = 3001 \<or> has_any msg not_found_words then NotFound
      else if has_any msg redirect_words then RedirectLoop
      else if status_code = 206 \<or> has msg ''operation expired'' then Expired
      else if status_code = 103 \<or> has_any msg timeout_words \<or> err_code = 110 then Timeout
      else if has_any msg trust_words then Trust
      else if has_any msg connection_words \<or> err_code = 111 \<or> err_code = 104 \<or> err_code = 11 then Connection
      else if 3000 \<le> err_code \<and> err_code < 4000
        then (if err_code = 3005 \<or> err_code = 3002 then ClientError else ServerError)
      else if has_any msg [''server'', ''srverr''] then ServerError
      else case status_class status_code of Some c \<Rightarrow> c
      | None \<Rightarrow>
          if has_any msg [''no more replicas'', ''no servers are available''] then NoReplicas
          else if msg \<noteq> [] \<or> err_code \<noteq> 0 \<or> status_code \<noteq> 0 then Unknown
          else NoError)"

text \<open>Soft faults: XrdCl log lines at Error level.\<close>

definition ClassifySoftFaultMessage :: "string \<Rightarrow> string" where
  "ClassifySoftFaultMessage message =
     (if has_any message [''timeout'', ''Timeout'', ''TIMEDOUT'', ''etimedout''] then ''timeout''
      else if has_any message [''redirect'', ''Redirect''] then ''redirect''
      else if has_any message [''TLS'', ''certificate'', ''Certificate'', ''handshake'', ''authentication'',
          ''Unauthorized''] then ''tls_auth''
      else if has_any message [''connection reset'', ''Connection refused'', ''Unable to connect'',
          ''Socket error'', ''Broken pipe'', ''Network is unreachable'', ''No route to host''] then ''connection''
      else if has_any message [''Unable to get the response'', ''kXR_read'', ''kXR_readv'', ''kXR_open''] then ''io''
      else ''other'')"

definition IsXrdClErrorLogLine :: "string \<Rightarrow> bool" where
  "IsXrdClErrorLogLine message \<longleftrightarrow> has message ''[Error''"

section \<open>Facts\<close>

lemma has_any_mono [str_ops]: "has_any m ws \<Longrightarrow> has_any (a @ m @ b) ws"
  unfolding has_any_def using has_append has_trans by blast

lemma has_any_empty: "[] \<notin> set ws \<Longrightarrow> \<not> has_any [] ws"
  by (auto simp: has_any_def has_sublist)

lemma has_server:
  assumes "has msg ''no servers are available''" shows "has msg ''server''"
proof (rule has_trans [OF assms])
  show "has ''no servers are available'' ''server''" by code_simp
qed

lemma no_words_in_empty:
  "\<not> has_any [] auth_words" "\<not> has_any [] not_found_words" "\<not> has_any [] redirect_words"
  "\<not> has_any [] timeout_words" "\<not> has_any [] trust_words" "\<not> has_any [] connection_words"
  "\<not> has [] ''operation expired''" "\<not> has_any [] [''server'', ''srverr'']"
  "\<not> has_any [] [''no more replicas'', ''no servers are available'']"
  by (simp_all add: has_any_empty has_Nil auth_words_def not_found_words_def redirect_words_def
      timeout_words_def trust_words_def connection_words_def)

text \<open>No failure is ever reported as no error: the class is \<open>NoError\<close> exactly when the status, the
  error number and the message are all empty.\<close>

theorem ClassifyXRootDError_none_iff:
  "ClassifyXRootDError status_code err_code message = NoError \<longleftrightarrow>
     status_code = 0 \<and> err_code = 0 \<and> message = []"
proof
  assume "ClassifyXRootDError status_code err_code message = NoError"
  then show "status_code = 0 \<and> err_code = 0 \<and> message = []"
    by (auto simp: ClassifyXRootDError_def status_class_def Let_def split: if_splits option.splits)
next
  assume "status_code = 0 \<and> err_code = 0 \<and> message = []"
  then show "ClassifyXRootDError status_code err_code message = NoError"
    by (simp add: ClassifyXRootDError_def status_class_def no_words_in_empty)
qed

text \<open>The letter case of the message does not matter, and text that a lower layer puts around a
  message that says an authorisation failed cannot turn the failure into another class.\<close>

theorem ClassifyXRootDError_auth_robust:
  assumes "ClassifyXRootDError status_code err_code message = Auth" "status_code \<notin> {203, 204}"
  shows "ClassifyXRootDError status' err_code (before @ map to_lower message @ after) = Auth"
proof -
  have "err_code = 3010 \<or> has_any (lower message) auth_words"
    using assms by (auto simp: ClassifyXRootDError_def status_class_def Let_def split: if_splits option.splits)
  then have "err_code = 3010 \<or> has_any (lower before @ lower message @ lower after) auth_words"
    using has_any_mono by blast
  then show ?thesis by (auto simp: ClassifyXRootDError_def Let_def simp flip: lower_def)
qed

lemma ClassifyXRootDError_auth_robust_witness:
  "ClassifyXRootDError 5 0 (''open: '' @ map to_lower ''Permission Denied'' @ '' (server x)'') = Auth"
proof (rule ClassifyXRootDError_auth_robust [where status_code = 400])
  show "ClassifyXRootDError 400 0 ''Permission Denied'' = Auth" by code_simp
qed simp

text \<open>A message that no servers are available is never counted as missing replicas, whatever the
  codes: the branch that names this text stands after the test for \<^verbatim>\<open>server\<close>, which such a
  message always passes.\<close>

theorem no_servers_never_NoReplicas:
  assumes "has (lower message) ''no servers are available''"
  shows "ClassifyXRootDError status_code err_code message \<noteq> NoReplicas"
  using has_server [OF assms]
  by (auto simp: ClassifyXRootDError_def has_any_Cons Let_def)

lemma no_servers_never_NoReplicas_witness:
  "ClassifyXRootDError 16 0 ''No servers are available to read the file.'' \<noteq> NoReplicas"
proof (rule no_servers_never_NoReplicas)
  show "has (lower ''No servers are available to read the file.'') ''no servers are available''" by code_simp
qed

text \<open>A failure that carries only a status code is classified by that code alone: the two expiries
  first, then the table; every other non-zero code is \<open>Unknown\<close>.\<close>

theorem ClassifyXRootDError_status_only:
  "ClassifyXRootDError status_code 0 [] =
     (if status_code = 206 then Expired else if status_code = 103 then Timeout
      else if status_code = 0 then NoError
      else case status_class status_code of Some c \<Rightarrow> c | None \<Rightarrow> Unknown)"
  by (simp add: ClassifyXRootDError_def no_words_in_empty status_class_def)

lemma ErrorClassName_inj: "ErrorClassName a = ErrorClassName b \<longleftrightarrow> a = b"
  by (cases a; cases b) (simp_all add: ErrorClassName_def)

lemma ErrorClassName_nonempty [simp]: "ErrorClassName c \<noteq> []"
  by (cases c) (simp_all add: ErrorClassName_def)

end
