(* ===== verification/OrdMap.thy ===== *)
theory OrdMap
  imports Prelude "HOL-Library.Char_ord" "HOL-Library.List_Lexorder"
begin

text \<open>
  \<^verbatim>\<open>std::map<std::string, T>\<close> as a list of entries in key order (keys compare as unsigned bytes,
  lexicographically), with the two accesses the sources use: \<^verbatim>\<open>find\<close> and \<^verbatim>\<open>m[k]\<close> followed by an
  update of the entry, which inserts a default one when the key is new. What clients rely on is the
  contract \<open>keyed_store\<close>: sums over the entries after any number of updates.
\<close>

section \<open>The contract of a keyed store\<close>

locale keyed_store =
  fixes get :: "'m \<Rightarrow> 'k \<Rightarrow> 'v option"
    and upsert :: "'k \<Rightarrow> ('v option \<Rightarrow> 'v) \<Rightarrow> 'm \<Rightarrow> 'm"
    and items :: "'m \<Rightarrow> ('k \<times> 'v) list"
    and wf :: "'m \<Rightarrow> bool"
  assumes wf_upsert: "wf m \<Longrightarrow> wf (upsert k f m)"
    and get_upsert: "wf m \<Longrightarrow> get (upsert k f m) k' = (if k' = k then Some (f (get m k)) else get m k')"
    and items_iff: "wf m \<Longrightarrow> (k, v) \<in> set (items m) \<longleftrightarrow> get m k = Some v"
    and items_distinct: "wf m \<Longrightarrow> distinct (map fst (items m))"
begin

definition total :: "('k \<Rightarrow> 'v \<Rightarrow> 'a::ab_group_add) \<Rightarrow> 'm \<Rightarrow> 'a" where
  "total g m = sum_list (map (\<lambda>(k, v). g k v) (items m))"

lemma total_sum: "wf m \<Longrightarrow> total g m = (\<Sum>(k, v) \<in> set (items m). g k v)"
  unfolding total_def using items_distinct [of m] by (simp add: sum_list_distinct_conv_sum_set distinct_map)

lemma set_items_upsert:
  "wf m \<Longrightarrow> set (items (upsert k f m)) = insert (k, f (get m k)) (set (items m) - {x. fst x = k})"
  using items_iff wf_upsert get_upsert by (auto split: if_splits)

lemma set_items_at: "wf m \<Longrightarrow> set (items m) \<inter> {x. fst x = k} = (case get m k of None \<Rightarrow> {} | Some v \<Rightarrow> {(k, v)})"
  using items_iff by (auto split: option.splits)

lemma total_upsert:
  assumes "wf m"
  shows "total g (upsert k f m) = total g m - (case get m k of None \<Rightarrow> 0 | Some v \<Rightarrow> g k v) + g k (f (get m k))"
proof -
  let ?h = "\<lambda>(k, v). g k v" and ?A = "set (items m)"
  have "sum ?h ?A = sum ?h (?A \<inter> {x. fst x = k}) + sum ?h (?A - {x. fst x = k})"
    by (rule sum.Int_Diff) simp
  moreover have "sum ?h (?A \<inter> {x. fst x = k}) = (case get m k of None \<Rightarrow> 0 | Some v \<Rightarrow> g k v)"
    unfolding set_items_at [OF assms] by (simp split: option.split)
  moreover have "sum ?h (set (items (upsert k f m))) = g k (f (get m k)) + sum ?h (?A - {x. fst x = k})"
    unfolding set_items_upsert [OF assms] by (subst sum.insert) auto
  ultimately show ?thesis using assms by (simp add: total_sum wf_upsert)
qed

text \<open>An update that adds \<open>d\<close> to what \<open>g\<close> reads of the entry (nothing, for a new one) adds \<open>d\<close> to
  the total.\<close>

lemma total_add:
  assumes "wf m" "g k (f (get m k)) = (case get m k of None \<Rightarrow> 0 | Some v \<Rightarrow> g k v) + d"
  shows "total g (upsert k f m) = total g m + d"
  using total_upsert [OF assms(1), of g k f] assms(2) by simp

definition collect :: "('x \<Rightarrow> 'k) \<Rightarrow> ('x \<Rightarrow> 'v option \<Rightarrow> 'v) \<Rightarrow> 'm \<Rightarrow> 'x list \<Rightarrow> 'm" where
  "collect key f = foldl (\<lambda>m x. upsert (key x) (f x) m)"

lemma collect_wf: "wf m \<Longrightarrow> wf (collect key f m xs)"
  unfolding collect_def by (induction xs arbitrary: m) (auto intro: wf_upsert)

lemma collect_total:
  assumes "wf m" "\<And>x v. x \<in> set xs \<Longrightarrow> g (key x) (f x v) = (case v of None \<Rightarrow> 0 | Some v \<Rightarrow> g (key x) v) + d x"
  shows "total g (collect key f m xs) = total g m + sum_list (map d xs)"
  using assms
proof (induction xs arbitrary: m)
  case Nil
  then show ?case by (simp add: collect_def)
next
  case (Cons x xs)
  have "total g (collect key f (upsert (key x) (f x) m) xs)
      = total g (upsert (key x) (f x) m) + sum_list (map d xs)"
    using Cons.prems by (intro Cons.IH wf_upsert) auto
  also have "total g (upsert (key x) (f x) m) = total g m + d x"
    using Cons.prems by (intro total_add) auto
  finally show ?case by (simp add: collect_def add.assoc)
qed

lemma collect_get_None:
  "wf m \<Longrightarrow> k \<notin> key ` set xs \<Longrightarrow> get (collect key f m xs) k = get m k"
  unfolding collect_def by (induction xs arbitrary: m) (auto simp: get_upsert wf_upsert)

end

section \<open>Ordered entries\<close>

type_synonym 'v omap = "(string \<times> 'v) list"

definition om_empty :: "'v omap" where
  "om_empty = []"

definition om_get :: "'v omap \<Rightarrow> string \<Rightarrow> 'v option" where
  "om_get m k = map_of m k"

fun om_upsert :: "string \<Rightarrow> ('v option \<Rightarrow> 'v) \<Rightarrow> 'v omap \<Rightarrow> 'v omap" where
  "om_upsert k f [] = [(k, f None)]"
| "om_upsert k f ((k', v) # m) =
     (if k = k' then (k, f (Some v)) # m
      else if k < k' then (k, f None) # (k', v) # m
      else (k', v) # om_upsert k f m)"

definition om_wf :: "'v omap \<Rightarrow> bool" where
  "om_wf m \<longleftrightarrow> sorted (map fst m) \<and> distinct (map fst m)"

text \<open>\<^verbatim>\<open>m[k] = v\<close>.\<close>

definition om_put :: "string \<Rightarrow> 'v \<Rightarrow> 'v omap \<Rightarrow> 'v omap" where
  "om_put k v = om_upsert k (\<lambda>_. v)"

lemma om_wf_empty [simp]: "om_wf om_empty" "om_wf []"
  by (simp_all add: om_wf_def om_empty_def)

lemma om_get_empty [simp]: "om_get om_empty k = None" "om_get [] k = None"
  by (simp_all add: om_get_def om_empty_def)

lemma om_upsert_keys: "set (map fst (om_upsert k f m)) = insert k (set (map fst m))"
proof (induction m)
  case (Cons e m)
  then show ?case by (cases e) (simp add: insert_commute)
qed simp

lemma om_wf_upsert: "om_wf m \<Longrightarrow> om_wf (om_upsert k f m)"
proof (induction m)
  case Nil
  then show ?case by (simp add: om_wf_def)
next
  case (Cons e m)
  obtain k' v where e: "e = (k', v)" by (cases e)
  have "om_wf (om_upsert k f m)" using Cons by (simp add: om_wf_def)
  moreover have "set (map fst (om_upsert k f m)) = insert k (set (map fst m))" by (rule om_upsert_keys)
  ultimately show ?case using Cons.prems by (auto simp: om_wf_def e not_less image_iff)
qed

lemma om_get_upsert:
  "om_wf m \<Longrightarrow> om_get (om_upsert k f m) k' = (if k' = k then Some (f (om_get m k)) else om_get m k')"
proof (induction m)
  case Nil
  then show ?case by (simp add: om_get_def)
next
  case (Cons e m)
  obtain k0 v where e: "e = (k0, v)" by (cases e)
  have notin: "map_of m k = None" if "k < k0"
    using Cons.prems that by (force simp: om_wf_def e map_of_eq_None_iff)
  show ?case using Cons notin by (auto simp: om_wf_def e om_get_def)
qed

interpretation om: keyed_store om_get om_upsert "\<lambda>m. m" om_wf
proof
  show "om_get (om_upsert k f m) k' = (if k' = k then Some (f (om_get m k)) else om_get m k')"
    if "om_wf m" for m :: "'v omap" and k k' f using that by (rule om_get_upsert)
  show "((k, v) \<in> set m) = (om_get m k = Some v)" if "om_wf m" for m :: "'v omap" and k v
    using that by (simp add: om_wf_def om_get_def map_of_eq_Some_iff)
  show "distinct (map fst m)" if "om_wf m" for m :: "'v omap"
    using that by (simp add: om_wf_def)
qed (rule om_wf_upsert)

lemma om_put_get: "om_wf m \<Longrightarrow> om_get (om_put k v m) k' = (if k' = k then Some v else om_get m k')"
  by (simp add: om_put_def om_get_upsert)

lemma om_put_wf: "om_wf m \<Longrightarrow> om_wf (om_put k v m)"
  by (simp add: om_put_def om_wf_upsert)

text \<open>A counter per key: \<^verbatim>\<open>m[k] += n\<close>.\<close>

definition om_count :: "string \<Rightarrow> u64 \<Rightarrow> u64 omap \<Rightarrow> u64 omap" where
  "om_count k n = om_upsert k (\<lambda>v. (case v of None \<Rightarrow> 0 | Some c \<Rightarrow> c) + n)"

definition om_sum :: "u64 omap \<Rightarrow> u64" where
  "om_sum m = sum_list (map snd m)"

lemma om_count_wf: "om_wf m \<Longrightarrow> om_wf (om_count k n m)"
  by (simp add: om_count_def om_wf_upsert)

lemma om_sum_total: "om_sum m = om.total (\<lambda>k v. v) m"
  by (simp add: om_sum_def om.total_def case_prod_unfold)

lemma om_sum_count: "om_wf m \<Longrightarrow> om_sum (om_count k n m) = om_sum m + n"
  unfolding om_sum_total om_count_def by (rule om.total_add) (simp_all split: option.split)

lemma om_get_count:
  "om_wf m \<Longrightarrow> om_get (om_count k n m) k' =
     (if k' = k then Some ((case om_get m k of None \<Rightarrow> 0 | Some c \<Rightarrow> c) + n) else om_get m k')"
  by (simp add: om_count_def om_get_upsert)

end
