(* ===== verification/Json.thy ===== *)
theory Json
  imports OrdMap Binary64
begin

text \<open>
  The JSON library the sources call (\<^verbatim>\<open>nlohmann::json\<close>, a third-party package) as a parameter: a
  value type \<open>'j\<close> and the member functions the code uses. \<open>js_items\<close> are the members of an object
  in iteration (key) order, \<open>js_elems\<close> the elements of an array. The getters are only applied where
  the code has tested the kind. \<open>js_dump\<close> and \<open>js_dump2\<close> (\<^verbatim>\<open>dump()\<close>, \<^verbatim>\<open>dump(2)\<close>) throw on a string that
  is not UTF-8; a failed \<open>js_parse\<close> throws a \<open>Json_error\<close>, which \<open>js_is_parse_error\<close> says is
  a \<^verbatim>\<open>parse_error\<close> or, as for a number that does not fit a double, another \<^verbatim>\<open>json::exception\<close>.
\<close>

record 'j json_api =
  js_parse :: "string \<Rightarrow> 'j res"
  js_is_parse_error :: "string \<Rightarrow> bool"
  js_dump :: "'j \<Rightarrow> string res"
  js_dump2 :: "'j \<Rightarrow> string res"
  js_is_object :: "'j \<Rightarrow> bool"
  js_is_array :: "'j \<Rightarrow> bool"
  js_is_string :: "'j \<Rightarrow> bool"
  js_is_boolean :: "'j \<Rightarrow> bool"
  js_is_null :: "'j \<Rightarrow> bool"
  js_is_number_unsigned :: "'j \<Rightarrow> bool"
  js_is_number_integer :: "'j \<Rightarrow> bool"
  js_is_number_float :: "'j \<Rightarrow> bool"
  js_get_string :: "'j \<Rightarrow> string"
  js_get_bool :: "'j \<Rightarrow> bool"
  js_get_int64 :: "'j \<Rightarrow> int"
  js_get_u64 :: "'j \<Rightarrow> u64"
  js_get_double :: "'j \<Rightarrow> double"
  js_items :: "'j \<Rightarrow> (string \<times> 'j) list"
  js_elems :: "'j \<Rightarrow> 'j list"
  js_object :: "(string \<times> 'j) list \<Rightarrow> 'j"
  js_array :: "'j list \<Rightarrow> 'j"
  js_string :: "string \<Rightarrow> 'j"
  js_boolean :: "bool \<Rightarrow> 'j"
  js_unsigned :: "u64 \<Rightarrow> 'j"
  js_integer :: "int \<Rightarrow> 'j"
  js_float :: "double \<Rightarrow> 'j"

text \<open>\<^verbatim>\<open>j.contains(key)\<close> with \<^verbatim>\<open>j[key]\<close>, and \<^verbatim>\<open>is_number()\<close>.\<close>

definition js_field :: "'j json_api \<Rightarrow> 'j \<Rightarrow> string \<Rightarrow> 'j option" where
  "js_field J j k = (if js_is_object J j then map_of (js_items J j) k else None)"

definition js_is_number :: "'j json_api \<Rightarrow> 'j \<Rightarrow> bool" where
  "js_is_number J j \<longleftrightarrow> js_is_number_integer J j \<or> js_is_number_float J j"

text \<open>\<^verbatim>\<open>get<int>()\<close> of an integer: narrowed to 32 bits.\<close>

definition js_get_int :: "'j json_api \<Rightarrow> 'j \<Rightarrow> int" where
  "js_get_int J j = sint (word_of_int (js_get_int64 J j) :: u32)"

text \<open>What the getters promise of one another: an integer that is not negative as \<^verbatim>\<open>int64_t\<close> is the
  same number as \<^verbatim>\<open>uint64_t\<close>.\<close>

definition js_ints_agree :: "'j json_api \<Rightarrow> bool" where
  "js_ints_agree J \<longleftrightarrow> (\<forall>j. js_is_number_integer J j \<longrightarrow> 0 \<le> js_get_int64 J j \<longrightarrow> uint (js_get_u64 J j) = js_get_int64 J j)"

section \<open>An instance\<close>

text \<open>A value type with these functions, for concrete examples. It prints nothing of the structure
  and parses nothing.\<close>

datatype jval =
    JNull
  | JBool bool
  | JInt int
  | JUnsigned u64
  | JFloat double
  | JString string
  | JArray "jval list"
  | JObject "(string \<times> jval) list"

definition jval_api :: "jval json_api" where
  "jval_api = \<lparr>
     js_parse = (\<lambda>_. Inl (Json_error ''no parser'')),
     js_is_parse_error = (\<lambda>_. True), js_dump = (\<lambda>_. Inr ''{}''), js_dump2 = (\<lambda>_. Inr ''{}''),
     js_is_object = (\<lambda>j. case j of JObject _ \<Rightarrow> True | _ \<Rightarrow> False),
     js_is_array = (\<lambda>j. case j of JArray _ \<Rightarrow> True | _ \<Rightarrow> False),
     js_is_string = (\<lambda>j. case j of JString _ \<Rightarrow> True | _ \<Rightarrow> False),
     js_is_boolean = (\<lambda>j. case j of JBool _ \<Rightarrow> True | _ \<Rightarrow> False),
     js_is_null = (\<lambda>j. case j of JNull \<Rightarrow> True | _ \<Rightarrow> False),
     js_is_number_unsigned = (\<lambda>j. case j of JUnsigned _ \<Rightarrow> True | _ \<Rightarrow> False),
     js_is_number_integer = (\<lambda>j. case j of JInt _ \<Rightarrow> True | JUnsigned _ \<Rightarrow> True | _ \<Rightarrow> False),
     js_is_number_float = (\<lambda>j. case j of JFloat _ \<Rightarrow> True | _ \<Rightarrow> False),
     js_get_string = (\<lambda>j. case j of JString s \<Rightarrow> s | _ \<Rightarrow> []),
     js_get_bool = (\<lambda>j. case j of JBool b \<Rightarrow> b | _ \<Rightarrow> False),
     js_get_int64 = (\<lambda>j. case j of JInt i \<Rightarrow> sint (word_of_int i :: u64) | JUnsigned w \<Rightarrow> sint w | _ \<Rightarrow> 0),
     js_get_u64 = (\<lambda>j. case j of JInt i \<Rightarrow> word_of_int i | JUnsigned w \<Rightarrow> w | _ \<Rightarrow> 0),
     js_get_double = (\<lambda>j. case j of JInt i \<Rightarrow> d_of_int i | JUnsigned w \<Rightarrow> d_of_u64 w | JFloat d \<Rightarrow> d | _ \<Rightarrow> Fin 0),
     js_items = (\<lambda>j. case j of JObject kvs \<Rightarrow> kvs | _ \<Rightarrow> []),
     js_elems = (\<lambda>j. case j of JArray js \<Rightarrow> js | _ \<Rightarrow> []),
     js_object = JObject, js_array = JArray, js_string = JString, js_boolean = JBool,
     js_unsigned = JUnsigned, js_integer = JInt, js_float = JFloat \<rparr>"

lemma sint_nonneg_uint: "0 \<le> sint (w :: u64) \<Longrightarrow> uint w = sint w"
  using sint_lt [of w] by (simp add: uint_sint take_bit_int_eq_self)

lemma jval_ints: "js_ints_agree jval_api"
  by (auto simp: js_ints_agree_def jval_api_def sint_nonneg_uint split: jval.splits)

end
