(* ===== verification/SiteMap.thy ===== *)
theory SiteMap
  imports Json Machines
begin

text \<open>
  \<^verbatim>\<open>src/site_map.cc\<close> and \<^verbatim>\<open>src/sitename_resolver.cc\<close>: which CMS site a data server belongs to, from
  a configured map of hosts and domain patterns, and from asking the server itself once.
\<close>

section \<open>The configured map\<close>

definition NormalizeKey :: "string \<Rightarrow> string" where
  "NormalizeKey s = map to_lower s"

definition HostnameOnly :: "string \<Rightarrow> string" where
  "HostnameOnly data_server =
     (if data_server = [] then []
      else if hd data_server = CHR ''['' then
        (case str_find_char data_server (CHR '']'') of
           Some end \<Rightarrow> take (end + 1) data_server
         | None \<Rightarrow> data_server)
      else case str_rfind_char data_server (CHR '':'') of
          None \<Rightarrow> data_server
        | Some colon \<Rightarrow>
            (if str_find_char data_server (CHR '':'') \<noteq> Some colon then data_server
             else take colon data_server))"

text \<open>\<open>exact_\<close> is an unordered map that is never iterated; \<open>suffixes_\<close> is kept longest first. The
  code sorts it with \<^verbatim>\<open>std::sort\<close>, which may reorder suffixes of equal length: the lookup
  does not depend on their order (\<open>first_match_unique\<close>).\<close>

record SiteMap =
  sm_exact :: "string omap"
  sm_suffixes :: "(string \<times> string) list"

definition empty_SiteMap :: SiteMap where
  "empty_SiteMap = \<lparr> sm_exact = om_empty, sm_suffixes = [] \<rparr>"

definition sm_is_empty :: "SiteMap \<Rightarrow> bool" where
  "sm_is_empty m \<longleftrightarrow> sm_exact m = [] \<and> sm_suffixes m = []"

fun replace_suffix :: "string \<Rightarrow> string \<Rightarrow> (string \<times> string) list \<Rightarrow> (string \<times> string) list option" where
  "replace_suffix s site [] = None"
| "replace_suffix s site (e # es) =
     (if fst e = s then Some ((s, site) # es) else map_option ((#) e) (replace_suffix s site es))"

definition sm_Add :: "SiteMap \<Rightarrow> string \<Rightarrow> string \<Rightarrow> SiteMap" where
  "sm_Add m host_or_pattern cms_site =
     (if host_or_pattern = [] \<or> cms_site = [] then m
      else let key = NormalizeKey host_or_pattern in
        if take 2 key = ''*.'' then
          (let suffix = drop 1 key in
           case replace_suffix suffix cms_site (sm_suffixes m) of
             Some es \<Rightarrow> m \<lparr> sm_suffixes := es \<rparr>
           | None \<Rightarrow> m \<lparr> sm_suffixes := sort_key (\<lambda>e. - int (length (fst e))) (sm_suffixes m @ [(suffix, cms_site)]) \<rparr>)
        else m \<lparr> sm_exact := om_put key cms_site (sm_exact m) \<rparr>)"

definition suffix_matches :: "string \<Rightarrow> string \<times> string \<Rightarrow> bool" where
  "suffix_matches host rule \<longleftrightarrow> length (fst rule) < length host \<and> ends_with host (fst rule)"

definition sm_Lookup :: "SiteMap \<Rightarrow> string \<Rightarrow> string" where
  "sm_Lookup m data_server =
     (if data_server = [] \<or> sm_is_empty m then []
      else case om_get (sm_exact m) (NormalizeKey data_server) of
        Some site \<Rightarrow> site
      | None \<Rightarrow>
          (let host = NormalizeKey (HostnameOnly data_server) in
           if host = [] then []
           else case om_get (sm_exact m) host of
             Some site \<Rightarrow> site
           | None \<Rightarrow> (case find (suffix_matches host) (sm_suffixes m) of
                 Some rule \<Rightarrow> snd rule | None \<Rightarrow> [])))"

text \<open>The file: \<open>content\<close> is what the path holds, \<open>None\<close> when it cannot be opened.\<close>

fun sm_AddAll :: "'j json_api \<Rightarrow> (string \<times> 'j) list \<Rightarrow> SiteMap \<Rightarrow> SiteMap res" where
  "sm_AddAll J [] m = Inr m"
| "sm_AddAll J ((k, v) # es) m =
     (if \<not> js_is_string J v
      then Inl (Runtime_error (''site map: value for '' @ quoted k @ '' must be a string''))
      else sm_AddAll J es (sm_Add m k (js_get_string J v)))"

definition sm_LoadFile :: "'j json_api \<Rightarrow> string \<Rightarrow> string option \<Rightarrow> SiteMap res" where
  "sm_LoadFile J path content =
     (case content of
        None \<Rightarrow> Inl (Runtime_error (''cannot open site map: '' @ path))
      | Some c \<Rightarrow>
          (case js_parse J c of
             Inl (Json_error e) \<Rightarrow> Inl (Runtime_error (''site map JSON parse error: '' @ e))
           | Inl e \<Rightarrow> Inl e
           | Inr doc \<Rightarrow>
               (if \<not> js_is_object J doc
                then Inl (Runtime_error (''site map: root must be a JSON object of host''
                       @ [CHR 0xE2, CHR 0x86, CHR 0x92] @ ''cms_site''))
                else sm_AddAll J (js_items J doc) empty_SiteMap)))"

section \<open>Lemmas on the map\<close>

definition sm_wf :: "SiteMap \<Rightarrow> bool" where
  "sm_wf m \<longleftrightarrow> om_wf (sm_exact m) \<and> distinct (map fst (sm_suffixes m))
     \<and> sorted (map (\<lambda>e. - int (length (fst e))) (sm_suffixes m))
     \<and> (\<forall>e \<in> set (sm_suffixes m). snd e \<noteq> []) \<and> (\<forall>e \<in> set (sm_exact m). snd e \<noteq> [])"

lemma sm_wf_empty [simp]: "sm_wf empty_SiteMap"
  by (simp add: sm_wf_def empty_SiteMap_def om_empty_def)

lemma replace_suffix_None: "replace_suffix s site es = None \<longleftrightarrow> s \<notin> fst ` set es"
  by (induction es) auto

lemma replace_suffix_Some:
  "replace_suffix s site es = Some es' \<Longrightarrow> map fst es' = map fst es \<and> (s, site) \<in> set es'
     \<and> set es' \<subseteq> insert (s, site) (set es)"
proof (induction es arbitrary: es')
  case (Cons e es)
  show ?case
  proof (cases "fst e = s")
    case True
    then show ?thesis using Cons.prems by auto
  next
    case False
    then obtain fs where "replace_suffix s site es = Some fs" "es' = e # fs" using Cons.prems by auto
    with Cons.IH [of fs] show ?thesis by auto
  qed
qed simp

lemma set_om_put: "e \<in> set (om_put k v m) \<Longrightarrow> e = (k, v) \<or> e \<in> set m"
  unfolding om_put_def by (induction m) (auto split: if_splits)

lemma distinct_fst_sort: "distinct (map fst (sort_key f xs)) \<longleftrightarrow> distinct (map fst xs)"
  by (simp add: distinct_map)

lemma sm_Add_wf: "sm_wf m \<Longrightarrow> sm_wf (sm_Add m p site)"
proof -
  assume wf: "sm_wf m"
  let ?key = "NormalizeKey p" and ?L = "\<lambda>e. - int (length (fst e))"
  consider "p = [] \<or> site = []"
    | es where "site \<noteq> []" "p \<noteq> []" "take 2 ?key = ''*.''" "replace_suffix (drop 1 ?key) site (sm_suffixes m) = Some es"
    | "site \<noteq> []" "p \<noteq> []" "take 2 ?key = ''*.''" "replace_suffix (drop 1 ?key) site (sm_suffixes m) = None"
    | "site \<noteq> []" "p \<noteq> []" "take 2 ?key \<noteq> ''*.''"
    by blast
  then show ?thesis
  proof cases
    case 1
    then show ?thesis using wf by (auto simp: sm_Add_def)
  next
    case 2
    note r = replace_suffix_Some [OF 2(4)]
    have "map ?L es = map (\<lambda>s. - int (length s)) (map fst es)" by simp
    also have "\<dots> = map ?L (sm_suffixes m)" using r by simp
    finally have "map ?L es = map ?L (sm_suffixes m)" .
    then show ?thesis using wf 2 r by (auto simp: sm_Add_def sm_wf_def Let_def)
  next
    case 3
    then have "drop 1 ?key \<notin> fst ` set (sm_suffixes m)" by (simp add: replace_suffix_None)
    moreover have "distinct (map fst (sort_key ?L (sm_suffixes m @ [(drop 1 ?key, site)])))
        \<longleftrightarrow> distinct (map fst (sm_suffixes m @ [(drop 1 ?key, site)]))"
      by (rule distinct_fst_sort)
    ultimately show ?thesis using wf 3
      by (auto simp: sm_Add_def sm_wf_def Let_def simp del: sort_key_simps)
  next
    case 4
    then show ?thesis using wf by (auto simp: sm_Add_def sm_wf_def Let_def om_put_wf dest: set_om_put)
  qed
qed

definition sm_build :: "(string \<times> string) list \<Rightarrow> SiteMap" where
  "sm_build es = foldl (\<lambda>m (p, s). sm_Add m p s) empty_SiteMap es"

lemma sm_build_wf [simp]: "sm_wf (sm_build es)"
  unfolding sm_build_def by (induction es rule: rev_induct) (auto simp: sm_Add_wf split: prod.split)

text \<open>Two rules of one length cannot both match a host.\<close>

lemma suffix_matches_unique:
  "suffix_matches h e \<Longrightarrow> suffix_matches h e' \<Longrightarrow> length (fst e) = length (fst e') \<Longrightarrow> fst e = fst e'"
  by (auto simp: suffix_matches_def ends_with_def)

lemma find_sorted_longest:
  assumes "sorted (map (\<lambda>e. - int (length (fst e))) es)" "find P es = Some r" "e \<in> set es" "P e"
  shows "length (fst e) \<le> length (fst r)"
  using assms
proof (induction es)
  case (Cons x es)
  then show ?case by (auto split: if_splits)
qed simp

lemma find_SomeD: "find P xs = Some x \<Longrightarrow> x \<in> set xs \<and> P x"
  by (induction xs) (auto split: if_splits)

lemma find_NoneD: "find P xs = None \<Longrightarrow> x \<in> set xs \<Longrightarrow> \<not> P x"
  by (induction xs) (auto split: if_splits)

lemma first_match_unique:
  assumes "distinct (map fst es)" "set es' = set es"
    and "sorted (map (\<lambda>e. - int (length (fst e))) es)" "sorted (map (\<lambda>e. - int (length (fst e))) es')"
  shows "find (suffix_matches h) es' = find (suffix_matches h) es"
proof (cases "find (suffix_matches h) es")
  case None
  then have "\<nexists>x. x \<in> set es' \<and> suffix_matches h x" using find_NoneD [OF None] assms(2) by blast
  then have "find (suffix_matches h) es' = None" by (simp only: find_None_iff not_False_eq_True)
  then show ?thesis using None by simp
next
  case (Some r)
  then have r: "r \<in> set es" "suffix_matches h r" by (auto dest: find_SomeD)
  obtain r' where r': "find (suffix_matches h) es' = Some r'"
    using r assms(2) by (cases "find (suffix_matches h) es'") (auto dest: find_NoneD)
  then have "r' \<in> set es" "suffix_matches h r'" using assms(2) by (auto dest: find_SomeD)
  moreover from this have "length (fst r) = length (fst r')"
    using find_sorted_longest [OF assms(3) Some, of r'] find_sorted_longest [OF assms(4) r', of r] r assms(2)
    by simp
  ultimately have "fst r' = fst r" using suffix_matches_unique r(2) by metis
  then have "r' = r" using \<open>r' \<in> set es\<close> r(1) assms(1) by (metis eq_key_imp_eq_value prod.collapse)
  then show ?thesis using r' Some by simp
qed


lemma om_put_nonempty [simp]: "om_put k v m \<noteq> []"
  unfolding om_put_def by (cases m) (auto split: if_splits)

lemma NormalizeKey_Nil [simp]: "NormalizeKey s = [] \<longleftrightarrow> s = []" "NormalizeKey [] = []"
  by (simp_all add: NormalizeKey_def)

lemma NormalizeKey_idem [simp]: "NormalizeKey (NormalizeKey s) = NormalizeKey s"
  by (simp add: NormalizeKey_def)

text \<open>Case plays no role in splitting off the port.\<close>

lemma to_lower_eq_iff:
  assumes "\<not> is_upper d" "\<not> is_upper (char_of (code_of d - 32))" shows "to_lower c = d \<longleftrightarrow> c = d"
proof
  assume a: "to_lower c = d"
  show "c = d"
  proof (cases "is_upper c")
    case True
    then have "d = char_of (code_of c + 32)" using a by (simp add: to_lower_def)
    moreover have "code_of (char_of (code_of c + 32)) = code_of c + 32"
      using True by (simp add: is_upper_def code_of_def)
    ultimately have "char_of (code_of d - 32) = c" by (simp add: code_of_def)
    then show ?thesis using True assms(2) by simp
  qed (use a in \<open>simp add: to_lower_def\<close>)
qed (use assms in \<open>simp add: to_lower_def\<close>)

lemma to_lower_port [simp]:
  "to_lower c = CHR '':'' \<longleftrightarrow> c = CHR '':''" "to_lower c = CHR ''['' \<longleftrightarrow> c = CHR ''[''"
  "to_lower c = CHR '']'' \<longleftrightarrow> c = CHR '']''"
  by (rule to_lower_eq_iff; simp add: is_upper_def code_of_def)+

lemma find_char_lower [simp]:
  "str_find_char (map to_lower s) (CHR '':'') = str_find_char s (CHR '':'')"
  "str_find_char (map to_lower s) (CHR '']'') = str_find_char s (CHR '']'')"
  "str_rfind_char (map to_lower s) (CHR '':'') = str_rfind_char s (CHR '':'')"
  by (induction s) (simp_all split: option.split)

lemma HostnameOnly_lower: "HostnameOnly (NormalizeKey s) = NormalizeKey (HostnameOnly s)"
  by (simp add: HostnameOnly_def NormalizeKey_def hd_map take_map split: option.split)

text \<open>Lookup ignores letter case.\<close>

theorem sm_Lookup_case_insensitive: "sm_Lookup m (NormalizeKey s) = sm_Lookup m s"
  unfolding sm_Lookup_def HostnameOnly_lower NormalizeKey_idem NormalizeKey_Nil by (rule refl)

text \<open>C40. The most specific rule wins: on a map built by any sequence of additions, a host that no
  exact entry names and that some domain pattern covers is mapped to the site of a covering pattern,
  and of no shorter one than any other that covers it; the site is never empty.\<close>

theorem sm_Lookup_longest:
  assumes "data_server \<noteq> []"
    and "om_get (sm_exact (sm_build es)) (NormalizeKey data_server) = None"
    and "om_get (sm_exact (sm_build es)) (NormalizeKey (HostnameOnly data_server)) = None"
    and "rule \<in> set (sm_suffixes (sm_build es))" "suffix_matches (NormalizeKey (HostnameOnly data_server)) rule"
  shows "\<exists>r \<in> set (sm_suffixes (sm_build es)). suffix_matches (NormalizeKey (HostnameOnly data_server)) r
    \<and> length (fst rule) \<le> length (fst r) \<and> sm_Lookup (sm_build es) data_server = snd r \<and> snd r \<noteq> []"
proof -
  let ?m = "sm_build es" and ?h = "NormalizeKey (HostnameOnly data_server)"
  have wf: "sm_wf ?m" by simp
  have h: "?h \<noteq> []" using assms(5) by (auto simp: suffix_matches_def)
  obtain r where r: "find (suffix_matches ?h) (sm_suffixes ?m) = Some r"
    using assms(4,5) by (cases "find (suffix_matches ?h) (sm_suffixes ?m)") (auto dest: find_NoneD)
  then have "r \<in> set (sm_suffixes ?m)" "suffix_matches ?h r" by (auto dest: find_SomeD)
  moreover from this have "snd r \<noteq> []" using wf by (simp add: sm_wf_def)
  moreover have "length (fst rule) \<le> length (fst r)"
    using wf r assms(4,5) find_sorted_longest [of "sm_suffixes ?m" "suffix_matches ?h" r rule]
    by (simp add: sm_wf_def)
  moreover have "sm_Lookup ?m data_server = snd r"
    using assms(1-4) h r by (auto simp: sm_Lookup_def sm_is_empty_def Let_def)
  ultimately show ?thesis by blast
qed

lemma sm_Lookup_longest_witness:
  "\<exists>r \<in> set (sm_suffixes (sm_build [(''*.gov'', ''A''), (''*.fnal.gov'', ''B'')])).
     suffix_matches (NormalizeKey (HostnameOnly ''x.fnal.gov:1094'')) r \<and> length ''.gov'' \<le> length (fst r)
     \<and> sm_Lookup (sm_build [(''*.gov'', ''A''), (''*.fnal.gov'', ''B'')]) ''x.fnal.gov:1094'' = snd r \<and> snd r \<noteq> []"
  using sm_Lookup_longest [of "''x.fnal.gov:1094''" "[(''*.gov'', ''A''), (''*.fnal.gov'', ''B'')]" "(''.gov'', ''A'')"]
  by (simp add: sm_build_def sm_Add_def empty_SiteMap_def NormalizeKey_def to_lower_def is_upper_def code_of_def
      suffix_matches_def ends_with_def HostnameOnly_def)

lemma sm_Add_sites:
  "e \<in> set (sm_suffixes (sm_Add m p s)) \<union> set (sm_exact (sm_Add m p s)) \<Longrightarrow>
    snd e = s \<or> e \<in> set (sm_suffixes m) \<union> set (sm_exact m)"
  by (auto simp: sm_Add_def Let_def split: if_splits option.splits dest!: set_om_put replace_suffix_Some)

lemma sm_build_sites:
  "e \<in> set (sm_suffixes (sm_build es)) \<union> set (sm_exact (sm_build es)) \<Longrightarrow> snd e \<in> snd ` set es"
proof (induction es rule: rev_induct)
  case Nil
  then show ?case by (simp add: sm_build_def empty_SiteMap_def om_empty_def)
next
  case (snoc x es)
  obtain p s where x: "x = (p, s)" by (cases x)
  then have "e \<in> set (sm_suffixes (sm_Add (sm_build es) p s)) \<union> set (sm_exact (sm_Add (sm_build es) p s))"
    using snoc.prems by (simp add: sm_build_def)
  then show ?case using sm_Add_sites [of e "sm_build es" p s] snoc.IH by (auto simp: x)
qed


text \<open>Never invents a site: whatever is looked up, the answer is empty or one of the sites that were
  added.\<close>

theorem sm_Lookup_never_invents: "sm_Lookup (sm_build es) data_server \<in> insert [] (snd ` set es)"
proof -
  have "snd r \<in> snd ` set es" if "find P (sm_suffixes (sm_build es)) = Some r" for P r
    using that sm_build_sites by (blast dest: find_SomeD)
  moreover have "v \<in> snd ` set es" if "om_get (sm_exact (sm_build es)) k = Some v" for k v
    using that sm_build_sites [of "(k, v)"] by (auto simp: om_get_def dest: map_of_SomeD)
  ultimately show ?thesis unfolding sm_Lookup_def Let_def by (auto split: option.split)
qed

section \<open>Asking the server\<close>

definition NormalizeSitename :: "string \<Rightarrow> string" where
  "NormalizeSitename raw =
     dropWhile is_space (rev (dropWhile (\<lambda>c. code_of c = 0 \<or> is_space c) (rev raw)))"

text \<open>\<^verbatim>\<open>XrdCl::FileSystem::Query\<close> on the data server is \<open>ask\<close>: the text of its answer, \<open>None\<close> for a
  failed status or a null response.\<close>

definition QueryXrdClSitename :: "(string \<Rightarrow> string option) \<Rightarrow> string \<Rightarrow> string" where
  "QueryXrdClSitename ask data_server =
     (if data_server = [] \<or> data_server = ''unknown'' then []
      else case ask (''root://'' @ data_server @ ''/'') of
        None \<Rightarrow> []
      | Some response \<Rightarrow>
          (let out = NormalizeSitename response in
           if out = [] \<or> out = ''sitename'' \<or> out = ''...'' \<or> out = ''n/a'' \<or> out = ''N/A'' then [] else out))"

text \<open>\<open>cache_\<close> holds the successful answers; the resolver's query runs outside its lock, so what
  another thread stored meanwhile is an argument: the cache the second critical section finds.\<close>

type_synonym SitenameCache = "string omap"

definition Resolve_hit :: "SitenameCache \<Rightarrow> string \<Rightarrow> string option" where
  "Resolve_hit cache data_server =
     (if data_server = [] \<or> data_server = ''unknown'' then Some [] else om_get cache data_server)"

definition Resolve_store :: "SitenameCache \<Rightarrow> string \<Rightarrow> string \<Rightarrow> string \<times> SitenameCache" where
  "Resolve_store cache data_server site =
     (if site = [] then ([], cache)
      else let cache' = om_upsert data_server (\<lambda>v. case v of None \<Rightarrow> site | Some s \<Rightarrow> s) cache
           in (case om_get cache' data_server of Some s \<Rightarrow> s | None \<Rightarrow> [], cache'))"

definition Resolve :: "(string \<Rightarrow> string) \<Rightarrow> SitenameCache \<Rightarrow> string \<Rightarrow> string \<times> SitenameCache" where
  "Resolve query cache data_server =
     (case Resolve_hit cache data_server of
        Some s \<Rightarrow> (s, cache)
      | None \<Rightarrow> Resolve_store cache data_server (query data_server))"

definition cache_ok :: "SitenameCache \<Rightarrow> bool" where
  "cache_ok c \<longleftrightarrow> om_wf c \<and> (\<forall>e \<in> set c. snd e \<noteq> [] \<and> fst e \<noteq> [] \<and> fst e \<noteq> ''unknown'')"

lemma cache_okI:
  "om_wf c \<Longrightarrow> (\<And>k v. om_get c k = Some v \<Longrightarrow> v \<noteq> [] \<and> k \<noteq> [] \<and> k \<noteq> ''unknown'') \<Longrightarrow> cache_ok c"
  using om.items_iff by (fastforce simp: cache_ok_def)

lemma cache_ok_get: "cache_ok c \<Longrightarrow> om_get c k = Some v \<Longrightarrow> v \<noteq> [] \<and> k \<noteq> [] \<and> k \<noteq> ''unknown''"
  using om.items_iff [of c k v] by (fastforce simp: cache_ok_def)

lemma Resolve_store_ok:
  assumes "cache_ok c" "ds \<noteq> []" "ds \<noteq> ''unknown''" shows "cache_ok (snd (Resolve_store c ds site))"
proof (cases "site = []")
  case True
  then show ?thesis using assms by (simp add: Resolve_store_def)
next
  case False
  have wf: "om_wf c" using assms(1) by (simp add: cache_ok_def)
  let ?f = "\<lambda>v. case v of None \<Rightarrow> site | Some s \<Rightarrow> s"
  have "cache_ok (om_upsert ds ?f c)"
  proof (rule cache_okI)
    fix k v assume g: "om_get (om_upsert ds ?f c) k = Some v"
    show "v \<noteq> [] \<and> k \<noteq> [] \<and> k \<noteq> ''unknown''"
      using g assms False cache_ok_get [OF assms(1), of k]
      by (auto simp: om_get_upsert [OF wf] split: if_splits option.splits)
  qed (rule om_wf_upsert [OF wf])
  then show ?thesis using False by (simp add: Resolve_store_def Let_def)
qed

lemma Resolve_ok: "cache_ok c \<Longrightarrow> cache_ok (snd (Resolve q c ds))"
  using Resolve_store_ok [of c ds "q ds"] by (auto simp: Resolve_def Resolve_hit_def split: option.split)

lemma Resolve_keeps:
  assumes "cache_ok c" "om_get c k = Some s" shows "om_get (snd (Resolve q c ds)) k = Some s"
proof -
  have wf: "om_wf c" using assms(1) by (simp add: cache_ok_def)
  show ?thesis using assms(2)
    by (auto simp: Resolve_def Resolve_hit_def Resolve_store_def Let_def om_get_upsert [OF wf] split: option.split)
qed

text \<open>A resolution is a call of the cache; the answers of the servers may change from call to call.\<close>

definition resolver_step :: "SitenameCache \<Rightarrow> (string \<Rightarrow> string) \<times> string \<Rightarrow> SitenameCache" where
  "resolver_step c x = snd (Resolve (fst x) c (snd x))"

interpretation resolver: machine resolver_step "\<lambda>c. cache_ok c \<and> om_get c k = Some s" "\<lambda>_. True" for k s
  by unfold_locales (auto simp: resolver_step_def Resolve_ok Resolve_keeps)

lemma Resolve_found:
  assumes "cache_ok c" "fst (Resolve q c ds) = s" "s \<noteq> []"
  shows "om_get (snd (Resolve q c ds)) ds = Some s"
proof -
  have wf: "om_wf c" using assms(1) by (simp add: cache_ok_def)
  show ?thesis using assms(2,3)
    by (auto simp: Resolve_def Resolve_hit_def Resolve_store_def Let_def om_get_upsert [OF wf]
        split: option.splits if_splits)
qed

text \<open>Answers are cached, failures are not: after a resolution that found a site, every later one
  of the same server returns that site, whatever the servers would answer then and whatever other
  resolutions come in between; a resolution that finds none leaves the cache as it was.\<close>

theorem Resolve_cached:
  assumes "cache_ok c"
  shows "if fst (Resolve q c ds) = [] then snd (Resolve q c ds) = c
         else fst (Resolve q' (foldl resolver_step (snd (Resolve q c ds)) xs) ds) = fst (Resolve q c ds)"
proof (cases "fst (Resolve q c ds) = []")
  case True
  have "snd (Resolve q c ds) = c"
  proof (cases "Resolve_hit c ds")
    case None
    then have n: "om_get c ds = None" by (auto simp: Resolve_hit_def split: if_splits)
    have wf: "om_wf c" using assms by (simp add: cache_ok_def)
    have "q ds = []"
    proof (rule ccontr)
      assume "q ds \<noteq> []"
      then show False using True None n by (auto simp: Resolve_def Resolve_store_def Let_def om_get_upsert [OF wf])
    qed
    then show ?thesis using None by (simp add: Resolve_def Resolve_store_def)
  qed (simp add: Resolve_def)
  then show ?thesis using True by simp
next
  case False
  let ?s = "fst (Resolve q c ds)" and ?c = "snd (Resolve q c ds)"
  have g: "om_get ?c ds = Some ?s" using Resolve_found [OF assms refl False] .
  have ok: "cache_ok ?c" using assms by (rule Resolve_ok)
  have "cache_ok (foldl resolver_step ?c xs) \<and> om_get (foldl resolver_step ?c xs) ds = Some ?s"
    using ok g by (intro resolver.inv_run) (simp_all add: list_all_iff)
  then have "Resolve_hit (foldl resolver_step ?c xs) ds = Some ?s"
    using cache_ok_get [OF ok g] by (simp add: Resolve_hit_def)
  then show ?thesis using False by (simp add: Resolve_def)
qed

lemma Resolve_cached_witness:
  "fst (Resolve (\<lambda>_. ''B'') (foldl resolver_step [(''h:1'', ''A'')] [((\<lambda>_. ''C''), ''g:1'')]) ''h:1'') = ''A''"
proof -
  have "cache_ok om_empty" by (simp add: cache_ok_def om_empty_def)
  from Resolve_cached [OF this, of "\<lambda>_. ''A''" "''h:1''" "\<lambda>_. ''B''" "[((\<lambda>_. ''C''), ''g:1'')]"]
  show ?thesis by (simp add: Resolve_def Resolve_hit_def Resolve_store_def om_empty_def om_get_def)
qed

end
