(* ===== verification/Metrics.thy ===== *)
theory Metrics
  imports ErrorClassifier SiteMap
begin

text \<open>
  \<^verbatim>\<open>src/metrics.cc\<close>: the latency histograms, the counters of a run and their attribution to data
  servers and CMS sites. Every counter is a 64-bit atomic that wraps; a call of the registry is
  modelled as one step, so a run of it is a list of calls in the order their updates land.
\<close>

section \<open>Histograms\<close>

definition kLatencyBucketBounds :: "double list" where
  "kLatencyBucketBounds = map (\<lambda>x. lit x)
     [1/1000, 2/1000, 5/1000, 1/100, 2/100, 5/100, 1/10, 2/10, 5/10, 1, 2, 5, 10, 20, 30]"

definition kHistogramBuckets :: nat where
  "kHistogramBuckets = 16"

record Histogram =
  hi_buckets :: "u64 list"
  hi_count :: u64
  hi_sum_us :: u64

record HistogramSnapshot =
  hs_bounds :: "double list"
  hs_counts :: "u64 list"
  hs_count :: u64
  hs_sum :: double

definition new_Histogram :: Histogram where
  "new_Histogram = \<lparr> hi_buckets = replicate kHistogramBuckets 0, hi_count = 0, hi_sum_us = 0 \<rparr>"

fun bucket_from :: "double \<Rightarrow> double list \<Rightarrow> nat \<Rightarrow> nat" where
  "bucket_from v [] i = kHistogramBuckets - 1"
| "bucket_from v (b # bs) i = (if dle v b then i else bucket_from v bs (Suc i))"

definition BucketIndex :: "double \<Rightarrow> nat" where
  "BucketIndex v = bucket_from v kLatencyBucketBounds 0"

definition Observe :: "Histogram \<Rightarrow> double \<Rightarrow> Histogram res" where
  "Observe h value =
     (let value = (if dlt value (Fin 0) \<or> \<not> is_finite value then Fin 0 else value)
      in res_bind (cast_u64 (dmul value (Fin (10 ^ 6)))) (\<lambda>us.
           let i = BucketIndex value
           in Inr (h \<lparr> hi_sum_us := hi_sum_us h + us, hi_count := hi_count h + 1,
                        hi_buckets := (hi_buckets h)[i := hi_buckets h ! i + 1] \<rparr>)))"

definition Histogram_Snapshot :: "Histogram \<Rightarrow> HistogramSnapshot" where
  "Histogram_Snapshot h =
     \<lparr> hs_bounds = kLatencyBucketBounds, hs_counts = hi_buckets h, hs_count = hi_count h,
        hs_sum = ddiv (d_of_u64 (hi_sum_us h)) (Fin (10 ^ 6)) \<rparr>"

text \<open>\<^verbatim>\<open>HistogramPercentile\<close>; the loop runs over the buckets with the cumulated count before each.\<close>

definition dclamp01 :: "double \<Rightarrow> double" where
  "dclamp01 p = (if dlt p (Fin 0) then Fin 0 else if dlt (Fin 1) p then Fin 1 else p)"

definition bucket_lower :: "double list \<Rightarrow> nat \<Rightarrow> double" where
  "bucket_lower bounds i = (if i = 0 then Fin 0 else bounds ! (i - 1))"

definition bucket_upper :: "double list \<Rightarrow> nat \<Rightarrow> double" where
  "bucket_upper bounds i = (if i < length bounds then bounds ! i
     else if bounds = [] then Fin 0 else dmul (last bounds) (Fin 2))"

fun percentile_loop :: "double list \<Rightarrow> double \<Rightarrow> u64 list \<Rightarrow> nat \<Rightarrow> u64 \<Rightarrow> double" where
  "percentile_loop bounds target [] i cum = (if bounds = [] then Fin 0 else last bounds)"
| "percentile_loop bounds target (c # cs) i prev =
     (let cum = prev + c in
      if dlt (d_of_u64 cum) target then percentile_loop bounds target cs (Suc i) cum
      else let lower = bucket_lower bounds i; upper = bucket_upper bounds i in
        if c = 0 then upper
        else let frac = ddiv (dsub target (d_of_u64 prev)) (d_of_u64 c)
             in dadd lower (dmul frac (dsub upper lower)))"

definition HistogramPercentile :: "HistogramSnapshot \<Rightarrow> double \<Rightarrow> double" where
  "HistogramPercentile h p =
     (if hs_count h = 0 \<or> hs_counts h = [] then Fin 0
      else percentile_loop (hs_bounds h) (dmul (dclamp01 p) (d_of_u64 (hs_count h))) (hs_counts h) 0 0)"

section \<open>Observing\<close>

text \<open>Values below \<open>2 ^ 44\<close> seconds, and the ones that count as zero, convert to microseconds.\<close>

fun obs_ok :: "double \<Rightarrow> bool" where
  "obs_ok (Fin x) \<longleftrightarrow> x \<le> 2 ^ 44"
| "obs_ok _ \<longleftrightarrow> True"

lemma bucket_from_less: "i + length bs < kHistogramBuckets \<Longrightarrow> bucket_from v bs i < kHistogramBuckets"
  by (induction bs arbitrary: i) (auto simp: kHistogramBuckets_def)

lemma BucketIndex_less: "BucketIndex v < kHistogramBuckets"
  unfolding BucketIndex_def
  by (rule bucket_from_less) (simp add: kLatencyBucketBounds_def kHistogramBuckets_def)

lemma us_cast:
  assumes "0 \<le> x" "x \<le> 2 ^ 44" shows "\<exists>us. cast_u64 (dmul (Fin x) (Fin (10 ^ 6))) = Inr us"
proof -
  have "x * 10 ^ 6 \<le> 2 ^ 44 * 10 ^ 6" using assms by (intro mult_right_mono) simp_all
  then have a: "x * 10 ^ 6 \<le> 2 ^ 64 - 2 ^ 11" "0 \<le> x * 10 ^ 6" using assms by simp_all
  have "round53 (2 ^ 64 - 2 ^ 11) = (2 ^ 64 - 2 ^ 11 :: rat)"
    using round53_exact [of "2 ^ 53 - 1" 11] by simp
  then have "round53 (x * 10 ^ 6) \<le> 2 ^ 64 - 2 ^ 11" using a(1) by (intro round53_le_exact)
  moreover have "rnd (x * 10 ^ 6) = Fin (round53 (x * 10 ^ 6))"
    using a by (intro rnd_small) simp
  moreover have "0 \<le> round53 (x * 10 ^ 6)" using a(2) by (rule round53_nonneg)
  ultimately show ?thesis by simp
qed

lemma Observe_returns:
  assumes "obs_ok v"
  shows "\<exists>us i. i < kHistogramBuckets \<and> Observe h v = Inr (h \<lparr> hi_sum_us := hi_sum_us h + us,
    hi_count := hi_count h + 1, hi_buckets := (hi_buckets h)[i := hi_buckets h ! i + 1] \<rparr>)"
proof -
  let ?v = "if dlt v (Fin 0) \<or> \<not> is_finite v then Fin 0 else v"
  have "?v = Fin (case v of Fin x \<Rightarrow> max 0 x | _ \<Rightarrow> 0)"
    by (cases v) (auto simp: is_finite_def max_def)
  moreover have "(case v of Fin x \<Rightarrow> max 0 x | _ \<Rightarrow> 0) \<le> 2 ^ 44" using assms by (cases v) auto
  moreover have "0 \<le> (case v of Fin x \<Rightarrow> max 0 x | _ \<Rightarrow> 0)" by (cases v) auto
  ultimately obtain x where x: "?v = Fin x" "0 \<le> x" "x \<le> 2 ^ 44" by blast
  obtain us where us: "cast_u64 (dmul (Fin x) (Fin (10 ^ 6))) = Inr us" using us_cast [OF x(2,3)] by blast
  then have "Observe h v = Inr (h \<lparr> hi_sum_us := hi_sum_us h + us, hi_count := hi_count h + 1,
      hi_buckets := (hi_buckets h)[BucketIndex (Fin x) := hi_buckets h ! BucketIndex (Fin x) + 1] \<rparr>)"
    unfolding Observe_def x(1) Let_def us by simp
  then show ?thesis using BucketIndex_less by blast
qed

definition hist_step :: "Histogram \<Rightarrow> double \<Rightarrow> Histogram" where
  "hist_step h v = (case Observe h v of Inr h' \<Rightarrow> h' | Inl _ \<Rightarrow> h)"

definition hist_ok :: "Histogram \<Rightarrow> bool" where
  "hist_ok h \<longleftrightarrow> length (hi_buckets h) = kHistogramBuckets \<and> sum_list (hi_buckets h) = hi_count h"

lemma sum_list_bump: "i < length xs \<Longrightarrow> sum_list (xs[i := xs ! i + 1]) = sum_list xs + (1 :: u64)"
  by (induction xs arbitrary: i) (auto split: nat.split simp: algebra_simps)

lemma hist_step_ok:
  assumes "hist_ok h" "obs_ok v" shows "hist_ok (hist_step h v)" "hi_count (hist_step h v) = hi_count h + 1"
proof -
  obtain us i where "i < kHistogramBuckets" "Observe h v = Inr (h \<lparr> hi_sum_us := hi_sum_us h + us,
      hi_count := hi_count h + 1, hi_buckets := (hi_buckets h)[i := hi_buckets h ! i + 1] \<rparr>)"
    using Observe_returns [OF assms(2)] by blast
  then show "hist_ok (hist_step h v)" "hi_count (hist_step h v) = hi_count h + 1"
    using assms(1) sum_list_bump [of i "hi_buckets h"] by (simp_all add: hist_step_def hist_ok_def)
qed

interpretation hist: ledger_machine hist_step hist_ok obs_ok hi_count "\<lambda>_ _. 1"
  by unfold_locales (rule hist_step_ok; assumption)+

text \<open>No observation is lost or counted twice: after any sequence of observations (negative,
  infinite and NaN ones included), the sixteen buckets add up to the count, and the count is the
  number of observations, both modulo \<open>2 ^ 64\<close>.\<close>

theorem Histogram_counts:
  assumes "list_all obs_ok vs"
  shows "sum_list (hs_counts (Histogram_Snapshot (foldl hist_step new_Histogram vs)))
      = hs_count (Histogram_Snapshot (foldl hist_step new_Histogram vs))
    \<and> hs_count (Histogram_Snapshot (foldl hist_step new_Histogram vs)) = of_nat (length vs)
    \<and> length (hs_counts (Histogram_Snapshot (foldl hist_step new_Histogram vs))) = kHistogramBuckets"
proof -
  have i: "hist_ok new_Histogram" by (simp add: hist_ok_def new_Histogram_def sum_list_replicate)
  have "hi_count (foldl hist_step new_Histogram vs) = of_nat (length vs)"
    using hist.bal_run [OF i assms] by (simp add: new_Histogram_def trace_sum_const [of _ 1, simplified])
  then show ?thesis using hist.inv_run [OF i assms] by (simp add: Histogram_Snapshot_def hist_ok_def)
qed

lemma Histogram_counts_witness:
  "sum_list (hs_counts (Histogram_Snapshot (foldl hist_step new_Histogram [Fin (-1), Fin 3, NaN])))
     = hs_count (Histogram_Snapshot (foldl hist_step new_Histogram [Fin (-1), Fin 3, NaN]))"
  using Histogram_counts [of "[Fin (-1), Fin 3, NaN]"] by simp

end
