(* ===== verification/Registry.thy ===== *)
theory Registry
  imports Metrics
begin

text \<open>
  \<^verbatim>\<open>src/metrics.cc\<close>, continued: \<^verbatim>\<open>MetricsRegistry\<close>, its attribution of every session to a data
  server, and the snapshot with the roll-up to CMS sites.
\<close>

section \<open>State\<close>

definition kUnknownDataServer :: string where
  "kUnknownDataServer = ''unknown''"

definition kUnmappedCmsSite :: string where
  "kUnmappedCmsSite = ''unmapped''"

definition kSoftFaultKinds :: "string list" where
  "kSoftFaultKinds = [''connection'', ''timeout'', ''tls_auth'', ''io'', ''redirect'', ''other'']"

text \<open>The enumerators of \<^verbatim>\<open>ErrorClass\<close> in order; a class's number is its place.\<close>

definition kErrorClasses :: "ErrorClass list" where
  "kErrorClasses = [NoError, Auth, Timeout, Connection, ServerError, NotFound, ClientError, RedirectLoop,
     Trust, Expired, NoReplicas, Unknown]"

fun index_of :: "'a list \<Rightarrow> 'a \<Rightarrow> nat" where
  "index_of [] x = 0"
| "index_of (y # ys) x = (if x = y then 0 else Suc (index_of ys x))"

definition error_index :: "ErrorClass \<Rightarrow> nat" where
  "error_index c = index_of kErrorClasses c"

record EndpointStats =
  ep_data_server :: string
  ep_cms_site :: string
  ep_bytes_read :: u64
  ep_sessions_ok :: u64
  ep_sessions_fail :: u64
  ep_errors_by_class :: "u64 omap"

record SiteStats =
  st_cms_site :: string
  st_bytes_read :: u64
  st_sessions_ok :: u64
  st_sessions_fail :: u64
  st_errors_by_class :: "u64 omap"

record MetricsRegistry =
  mr_run_id :: string
  mr_job_id :: string
  mr_host :: string
  mr_target :: string
  mr_endpoint :: string
  mr_site_map :: "SiteMap option"
  mr_bytes_read_total :: u64
  mr_sessions_ok :: u64
  mr_sessions_fail :: u64
  mr_read_ops_total :: u64
  mr_target_rate_bytes :: u64
  mr_max_inflight :: u32
  mr_inflight_reads :: u64
  mr_open_seconds :: Histogram
  mr_ttfb_seconds :: Histogram
  mr_read_seconds :: Histogram
  mr_read_op_seconds :: Histogram
  mr_redirects_per_open :: Histogram
  mr_errors_by_class :: "u64 list"
  mr_soft_faults_by_kind :: "u64 list"
  mr_cpu_us :: u64
  mr_rss_bytes :: u64
  mr_by_data_server :: "EndpointStats omap"

definition new_EndpointStats :: EndpointStats where
  "new_EndpointStats = \<lparr> ep_data_server = [], ep_cms_site = [], ep_bytes_read = 0, ep_sessions_ok = 0,
     ep_sessions_fail = 0, ep_errors_by_class = om_empty \<rparr>"

definition new_SiteStats :: SiteStats where
  "new_SiteStats = \<lparr> st_cms_site = [], st_bytes_read = 0, st_sessions_ok = 0, st_sessions_fail = 0,
     st_errors_by_class = om_empty \<rparr>"

definition new_MetricsRegistry :: MetricsRegistry where
  "new_MetricsRegistry = \<lparr> mr_run_id = [], mr_job_id = [], mr_host = [], mr_target = [], mr_endpoint = [],
     mr_site_map = None, mr_bytes_read_total = 0, mr_sessions_ok = 0, mr_sessions_fail = 0,
     mr_read_ops_total = 0, mr_target_rate_bytes = 0, mr_max_inflight = 0, mr_inflight_reads = 0,
     mr_open_seconds = new_Histogram, mr_ttfb_seconds = new_Histogram, mr_read_seconds = new_Histogram,
     mr_read_op_seconds = new_Histogram, mr_redirects_per_open = new_Histogram,
     mr_errors_by_class = replicate 12 0, mr_soft_faults_by_kind = replicate 6 0,
     mr_cpu_us = 0, mr_rss_bytes = 0, mr_by_data_server = om_empty \<rparr>"

section \<open>Operations\<close>

text \<open>\<^verbatim>\<open>gethostname\<close> into a 256-byte buffer: \<open>None\<close> when the call fails.\<close>

definition LocalHostname :: "string option \<Rightarrow> string" where
  "LocalHostname name = (case name of None \<Rightarrow> ''unknown''
     | Some s \<Rightarrow> (let h = takeWhile (\<lambda>c. code_of c \<noteq> 0) (take 255 s) in if h = [] then ''unknown'' else h))"

definition mr_SetLabels ::
  "string option \<Rightarrow> string \<Rightarrow> string \<Rightarrow> string \<Rightarrow> string \<Rightarrow> MetricsRegistry \<Rightarrow> MetricsRegistry" where
  "mr_SetLabels hostname run_id job_id target endpoint r =
     r \<lparr> mr_run_id := run_id, mr_job_id := job_id, mr_target := target, mr_endpoint := endpoint,
         mr_host := (if mr_host r = [] then LocalHostname hostname else mr_host r) \<rparr>"

definition mr_SetHost :: "string option \<Rightarrow> string \<Rightarrow> MetricsRegistry \<Rightarrow> MetricsRegistry" where
  "mr_SetHost hostname host r = r \<lparr> mr_host := (if host = [] then LocalHostname hostname else host) \<rparr>"

definition mr_SetConfigGauges :: "u64 \<Rightarrow> u32 \<Rightarrow> MetricsRegistry \<Rightarrow> MetricsRegistry" where
  "mr_SetConfigGauges rate max_inflight r = r \<lparr> mr_target_rate_bytes := rate, mr_max_inflight := max_inflight \<rparr>"

definition mr_SetSiteMap :: "SiteMap option \<Rightarrow> MetricsRegistry \<Rightarrow> MetricsRegistry" where
  "mr_SetSiteMap m r = r \<lparr> mr_site_map := m \<rparr>"

text \<open>The entry a session is attributed to, and what it adds there.\<close>

definition attribute_entry ::
  "SiteMap option \<Rightarrow> string \<Rightarrow> bool \<Rightarrow> u64 \<Rightarrow> ErrorClass \<Rightarrow> string \<Rightarrow> EndpointStats option \<Rightarrow> EndpointStats" where
  "attribute_entry site_map key ok bytes error_class cms_site old =
     (let ep = (case old of None \<Rightarrow> new_EndpointStats | Some e \<Rightarrow> e) \<lparr> ep_data_server := key \<rparr>;
          ep = (if ep_cms_site ep = []
                then (if cms_site \<noteq> [] then ep \<lparr> ep_cms_site := cms_site \<rparr>
                      else case site_map of None \<Rightarrow> ep | Some m \<Rightarrow> ep \<lparr> ep_cms_site := sm_Lookup m key \<rparr>)
                else ep)
      in if ok then ep \<lparr> ep_bytes_read := ep_bytes_read ep + bytes, ep_sessions_ok := ep_sessions_ok ep + 1 \<rparr>
         else let ep = ep \<lparr> ep_sessions_fail := ep_sessions_fail ep + 1 \<rparr>
              in if error_class \<noteq> NoError
                 then ep \<lparr> ep_errors_by_class := om_count (ErrorClassName error_class) 1 (ep_errors_by_class ep) \<rparr>
                 else ep)"

definition mr_AttributeLocked ::
  "string \<Rightarrow> bool \<Rightarrow> u64 \<Rightarrow> ErrorClass \<Rightarrow> string \<Rightarrow> MetricsRegistry \<Rightarrow> MetricsRegistry" where
  "mr_AttributeLocked data_server ok bytes error_class cms_site r =
     (let key = (if data_server = [] then kUnknownDataServer else data_server)
      in r \<lparr> mr_by_data_server := om_upsert key
               (attribute_entry (mr_site_map r) key ok bytes error_class cms_site) (mr_by_data_server r) \<rparr>)"

definition mr_ObserveSessionOk ::
  "u64 \<Rightarrow> u64 \<Rightarrow> double \<Rightarrow> double \<Rightarrow> double \<Rightarrow> double \<Rightarrow> string \<Rightarrow> string \<Rightarrow> MetricsRegistry \<Rightarrow> MetricsRegistry res" where
  "mr_ObserveSessionOk bytes ops open_s ttfb_s read_s redirects data_server cms_site r =
     (let r = r \<lparr> mr_bytes_read_total := mr_bytes_read_total r + bytes,
                  mr_sessions_ok := mr_sessions_ok r + 1,
                  mr_read_ops_total := mr_read_ops_total r + ops \<rparr>
      in res_bind (Observe (mr_open_seconds r) open_s) (\<lambda>h1.
         res_bind (Observe (mr_ttfb_seconds r) ttfb_s) (\<lambda>h2.
         res_bind (Observe (mr_read_seconds r) read_s) (\<lambda>h3.
         res_bind (Observe (mr_redirects_per_open r) redirects) (\<lambda>h4.
           Inr (mr_AttributeLocked data_server True bytes NoError cms_site
             (r \<lparr> mr_open_seconds := h1, mr_ttfb_seconds := h2, mr_read_seconds := h3,
                 mr_redirects_per_open := h4 \<rparr>)))))))"

definition mr_ObserveReadOp :: "double \<Rightarrow> MetricsRegistry \<Rightarrow> MetricsRegistry res" where
  "mr_ObserveReadOp seconds r =
     res_bind (Observe (mr_read_op_seconds r) seconds) (\<lambda>h. Inr (r \<lparr> mr_read_op_seconds := h \<rparr>))"

definition bump :: "nat \<Rightarrow> u64 list \<Rightarrow> u64 list" where
  "bump i xs = xs[i := xs ! i + 1]"

definition mr_ObserveSessionFail :: "ErrorClass \<Rightarrow> string \<Rightarrow> string \<Rightarrow> MetricsRegistry \<Rightarrow> MetricsRegistry" where
  "mr_ObserveSessionFail error_class data_server cms_site r =
     mr_AttributeLocked data_server False 0 error_class cms_site
       (r \<lparr> mr_sessions_fail := mr_sessions_fail r + 1,
            mr_errors_by_class := bump (error_index error_class) (mr_errors_by_class r) \<rparr>)"

definition soft_fault_index :: "string \<Rightarrow> nat" where
  "soft_fault_index kind = (let i = index_of (butlast kSoftFaultKinds) kind in min i (length kSoftFaultKinds - 1))"

definition mr_ObserveSoftFault :: "string \<Rightarrow> MetricsRegistry \<Rightarrow> MetricsRegistry" where
  "mr_ObserveSoftFault kind r =
     r \<lparr> mr_soft_faults_by_kind := bump (soft_fault_index kind) (mr_soft_faults_by_kind r) \<rparr>"

text \<open>\<^verbatim>\<open>SoftFaultLogOut::Write\<close>, the counting half: only Error-level lines count.\<close>

definition SoftFaultLogOut_Write :: "string \<Rightarrow> MetricsRegistry \<Rightarrow> MetricsRegistry" where
  "SoftFaultLogOut_Write message r =
     (if IsXrdClErrorLogLine message then mr_ObserveSoftFault (ClassifySoftFaultMessage message) r else r)"

definition mr_SetInflight :: "u64 \<Rightarrow> MetricsRegistry \<Rightarrow> MetricsRegistry" where
  "mr_SetInflight live r = r \<lparr> mr_inflight_reads := live \<rparr>"

definition mr_SetCmsSite :: "string \<Rightarrow> string \<Rightarrow> MetricsRegistry \<Rightarrow> MetricsRegistry" where
  "mr_SetCmsSite data_server cms_site r =
     (if data_server = [] \<or> cms_site = [] then r
      else case om_get (mr_by_data_server r) data_server of
        None \<Rightarrow> r
      | Some ep \<Rightarrow> r \<lparr> mr_by_data_server :=
          om_upsert data_server (\<lambda>_. ep \<lparr> ep_cms_site := cms_site \<rparr>) (mr_by_data_server r) \<rparr>)"

definition mr_DataServersMissingSite :: "MetricsRegistry \<Rightarrow> string list" where
  "mr_DataServersMissingSite r =
     map fst (filter (\<lambda>(k, ep). ep_cms_site ep = [] \<and> k \<noteq> kUnknownDataServer) (mr_by_data_server r))"

text \<open>\<open>sample\<close> is what \<^verbatim>\<open>SampleProcess\<close> found: CPU seconds and resident bytes.\<close>

definition mr_SampleProc :: "double \<times> u64 \<Rightarrow> MetricsRegistry \<Rightarrow> MetricsRegistry res" where
  "mr_SampleProc sample r = (case sample of (cpu_seconds, rss_bytes) \<Rightarrow>
     res_bind (cast_u64 (dmul cpu_seconds (Fin (10 ^ 6)))) (\<lambda>us.
       Inr (r \<lparr> mr_cpu_us := us, mr_rss_bytes := rss_bytes \<rparr>)))"

section \<open>The snapshot\<close>

record MetricsSnapshot =
  ms_run_id :: string
  ms_job_id :: string
  ms_host :: string
  ms_target :: string
  ms_endpoint :: string
  ms_wall_s :: double
  ms_bytes_read_total :: u64
  ms_sessions_ok :: u64
  ms_sessions_fail :: u64
  ms_read_ops_total :: u64
  ms_target_rate_bytes :: double
  ms_achieved_rate_bytes :: double
  ms_open_seconds :: HistogramSnapshot
  ms_ttfb_seconds :: HistogramSnapshot
  ms_read_seconds :: HistogramSnapshot
  ms_read_op_seconds :: HistogramSnapshot
  ms_redirects_per_open :: HistogramSnapshot
  ms_errors_by_class :: "u64 omap"
  ms_soft_faults_by_kind :: "u64 omap"
  ms_by_data_server :: "EndpointStats omap"
  ms_by_cms_site :: "SiteStats omap"
  ms_inflight_reads :: u64
  ms_max_inflight :: u32
  ms_cpu_seconds_total :: double
  ms_process_resident_memory_bytes :: u64

definition site_key :: "EndpointStats \<Rightarrow> string" where
  "site_key ep = (if ep_cms_site ep = [] then kUnmappedCmsSite else ep_cms_site ep)"

definition add_errors :: "u64 omap \<Rightarrow> u64 omap \<Rightarrow> u64 omap" where
  "add_errors = foldl (\<lambda>m (k, n). om_count k n m)"

definition site_add :: "EndpointStats \<Rightarrow> SiteStats option \<Rightarrow> SiteStats" where
  "site_add ep old =
     (let site = (case old of None \<Rightarrow> new_SiteStats | Some s \<Rightarrow> s)
      in site \<lparr> st_cms_site := site_key ep,
                st_bytes_read := st_bytes_read site + ep_bytes_read ep,
                st_sessions_ok := st_sessions_ok site + ep_sessions_ok ep,
                st_sessions_fail := st_sessions_fail site + ep_sessions_fail ep,
                st_errors_by_class := add_errors (st_errors_by_class site) (ep_errors_by_class ep) \<rparr>)"

definition roll_up :: "EndpointStats omap \<Rightarrow> SiteStats omap" where
  "roll_up by_server = foldl (\<lambda>sites (k, ep). om_upsert (site_key ep) (site_add ep) sites) om_empty by_server"

definition named_counts :: "string list \<Rightarrow> u64 list \<Rightarrow> u64 omap" where
  "named_counts names vs = foldl (\<lambda>m (k, v). if 0 < v then om_put k v m else m) om_empty (zip names vs)"

definition mr_Snapshot :: "string option \<Rightarrow> double \<Rightarrow> MetricsRegistry \<Rightarrow> MetricsSnapshot" where
  "mr_Snapshot hostname wall_s r =
     \<lparr> ms_run_id = mr_run_id r, ms_job_id = mr_job_id r,
        ms_host = (if mr_host r = [] then LocalHostname hostname else mr_host r),
        ms_target = mr_target r, ms_endpoint = mr_endpoint r, ms_wall_s = wall_s,
        ms_bytes_read_total = mr_bytes_read_total r, ms_sessions_ok = mr_sessions_ok r,
        ms_sessions_fail = mr_sessions_fail r, ms_read_ops_total = mr_read_ops_total r,
        ms_target_rate_bytes = d_of_u64 (mr_target_rate_bytes r),
        ms_achieved_rate_bytes =
          (if dlt (Fin 0) wall_s then ddiv (d_of_u64 (mr_bytes_read_total r)) wall_s else Fin 0),
        ms_open_seconds = Histogram_Snapshot (mr_open_seconds r),
        ms_ttfb_seconds = Histogram_Snapshot (mr_ttfb_seconds r),
        ms_read_seconds = Histogram_Snapshot (mr_read_seconds r),
        ms_read_op_seconds = Histogram_Snapshot (mr_read_op_seconds r),
        ms_redirects_per_open = Histogram_Snapshot (mr_redirects_per_open r),
        ms_errors_by_class = named_counts (map ErrorClassName kErrorClasses) (mr_errors_by_class r),
        ms_soft_faults_by_kind = named_counts kSoftFaultKinds (mr_soft_faults_by_kind r),
        ms_by_data_server = mr_by_data_server r,
        ms_by_cms_site = roll_up (mr_by_data_server r),
        ms_inflight_reads = mr_inflight_reads r, ms_max_inflight = mr_max_inflight r,
        ms_cpu_seconds_total = ddiv (d_of_u64 (mr_cpu_us r)) (Fin (10 ^ 6)),
        ms_process_resident_memory_bytes = mr_rss_bytes r \<rparr>"


section \<open>Calls of the registry\<close>

datatype mr_call =
    CallOk u64 u64 double double double double string string
  | CallReadOp double
  | CallFail ErrorClass string string
  | CallLog string
  | CallInflight u64
  | CallSite string string
  | CallSample double u64
  | CallConfig u64 u32

fun mr_apply :: "mr_call \<Rightarrow> MetricsRegistry \<Rightarrow> MetricsRegistry res" where
  "mr_apply (CallOk bytes ops o_s t_s r_s red ds site) r = mr_ObserveSessionOk bytes ops o_s t_s r_s red ds site r"
| "mr_apply (CallReadOp s) r = mr_ObserveReadOp s r"
| "mr_apply (CallFail c ds site) r = Inr (mr_ObserveSessionFail c ds site r)"
| "mr_apply (CallLog m) r = Inr (SoftFaultLogOut_Write m r)"
| "mr_apply (CallInflight n) r = Inr (mr_SetInflight n r)"
| "mr_apply (CallSite ds site) r = Inr (mr_SetCmsSite ds site r)"
| "mr_apply (CallSample cpu rss) r = mr_SampleProc (cpu, rss) r"
| "mr_apply (CallConfig rate m) r = Inr (mr_SetConfigGauges rate m r)"

definition mr_step :: "MetricsRegistry \<Rightarrow> mr_call \<Rightarrow> MetricsRegistry" where
  "mr_step r c = (case mr_apply c r of Inr r' \<Rightarrow> r' | Inl _ \<Rightarrow> r)"

text \<open>Calls whose times convert: below \<open>2 ^ 44\<close> seconds.\<close>

fun call_ok :: "mr_call \<Rightarrow> bool" where
  "call_ok (CallOk bytes ops o_s t_s r_s red ds site) \<longleftrightarrow> obs_ok o_s \<and> obs_ok t_s \<and> obs_ok r_s \<and> obs_ok red"
| "call_ok (CallReadOp s) \<longleftrightarrow> obs_ok s"
| "call_ok (CallSample cpu rss) \<longleftrightarrow> (\<exists>us. cast_u64 (dmul cpu (Fin (10 ^ 6))) = Inr us)"
| "call_ok _ \<longleftrightarrow> True"

text \<open>What a call contributes.\<close>

fun call_bytes :: "mr_call \<Rightarrow> u64" where
  "call_bytes (CallOk bytes ops o_s t_s r_s red ds site) = bytes"
| "call_bytes _ = 0"

fun call_oks :: "mr_call \<Rightarrow> u64" where
  "call_oks (CallOk bytes ops o_s t_s r_s red ds site) = 1"
| "call_oks _ = 0"

fun call_fails :: "mr_call \<Rightarrow> u64" where
  "call_fails (CallFail c ds site) = 1"
| "call_fails _ = 0"

section \<open>The books balance\<close>

text \<open>\<open>balanced bal g\<close>: a total of the registry equals the sum of a column of the attribution table.\<close>

definition column :: "(EndpointStats \<Rightarrow> u64) \<Rightarrow> MetricsRegistry \<Rightarrow> u64" where
  "column g r = om.total (\<lambda>_. g) (mr_by_data_server r)"

definition mr_ok :: "MetricsRegistry \<Rightarrow> bool" where
  "mr_ok r \<longleftrightarrow> om_wf (mr_by_data_server r)
     \<and> mr_bytes_read_total r = column ep_bytes_read r
     \<and> mr_sessions_ok r = column ep_sessions_ok r
     \<and> mr_sessions_fail r = column ep_sessions_fail r
     \<and> length (mr_errors_by_class r) = 12 \<and> sum_list (mr_errors_by_class r) = mr_sessions_fail r"

definition totals :: "MetricsRegistry \<Rightarrow> u64 \<times> u64 \<times> u64" where
  "totals r = (mr_bytes_read_total r, mr_sessions_ok r, mr_sessions_fail r)"

lemma new_registry_ok [simp]: "mr_ok new_MetricsRegistry" "totals new_MetricsRegistry = 0"
  by (simp_all add: mr_ok_def new_MetricsRegistry_def column_def om.total_def om_empty_def sum_list_replicate
      totals_def zero_prod_def)

lemma attribute_entry_cols:
  "ep_bytes_read (attribute_entry sm k ok b c s old)
     = (case old of None \<Rightarrow> 0 | Some e \<Rightarrow> ep_bytes_read e) + (if ok then b else 0)"
  "ep_sessions_ok (attribute_entry sm k ok b c s old)
     = (case old of None \<Rightarrow> 0 | Some e \<Rightarrow> ep_sessions_ok e) + (if ok then 1 else 0)"
  "ep_sessions_fail (attribute_entry sm k ok b c s old)
     = (case old of None \<Rightarrow> 0 | Some e \<Rightarrow> ep_sessions_fail e) + (if ok then 0 else 1)"
  by (simp_all add: attribute_entry_def Let_def new_EndpointStats_def split: option.split)

lemma column_attribute:
  assumes "om_wf (mr_by_data_server r)"
    and "\<And>k old. g (attribute_entry (mr_site_map r) k ok b c s old) = (case old of None \<Rightarrow> 0 | Some e \<Rightarrow> g e) + d"
  shows "column g (mr_AttributeLocked ds ok b c s r) = column g r + d"
  using assms by (simp add: column_def mr_AttributeLocked_def Let_def om.total_add)

lemma AttributeLocked_frame [simp]:
  "mr_bytes_read_total (mr_AttributeLocked ds ok b c s r) = mr_bytes_read_total r"
  "mr_sessions_ok (mr_AttributeLocked ds ok b c s r) = mr_sessions_ok r"
  "mr_sessions_fail (mr_AttributeLocked ds ok b c s r) = mr_sessions_fail r"
  "mr_errors_by_class (mr_AttributeLocked ds ok b c s r) = mr_errors_by_class r"
  by (simp_all add: mr_AttributeLocked_def Let_def)

lemma AttributeLocked_wf:
  "om_wf (mr_by_data_server r) \<Longrightarrow> om_wf (mr_by_data_server (mr_AttributeLocked ds ok b c s r))"
  by (simp add: mr_AttributeLocked_def Let_def om_wf_upsert)

lemma column_frame:
  "mr_by_data_server r' = mr_by_data_server r \<Longrightarrow> column g r' = column g r"
  by (simp add: column_def)

lemma error_index_less: "error_index c < 12"
  by (cases c) (simp_all add: error_index_def kErrorClasses_def)

lemma bump_facts: "i < length xs \<Longrightarrow> sum_list (bump i xs) = sum_list xs + 1" "length (bump i xs) = length xs"
  by (simp_all add: bump_def sum_list_bump)

text \<open>One lemma per call.\<close>

lemma SetCmsSite_column:
  assumes "om_wf (mr_by_data_server r)" "\<And>ep. g (ep \<lparr> ep_cms_site := site \<rparr>) = g ep"
  shows "column g (mr_SetCmsSite ds site r) = column g r"
proof (cases "ds = [] \<or> site = [] \<or> om_get (mr_by_data_server r) ds = None")
  case True
  then show ?thesis by (auto simp: mr_SetCmsSite_def)
next
  case False
  then obtain ep where "om_get (mr_by_data_server r) ds = Some ep" by auto
  then show ?thesis using False assms om.total_add [of "mr_by_data_server r" "\<lambda>_. g" ds "\<lambda>_. ep \<lparr> ep_cms_site := site \<rparr>" 0]
    by (simp add: mr_SetCmsSite_def column_def)
qed

lemma ObserveSessionOk_eq:
  assumes "obs_ok a" "obs_ok b" "obs_ok c" "obs_ok d"
  shows "\<exists>r'. mr_ObserveSessionOk bytes ops a b c d ds site r = Inr (mr_AttributeLocked ds True bytes NoError site r')
    \<and> mr_by_data_server r' = mr_by_data_server r \<and> mr_site_map r' = mr_site_map r
    \<and> mr_bytes_read_total r' = mr_bytes_read_total r + bytes \<and> mr_sessions_ok r' = mr_sessions_ok r + 1
    \<and> mr_sessions_fail r' = mr_sessions_fail r \<and> mr_errors_by_class r' = mr_errors_by_class r"
proof -
  obtain h1 h2 h3 h4 where "Observe (mr_open_seconds r) a = Inr h1" "Observe (mr_ttfb_seconds r) b = Inr h2"
    "Observe (mr_read_seconds r) c = Inr h3" "Observe (mr_redirects_per_open r) d = Inr h4"
    using Observe_returns assms by metis
  then show ?thesis by (simp add: mr_ObserveSessionOk_def Let_def) (rule exI, rule conjI, rule refl, simp)
qed

lemma mr_step_books:
  assumes "mr_ok r" "call_ok c"
  shows "mr_ok (mr_step r c) \<and> totals (mr_step r c) = totals r + (call_bytes c, call_oks c, call_fails c)"
proof (cases c)
  case (CallOk bytes ops o_s t_s r_s red ds site)
  obtain r' where r': "mr_apply c r = Inr (mr_AttributeLocked ds True bytes NoError site r')"
    "mr_by_data_server r' = mr_by_data_server r" "mr_site_map r' = mr_site_map r"
    "mr_bytes_read_total r' = mr_bytes_read_total r + bytes" "mr_sessions_ok r' = mr_sessions_ok r + 1"
    "mr_sessions_fail r' = mr_sessions_fail r" "mr_errors_by_class r' = mr_errors_by_class r"
    using ObserveSessionOk_eq [of o_s t_s r_s red bytes ops ds site r] assms(2) unfolding CallOk by auto
  have wf: "om_wf (mr_by_data_server r')" using assms(1) r'(2) by (simp add: mr_ok_def)
  have "column ep_bytes_read (mr_AttributeLocked ds True bytes NoError site r') = column ep_bytes_read r + bytes"
    "column ep_sessions_ok (mr_AttributeLocked ds True bytes NoError site r') = column ep_sessions_ok r + 1"
    "column ep_sessions_fail (mr_AttributeLocked ds True bytes NoError site r') = column ep_sessions_fail r + 0"
    unfolding column_frame [OF r'(2), symmetric]
    by (rule column_attribute [OF wf]; simp add: attribute_entry_cols)+
  then show ?thesis using assms(1) wf
    by (simp add: mr_step_def r'(1)) (simp add: mr_ok_def r' AttributeLocked_wf totals_def CallOk)
next
  case (CallReadOp x)
  then obtain h where "Observe (mr_read_op_seconds r) x = Inr h"
    using Observe_returns [of x] assms(2) by auto
  then show ?thesis using assms(1)
    by (simp add: CallReadOp mr_step_def mr_ObserveReadOp_def mr_ok_def totals_def column_def)
next
  case (CallFail e ds site)
  let ?r = "r \<lparr> mr_sessions_fail := mr_sessions_fail r + 1,
      mr_errors_by_class := bump (error_index e) (mr_errors_by_class r) \<rparr>"
  have wf: "om_wf (mr_by_data_server ?r)" using assms(1) by (simp add: mr_ok_def)
  have d: "mr_by_data_server ?r = mr_by_data_server r" by simp
  have "column ep_bytes_read (mr_AttributeLocked ds False 0 e site ?r) = column ep_bytes_read r + 0"
    "column ep_sessions_ok (mr_AttributeLocked ds False 0 e site ?r) = column ep_sessions_ok r + 0"
    "column ep_sessions_fail (mr_AttributeLocked ds False 0 e site ?r) = column ep_sessions_fail r + 1"
    unfolding column_frame [OF d, symmetric]
    by (rule column_attribute [OF wf]; simp add: attribute_entry_cols)+
  then show ?thesis using assms(1) wf error_index_less [of e] AttributeLocked_wf [of ?r]
    by (simp add: CallFail mr_step_def mr_ObserveSessionFail_def) (simp add: mr_ok_def bump_facts totals_def)
next
  case (CallLog m)
  then show ?thesis using assms(1)
    by (simp add: mr_step_def SoftFaultLogOut_Write_def mr_ObserveSoftFault_def mr_ok_def totals_def column_def)
next
  case (CallInflight n)
  then show ?thesis using assms(1) by (simp add: mr_step_def mr_SetInflight_def mr_ok_def totals_def column_def)
next
  case (CallSite ds site)
  have wf: "om_wf (mr_by_data_server r)" using assms(1) by (simp add: mr_ok_def)
  have "om_wf (mr_by_data_server (mr_SetCmsSite ds site r))"
    using wf by (auto simp: mr_SetCmsSite_def om_wf_upsert split: option.split)
  moreover have "totals (mr_SetCmsSite ds site r) = totals r" "mr_errors_by_class (mr_SetCmsSite ds site r) = mr_errors_by_class r"
    by (auto simp: mr_SetCmsSite_def totals_def split: option.split)
  ultimately show ?thesis using assms(1)
    by (simp add: CallSite mr_step_def mr_ok_def SetCmsSite_column [OF wf] totals_def)
next
  case (CallSample cpu rss)
  then obtain us where "cast_u64 (dmul cpu (Fin (10 ^ 6))) = Inr us" using assms(2) by auto
  then show ?thesis using assms(1)
    by (simp add: CallSample mr_step_def mr_SampleProc_def mr_ok_def totals_def column_def)
next
  case (CallConfig rate m)
  then show ?thesis using assms(1) by (simp add: mr_step_def mr_SetConfigGauges_def mr_ok_def totals_def column_def)
qed

interpretation registry: ledger_machine mr_step mr_ok call_ok totals "\<lambda>_ c. (call_bytes c, call_oks c, call_fails c)"
  by unfold_locales (simp_all add: mr_step_books)


section \<open>The roll-up to sites\<close>

lemma roll_up_collect:
  "roll_up m = om.collect (\<lambda>x. site_key (snd x)) (\<lambda>x. site_add (snd x)) om_empty m"
  by (simp add: roll_up_def om.collect_def case_prod_unfold)

lemma roll_up_wf: "om_wf (roll_up m)"
  by (simp add: roll_up_collect om.collect_wf)

lemma roll_up_total:
  fixes g :: "SiteStats \<Rightarrow> u64"
  assumes "\<And>ep old. g (site_add ep old) = (case old of None \<Rightarrow> 0 | Some s \<Rightarrow> g s) + h ep"
  shows "sum_list (map (\<lambda>x. g (snd x)) (roll_up m)) = sum_list (map (\<lambda>x. h (snd x)) m)"
proof -
  have "om.total (\<lambda>_. g) (om.collect (\<lambda>x. site_key (snd x)) (\<lambda>x. site_add (snd x)) om_empty m)
      = om.total (\<lambda>_. g) om_empty + sum_list (map (\<lambda>x. h (snd x)) m)"
    by (rule om.collect_total) (simp_all add: assms)
  then show ?thesis by (simp add: roll_up_collect om.total_def om_empty_def case_prod_unfold)
qed

lemma site_add_cols:
  "st_bytes_read (site_add ep old) = (case old of None \<Rightarrow> 0 | Some s \<Rightarrow> st_bytes_read s) + ep_bytes_read ep"
  "st_sessions_ok (site_add ep old) = (case old of None \<Rightarrow> 0 | Some s \<Rightarrow> st_sessions_ok s) + ep_sessions_ok ep"
  "st_sessions_fail (site_add ep old) = (case old of None \<Rightarrow> 0 | Some s \<Rightarrow> st_sessions_fail s) + ep_sessions_fail ep"
  by (simp_all add: site_add_def new_SiteStats_def Let_def split: option.split)

lemma column_list: "column g r = sum_list (map (\<lambda>x. g (snd x)) (mr_by_data_server r))"
  by (simp add: column_def om.total_def case_prod_unfold)

text \<open>C16. The books balance. In the snapshot after any sequence of calls, each of the three totals
  (bytes, successful sessions, failed sessions) is the sum of what the calls reported, is the sum of
  its column over the data servers, and is the sum of its column over the CMS sites, modulo
  \<open>2 ^ 64\<close>: no session is dropped or counted under two sites, also when servers are renamed to a site
  on the way, and the sites include the one of unmapped servers.\<close>

theorem registry_books:
  assumes "list_all call_ok cs"
  shows "let s = mr_Snapshot hostname wall (foldl mr_step new_MetricsRegistry cs);
      servers = map snd (ms_by_data_server s); sites = map snd (ms_by_cms_site s)
    in ms_bytes_read_total s = sum_list (map call_bytes cs)
      \<and> sum_list (map ep_bytes_read servers) = ms_bytes_read_total s
      \<and> sum_list (map st_bytes_read sites) = ms_bytes_read_total s
      \<and> ms_sessions_ok s = sum_list (map call_oks cs)
      \<and> sum_list (map ep_sessions_ok servers) = ms_sessions_ok s
      \<and> sum_list (map st_sessions_ok sites) = ms_sessions_ok s
      \<and> ms_sessions_fail s = sum_list (map call_fails cs)
      \<and> sum_list (map ep_sessions_fail servers) = ms_sessions_fail s
      \<and> sum_list (map st_sessions_fail sites) = ms_sessions_fail s"
proof -
  let ?r = "foldl mr_step new_MetricsRegistry cs"
  have ok: "mr_ok ?r" by (rule registry.inv_run [OF new_registry_ok(1) assms])
  have t: "totals ?r = trace_sum mr_step (\<lambda>_ c. (call_bytes c, call_oks c, call_fails c)) new_MetricsRegistry cs"
    using registry.bal_run [OF new_registry_ok(1) assms] by simp
  have b: "mr_bytes_read_total ?r = sum_list (map call_bytes cs)"
    using arg_cong [OF t, of fst] unfolding trace_sum_fst by (simp add: totals_def trace_sum_map)
  have o: "mr_sessions_ok ?r = sum_list (map call_oks cs)"
    using arg_cong [OF t, of "\<lambda>x. fst (snd x)"] unfolding trace_sum_snd trace_sum_fst
    by (simp add: totals_def trace_sum_map)
  have f: "mr_sessions_fail ?r = sum_list (map call_fails cs)"
    using arg_cong [OF t, of "\<lambda>x. snd (snd x)"] unfolding trace_sum_snd
    by (simp add: totals_def trace_sum_map)
  show ?thesis using ok b o f roll_up_total [of st_bytes_read ep_bytes_read, OF site_add_cols(1)]
      roll_up_total [of st_sessions_ok ep_sessions_ok, OF site_add_cols(2)]
      roll_up_total [of st_sessions_fail ep_sessions_fail, OF site_add_cols(3)]
    by (simp add: mr_Snapshot_def mr_ok_def column_list Let_def o_def)
qed

lemma registry_books_witness:
  "let s = mr_Snapshot None (Fin 1) (foldl mr_step new_MetricsRegistry
      [CallOk 7 1 (Fin 1) (Fin 1) (Fin 1) (Fin 0) ''h:1'' [], CallFail Auth [] [], CallSite ''h:1'' ''T1''])
   in ms_bytes_read_total s = 7 \<and> sum_list (map st_bytes_read (map snd (ms_by_cms_site s))) = 7
     \<and> ms_sessions_fail s = 1"
  using registry_books [of "[CallOk 7 1 (Fin 1) (Fin 1) (Fin 1) (Fin 0) ''h:1'' [], CallFail Auth [] [],
      CallSite ''h:1'' ''T1'']" None "Fin 1"]
  by (simp add: Let_def)

section \<open>Failures by class\<close>

lemma named_counts_other:
  "k \<notin> set ks \<Longrightarrow> om_wf m \<Longrightarrow>
    om_get (foldl (\<lambda>m (k, v). if 0 < v then om_put k v m else m) m (zip ks vs)) k = om_get m k"
proof (induction ks arbitrary: vs m)
  case (Cons x ks)
  then show ?case by (cases vs) (simp_all add: om_put_get om_put_wf)
qed simp

lemma named_counts_fold:
  assumes "length ks = length vs" "distinct ks" "i < length ks" "om_wf m"
  shows "om_get (foldl (\<lambda>m (k, v). if 0 < v then om_put k v m else m) m (zip ks vs)) (ks ! i)
      = (if 0 < vs ! i then Some (vs ! i) else om_get m (ks ! i))"
  using assms
proof (induction ks vs arbitrary: m i rule: list_induct2)
  case (Cons k ks v vs)
  let ?m = "if 0 < v then om_put k v m else m"
  have wf: "om_wf ?m" using Cons.prems(3) by (simp add: om_put_wf)
  show ?case
  proof (cases i)
    case 0
    then show ?thesis using Cons.prems wf named_counts_other [of k ks ?m vs] by (simp add: om_put_get)
  next
    case (Suc j)
    then have "ks ! j \<noteq> k" using Cons.prems by auto
    then show ?thesis using Cons.IH [of j ?m] Cons.prems wf Suc by (simp add: om_put_get)
  qed
qed simp

lemma named_counts_get:
  "distinct ks \<Longrightarrow> length ks = length vs \<Longrightarrow> i < length ks \<Longrightarrow>
    om_get (named_counts ks vs) (ks ! i) = (if 0 < vs ! i then Some (vs ! i) else None)"
  using named_counts_fold [of ks vs i om_empty] by (simp add: named_counts_def)

lemma error_index_nth: "kErrorClasses ! error_index c = c"
  by (cases c) (simp_all add: error_index_def kErrorClasses_def)

lemma error_index_inj: "error_index c = error_index c' \<longleftrightarrow> c = c'"
  using error_index_nth by metis

lemma class_names_distinct: "distinct (map ErrorClassName kErrorClasses)" "length kErrorClasses = 12"
  by (simp_all add: kErrorClasses_def ErrorClassName_inj distinct_map inj_on_def)

fun call_class :: "ErrorClass \<Rightarrow> mr_call \<Rightarrow> u64" where
  "call_class c (CallFail c' ds site) = (if c = c' then 1 else 0)"
| "call_class c _ = 0"

lemma mr_step_errors:
  assumes "call_ok x" "length (mr_errors_by_class r) = 12"
  shows "mr_errors_by_class (mr_step r x) ! error_index c = mr_errors_by_class r ! error_index c + call_class c x"
proof (cases x)
  case (CallOk bytes ops o_s t_s r_s red ds site)
  then show ?thesis using ObserveSessionOk_eq [of o_s t_s r_s red bytes ops ds site r] assms(1)
    by (auto simp: mr_step_def)
next
  case (CallFail e ds site)
  then show ?thesis using error_index_less [of c] assms(2)
    by (auto simp: mr_step_def mr_ObserveSessionFail_def bump_def nth_list_update error_index_inj)
next
  case (CallReadOp y)
  then show ?thesis using Observe_returns [of y] assms(1) by (auto simp: mr_step_def mr_ObserveReadOp_def cxx_res split: sum.split)
qed (auto simp: mr_step_def SoftFaultLogOut_Write_def mr_ObserveSoftFault_def mr_SetInflight_def mr_SetCmsSite_def
    mr_SampleProc_def mr_SetConfigGauges_def res_bind_def split: option.split sum.split)

interpretation registry_class: ledger_machine mr_step mr_ok call_ok
  "\<lambda>r. mr_errors_by_class r ! error_index c" "\<lambda>_. call_class c" for c
  by unfold_locales (auto simp: mr_ok_def intro: mr_step_errors)

text \<open>C35. Every failed session is counted under the name of its class: the snapshot's entry of a class
  is the number of failures of that class reported (modulo \<open>2 ^ 64\<close>), and there is no entry when that
  is zero.\<close>

theorem registry_error_classes:
  assumes "list_all call_ok cs"
  shows "om_get (ms_errors_by_class (mr_Snapshot hostname wall (foldl mr_step new_MetricsRegistry cs)))
      (ErrorClassName c)
    = (let n = sum_list (map (call_class c) cs) in if n = 0 then None else Some n)"
proof -
  let ?r = "foldl mr_step new_MetricsRegistry cs"
  have "mr_ok ?r" by (rule registry.inv_run [OF new_registry_ok(1) assms])
  then have l: "length (mr_errors_by_class ?r) = 12" by (simp add: mr_ok_def)
  have z: "mr_errors_by_class new_MetricsRegistry ! error_index c = 0"
    using error_index_less [of c] by (simp add: new_MetricsRegistry_def)
  have "mr_errors_by_class ?r ! error_index c = sum_list (map (call_class c) cs)"
    using registry_class.bal_run [OF new_registry_ok(1) assms, of c] z by (simp add: trace_sum_map)
  moreover have "ErrorClassName c = map ErrorClassName kErrorClasses ! error_index c"
    using error_index_less [of c] error_index_nth [of c] class_names_distinct(2) by simp
  ultimately show ?thesis
    using named_counts_get [OF class_names_distinct(1), of "mr_errors_by_class ?r" "error_index c"]
      l class_names_distinct(2) error_index_less [of c]
    by (simp add: mr_Snapshot_def Let_def word_gt_0)
qed

lemma registry_error_classes_witness:
  "om_get (ms_errors_by_class (mr_Snapshot None (Fin 1) (foldl mr_step new_MetricsRegistry
     [CallFail Auth [] [], CallFail Timeout ''h:1'' [], CallFail Auth ''h:1'' []]))) (ErrorClassName Auth) = Some 2"
  using registry_error_classes [of "[CallFail Auth [] [], CallFail Timeout ''h:1'' [], CallFail Auth ''h:1'' []]" None "Fin 1" Auth]
  by simp

end
