(* ===== verification/Scheduler.thy ===== *)
theory Scheduler
  imports RunConfig TokenBucket
begin

unbundle bit_operations_syntax

text \<open>
  \<^verbatim>\<open>src/scheduler.cc\<close>, \<^verbatim>\<open>include/xrdhover/random_io.hh\<close> and the session options of
  \<^verbatim>\<open>file_session.hh\<close>: the seeded generator of sessions. The Mersenne twister and the
  distributions are a parameter (the mapping of a distribution is left to the library by the
  standard): a state type \<open>'r\<close>, seeding, a uniform integer in \<open>[0, b]\<close>, a uniform real in \<open>[0, 1)\<close>.
\<close>

record 'r rng_api =
  rng_seed :: "u64 \<Rightarrow> 'r"
  rng_int :: "'r \<Rightarrow> u64 \<Rightarrow> u64 \<times> 'r"
  rng_real :: "'r \<Rightarrow> double \<times> 'r"

text \<open>What the standard promises of the integer distribution.\<close>

definition rng_bounded :: "'r rng_api \<Rightarrow> bool" where
  "rng_bounded G \<longleftrightarrow> (\<forall>r b. fst (rng_int G r b) \<le> b)"

record FileSessionOptions =
  fo_url :: string
  fo_chunk_size :: u32
  fo_offset :: u64
  fo_max_bytes :: u64
  fo_vector_chunks :: u16
  fo_random_offset :: bool
  fo_offset_seed :: u64
  fo_wall_timeout_s :: double

definition default_FileSessionOptions :: FileSessionOptions where
  "default_FileSessionOptions = \<lparr> fo_url = [], fo_chunk_size = 2 ^ 20, fo_offset = 0, fo_max_bytes = 0,
     fo_vector_chunks = 0, fo_random_offset = False, fo_offset_seed = 0, fo_wall_timeout_s = Fin 0 \<rparr>"

definition SessionOpBytes :: "FileSessionOptions \<Rightarrow> u64" where
  "SessionOpBytes opts =
     (let chunk = max (ucast (fo_chunk_size opts)) (1 :: u64)
      in if 0 < fo_vector_chunks opts then chunk * ucast (fo_vector_chunks opts) else chunk)"

definition SampleRandomReadOffset :: "'r rng_api \<Rightarrow> 'r \<Rightarrow> u64 \<Rightarrow> u32 \<Rightarrow> u64 \<times> 'r" where
  "SampleRandomReadOffset G rng file_size len =
     (if file_size = 0 \<or> len = 0 \<or> file_size \<le> ucast len then (0, rng)
      else rng_int G rng (file_size - ucast len))"

record WorkItem =
  wi_session :: FileSessionOptions
  wi_op_bytes :: u64

record 'r Scheduler =
  sc_cfg :: RunConfig
  sc_rng :: 'r
  sc_seq :: u64

definition new_Scheduler :: "'r rng_api \<Rightarrow> RunConfig \<Rightarrow> 'r Scheduler" where
  "new_Scheduler G cfg = \<lparr> sc_cfg = cfg, sc_rng = rng_seed G (rc_seed cfg), sc_seq = 0 \<rparr>"

definition golden :: u64 where
  "golden = 0x9e3779b97f4a7c15"

text \<open>The draws of a pattern: random offsets?, vector reads?\<close>

definition pattern_draw :: "'r rng_api \<Rightarrow> RunConfig \<Rightarrow> 'r \<Rightarrow> bool \<times> bool \<times> 'r" where
  "pattern_draw G cfg r = (case rc_pattern cfg of
      Sequential \<Rightarrow> (False, False, r)
    | Random \<Rightarrow> (True, False, r)
    | Vector \<Rightarrow> (False, True, r)
    | Mixed \<Rightarrow>
        (let (x, r) = rng_real G r; (y, r) = rng_real G r
         in (dlt x (lit (1 / 2)), dlt y (rc_vector_fraction cfg), r)))"

definition sched_Next :: "'r rng_api \<Rightarrow> 'r Scheduler \<Rightarrow> (WorkItem \<times> 'r Scheduler) res" where
  "sched_Next G s =
     (let cfg = sc_cfg s;
          (idx, r) = rng_int G (sc_rng s) (of_nat (length (rc_files cfg)) - 1)
      in if length (rc_files cfg) \<le> unat idx then Inl Undefined_behaviour
      else let path = rc_files cfg ! unat idx;
               seq = sc_seq s + 1;
               (random_offset, use_vector, r) = pattern_draw G cfg r;
               session = default_FileSessionOptions
                 \<lparr> fo_url := JoinUrl (rc_endpoint cfg) path,
                   fo_chunk_size := rc_chunk_size cfg,
                   fo_max_bytes := rc_max_bytes cfg,
                   fo_offset := 0,
                   fo_random_offset := random_offset,
                   fo_offset_seed := rc_seed cfg XOR (seq * golden),
                   fo_wall_timeout_s := rc_session_timeout_s cfg,
                   fo_vector_chunks := (if use_vector then max 1 (rc_vector_chunks cfg) else 0) \<rparr>
           in Inr (\<lparr> wi_session = session, wi_op_bytes = ComputeOpBytes cfg use_vector \<rparr>,
                   s \<lparr> sc_rng := r, sc_seq := seq \<rparr>))"

fun sched_items :: "'r rng_api \<Rightarrow> nat \<Rightarrow> 'r Scheduler \<Rightarrow> WorkItem list res" where
  "sched_items G 0 s = Inr []"
| "sched_items G (Suc n) s =
     res_bind (sched_Next G s) (\<lambda>(item, s'). res_bind (sched_items G n s') (\<lambda>items. Inr (item # items)))"

section \<open>Items\<close>

lemma of_nat_u64_minus_one: "0 < n \<Longrightarrow> n < 2 ^ 64 \<Longrightarrow> unat (of_nat n - 1 :: u64) = n - 1"
  by (subst unat_sub_u64) (simp_all add: word_le_nat_alt unat_of_nat take_bit_nat_eq_self)

text \<open>With a generator that keeps its range, every item is one of the configured files.\<close>

lemma sched_Next_Inr:
  assumes "rng_bounded G" "rc_files (sc_cfg s) \<noteq> []" "length (rc_files (sc_cfg s)) < 2 ^ 64"
  shows "\<exists>item s'. sched_Next G s = Inr (item, s')"
proof -
  let ?n = "length (rc_files (sc_cfg s))"
  have "unat (fst (rng_int G (sc_rng s) (of_nat ?n - 1))) \<le> unat (of_nat ?n - 1 :: u64)"
    using assms(1) by (simp add: rng_bounded_def flip: word_le_nat_alt)
  also have "\<dots> = ?n - 1" using assms(2,3) by (intro of_nat_u64_minus_one) simp_all
  finally have "\<not> ?n \<le> unat (fst (rng_int G (sc_rng s) (of_nat ?n - 1)))"
    using assms(2) by (cases "rc_files (sc_cfg s)") auto
  then show ?thesis by (auto simp: sched_Next_def Let_def split: prod.split)
qed

lemma sched_Next_facts:
  assumes "sched_Next G s = Inr (item, s')"
  shows "sc_cfg s' = sc_cfg s \<and> sc_seq s' = sc_seq s + 1
    \<and> fo_offset_seed (wi_session item) = rc_seed (sc_cfg s) XOR ((sc_seq s + 1) * golden)
    \<and> fo_url (wi_session item) \<in> JoinUrl (rc_endpoint (sc_cfg s)) ` set (rc_files (sc_cfg s))
    \<and> fo_chunk_size (wi_session item) = rc_chunk_size (sc_cfg s)
    \<and> fo_max_bytes (wi_session item) = rc_max_bytes (sc_cfg s)
    \<and> (\<exists>v. wi_op_bytes item = ComputeOpBytes (sc_cfg s) v
        \<and> fo_vector_chunks (wi_session item) = (if v then max 1 (rc_vector_chunks (sc_cfg s)) else 0)
        \<and> (v \<longrightarrow> rc_pattern (sc_cfg s) = Vector \<or> rc_pattern (sc_cfg s) = Mixed))"
proof -
  let ?cfg = "sc_cfg s"
  obtain idx r where i: "rng_int G (sc_rng s) (of_nat (length (rc_files ?cfg)) - 1) = (idx, r)"
    by (cases "rng_int G (sc_rng s) (of_nat (length (rc_files ?cfg)) - 1)")
  obtain ro uv r' where p: "pattern_draw G ?cfg r = (ro, uv, r')" by (cases "pattern_draw G ?cfg r") auto
  have uv: "uv \<longrightarrow> rc_pattern ?cfg = Vector \<or> rc_pattern ?cfg = Mixed"
    using p by (auto simp: pattern_draw_def split: PatternType.splits)
  have idx: "unat idx < length (rc_files ?cfg)"
    using assms by (simp add: sched_Next_def Let_def i p not_le split: if_splits)
  define session where "session = default_FileSessionOptions
      \<lparr> fo_url := JoinUrl (rc_endpoint ?cfg) (rc_files ?cfg ! unat idx), fo_chunk_size := rc_chunk_size ?cfg,
        fo_max_bytes := rc_max_bytes ?cfg, fo_offset := 0, fo_random_offset := ro,
        fo_offset_seed := rc_seed ?cfg XOR ((sc_seq s + 1) * golden),
        fo_wall_timeout_s := rc_session_timeout_s ?cfg,
        fo_vector_chunks := (if uv then max 1 (rc_vector_chunks ?cfg) else 0) \<rparr>"
  have "sched_Next G s = Inr (\<lparr> wi_session = session, wi_op_bytes = ComputeOpBytes ?cfg uv \<rparr>,
      s \<lparr> sc_rng := r', sc_seq := sc_seq s + 1 \<rparr>)"
    using idx unfolding sched_Next_def Let_def i session_def by (simp add: not_le p cong: if_cong)
  then have e: "item = \<lparr> wi_session = session, wi_op_bytes = ComputeOpBytes ?cfg uv \<rparr>"
    "s' = s \<lparr> sc_rng := r', sc_seq := sc_seq s + 1 \<rparr>" using assms by simp_all
  have "JoinUrl (rc_endpoint ?cfg) (rc_files ?cfg ! unat idx) \<in> JoinUrl (rc_endpoint ?cfg) ` set (rc_files ?cfg)"
    using idx by (intro imageI nth_mem)
  then show ?thesis using uv unfolding e by (simp add: session_def) blast
qed

lemma sched_items_facts:
  assumes "sched_items G n s = Inr items"
  shows "length items = n \<and> (\<forall>i<n. fo_offset_seed (wi_session (items ! i))
      = rc_seed (sc_cfg s) XOR ((sc_seq s + of_nat (Suc i)) * golden))"
  using assms
proof (induction n arbitrary: s items)
  case (Suc n)
  then obtain item s' rest where 1: "sched_Next G s = Inr (item, s')" "sched_items G n s' = Inr rest"
    "items = item # rest" by (auto simp: cxx_res split: prod.splits)
  note f = sched_Next_facts [OF 1(1)]
  have r: "length rest = n" "\<forall>i<n. fo_offset_seed (wi_session (rest ! i))
      = rc_seed (sc_cfg s') XOR ((sc_seq s' + of_nat (Suc i)) * golden)" using Suc.IH [OF 1(2)] by auto
  have "fo_offset_seed (wi_session (items ! i)) = rc_seed (sc_cfg s) XOR ((sc_seq s + of_nat (Suc i)) * golden)"
    if "i < Suc n" for i
    using that f r(2) by (cases i) (simp_all add: 1(3) add.assoc)
  then show ?case using r(1) 1(3) by simp
qed simp

lemma xor_cancel: "(a :: u64) XOR b = a XOR c \<Longrightarrow> b = c"
proof -
  assume "a XOR b = a XOR c"
  then have "a XOR (a XOR b) = a XOR (a XOR c)" by (rule arg_cong)
  then show "b = c" unfolding xor.assoc [symmetric] by simp
qed

lemma golden_inverse: "golden * 17428512612931826493 = 1"
  by (simp add: golden_def)

lemma golden_cancel: "a * golden = b * golden \<Longrightarrow> a = b"
proof -
  assume "a * golden = b * golden"
  then have "a * golden * 17428512612931826493 = b * golden * 17428512612931826493" by (rule arg_cong)
  then show "a = b" by (simp only: mult.assoc golden_inverse mult_1_right)
qed

text \<open>C37. Reproducible and independent sessions: a run's sessions all get different seeds for their random
  offsets (up to \<open>2 ^ 64\<close> sessions), for every configured seed, since the multiplier is odd.\<close>

theorem sched_seeds_distinct:
  assumes "sched_items G n (new_Scheduler G cfg) = Inr items" "n < 2 ^ 64"
  shows "distinct (map (\<lambda>i. fo_offset_seed (wi_session i)) items)"
proof -
  note f = sched_items_facts [OF assms(1)]
  have "i = j" if "i < n" "j < n" "fo_offset_seed (wi_session (items ! i)) = fo_offset_seed (wi_session (items ! j))"
    for i j
  proof -
    have "of_nat (Suc i) * golden = of_nat (Suc j) * golden"
    proof (rule xor_cancel [of "rc_seed cfg"])
      have "\<forall>i<n. fo_offset_seed (wi_session (items ! i)) = rc_seed cfg XOR (of_nat (Suc i) * golden)"
        using f by (simp add: new_Scheduler_def del: of_nat_Suc)
      then show "rc_seed cfg XOR (of_nat (Suc i) * golden) = rc_seed cfg XOR (of_nat (Suc j) * golden)"
        using that by metis
    qed
    then have "(of_nat (Suc i) :: u64) = of_nat (Suc j)" by (rule golden_cancel)
    then have "unat (of_nat (Suc i) :: u64) = unat (of_nat (Suc j) :: u64)" by simp
    then show "i = j" using that(1,2) assms(2) by (simp add: unat_of_nat take_bit_nat_eq_self del: of_nat_Suc)
  qed
  then show ?thesis using f by (auto simp: distinct_conv_nth)
qed

text \<open>A generator for concrete inputs: it counts.\<close>

definition counter_rng :: "u64 rng_api" where
  "counter_rng = \<lparr> rng_seed = (\<lambda>s. s), rng_int = (\<lambda>r b. (min r b, r + 1)), rng_real = (\<lambda>r. (Fin 0, r + 1)) \<rparr>"

lemma counter_rng_bounded: "rng_bounded counter_rng"
  by (simp add: rng_bounded_def counter_rng_def)

definition demo_sched_cfg :: RunConfig where
  "demo_sched_cfg = default_RunConfig \<lparr> rc_endpoint := ''root://h/'', rc_files := [''/a'', ''/b''],
     rc_target_rate_bytes_per_s := 1000, rc_pattern := Vector, rc_chunk_size := 100 \<rparr>"

lemma sched_seeds_distinct_witness:
  "\<exists>items. sched_items counter_rng 2 (new_Scheduler counter_rng demo_sched_cfg) = Inr items
     \<and> distinct (map (\<lambda>i. fo_offset_seed (wi_session i)) items)"
proof -
  let ?s = "new_Scheduler counter_rng demo_sched_cfg"
  have c: "rc_files (sc_cfg ?s) = [''/a'', ''/b'']" by (simp add: new_Scheduler_def demo_sched_cfg_def)
  obtain i1 s1 where 1: "sched_Next counter_rng ?s = Inr (i1, s1)"
    using sched_Next_Inr [OF counter_rng_bounded, of ?s] c by auto
  obtain i2 s2 where 2: "sched_Next counter_rng s1 = Inr (i2, s2)"
    using sched_Next_Inr [OF counter_rng_bounded, of s1] sched_Next_facts [OF 1] c by auto
  have "sched_items counter_rng 2 ?s = Inr [i1, i2]" by (simp add: numeral_2_eq_2 1 2)
  with sched_seeds_distinct [OF this] show ?thesis by auto
qed

section \<open>Every item can be paid for\<close>

lemma vector_count_bounds: "1 \<le> unat (max 1 (v :: u16))" "unat (max 1 v) < 2 ^ 16"
  using unat_u16_less [of v] by (simp_all add: max_def word_le_nat_alt)

lemma ComputeOpBytes_nat:
  "unat (ComputeOpBytes cfg v) = unat (chunk_bytes cfg) * (if v then unat (max 1 (rc_vector_chunks cfg)) else 1)"
proof (cases v)
  case True
  have "unat (chunk_bytes cfg) * unat (max 1 (rc_vector_chunks cfg)) < 2 ^ 32 * 2 ^ 16"
    using chunk_bytes_bounds(2) [of cfg] vector_count_bounds(2) [of "rc_vector_chunks cfg"]
    by (intro mult_strict_mono) simp_all
  then show ?thesis using True by (simp add: ComputeOpBytes_def unat_mult_u64)
qed (simp add: ComputeOpBytes_def)

lemma ComputeOpBytes_bounds: "1 \<le> unat (ComputeOpBytes cfg v)" "unat (ComputeOpBytes cfg v) < 2 ^ 48"
proof -
  let ?c = "unat (chunk_bytes cfg)" and ?n = "if v then unat (max 1 (rc_vector_chunks cfg)) else 1"
  have n: "1 \<le> ?n" "?n < 2 ^ 16" using vector_count_bounds [of "rc_vector_chunks cfg"] by auto
  then have "1 * 1 \<le> ?c * ?n" using chunk_bytes_bounds(1) [of cfg] by (intro mult_le_mono) simp_all
  then show "1 \<le> unat (ComputeOpBytes cfg v)" by (simp add: ComputeOpBytes_nat)
  have "?c * ?n < 2 ^ 32 * 2 ^ 16"
    using chunk_bytes_bounds(2) [of cfg] n by (intro mult_strict_mono) simp_all
  then show "unat (ComputeOpBytes cfg v) < 2 ^ 48" by (simp add: ComputeOpBytes_nat)
qed

lemma ComputeOpBytes_mono: "(v \<longrightarrow> w) \<Longrightarrow> ComputeOpBytes cfg v \<le> ComputeOpBytes cfg w"
  using vector_count_bounds(1) [of "rc_vector_chunks cfg"]
  by (auto simp: word_le_nat_alt ComputeOpBytes_nat)

lemma full_bucket_grants:
  assumes "0 < n" "n \<le> cap" "0 < cap" "clock_ok t0" "t0 \<le> now" "clock_ok now"
    and "unat cap \<le> 2 ^ 53"
  shows "fst (TryAcquire (new_TokenBucket rate cap t0) now n)"
proof (cases "rate = 0")
  case False
  let ?b = "new_TokenBucket rate cap t0"
  have b: "tb_capacity ?b = cap" "tb_rate_bytes_per_s ?b = rate" "tb_last ?b = t0" "tokens_of ?b = cap_of ?b"
    using assms(3) by (simp_all add: new_TokenBucket_def Let_def tokens_of_def cap_of_def d_of_u64_nat)
  have ok: "bucket_ok ?b" using assms(4) by (rule new_bucket_ok)
  have full: "cap_of ?b \<le> tokens_of (RefillUnlocked ?b now)"
  proof (cases "now = t0")
    case True
    then show ?thesis using ok assms(6) b by (simp add: RefillUnlocked_eq)
  next
    case False
    then have "0 < now - t0" using assms(5) by simp
    moreover have "\<bar>now - t0\<bar> \<le> 2 ^ 63" using assms(4,6) by (intro clock_diff)
    ultimately have "0 \<le> refill_q (now - t0) rate" by (intro refill_Fin) simp_all
    then have "cap_of ?b \<le> round53 (cap_of ?b + refill_q (now - t0) rate)"
      by (intro round53_ge_exact) (simp_all add: cap_of_def round53_idem)
    then show ?thesis using ok assms(6) b by (simp add: RefillUnlocked_eq)
  qed
  have okR: "bucket_ok (RefillUnlocked ?b now)" using ok assms(6) by (rule RefillUnlocked_ok)
  have "round53 (of_nat (unat n)) \<le> cap_of ?b" unfolding cap_of_def b(1)
    using assms(2) by (intro round53_mono) (simp add: word_le_nat_alt)
  then have "\<not> dlt (tb_tokens (RefillUnlocked ?b now)) (d_of_u64 n)"
    using full okR by (simp add: bucket_ok_def d_of_u64_nat dbl_ops)
  then show ?thesis using False assms(1,2) b by (auto simp: TryAcquire_def Let_def)
qed (simp add: TryAcquire_def new_TokenBucket_def Let_def)

text \<open>C36. No session is unpayable: the tokens a session must acquire before its first read are at least one
  byte, are what its options say an operation reads, and never exceed the capacity the engine gives
  the bucket; so a bucket that has filled up grants them at once, at any later time.\<close>

theorem sched_item_payable:
  assumes "sched_Next G s = Inr (item, s')" "clock_ok t0" "t0 \<le> now" "clock_ok now"
  shows "0 < wi_op_bytes item \<and> wi_op_bytes item = SessionOpBytes (wi_session item)
    \<and> fst (TryAcquire (new_TokenBucket (rc_target_rate_bytes_per_s (sc_cfg s))
         (ComputeBucketCapacity (sc_cfg s)) t0) now (wi_op_bytes item))"
proof -
  let ?cfg = "sc_cfg s"
  obtain v where v: "wi_op_bytes item = ComputeOpBytes ?cfg v"
    "fo_vector_chunks (wi_session item) = (if v then max 1 (rc_vector_chunks ?cfg) else 0)"
    "v \<longrightarrow> rc_pattern ?cfg = Vector \<or> rc_pattern ?cfg = Mixed"
    "fo_chunk_size (wi_session item) = rc_chunk_size ?cfg"
    using sched_Next_facts [OF assms(1)] by blast
  have "0 < max 1 (rc_vector_chunks ?cfg)" using vector_count_bounds(1) [of "rc_vector_chunks ?cfg"]
    by (simp add: word_less_nat_alt)
  then have s: "wi_op_bytes item = SessionOpBytes (wi_session item)"
    by (auto simp: v SessionOpBytes_def ComputeOpBytes_def chunk_bytes_def Let_def)
  have p: "0 < wi_op_bytes item" using ComputeOpBytes_bounds(1) [of ?cfg v] by (simp add: v word_less_nat_alt)
  have "fst (TryAcquire (new_TokenBucket (rc_target_rate_bytes_per_s ?cfg) (ComputeBucketCapacity ?cfg) t0)
      now (wi_op_bytes item))"
  proof (cases "rc_target_rate_bytes_per_s ?cfg = 0")
    case True
    then show ?thesis by (simp add: TryAcquire_def new_TokenBucket_def Let_def)
  next
    case False
    define w where "w = (rc_pattern ?cfg = Vector \<or> rc_pattern ?cfg = Mixed)"
    have c: "ComputeBucketCapacity ?cfg = ComputeOpBytes ?cfg w"
      using False by (simp add: ComputeBucketCapacity_def Let_def w_def)
    have "wi_op_bytes item \<le> ComputeBucketCapacity ?cfg"
      using v(3) by (simp add: c v(1) w_def ComputeOpBytes_mono)
    then show ?thesis using p assms(2-4) ComputeOpBytes_bounds [of ?cfg w]
      by (intro full_bucket_grants) (simp_all add: c word_less_nat_alt)
  qed
  then show ?thesis using p s by blast
qed

lemma sched_item_payable_witness:
  "\<exists>item s'. sched_Next counter_rng (new_Scheduler counter_rng demo_sched_cfg) = Inr (item, s')
     \<and> 0 < wi_op_bytes item"
proof -
  let ?s = "new_Scheduler counter_rng demo_sched_cfg"
  obtain item s' where 1: "sched_Next counter_rng ?s = Inr (item, s')"
    using sched_Next_Inr [OF counter_rng_bounded, of ?s]
    by (auto simp: new_Scheduler_def demo_sched_cfg_def)
  have "0 < wi_op_bytes item"
    using conjunct1 [OF sched_item_payable [OF 1, of 0 5]] by (simp add: clock_ok_def)
  with 1 show ?thesis by blast
qed

end
