(* ===== verification/FileSession.thy ===== *)
theory FileSession
  imports Scheduler ErrorClassifier
begin

text \<open>
  \<^verbatim>\<open>src/file_session.cc\<close>: one Open, Stat, Read loop, Close session over the asynchronous XrdCl
  client. Every public call and every response handler is one critical section of the session's
  mutex, hence one function of the state. What the outside supplies is an argument: the status the
  XrdCl submission of the call returns (each call submits at most one operation), the readings of
  the clock, the arguments of the response. What the session does to the outside is appended to
  \<open>fs_log\<close>: submissions with their acceptance, refunds of tokens, the notifications.
\<close>

section \<open>Types\<close>

text \<open>\<^verbatim>\<open>XrdCl::XRootDStatus\<close>: \<^verbatim>\<open>IsOK\<close>, \<^verbatim>\<open>code\<close>, \<^verbatim>\<open>errNo\<close> and \<^verbatim>\<open>ToString\<close>.\<close>

record xrd_status =
  xs_ok :: bool
  xs_code :: int
  xs_errno :: int
  xs_text :: string

datatype clock_site = AtEntry | AtIssue | AtLastByte | AtCapture

record session_env =
  ev_submit :: xrd_status
  ev_clock :: "clock_site \<Rightarrow> int"

record FileSessionResult =
  fr_ok :: bool
  fr_timed_out :: bool
  fr_error :: string
  fr_status_code :: int
  fr_err_code :: int
  fr_url :: string
  fr_data_server :: string
  fr_file_size :: u64
  fr_open_hosts :: nat
  fr_open_ms :: double
  fr_ttfb_ms :: double
  fr_read_s :: double
  fr_close_ms :: double
  fr_total_s :: double
  fr_bytes_read :: u64
  fr_ops :: u64
  fr_vector :: bool
  fr_throughput_Mbps :: double
  fr_op_lat_min_ms :: double
  fr_op_lat_avg_ms :: double
  fr_op_lat_max_ms :: double

datatype xrd_op = OpOpen string | OpStat | OpRead u64 u32 | OpVectorRead "(u64 \<times> u32) list" | OpClose

text \<open>\<open>FnOpen\<close> to \<open>FnClose\<close>: the response handlers.\<close>

datatype fn_handler = FnOpen | FnStat | FnRead | FnClose

datatype effect =
    Submit xrd_op bool
  | Callback fn_handler
  | RefundTokens u64
  | ReadOpDone double
  | Ready
  | ArmDeadline
  | DisarmDeadline
  | Done FileSessionResult
  | Released

text \<open>\<open>fs_has_refund\<close>, \<open>fs_has_ready\<close> and \<open>fs_has_read_op\<close>: the pacing callbacks that are set.\<close>

record 'r FileSession =
  fs_opts :: FileSessionOptions
  fs_on_done :: bool
  fs_paced :: bool
  fs_prepaid_op_bytes :: u64
  fs_has_refund :: bool
  fs_has_ready :: bool
  fs_has_read_op :: bool
  fs_result :: FileSessionResult
  fs_buffer :: nat
  fs_self_keep :: bool
  fs_data_server :: string
  fs_file_size :: u64
  fs_remaining :: u64
  fs_next_offset :: u64
  fs_requested :: u64
  fs_bytes_read :: u64
  fs_ops :: u64
  fs_hops :: nat
  fs_rng :: 'r
  fs_lat_sum_ms :: double
  fs_lat_min_ms :: double
  fs_lat_max_ms :: double
  fs_t_start :: int
  fs_t_open :: int
  fs_t_first_byte :: int
  fs_t_first_issue :: int
  fs_t_last_byte :: int
  fs_t_end :: int
  fs_t_issue :: int
  fs_pending_cbs :: int
  fs_timed_out :: bool
  fs_close_requested :: bool
  fs_budget_set :: bool
  fs_issued_read :: bool
  fs_completed :: bool
  fs_log :: "effect list"

definition new_FileSessionResult :: FileSessionResult where
  "new_FileSessionResult = \<lparr> fr_ok = False, fr_timed_out = False, fr_error = [], fr_status_code = 0,
     fr_err_code = 0, fr_url = [], fr_data_server = [], fr_file_size = 0, fr_open_hosts = 0,
     fr_open_ms = Fin 0, fr_ttfb_ms = Fin 0, fr_read_s = Fin 0, fr_close_ms = Fin 0, fr_total_s = Fin 0,
     fr_bytes_read = 0, fr_ops = 0, fr_vector = False, fr_throughput_Mbps = Fin 0,
     fr_op_lat_min_ms = Fin 0, fr_op_lat_avg_ms = Fin 0, fr_op_lat_max_ms = Fin 0 \<rparr>"

definition dbl_max :: double where
  "dbl_max = Fin ((2 ^ 53 - 1) * 2 ^ 971)"

definition new_FileSession ::
  "'r rng_api \<Rightarrow> FileSessionOptions \<Rightarrow> bool \<Rightarrow> bool \<Rightarrow> u64 \<Rightarrow> bool \<Rightarrow> bool \<Rightarrow> bool \<Rightarrow> 'r FileSession" where
  "new_FileSession G opts on_done paced prepaid has_refund has_ready has_read_op =
     \<lparr> fs_opts = opts, fs_on_done = on_done, fs_paced = paced, fs_prepaid_op_bytes = prepaid,
       fs_has_refund = has_refund, fs_has_ready = has_ready, fs_has_read_op = has_read_op,
       fs_result = new_FileSessionResult
         \<lparr> fr_url := fo_url opts, fr_vector := (0 < fo_vector_chunks opts) \<rparr>,
       fs_buffer = 0, fs_self_keep = False, fs_data_server = [], fs_file_size = 0, fs_remaining = 0,
       fs_next_offset = 0, fs_requested = 0, fs_bytes_read = 0, fs_ops = 0, fs_hops = 0,
       fs_rng = rng_seed G 5489, fs_lat_sum_ms = Fin 0, fs_lat_min_ms = dbl_max, fs_lat_max_ms = Fin 0,
       fs_t_start = 0, fs_t_open = 0, fs_t_first_byte = 0, fs_t_first_issue = 0, fs_t_last_byte = 0,
       fs_t_end = 0, fs_t_issue = 0, fs_pending_cbs = 0, fs_timed_out = False,
       fs_close_requested = False, fs_budget_set = False, fs_issued_read = False,
       fs_completed = False, fs_log = [] \<rparr>"

section \<open>Private operations\<close>

definition emit :: "effect \<Rightarrow> 'r FileSession \<Rightarrow> 'r FileSession" where
  "emit e s = s \<lparr> fs_log := fs_log s @ [e] \<rparr>"

definition MsBetween :: "int \<Rightarrow> int \<Rightarrow> double" where
  "MsBetween a b = ddiv (d_of_int (b - a)) (Fin (10 ^ 6))"

definition SecsBetween :: "int \<Rightarrow> int \<Rightarrow> double" where
  "SecsBetween a b = seconds_of_ns (b - a)"

text \<open>32-bit arithmetic: the product of the chunk size and the number of chunks wraps.\<close>

definition OpBytes :: "FileSessionOptions \<Rightarrow> u32" where
  "OpBytes opts = (if 0 < fo_vector_chunks opts then fo_chunk_size opts * ucast (fo_vector_chunks opts)
     else fo_chunk_size opts)"

definition NextOpBytes :: "'r FileSession \<Rightarrow> u64" where
  "NextOpBytes s =
     (let op = ucast (OpBytes (fs_opts s))
      in if \<not> fs_budget_set s then op
         else if fs_remaining s = 0 then 0
         else min op (fs_remaining s))"

definition CapturePartialCounters :: "session_env \<Rightarrow> 'r FileSession \<Rightarrow> 'r FileSession" where
  "CapturePartialCounters env s =
     (let r = fs_result s \<lparr> fr_bytes_read := fs_bytes_read s, fr_ops := fs_ops s,
                fr_data_server := fs_data_server s, fr_file_size := fs_file_size s,
                fr_open_hosts := fs_hops s \<rparr>;
          r = (if fs_t_open s \<noteq> 0
               then let r = r \<lparr> fr_open_ms := MsBetween (fs_t_start s) (fs_t_open s) \<rparr>
                    in if 0 < fs_ops s \<and> fs_t_first_byte s \<noteq> 0 \<and> fs_t_first_issue s \<noteq> 0
                       then r \<lparr> fr_ttfb_ms := MsBetween (fs_t_first_issue s) (fs_t_first_byte s) \<rparr> else r
               else r)
      in s \<lparr> fs_result := r \<lparr> fr_total_s := SecsBetween (fs_t_start s) (ev_clock env AtCapture) \<rparr> \<rparr>)"

definition Complete :: "'r FileSession \<Rightarrow> 'r FileSession" where
  "Complete s =
     (if fs_completed s then s
      else let s = s \<lparr> fs_completed := True \<rparr>
           in if fs_on_done s then emit (Done (fs_result s)) (s \<lparr> fs_on_done := False \<rparr>) else s)"

definition ReleaseIfIdle :: "'r FileSession \<Rightarrow> 'r FileSession" where
  "ReleaseIfIdle s =
     (if fs_pending_cbs s = 0 \<and> fs_completed s \<and> fs_self_keep s
      then emit Released (s \<lparr> fs_self_keep := False \<rparr>) else s)"

definition ArmOpDeadline :: "'r FileSession \<Rightarrow> 'r FileSession" where
  "ArmOpDeadline s = (if dlt (Fin 0) (fo_wall_timeout_s (fs_opts s)) then emit ArmDeadline s else s)"

definition RefundBytes :: "u64 \<Rightarrow> 'r FileSession \<Rightarrow> 'r FileSession" where
  "RefundBytes n s = (if n = 0 \<or> \<not> fs_has_refund s then s else emit (RefundTokens n) s)"

definition RefundPrepaid :: "'r FileSession \<Rightarrow> 'r FileSession" where
  "RefundPrepaid s =
     (if fs_issued_read s then s
      else (RefundBytes (fs_prepaid_op_bytes s) s) \<lparr> fs_prepaid_op_bytes := 0 \<rparr>)"

definition set_error :: "string \<Rightarrow> int \<Rightarrow> int \<Rightarrow> 'r FileSession \<Rightarrow> 'r FileSession" where
  "set_error err code errno s = s \<lparr> fs_result := fs_result s
     \<lparr> fr_error := err, fr_status_code := code, fr_err_code := errno \<rparr> \<rparr>"

definition SubmitClose :: "session_env \<Rightarrow> 'r FileSession \<Rightarrow> 'r FileSession" where
  "SubmitClose env s =
     (if fs_close_requested s then s
      else let st = ev_submit env;
               s = ArmOpDeadline (s \<lparr> fs_close_requested := True, fs_pending_cbs := fs_pending_cbs s + 1 \<rparr>);
               s = emit (Submit OpClose (xs_ok st)) s
           in if xs_ok st then s
              else let s = s \<lparr> fs_pending_cbs := fs_pending_cbs s - 1 \<rparr>
                   in if 0 < fs_pending_cbs s then s \<lparr> fs_close_requested := False \<rparr>
                      else let s = CapturePartialCounters env s;
                               s = (if fs_timed_out s
                                    then set_error ''session wall timeout'' (xs_code st) 110
                                           (s \<lparr> fs_result := fs_result s \<lparr> fr_timed_out := True \<rparr> \<rparr>)
                                    else set_error (''close submission failed: '' @ xs_text st)
                                           (xs_code st) (xs_errno st) s)
                           in Complete s)"

definition Fail :: "session_env \<Rightarrow> string \<Rightarrow> xrd_status \<Rightarrow> 'r FileSession \<Rightarrow> 'r FileSession" where
  "Fail env stage st s =
     (let s = CapturePartialCounters env s;
          s = set_error (stage @ '' failed: '' @ xs_text st) (xs_code st) (xs_errno st) s;
          s = (if stage = ''read'' \<or> stage = ''vector_read''
               then (RefundBytes (fs_requested s) s) \<lparr> fs_requested := 0 \<rparr>
               else if \<not> fs_issued_read s then RefundPrepaid s else s)
      in Complete s)"

definition FinishOk :: "'r FileSession \<Rightarrow> 'r FileSession" where
  "FinishOk s =
     (let read_s = ddiv (fs_lat_sum_ms s) (Fin 1000) in
      Complete (s \<lparr> fs_result := fs_result s
        \<lparr> fr_ok := True, fr_data_server := fs_data_server s, fr_file_size := fs_file_size s,
          fr_open_hosts := fs_hops s, fr_bytes_read := fs_bytes_read s, fr_ops := fs_ops s,
          fr_open_ms := MsBetween (fs_t_start s) (fs_t_open s),
          fr_ttfb_ms := (if 0 < fs_ops s then MsBetween (fs_t_first_issue s) (fs_t_first_byte s) else Fin 0),
          fr_read_s := read_s,
          fr_close_ms := MsBetween (fs_t_last_byte s) (fs_t_end s),
          fr_total_s := SecsBetween (fs_t_start s) (fs_t_end s),
          fr_throughput_Mbps := (if dlt (Fin 0) read_s
             then ddiv (dmul (ddiv (d_of_u64 (fs_bytes_read s)) read_s) (Fin 8)) (Fin (10 ^ 6)) else Fin 0),
          fr_op_lat_min_ms := (if 0 < fs_ops s then fs_lat_min_ms s else Fin 0),
          fr_op_lat_avg_ms := (if 0 < fs_ops s then ddiv (fs_lat_sum_ms s) (d_of_u64 (fs_ops s)) else Fin 0),
          fr_op_lat_max_ms := fs_lat_max_ms s \<rparr> \<rparr>))"

section \<open>Issuing reads\<close>

text \<open>The chunk lists of a VectorRead: at most \<open>n\<close> chunks of at most \<open>c\<close> bytes out of \<open>left\<close>; the
  sequential one also gives the offset after its last chunk.\<close>

definition chunk_len :: "u32 \<Rightarrow> u64 \<Rightarrow> u32" where
  "chunk_len c left = ucast (min (ucast c) left)"

fun seq_chunks :: "nat \<Rightarrow> u32 \<Rightarrow> u64 \<Rightarrow> u64 \<Rightarrow> (u64 \<times> u32) list \<times> u64" where
  "seq_chunks 0 c off left = ([], off)"
| "seq_chunks (Suc n) c off left =
     (if left = 0 then ([], off)
      else let len = chunk_len c left;
               (chunks, end) = seq_chunks n c (off + ucast len) (left - ucast len)
           in ((off, len) # chunks, end))"

fun rand_chunks ::
  "'r rng_api \<Rightarrow> u64 \<Rightarrow> nat \<Rightarrow> u32 \<Rightarrow> u64 \<Rightarrow> 'r \<Rightarrow> (u64 \<times> u32) list \<times> u64 \<times> 'r" where
  "rand_chunks G file_size 0 c left rng = ([], 0, rng)"
| "rand_chunks G file_size (Suc n) c left rng =
     (if left = 0 then ([], 0, rng)
      else let len = chunk_len c left;
               (off, rng) = SampleRandomReadOffset G rng file_size len;
               (chunks, requested, rng) = rand_chunks G file_size n c (left - ucast len) rng
           in ((off, len) # chunks, ucast len + requested, rng))"

text \<open>The operation the next read submits, its size, and what choosing it does to the offset and the
  generator.\<close>

definition next_read ::
  "'r rng_api \<Rightarrow> 'r FileSession \<Rightarrow> xrd_op \<times> u64 \<times> u64 \<times> 'r" where
  "next_read G s =
     (let opts = fs_opts s; c = fo_chunk_size opts in
      if 0 < fo_vector_chunks opts then
        (if fo_random_offset opts
         then let (chunks, requested, rng) =
                    rand_chunks G (fs_file_size s) (unat (fo_vector_chunks opts)) c (fs_remaining s) (fs_rng s)
              in (OpVectorRead chunks, requested, fs_next_offset s, rng)
         else let (chunks, off) = seq_chunks (unat (fo_vector_chunks opts)) c (fs_next_offset s) (fs_remaining s)
              in (OpVectorRead chunks,
                  (if fs_next_offset s = off then 0 else off - fs_next_offset s), fs_next_offset s, fs_rng s))
      else
        let len = chunk_len c (fs_remaining s);
            (off, rng) = (if fo_random_offset opts
                          then SampleRandomReadOffset G (fs_rng s) (fs_file_size s) len
                          else (fs_next_offset s, fs_rng s))
        in (OpRead off len, ucast len, off, rng))"

definition IssueNext :: "'r rng_api \<Rightarrow> session_env \<Rightarrow> 'r FileSession \<Rightarrow> 'r FileSession" where
  "IssueNext G env s =
     (if fs_completed s then s
      else let s = (if fs_timed_out s then s \<lparr> fs_remaining := 0 \<rparr> else s)
      in if fs_remaining s = 0
         then SubmitClose env (RefundPrepaid (s \<lparr> fs_t_last_byte := ev_clock env AtLastByte \<rparr>))
         else let now = ev_clock env AtIssue; st = ev_submit env;
                  s = s \<lparr> fs_t_issue := now,
                          fs_t_first_issue := (if fs_ops s = 0 then now else fs_t_first_issue s) \<rparr>;
                  s = ArmOpDeadline (s \<lparr> fs_pending_cbs := fs_pending_cbs s + 1 \<rparr>);
                  (op, requested, off, rng) = next_read G s;
                  s = emit (Submit op (xs_ok st))
                        (s \<lparr> fs_requested := requested, fs_next_offset := off, fs_rng := rng \<rparr>);
                  s = (if requested < fs_prepaid_op_bytes s
                       then RefundBytes (fs_prepaid_op_bytes s - requested) s else s);
                  s = s \<lparr> fs_prepaid_op_bytes := 0, fs_issued_read := True \<rparr>
              in if xs_ok st then s
                 else let s = CapturePartialCounters env (s \<lparr> fs_pending_cbs := fs_pending_cbs s - 1 \<rparr>);
                          s = set_error (''read submission failed: '' @ xs_text st) (xs_code st) (xs_errno st) s;
                          s = (RefundBytes (fs_requested s) s) \<lparr> fs_requested := 0 \<rparr>
                      in Complete s)"

section \<open>Public calls\<close>

definition fs_Start :: "session_env \<Rightarrow> 'r FileSession \<Rightarrow> 'r FileSession" where
  "fs_Start env s =
     (let st = ev_submit env;
          s = ArmOpDeadline (s \<lparr> fs_self_keep := True, fs_buffer := unat (OpBytes (fs_opts s)),
                                 fs_t_start := ev_clock env AtEntry \<rparr>);
          s = emit (Submit (OpOpen (fo_url (fs_opts s))) (xs_ok st))
                (s \<lparr> fs_pending_cbs := fs_pending_cbs s + 1 \<rparr>)
      in if xs_ok st then s
         else ReleaseIfIdle (Complete (RefundPrepaid
                (set_error (''open submission failed: '' @ xs_text st) (xs_code st) (xs_errno st)
                  (s \<lparr> fs_pending_cbs := fs_pending_cbs s - 1 \<rparr>)))))"

definition RequestWallTimeout :: "session_env \<Rightarrow> 'r FileSession \<Rightarrow> 'r FileSession" where
  "RequestWallTimeout env s =
     (if fs_completed s \<or> fs_close_requested s then s
      else ReleaseIfIdle (SubmitClose env (s \<lparr> fs_timed_out := True \<rparr>)))"

definition IssueNextFromEngine :: "'r rng_api \<Rightarrow> session_env \<Rightarrow> 'r FileSession \<Rightarrow> 'r FileSession" where
  "IssueNextFromEngine G env s =
     (if fs_completed s then ReleaseIfIdle s else ReleaseIfIdle (IssueNext G env s))"

definition CloseNow :: "session_env \<Rightarrow> 'r FileSession \<Rightarrow> 'r FileSession" where
  "CloseNow env s =
     (if fs_completed s then ReleaseIfIdle s
      else ReleaseIfIdle (SubmitClose env (s \<lparr> fs_remaining := 0 \<rparr>)))"

section \<open>Response handlers\<close>

text \<open>The common entry of a handler.\<close>

definition enter :: "fn_handler \<Rightarrow> 'r FileSession \<Rightarrow> 'r FileSession" where
  "enter h s = emit (Callback h) (s \<lparr> fs_pending_cbs := fs_pending_cbs s - 1 \<rparr>)"

text \<open>\<open>hosts\<close> is the length of the host list, if one is given; \<open>server\<close> the \<^verbatim>\<open>DataServer\<close> property.\<close>

definition OnOpen :: "session_env \<Rightarrow> xrd_status \<Rightarrow> nat option \<Rightarrow> string \<Rightarrow> 'r FileSession \<Rightarrow> 'r FileSession" where
  "OnOpen env st hosts server s =
     (let s = enter FnOpen s in
      if fs_completed s then ReleaseIfIdle s
      else let s = s \<lparr> fs_t_open := ev_clock env AtEntry,
                       fs_hops := (case hosts of Some n \<Rightarrow> n | None \<Rightarrow> fs_hops s) \<rparr>
      in if \<not> xs_ok st then ReleaseIfIdle (Fail env ''open'' st s)
         else let s = s \<lparr> fs_data_server := server \<rparr>
         in if fs_timed_out s then ReleaseIfIdle (SubmitClose env s)
            else let sub = ev_submit env;
                     s = emit (Submit OpStat (xs_ok sub))
                           (ArmOpDeadline (s \<lparr> fs_pending_cbs := fs_pending_cbs s + 1 \<rparr>))
                 in if xs_ok sub then ReleaseIfIdle s
                    else ReleaseIfIdle (Complete (RefundPrepaid
                           (set_error (''stat submission failed: '' @ xs_text sub) (xs_code sub) (xs_errno sub)
                             (s \<lparr> fs_pending_cbs := fs_pending_cbs s - 1 \<rparr>)))))"

text \<open>\<open>fsize\<close>: what \<^verbatim>\<open>StatInfo::GetSize\<close> says, \<open>0\<close> without a \<^verbatim>\<open>StatInfo\<close>.\<close>

definition OnStat :: "'r rng_api \<Rightarrow> session_env \<Rightarrow> xrd_status \<Rightarrow> u64 \<Rightarrow> 'r FileSession \<Rightarrow> 'r FileSession" where
  "OnStat G env st fsize s =
     (let s = enter FnStat s in
      if fs_completed s then ReleaseIfIdle s
      else if \<not> xs_ok st then ReleaseIfIdle (Fail env ''stat'' st s)
      else let s = s \<lparr> fs_file_size := fsize \<rparr>;
               opts = fs_opts s;
               start = fo_offset opts;
               budget = (if 0 < fo_max_bytes opts then min fsize (fo_max_bytes opts) else fsize)
      in if fo_random_offset opts
         then ReleaseIfIdle (IssueNext G env
                (s \<lparr> fs_rng := rng_seed G (fo_offset_seed opts), fs_remaining := budget,
                     fs_next_offset := 0, fs_budget_set := True \<rparr>))
         else if fsize \<le> start
         then ReleaseIfIdle (Complete (RefundPrepaid
                (s \<lparr> fs_result := fs_result s
                       \<lparr> fr_error := ''offset '' @ nat_to_dec (unat start) @ '' is beyond file size ''
                                     @ nat_to_dec (unat fsize),
                         fr_file_size := fsize, fr_data_server := fs_data_server s,
                         fr_open_hosts := fs_hops s \<rparr> \<rparr>)))
         else ReleaseIfIdle (IssueNext G env
                (s \<lparr> fs_remaining := min (fsize - start) budget, fs_next_offset := start,
                     fs_budget_set := True \<rparr>)))"

text \<open>\<open>info\<close>: the bytes the \<^verbatim>\<open>ChunkInfo\<close> or \<^verbatim>\<open>VectorReadInfo\<close> reports, if there is one. The
  handler of a successful read in three parts: the counters, the refund of what was not read with the
  notification of the latency, and the decision what to do next.\<close>

definition got_bytes :: "u64 option \<Rightarrow> 'r FileSession \<Rightarrow> u64" where
  "got_bytes info s = (case info of Some n \<Rightarrow> n
     | None \<Rightarrow> if 0 < fo_vector_chunks (fs_opts s) then fs_requested s else 0)"

definition read_account :: "session_env \<Rightarrow> u64 \<Rightarrow> 'r FileSession \<Rightarrow> 'r FileSession" where
  "read_account env got s =
     (let now = ev_clock env AtEntry; lat = MsBetween (fs_t_issue s) now
      in s \<lparr> fs_t_first_byte := (if fs_ops s = 0 then now else fs_t_first_byte s),
             fs_ops := fs_ops s + 1, fs_lat_sum_ms := dadd (fs_lat_sum_ms s) lat,
             fs_lat_min_ms := dmin (fs_lat_min_ms s) lat, fs_lat_max_ms := dmax (fs_lat_max_ms s) lat,
             fs_bytes_read := fs_bytes_read s + got,
             fs_next_offset := (if fo_random_offset (fs_opts s) then fs_next_offset s else fs_next_offset s + got),
             fs_remaining := (if got < fs_requested s then 0 else fs_remaining s - got) \<rparr>)"

definition read_notify :: "session_env \<Rightarrow> 'r FileSession \<Rightarrow> 'r FileSession" where
  "read_notify env s = (if fs_has_read_op s
     then emit (ReadOpDone (ddiv (MsBetween (fs_t_issue s) (ev_clock env AtEntry)) (Fin 1000))) s else s)"

definition read_done :: "session_env \<Rightarrow> u64 option \<Rightarrow> 'r FileSession \<Rightarrow> 'r FileSession" where
  "read_done env info s =
     (let got = got_bytes info s; s = read_account env got s;
          s = (if got < fs_requested s then RefundBytes (fs_requested s - got) s else s)
      in (read_notify env s) \<lparr> fs_requested := 0 \<rparr>)"

definition OnRead :: "'r rng_api \<Rightarrow> session_env \<Rightarrow> xrd_status \<Rightarrow> u64 option \<Rightarrow> 'r FileSession \<Rightarrow> 'r FileSession" where
  "OnRead G env st info s =
     (let s = enter FnRead s in
      if fs_completed s then ReleaseIfIdle s
      else if \<not> xs_ok st
      then ReleaseIfIdle (Fail env (if 0 < fo_vector_chunks (fs_opts s) then ''vector_read'' else ''read'') st s)
      else let s = read_done env info s
           in if fs_paced s \<and> 0 < fs_remaining s \<and> fs_has_ready s
              then emit Ready (emit DisarmDeadline s)
              else ReleaseIfIdle (IssueNext G env s))"

definition OnClose :: "session_env \<Rightarrow> xrd_status \<Rightarrow> 'r FileSession \<Rightarrow> 'r FileSession" where
  "OnClose env st s =
     (let s = enter FnClose s in
      if fs_completed s then ReleaseIfIdle s
      else let s = s \<lparr> fs_t_end := ev_clock env AtEntry \<rparr>
      in if fs_timed_out s
         then let s = CapturePartialCounters env s;
                  s = set_error ''session wall timeout'' (xs_code st) 110
                        (s \<lparr> fs_result := fs_result s \<lparr> fr_timed_out := True \<rparr> \<rparr>)
              in ReleaseIfIdle (Complete s)
         else if \<not> xs_ok st then ReleaseIfIdle (Fail env ''close'' st s)
         else ReleaseIfIdle (FinishOk s))"

end
