(* ===== verification/SessionView.thy ===== *)
theory SessionView
  imports FileSession
begin

text \<open>
  What the session's operations do to the part of the state its protocol depends on. The measures of
  the log are the operations XrdCl still owes a callback for (\<open>owed\<close>), the number of completions and
  releases, and the tokens given back. The equations of each operation are collected in
  \<open>fs_view\<close>: the proofs about the handlers are simplification with it.
\<close>

section \<open>Measures of the log\<close>

fun handler_of :: "xrd_op \<Rightarrow> fn_handler" where
  "handler_of (OpOpen u) = FnOpen"
| "handler_of OpStat = FnStat"
| "handler_of (OpRead off len) = FnRead"
| "handler_of (OpVectorRead cs) = FnRead"
| "handler_of OpClose = FnClose"

fun owed_by :: "fn_handler \<Rightarrow> effect \<Rightarrow> int" where
  "owed_by h (Submit op accepted) = (if accepted \<and> handler_of op = h then 1 else 0)"
| "owed_by h (Callback h') = (if h' = h then -1 else 0)"
| "owed_by h _ = 0"

definition owed :: "fn_handler \<Rightarrow> effect list \<Rightarrow> int" where
  "owed h L = sum_list (map (owed_by h) L)"

fun refund_of :: "effect \<Rightarrow> nat" where
  "refund_of (RefundTokens n) = unat n"
| "refund_of _ = 0"

definition refunded :: "effect list \<Rightarrow> nat" where
  "refunded L = sum_list (map refund_of L)"

fun is_Done :: "effect \<Rightarrow> bool" where
  "is_Done (Done r) = True"
| "is_Done _ = False"

definition dones :: "effect list \<Rightarrow> nat" where
  "dones L = length (filter is_Done L)"

definition releases :: "effect list \<Rightarrow> nat" where
  "releases L = length (filter (\<lambda>e. e = Released) L)"

definition readies :: "effect list \<Rightarrow> nat" where
  "readies L = length (filter (\<lambda>e. e = Ready) L)"

fun result_of :: "effect \<Rightarrow> FileSessionResult list" where
  "result_of (Done r) = [r]"
| "result_of _ = []"

text \<open>The results given to \<open>on_done\<close>, and the reads submitted, in order.\<close>

definition results :: "effect list \<Rightarrow> FileSessionResult list" where
  "results L = concat (map result_of L)"

fun read_of :: "effect \<Rightarrow> xrd_op list" where
  "read_of (Submit (OpRead off len) accepted) = [OpRead off len]"
| "read_of (Submit (OpVectorRead cs) accepted) = [OpVectorRead cs]"
| "read_of _ = []"

definition reads :: "effect list \<Rightarrow> xrd_op list" where
  "reads L = concat (map read_of L)"

named_theorems fs_view \<open>effect of the session operations on its protocol state\<close>

lemma measure_emit [fs_view]:
  "owed h (L @ M) = owed h L + owed h M" "owed h (e # M) = owed_by h e + owed h M" "owed h [] = 0"
  "refunded (L @ M) = refunded L + refunded M" "refunded (e # M) = refund_of e + refunded M" "refunded [] = 0"
  "dones (L @ M) = dones L + dones M" "dones (e # M) = (if is_Done e then 1 else 0) + dones M" "dones [] = 0"
  "releases (L @ M) = releases L + releases M" "releases (e # M) = (if e = Released then 1 else 0) + releases M"
  "releases [] = 0"
  "readies (L @ M) = readies L + readies M" "readies (e # M) = (if e = Ready then 1 else 0) + readies M"
  "readies [] = 0"
  "results (L @ M) = results L @ results M" "results (e # M) = result_of e @ results M" "results [] = []"
  "reads (L @ M) = reads L @ reads M" "reads (e # M) = read_of e @ reads M" "reads [] = []"
  by (simp_all add: owed_def refunded_def dones_def releases_def readies_def results_def reads_def)

lemma emit_view [fs_view]:
  "fs_log (emit e s) = fs_log s @ [e]"
  "fs_opts (emit e s) = fs_opts s" "fs_on_done (emit e s) = fs_on_done s" "fs_paced (emit e s) = fs_paced s"
  "fs_prepaid_op_bytes (emit e s) = fs_prepaid_op_bytes s" "fs_has_refund (emit e s) = fs_has_refund s"
  "fs_has_ready (emit e s) = fs_has_ready s" "fs_has_read_op (emit e s) = fs_has_read_op s"
  "fs_result (emit e s) = fs_result s" "fs_self_keep (emit e s) = fs_self_keep s" "fs_buffer (emit e s) = fs_buffer s"
  "fs_file_size (emit e s) = fs_file_size s" "fs_remaining (emit e s) = fs_remaining s"
  "fs_next_offset (emit e s) = fs_next_offset s" "fs_requested (emit e s) = fs_requested s"
  "fs_bytes_read (emit e s) = fs_bytes_read s" "fs_ops (emit e s) = fs_ops s" "fs_rng (emit e s) = fs_rng s"
  "fs_pending_cbs (emit e s) = fs_pending_cbs s"
  "fs_timed_out (emit e s) = fs_timed_out s" "fs_close_requested (emit e s) = fs_close_requested s"
  "fs_budget_set (emit e s) = fs_budget_set s" "fs_issued_read (emit e s) = fs_issued_read s"
  "fs_completed (emit e s) = fs_completed s"
  by (simp_all add: emit_def)

text \<open>Operations that leave the whole protocol state alone.\<close>

lemma CapturePartialCounters_view [fs_view]:
  "fs_log (CapturePartialCounters env s) = fs_log s"
  "fs_opts (CapturePartialCounters env s) = fs_opts s" "fs_on_done (CapturePartialCounters env s) = fs_on_done s"
  "fs_paced (CapturePartialCounters env s) = fs_paced s"
  "fs_prepaid_op_bytes (CapturePartialCounters env s) = fs_prepaid_op_bytes s"
  "fs_has_refund (CapturePartialCounters env s) = fs_has_refund s"
  "fs_has_ready (CapturePartialCounters env s) = fs_has_ready s"
  "fs_self_keep (CapturePartialCounters env s) = fs_self_keep s" "fs_buffer (CapturePartialCounters env s) = fs_buffer s"
  "fs_file_size (CapturePartialCounters env s) = fs_file_size s"
  "fs_remaining (CapturePartialCounters env s) = fs_remaining s"
  "fs_next_offset (CapturePartialCounters env s) = fs_next_offset s"
  "fs_requested (CapturePartialCounters env s) = fs_requested s"
  "fs_bytes_read (CapturePartialCounters env s) = fs_bytes_read s"
  "fs_pending_cbs (CapturePartialCounters env s) = fs_pending_cbs s"
  "fs_timed_out (CapturePartialCounters env s) = fs_timed_out s"
  "fs_close_requested (CapturePartialCounters env s) = fs_close_requested s"
  "fs_budget_set (CapturePartialCounters env s) = fs_budget_set s"
  "fs_issued_read (CapturePartialCounters env s) = fs_issued_read s"
  "fs_completed (CapturePartialCounters env s) = fs_completed s"
  "fr_ok (fs_result (CapturePartialCounters env s)) = fr_ok (fs_result s)"
  "fr_error (fs_result (CapturePartialCounters env s)) = fr_error (fs_result s)"
  "fr_timed_out (fs_result (CapturePartialCounters env s)) = fr_timed_out (fs_result s)"
  "fr_bytes_read (fs_result (CapturePartialCounters env s)) = fs_bytes_read s"
  by (simp_all add: CapturePartialCounters_def Let_def)

lemma set_error_view [fs_view]:
  "fs_log (set_error t c e s) = fs_log s"
  "fs_opts (set_error t c e s) = fs_opts s" "fs_on_done (set_error t c e s) = fs_on_done s"
  "fs_paced (set_error t c e s) = fs_paced s"
  "fs_prepaid_op_bytes (set_error t c e s) = fs_prepaid_op_bytes s"
  "fs_has_refund (set_error t c e s) = fs_has_refund s" "fs_has_ready (set_error t c e s) = fs_has_ready s"
  "fs_self_keep (set_error t c e s) = fs_self_keep s" "fs_buffer (set_error t c e s) = fs_buffer s"
  "fs_file_size (set_error t c e s) = fs_file_size s" "fs_remaining (set_error t c e s) = fs_remaining s"
  "fs_next_offset (set_error t c e s) = fs_next_offset s" "fs_requested (set_error t c e s) = fs_requested s"
  "fs_bytes_read (set_error t c e s) = fs_bytes_read s" "fs_pending_cbs (set_error t c e s) = fs_pending_cbs s"
  "fs_timed_out (set_error t c e s) = fs_timed_out s" "fs_close_requested (set_error t c e s) = fs_close_requested s"
  "fs_budget_set (set_error t c e s) = fs_budget_set s" "fs_issued_read (set_error t c e s) = fs_issued_read s"
  "fs_completed (set_error t c e s) = fs_completed s"
  "fr_ok (fs_result (set_error t c e s)) = fr_ok (fs_result s)" "fr_error (fs_result (set_error t c e s)) = t"
  "fr_timed_out (fs_result (set_error t c e s)) = fr_timed_out (fs_result s)"
  "fr_bytes_read (fs_result (set_error t c e s)) = fr_bytes_read (fs_result s)"
  by (simp_all add: set_error_def)

lemma ArmOpDeadline_view [fs_view]:
  "owed h (fs_log (ArmOpDeadline s)) = owed h (fs_log s)" "refunded (fs_log (ArmOpDeadline s)) = refunded (fs_log s)"
  "dones (fs_log (ArmOpDeadline s)) = dones (fs_log s)" "releases (fs_log (ArmOpDeadline s)) = releases (fs_log s)"
  "set (fs_log (ArmOpDeadline s)) - {ArmDeadline} = set (fs_log s) - {ArmDeadline}"
  "fs_opts (ArmOpDeadline s) = fs_opts s" "fs_on_done (ArmOpDeadline s) = fs_on_done s"
  "fs_paced (ArmOpDeadline s) = fs_paced s" "fs_prepaid_op_bytes (ArmOpDeadline s) = fs_prepaid_op_bytes s"
  "fs_has_refund (ArmOpDeadline s) = fs_has_refund s" "fs_has_ready (ArmOpDeadline s) = fs_has_ready s"
  "fs_result (ArmOpDeadline s) = fs_result s" "fs_self_keep (ArmOpDeadline s) = fs_self_keep s"
  "fs_buffer (ArmOpDeadline s) = fs_buffer s"
  "fs_file_size (ArmOpDeadline s) = fs_file_size s" "fs_remaining (ArmOpDeadline s) = fs_remaining s"
  "fs_next_offset (ArmOpDeadline s) = fs_next_offset s" "fs_requested (ArmOpDeadline s) = fs_requested s"
  "fs_bytes_read (ArmOpDeadline s) = fs_bytes_read s" "fs_rng (ArmOpDeadline s) = fs_rng s"
  "fs_pending_cbs (ArmOpDeadline s) = fs_pending_cbs s"
  "fs_timed_out (ArmOpDeadline s) = fs_timed_out s" "fs_close_requested (ArmOpDeadline s) = fs_close_requested s"
  "fs_budget_set (ArmOpDeadline s) = fs_budget_set s" "fs_issued_read (ArmOpDeadline s) = fs_issued_read s"
  "fs_completed (ArmOpDeadline s) = fs_completed s"
  by (auto simp: ArmOpDeadline_def fs_view)

lemma RefundBytes_view [fs_view]:
  "owed h (fs_log (RefundBytes n s)) = owed h (fs_log s)"
  "refunded (fs_log (RefundBytes n s)) = refunded (fs_log s) + (if fs_has_refund s then unat n else 0)"
  "dones (fs_log (RefundBytes n s)) = dones (fs_log s)" "releases (fs_log (RefundBytes n s)) = releases (fs_log s)"
  "fs_opts (RefundBytes n s) = fs_opts s" "fs_on_done (RefundBytes n s) = fs_on_done s"
  "fs_paced (RefundBytes n s) = fs_paced s" "fs_prepaid_op_bytes (RefundBytes n s) = fs_prepaid_op_bytes s"
  "fs_has_refund (RefundBytes n s) = fs_has_refund s" "fs_has_ready (RefundBytes n s) = fs_has_ready s"
  "fs_has_read_op (RefundBytes n s) = fs_has_read_op s"
  "fs_result (RefundBytes n s) = fs_result s" "fs_self_keep (RefundBytes n s) = fs_self_keep s"
  "fs_buffer (RefundBytes n s) = fs_buffer s"
  "fs_file_size (RefundBytes n s) = fs_file_size s" "fs_remaining (RefundBytes n s) = fs_remaining s"
  "fs_next_offset (RefundBytes n s) = fs_next_offset s" "fs_requested (RefundBytes n s) = fs_requested s"
  "fs_bytes_read (RefundBytes n s) = fs_bytes_read s" "fs_rng (RefundBytes n s) = fs_rng s"
  "fs_pending_cbs (RefundBytes n s) = fs_pending_cbs s"
  "fs_timed_out (RefundBytes n s) = fs_timed_out s" "fs_close_requested (RefundBytes n s) = fs_close_requested s"
  "fs_budget_set (RefundBytes n s) = fs_budget_set s" "fs_issued_read (RefundBytes n s) = fs_issued_read s"
  "fs_completed (RefundBytes n s) = fs_completed s"
  by (auto simp: RefundBytes_def fs_view)

lemma RefundPrepaid_view [fs_view]:
  "owed h (fs_log (RefundPrepaid s)) = owed h (fs_log s)"
  "refunded (fs_log (RefundPrepaid s)) = refunded (fs_log s)
     + (if fs_has_refund s \<and> \<not> fs_issued_read s then unat (fs_prepaid_op_bytes s) else 0)"
  "dones (fs_log (RefundPrepaid s)) = dones (fs_log s)" "releases (fs_log (RefundPrepaid s)) = releases (fs_log s)"
  "fs_opts (RefundPrepaid s) = fs_opts s" "fs_on_done (RefundPrepaid s) = fs_on_done s"
  "fs_paced (RefundPrepaid s) = fs_paced s"
  "fs_prepaid_op_bytes (RefundPrepaid s) = (if fs_issued_read s then fs_prepaid_op_bytes s else 0)"
  "fs_has_refund (RefundPrepaid s) = fs_has_refund s" "fs_has_ready (RefundPrepaid s) = fs_has_ready s"
  "fs_result (RefundPrepaid s) = fs_result s" "fs_self_keep (RefundPrepaid s) = fs_self_keep s"
  "fs_buffer (RefundPrepaid s) = fs_buffer s"
  "fs_file_size (RefundPrepaid s) = fs_file_size s" "fs_remaining (RefundPrepaid s) = fs_remaining s"
  "fs_next_offset (RefundPrepaid s) = fs_next_offset s" "fs_requested (RefundPrepaid s) = fs_requested s"
  "fs_bytes_read (RefundPrepaid s) = fs_bytes_read s" "fs_pending_cbs (RefundPrepaid s) = fs_pending_cbs s"
  "fs_timed_out (RefundPrepaid s) = fs_timed_out s" "fs_close_requested (RefundPrepaid s) = fs_close_requested s"
  "fs_budget_set (RefundPrepaid s) = fs_budget_set s" "fs_issued_read (RefundPrepaid s) = fs_issued_read s"
  "fs_completed (RefundPrepaid s) = fs_completed s"
  by (simp_all add: RefundPrepaid_def fs_view)

lemma Complete_view [fs_view]:
  "owed h (fs_log (Complete s)) = owed h (fs_log s)" "refunded (fs_log (Complete s)) = refunded (fs_log s)"
  "dones (fs_log (Complete s)) = dones (fs_log s) + (if \<not> fs_completed s \<and> fs_on_done s then 1 else 0)"
  "releases (fs_log (Complete s)) = releases (fs_log s)"
  "fs_opts (Complete s) = fs_opts s" "fs_on_done (Complete s) = (fs_on_done s \<and> fs_completed s)"
  "fs_paced (Complete s) = fs_paced s" "fs_prepaid_op_bytes (Complete s) = fs_prepaid_op_bytes s"
  "fs_has_refund (Complete s) = fs_has_refund s" "fs_has_ready (Complete s) = fs_has_ready s"
  "fs_result (Complete s) = fs_result s" "fs_self_keep (Complete s) = fs_self_keep s" "fs_buffer (Complete s) = fs_buffer s"
  "fs_file_size (Complete s) = fs_file_size s" "fs_remaining (Complete s) = fs_remaining s"
  "fs_next_offset (Complete s) = fs_next_offset s" "fs_requested (Complete s) = fs_requested s"
  "fs_bytes_read (Complete s) = fs_bytes_read s" "fs_pending_cbs (Complete s) = fs_pending_cbs s"
  "fs_timed_out (Complete s) = fs_timed_out s" "fs_close_requested (Complete s) = fs_close_requested s"
  "fs_budget_set (Complete s) = fs_budget_set s" "fs_issued_read (Complete s) = fs_issued_read s"
  "fs_completed (Complete s)"
  by (auto simp: Complete_def fs_view Let_def)

lemma ReleaseIfIdle_view [fs_view]:
  "owed h (fs_log (ReleaseIfIdle s)) = owed h (fs_log s)" "refunded (fs_log (ReleaseIfIdle s)) = refunded (fs_log s)"
  "dones (fs_log (ReleaseIfIdle s)) = dones (fs_log s)"
  "releases (fs_log (ReleaseIfIdle s)) = releases (fs_log s)
     + (if fs_pending_cbs s = 0 \<and> fs_completed s \<and> fs_self_keep s then 1 else 0)"
  "fs_opts (ReleaseIfIdle s) = fs_opts s" "fs_on_done (ReleaseIfIdle s) = fs_on_done s"
  "fs_paced (ReleaseIfIdle s) = fs_paced s" "fs_prepaid_op_bytes (ReleaseIfIdle s) = fs_prepaid_op_bytes s"
  "fs_has_refund (ReleaseIfIdle s) = fs_has_refund s" "fs_has_ready (ReleaseIfIdle s) = fs_has_ready s"
  "fs_result (ReleaseIfIdle s) = fs_result s"
  "fs_self_keep (ReleaseIfIdle s) = (fs_self_keep s \<and> \<not> (fs_pending_cbs s = 0 \<and> fs_completed s))"
  "fs_buffer (ReleaseIfIdle s) = fs_buffer s"
  "fs_file_size (ReleaseIfIdle s) = fs_file_size s" "fs_remaining (ReleaseIfIdle s) = fs_remaining s"
  "fs_next_offset (ReleaseIfIdle s) = fs_next_offset s" "fs_requested (ReleaseIfIdle s) = fs_requested s"
  "fs_bytes_read (ReleaseIfIdle s) = fs_bytes_read s" "fs_pending_cbs (ReleaseIfIdle s) = fs_pending_cbs s"
  "fs_timed_out (ReleaseIfIdle s) = fs_timed_out s" "fs_close_requested (ReleaseIfIdle s) = fs_close_requested s"
  "fs_budget_set (ReleaseIfIdle s) = fs_budget_set s" "fs_issued_read (ReleaseIfIdle s) = fs_issued_read s"
  "fs_completed (ReleaseIfIdle s) = fs_completed s"
  by (auto simp: ReleaseIfIdle_def fs_view)


section \<open>Closing\<close>

lemma SubmitClose_view [fs_view]:
  "owed h (fs_log (SubmitClose env s)) = owed h (fs_log s)
     + (if \<not> fs_close_requested s \<and> xs_ok (ev_submit env) \<and> h = FnClose then 1 else 0)"
  "refunded (fs_log (SubmitClose env s)) = refunded (fs_log s)"
  "dones (fs_log (SubmitClose env s)) = dones (fs_log s)
     + (if \<not> fs_close_requested s \<and> \<not> xs_ok (ev_submit env) \<and> fs_pending_cbs s \<le> 0
          \<and> \<not> fs_completed s \<and> fs_on_done s then 1 else 0)"
  "releases (fs_log (SubmitClose env s)) = releases (fs_log s)"
  "fs_opts (SubmitClose env s) = fs_opts s"
  "fs_on_done (SubmitClose env s) = (fs_on_done s \<and> (fs_completed s \<or> fs_close_requested s
     \<or> xs_ok (ev_submit env) \<or> 0 < fs_pending_cbs s))"
  "fs_paced (SubmitClose env s) = fs_paced s" "fs_prepaid_op_bytes (SubmitClose env s) = fs_prepaid_op_bytes s"
  "fs_has_refund (SubmitClose env s) = fs_has_refund s" "fs_has_ready (SubmitClose env s) = fs_has_ready s"
  "fr_ok (fs_result (SubmitClose env s)) = fr_ok (fs_result s)"
  "fs_self_keep (SubmitClose env s) = fs_self_keep s" "fs_buffer (SubmitClose env s) = fs_buffer s"
  "fs_file_size (SubmitClose env s) = fs_file_size s" "fs_remaining (SubmitClose env s) = fs_remaining s"
  "fs_next_offset (SubmitClose env s) = fs_next_offset s" "fs_requested (SubmitClose env s) = fs_requested s"
  "fs_bytes_read (SubmitClose env s) = fs_bytes_read s"
  "fs_pending_cbs (SubmitClose env s) = fs_pending_cbs s
     + (if \<not> fs_close_requested s \<and> xs_ok (ev_submit env) then 1 else 0)"
  "fs_timed_out (SubmitClose env s) = fs_timed_out s"
  "fs_close_requested (SubmitClose env s) = (fs_close_requested s \<or> xs_ok (ev_submit env) \<or> fs_pending_cbs s \<le> 0)"
  "fs_budget_set (SubmitClose env s) = fs_budget_set s" "fs_issued_read (SubmitClose env s) = fs_issued_read s"
  "fs_completed (SubmitClose env s) = (fs_completed s \<or> (\<not> fs_close_requested s \<and> \<not> xs_ok (ev_submit env)
     \<and> fs_pending_cbs s \<le> 0))"
  by (simp_all add: SubmitClose_def Let_def fs_view)

lemma Fail_view [fs_view]:
  "owed h (fs_log (Fail env stage st s)) = owed h (fs_log s)"
  "refunded (fs_log (Fail env stage st s)) = refunded (fs_log s) + (if fs_has_refund s then
     (if stage = ''read'' \<or> stage = ''vector_read'' then unat (fs_requested s)
      else if fs_issued_read s then 0 else unat (fs_prepaid_op_bytes s)) else 0)"
  "dones (fs_log (Fail env stage st s)) = dones (fs_log s) + (if \<not> fs_completed s \<and> fs_on_done s then 1 else 0)"
  "releases (fs_log (Fail env stage st s)) = releases (fs_log s)"
  "fs_opts (Fail env stage st s) = fs_opts s" "fs_on_done (Fail env stage st s) = (fs_on_done s \<and> fs_completed s)"
  "fs_paced (Fail env stage st s) = fs_paced s"
  "fs_prepaid_op_bytes (Fail env stage st s) = (if stage = ''read'' \<or> stage = ''vector_read'' \<or> fs_issued_read s
     then fs_prepaid_op_bytes s else 0)"
  "fs_has_refund (Fail env stage st s) = fs_has_refund s" "fs_has_ready (Fail env stage st s) = fs_has_ready s"
  "fr_ok (fs_result (Fail env stage st s)) = fr_ok (fs_result s)"
  "fr_error (fs_result (Fail env stage st s)) = stage @ '' failed: '' @ xs_text st"
  "fs_self_keep (Fail env stage st s) = fs_self_keep s" "fs_buffer (Fail env stage st s) = fs_buffer s"
  "fs_file_size (Fail env stage st s) = fs_file_size s" "fs_remaining (Fail env stage st s) = fs_remaining s"
  "fs_next_offset (Fail env stage st s) = fs_next_offset s"
  "fs_requested (Fail env stage st s) = (if stage = ''read'' \<or> stage = ''vector_read'' then 0 else fs_requested s)"
  "fs_bytes_read (Fail env stage st s) = fs_bytes_read s" "fs_pending_cbs (Fail env stage st s) = fs_pending_cbs s"
  "fs_timed_out (Fail env stage st s) = fs_timed_out s"
  "fs_close_requested (Fail env stage st s) = fs_close_requested s"
  "fs_budget_set (Fail env stage st s) = fs_budget_set s" "fs_issued_read (Fail env stage st s) = fs_issued_read s"
  "fs_completed (Fail env stage st s)"
  by (simp_all add: Fail_def Let_def fs_view)

lemma FinishOk_view [fs_view]:
  "owed h (fs_log (FinishOk s)) = owed h (fs_log s)" "refunded (fs_log (FinishOk s)) = refunded (fs_log s)"
  "dones (fs_log (FinishOk s)) = dones (fs_log s) + (if \<not> fs_completed s \<and> fs_on_done s then 1 else 0)"
  "releases (fs_log (FinishOk s)) = releases (fs_log s)"
  "fs_opts (FinishOk s) = fs_opts s" "fs_on_done (FinishOk s) = (fs_on_done s \<and> fs_completed s)"
  "fs_paced (FinishOk s) = fs_paced s" "fs_prepaid_op_bytes (FinishOk s) = fs_prepaid_op_bytes s"
  "fs_has_refund (FinishOk s) = fs_has_refund s" "fs_has_ready (FinishOk s) = fs_has_ready s"
  "fr_ok (fs_result (FinishOk s))" "fr_error (fs_result (FinishOk s)) = fr_error (fs_result s)"
  "fs_self_keep (FinishOk s) = fs_self_keep s" "fs_buffer (FinishOk s) = fs_buffer s"
  "fs_file_size (FinishOk s) = fs_file_size s" "fs_remaining (FinishOk s) = fs_remaining s"
  "fs_next_offset (FinishOk s) = fs_next_offset s" "fs_requested (FinishOk s) = fs_requested s"
  "fs_bytes_read (FinishOk s) = fs_bytes_read s" "fs_pending_cbs (FinishOk s) = fs_pending_cbs s"
  "fs_timed_out (FinishOk s) = fs_timed_out s" "fs_close_requested (FinishOk s) = fs_close_requested s"
  "fs_budget_set (FinishOk s) = fs_budget_set s" "fs_issued_read (FinishOk s) = fs_issued_read s"
  "fs_completed (FinishOk s)"
  by (simp_all add: FinishOk_def Let_def fs_view)

section \<open>Issuing\<close>

text \<open>The size and the operation of the next read.\<close>

definition next_op :: "'r rng_api \<Rightarrow> 'r FileSession \<Rightarrow> xrd_op" where
  "next_op G s = fst (next_read G s)"

definition next_size :: "'r rng_api \<Rightarrow> 'r FileSession \<Rightarrow> u64" where
  "next_size G s = fst (snd (next_read G s))"

definition next_off :: "'r rng_api \<Rightarrow> 'r FileSession \<Rightarrow> u64" where
  "next_off G s = fst (snd (snd (next_read G s)))"

lemma next_read_cong:
  "fs_opts s' = fs_opts s \<Longrightarrow> fs_file_size s' = fs_file_size s \<Longrightarrow> fs_remaining s' = fs_remaining s \<Longrightarrow>
    fs_next_offset s' = fs_next_offset s \<Longrightarrow> fs_rng s' = fs_rng s \<Longrightarrow> next_read G s' = next_read G s"
  by (simp only: next_read_def)

lemma handler_next_op: "handler_of (next_op G s) = FnRead"
  by (simp add: next_op_def next_read_def Let_def split: prod.split)

lemma IssueNext_close:
  "\<not> fs_completed s \<Longrightarrow> fs_timed_out s \<or> fs_remaining s = 0 \<Longrightarrow>
    IssueNext G env s = SubmitClose env (RefundPrepaid (s \<lparr> fs_remaining := 0, fs_t_last_byte := ev_clock env AtLastByte \<rparr>))"
proof -
  assume a: "\<not> fs_completed s" "fs_timed_out s \<or> fs_remaining s = 0"
  then have "(if fs_timed_out s then s \<lparr> fs_remaining := 0 \<rparr> else s) = s \<lparr> fs_remaining := 0 \<rparr>"
    by (cases s) auto
  then show ?thesis using a(1) by (simp add: IssueNext_def Let_def)
qed

definition issued :: "'r rng_api \<Rightarrow> session_env \<Rightarrow> 'r FileSession \<Rightarrow> 'r FileSession" where
  "issued G env s =
     (let s' = ArmOpDeadline (s \<lparr> fs_t_issue := ev_clock env AtIssue,
               fs_t_first_issue := (if fs_ops s = 0 then ev_clock env AtIssue else fs_t_first_issue s),
               fs_pending_cbs := fs_pending_cbs s + 1 \<rparr>);
          s'' = emit (Submit (next_op G s) (xs_ok (ev_submit env)))
             (s' \<lparr> fs_requested := next_size G s, fs_next_offset := next_off G s,
                   fs_rng := snd (snd (snd (next_read G s))) \<rparr>)
      in (if next_size G s < fs_prepaid_op_bytes s
          then RefundBytes (fs_prepaid_op_bytes s - next_size G s) s'' else s'')
         \<lparr> fs_prepaid_op_bytes := 0, fs_issued_read := True \<rparr>)"

lemma IssueNext_read:
  assumes "\<not> fs_completed s" "\<not> fs_timed_out s" "fs_remaining s \<noteq> 0"
  shows "IssueNext G env s =
    (if xs_ok (ev_submit env) then issued G env s
     else let st = ev_submit env; s' = issued G env s;
              s' = CapturePartialCounters env (s' \<lparr> fs_pending_cbs := fs_pending_cbs s' - 1 \<rparr>);
              s' = set_error (''read submission failed: '' @ xs_text st) (xs_code st) (xs_errno st) s'
          in Complete ((RefundBytes (fs_requested s') s') \<lparr> fs_requested := 0 \<rparr>))"
proof -
  define s0 where "s0 = ArmOpDeadline (s \<lparr> fs_t_issue := ev_clock env AtIssue,
      fs_t_first_issue := (if fs_ops s = 0 then ev_clock env AtIssue else fs_t_first_issue s),
      fs_pending_cbs := fs_pending_cbs s + 1 \<rparr>)"
  have n: "next_read G s0 = next_read G s" by (rule next_read_cong) (simp_all add: s0_def fs_view)
  have p: "fs_prepaid_op_bytes s0 = fs_prepaid_op_bytes s" by (simp add: s0_def fs_view)
  obtain op req off rng where o: "next_read G s = (op, req, off, rng)" by (cases "next_read G s")
  show ?thesis using assms
    by (simp add: IssueNext_def issued_def next_op_def next_size_def next_off_def o n p fs_view Let_def
        s0_def [symmetric])
qed

lemma issued_view:
  "owed h (fs_log (issued G env s)) = owed h (fs_log s) + (if xs_ok (ev_submit env) \<and> h = FnRead then 1 else 0)"
  "refunded (fs_log (issued G env s)) = refunded (fs_log s)
     + (if fs_has_refund s \<and> next_size G s < fs_prepaid_op_bytes s
        then unat (fs_prepaid_op_bytes s - next_size G s) else 0)"
  "dones (fs_log (issued G env s)) = dones (fs_log s)" "releases (fs_log (issued G env s)) = releases (fs_log s)"
  "fs_opts (issued G env s) = fs_opts s" "fs_on_done (issued G env s) = fs_on_done s"
  "fs_paced (issued G env s) = fs_paced s" "fs_prepaid_op_bytes (issued G env s) = 0"
  "fs_has_refund (issued G env s) = fs_has_refund s" "fs_has_ready (issued G env s) = fs_has_ready s"
  "fs_result (issued G env s) = fs_result s" "fs_self_keep (issued G env s) = fs_self_keep s"
  "fs_buffer (issued G env s) = fs_buffer s" "fs_file_size (issued G env s) = fs_file_size s"
  "fs_remaining (issued G env s) = fs_remaining s" "fs_next_offset (issued G env s) = next_off G s"
  "fs_requested (issued G env s) = next_size G s" "fs_bytes_read (issued G env s) = fs_bytes_read s"
  "fs_pending_cbs (issued G env s) = fs_pending_cbs s + 1"
  "fs_timed_out (issued G env s) = fs_timed_out s" "fs_close_requested (issued G env s) = fs_close_requested s"
  "fs_budget_set (issued G env s) = fs_budget_set s" "fs_issued_read (issued G env s)"
  "fs_completed (issued G env s) = fs_completed s"
  using handler_next_op [of G s] by (simp_all add: issued_def Let_def fs_view)


lemma readies_view [fs_view]:
  "readies (fs_log (ArmOpDeadline s)) = readies (fs_log s)" "readies (fs_log (RefundBytes n s)) = readies (fs_log s)"
  "readies (fs_log (Complete s)) = readies (fs_log s)" "readies (fs_log (ReleaseIfIdle s)) = readies (fs_log s)"
  by (simp_all add: ArmOpDeadline_def RefundBytes_def Complete_def ReleaseIfIdle_def Let_def emit_def measure_emit)

lemma readies_view2 [fs_view]:
  "readies (fs_log (RefundPrepaid s)) = readies (fs_log s)"
  by (simp add: RefundPrepaid_def fs_view)

lemma readies_view3 [fs_view]:
  "readies (fs_log (SubmitClose env s)) = readies (fs_log s)"
  "readies (fs_log (Fail env stage st s)) = readies (fs_log s)"
  "readies (fs_log (issued G env s)) = readies (fs_log s)"
  by (simp_all add: SubmitClose_def Fail_def issued_def Let_def fs_view)

lemma readies_IssueNext [fs_view]: "readies (fs_log (IssueNext G env s)) = readies (fs_log s)"
proof (cases "fs_completed s")
  case False
  then show ?thesis by (cases "fs_timed_out s \<or> fs_remaining s = 0")
    (simp_all add: IssueNext_close IssueNext_read Let_def fs_view)
qed (simp add: IssueNext_def)


section \<open>Results and reads\<close>

lemma results_view [fs_view]:
  "results (fs_log (ArmOpDeadline s)) = results (fs_log s)" "results (fs_log (RefundBytes n s)) = results (fs_log s)"
  "results (fs_log (Complete s)) = results (fs_log s)
     @ (if \<not> fs_completed s \<and> fs_on_done s then [fs_result s] else [])"
  "results (fs_log (ReleaseIfIdle s)) = results (fs_log s)"
  "reads (fs_log (ArmOpDeadline s)) = reads (fs_log s)" "reads (fs_log (RefundBytes n s)) = reads (fs_log s)"
  "reads (fs_log (Complete s)) = reads (fs_log s)" "reads (fs_log (ReleaseIfIdle s)) = reads (fs_log s)"
  by (simp_all add: ArmOpDeadline_def RefundBytes_def Complete_def ReleaseIfIdle_def Let_def emit_def measure_emit)

lemma results_view2 [fs_view]:
  "results (fs_log (RefundPrepaid s)) = results (fs_log s)" "reads (fs_log (RefundPrepaid s)) = reads (fs_log s)"
  by (simp_all add: RefundPrepaid_def fs_view)

lemma reads_view3 [fs_view]:
  "reads (fs_log (SubmitClose env s)) = reads (fs_log s)" "reads (fs_log (Fail env stage st s)) = reads (fs_log s)"
  "reads (fs_log (FinishOk s)) = reads (fs_log s)"
  by (simp_all add: SubmitClose_def Fail_def FinishOk_def Let_def fs_view)

lemma next_op_read: "read_of (Submit (next_op G s) b) = [next_op G s]"
  by (simp add: next_op_def next_read_def Let_def split: prod.split)

lemma issued_reads:
  "reads (fs_log (issued G env s)) = reads (fs_log s) @ [next_op G s]"
  "results (fs_log (issued G env s)) = results (fs_log s)"
  by (simp_all add: issued_def Let_def fs_view next_op_read)

end
