(* ===== verification/SessionReads.thy ===== *)
theory SessionReads
  imports SessionView
begin

text \<open>
  What a read asks for: the chunks of a vector read, their total, where they lie in the file. The
  total of the next read is the size of an operation or what the session may still read, whichever is
  smaller, computed without a width.
\<close>

section \<open>Chunk lists\<close>

definition op_cap :: "FileSessionOptions \<Rightarrow> nat" where
  "op_cap opts = unat (fo_chunk_size opts) * (if 0 < fo_vector_chunks opts then unat (fo_vector_chunks opts) else 1)"

fun op_chunks :: "xrd_op \<Rightarrow> (u64 \<times> u32) list" where
  "op_chunks (OpRead off len) = [(off, len)]"
| "op_chunks (OpVectorRead cs) = cs"
| "op_chunks _ = []"

definition op_bytes :: "xrd_op \<Rightarrow> nat" where
  "op_bytes op = sum_list (map (\<lambda>(off, len). unat len) (op_chunks op))"

definition op_inside :: "u64 \<Rightarrow> xrd_op \<Rightarrow> bool" where
  "op_inside file_size op \<longleftrightarrow> list_all (\<lambda>(off, len). unat off + unat len \<le> unat file_size) (op_chunks op)"

lemma unat_chunk_len: "unat (chunk_len c left) = min (unat c) (unat left)"
proof -
  have "unat (min (ucast c) left :: u64) = min (unat c) (unat left)" by (simp add: unat_min_word)
  moreover have "min (unat c) (unat left) < 2 ^ 32" using unat_u32_less [of c] by (simp add: min_less_iff_disj)
  ultimately show ?thesis unfolding chunk_len_def
    by (simp add: unsigned_ucast_eq take_bit_nat_eq_self)
qed

lemma unat_chunk_len_u64: "unat (ucast (chunk_len c left) :: u64) = min (unat c) (unat left)"
  by (simp add: unat_chunk_len)

lemma unat_left: "unat (left - ucast (chunk_len c left) :: u64) = unat left - min (unat c) (unat left)"
  by (subst unat_sub_u64) (simp_all add: unat_chunk_len word_le_nat_alt)

lemma min_step: "min (c::nat) x + min m (x - min c x) = min (c + m) x"
  by (simp add: min_def) arith

lemma seq_chunks_off:
  "unat off + unat left < 2 ^ 64 \<Longrightarrow>
    unat (snd (seq_chunks n c off left)) = unat off + min (n * unat c) (unat left)"
proof (induction n c off left rule: seq_chunks.induct)
  case (2 n c off left)
  let ?l = "ucast (chunk_len c left) :: u64"
  have l: "unat ?l = min (unat c) (unat left)" by (rule unat_chunk_len_u64)
  have o: "unat (off + ?l) = unat off + unat ?l"
    using 2(2) l by (intro unat_add_u64) linarith
  show ?case
  proof (cases "left = 0")
    case False
    have b: "unat (off + ?l) + unat (left - ?l) < 2 ^ 64"
      using 2(2) unfolding o l unat_left by linarith
    have "unat (snd (seq_chunks n c (off + ?l) (left - ?l)))
        = unat (off + ?l) + min (n * unat c) (unat (left - ?l))"
      by (rule 2(1) [OF False refl b])
    also have "... = unat off + min (unat c + n * unat c) (unat left)"
      unfolding o l unat_left using min_step [of "unat c" "unat left" "n * unat c"] by linarith
    finally show ?thesis using False by (simp add: Let_def case_prod_beta)
  qed simp
qed simp

lemma seq_chunks_facts:
  assumes "unat off + unat left < 2 ^ 64"
  shows "sum_list (map (\<lambda>(off, len). unat len) (fst (seq_chunks n c off left))) = min (n * unat c) (unat left)
    \<and> list_all (\<lambda>(o', len). unat o' + unat len \<le> unat off + unat left) (fst (seq_chunks n c off left))"
  using assms
proof (induction n c off left rule: seq_chunks.induct)
  case (2 n c off left)
  let ?l = "ucast (chunk_len c left) :: u64"
  have l: "unat ?l = min (unat c) (unat left)" by (rule unat_chunk_len_u64)
  have o: "unat (off + ?l) = unat off + unat ?l"
    using 2(2) l by (intro unat_add_u64) linarith
  show ?case
  proof (cases "left = 0")
    case False
    have e: "unat (off + ?l) + unat (left - ?l) = unat off + unat left"
      unfolding o l unat_left by linarith
    have IH: "sum_list (map (\<lambda>(off, len). unat len) (fst (seq_chunks n c (off + ?l) (left - ?l))))
          = min (n * unat c) (unat (left - ?l))
        \<and> list_all (\<lambda>(o', len). unat o' + unat len \<le> unat (off + ?l) + unat (left - ?l))
            (fst (seq_chunks n c (off + ?l) (left - ?l)))"
      using 2(2) e by (intro 2(1) [OF False refl]) simp
    have s: "fst (seq_chunks (Suc n) c off left)
        = (off, chunk_len c left) # fst (seq_chunks n c (off + ?l) (left - ?l))"
      using False by (simp add: Let_def case_prod_beta)
    have a: "unat (chunk_len c left) + min (n * unat c) (unat (left - ?l)) = min (Suc n * unat c) (unat left)"
      unfolding unat_chunk_len unat_left using min_step [of "unat c" "unat left" "n * unat c"] by simp
    have b: "unat off + unat (chunk_len c left) \<le> unat off + unat left" by (simp add: unat_chunk_len)
    show ?thesis unfolding s using IH a b unfolding e by simp
  qed simp
qed simp

lemma SampleRandomReadOffset_inside:
  assumes "rng_bounded G" "unat len \<le> unat file_size"
  shows "unat (fst (SampleRandomReadOffset G r file_size len)) + unat len \<le> unat file_size"
proof (cases "file_size = 0 \<or> len = 0 \<or> file_size \<le> ucast len")
  case False
  then have "ucast len \<le> file_size" by auto
  then have "unat (file_size - ucast len) = unat file_size - unat len" by (simp add: unat_sub_u64)
  moreover have "unat (fst (rng_int G r (file_size - ucast len))) \<le> unat (file_size - ucast len)"
    using assms(1) by (simp add: rng_bounded_def word_le_nat_alt)
  ultimately show ?thesis using False assms(2) by (simp add: SampleRandomReadOffset_def)
qed (use assms(2) in \<open>auto simp: SampleRandomReadOffset_def\<close>)

lemma rand_chunks_facts:
  assumes "rng_bounded G" "unat left \<le> unat file_size"
  shows "unat (fst (snd (rand_chunks G file_size n c left r))) = min (n * unat c) (unat left)
    \<and> sum_list (map (\<lambda>(off, len). unat len) (fst (rand_chunks G file_size n c left r))) = min (n * unat c) (unat left)
    \<and> list_all (\<lambda>(o', len). unat o' + unat len \<le> unat file_size) (fst (rand_chunks G file_size n c left r))"
  using assms(2)
proof (induction n arbitrary: left r)
  case (Suc n)
  let ?l = "ucast (chunk_len c left) :: u64"
  have l: "unat ?l = min (unat c) (unat left)" by (rule unat_chunk_len_u64)
  show ?case
  proof (cases "left = 0")
    case False
    obtain o1 r1 where p: "SampleRandomReadOffset G r file_size (chunk_len c left) = (o1, r1)"
      by (cases "SampleRandomReadOffset G r file_size (chunk_len c left)")
    obtain cs req r2 where q: "rand_chunks G file_size n c (left - ?l) r1 = (cs, req, r2)"
      by (cases "rand_chunks G file_size n c (left - ?l) r1")
    have "unat (left - ?l) \<le> unat file_size" using Suc.prems unfolding unat_left by linarith
    from Suc.IH [OF this, of r1] have IH: "unat req = min (n * unat c) (unat (left - ?l))"
        "sum_list (map (\<lambda>(off, len). unat len) cs) = min (n * unat c) (unat (left - ?l))"
        "list_all (\<lambda>(o', len). unat o' + unat len \<le> unat file_size) cs"
      by (simp_all add: q)
    have a: "unat ?l + min (n * unat c) (unat (left - ?l)) = min (Suc n * unat c) (unat left)"
      unfolding l unat_left using min_step [of "unat c" "unat left" "n * unat c"] by simp
    have "unat ?l + unat req < 2 ^ 64" unfolding IH(1) a using unat_u64_less [of left] by linarith
    then have "unat (?l + req) = min (Suc n * unat c) (unat left)"
      by (simp only: unat_add_u64 IH(1) a)
    moreover have "unat o1 + unat (chunk_len c left) \<le> unat file_size"
      using SampleRandomReadOffset_inside [OF assms(1), of "chunk_len c left" file_size r] Suc.prems
      by (simp add: p unat_chunk_len)
    moreover have "unat (chunk_len c left) + sum_list (map (\<lambda>(off, len). unat len) cs) = min (Suc n * unat c) (unat left)"
      using a unfolding l IH(2) unat_chunk_len by linarith
    moreover have "rand_chunks G file_size (Suc n) c left r = ((o1, chunk_len c left) # cs, ?l + req, r2)"
      using False by (simp add: p q Let_def)
    ultimately show ?thesis using IH(3)
      by (simp only: fst_conv snd_conv list.map sum_list.Cons prod.case list.pred_inject simp_thms)
  qed simp
qed simp

section \<open>The next read\<close>

lemma seq_total_word:
  fixes off e left :: u64
  assumes "unat off + unat left < 2 ^ 64" "unat e = unat off + min m (unat left)"
  shows "unat (if off = e then 0 else e - off) = min m (unat left)"
proof (cases "off = e")
  case False
  then show ?thesis using assms(2) by (simp add: unat_sub_u64 word_le_nat_alt)
qed (use assms(2) in simp)

text \<open>A session that may read: what is left lies in the file, behind the next offset unless offsets are
  random.\<close>

definition readable :: "'r FileSession \<Rightarrow> bool" where
  "readable s \<longleftrightarrow> unat (fs_remaining s) \<le> unat (fs_file_size s)
     \<and> (fo_random_offset (fs_opts s) \<or> unat (fs_next_offset s) + unat (fs_remaining s) \<le> unat (fs_file_size s))"

lemma next_read_facts:
  assumes "rng_bounded G" "readable s"
  shows "unat (next_size G s) = min (op_cap (fs_opts s)) (unat (fs_remaining s))"
    "op_bytes (next_op G s) = unat (next_size G s)"
    "op_inside (fs_file_size s) (next_op G s)"
    "\<not> fo_random_offset (fs_opts s) \<Longrightarrow> next_off G s = fs_next_offset s"
proof -
  let ?n = "unat (fo_vector_chunks (fs_opts s))" and ?c = "fo_chunk_size (fs_opts s)"
    and ?left = "fs_remaining s" and ?size = "fs_file_size s"
  note rem = assms(2) [unfolded readable_def, THEN conjunct1]
  note off = assms(2) [unfolded readable_def, THEN conjunct2]
  have facts: "unat (next_size G s) = min (op_cap (fs_opts s)) (unat ?left)
    \<and> op_bytes (next_op G s) = min (op_cap (fs_opts s)) (unat ?left)
    \<and> op_inside ?size (next_op G s)
    \<and> (\<not> fo_random_offset (fs_opts s) \<longrightarrow> next_off G s = fs_next_offset s)"
  proof (cases "0 < fo_vector_chunks (fs_opts s)")
    case vec: True
    show ?thesis
    proof (cases "fo_random_offset (fs_opts s)")
      case True
      obtain cs req r where q: "rand_chunks G ?size ?n ?c ?left (fs_rng s) = (cs, req, r)"
        by (cases "rand_chunks G ?size ?n ?c ?left (fs_rng s)")
      have n: "next_read G s = (OpVectorRead cs, req, fs_next_offset s, r)"
        using vec True by (simp add: next_read_def q Let_def)
      show ?thesis using rand_chunks_facts [OF assms(1) rem, of ?n ?c "fs_rng s"] vec True
        by (simp add: q n next_size_def next_op_def op_bytes_def op_inside_def op_cap_def mult.commute)
    next
      case False
      then have o: "unat (fs_next_offset s) + unat ?left \<le> unat ?size" using off by simp
      then have o': "unat (fs_next_offset s) + unat ?left < 2 ^ 64" using unat_u64_less [of ?size] by linarith
      obtain cs e where q: "seq_chunks ?n ?c (fs_next_offset s) ?left = (cs, e)"
        by (cases "seq_chunks ?n ?c (fs_next_offset s) ?left")
      have n: "next_read G s = (OpVectorRead cs, if fs_next_offset s = e then 0 else e - fs_next_offset s,
          fs_next_offset s, fs_rng s)"
        using vec False by (simp add: next_read_def q Let_def)
      have e: "unat e = unat (fs_next_offset s) + min (?n * unat ?c) (unat ?left)"
        using seq_chunks_off [OF o', of ?n ?c] by (simp add: q)
      have "list_all (\<lambda>(o', len). unat o' + unat len \<le> unat ?size) cs"
        using seq_chunks_facts [OF o', of ?n ?c] o by (auto simp: q list_all_iff)
      then show ?thesis using seq_chunks_facts [OF o', of ?n ?c] seq_total_word [OF o' e] vec
        by (simp add: q n next_size_def next_op_def next_off_def op_bytes_def op_inside_def op_cap_def mult.commute)
    qed
  next
    case vec: False
    show ?thesis
    proof (cases "fo_random_offset (fs_opts s)")
      case True
      obtain o1 r where q: "SampleRandomReadOffset G (fs_rng s) ?size (chunk_len ?c ?left) = (o1, r)"
        by (cases "SampleRandomReadOffset G (fs_rng s) ?size (chunk_len ?c ?left)")
      have n: "next_read G s = (OpRead o1 (chunk_len ?c ?left), ucast (chunk_len ?c ?left), o1, r)"
        using vec True by (simp add: next_read_def q Let_def)
      have "unat o1 + unat (chunk_len ?c ?left) \<le> unat ?size"
        using SampleRandomReadOffset_inside [OF assms(1), of "chunk_len ?c ?left" ?size "fs_rng s"] rem
        by (simp add: q unat_chunk_len)
      then show ?thesis using vec True
        by (simp add: n next_size_def next_op_def op_bytes_def op_inside_def op_cap_def unat_chunk_len)
    next
      case False
      have n: "next_read G s = (OpRead (fs_next_offset s) (chunk_len ?c ?left), ucast (chunk_len ?c ?left),
          fs_next_offset s, fs_rng s)"
        using vec False by (simp add: next_read_def Let_def)
      show ?thesis using vec False off
        by (simp add: n next_size_def next_op_def next_off_def op_bytes_def op_inside_def op_cap_def unat_chunk_len)
    qed
  qed
  then show "unat (next_size G s) = min (op_cap (fs_opts s)) (unat (fs_remaining s))"
    "op_bytes (next_op G s) = unat (next_size G s)"
    "op_inside (fs_file_size s) (next_op G s)"
    "\<not> fo_random_offset (fs_opts s) \<Longrightarrow> next_off G s = fs_next_offset s" by simp_all
qed

text \<open>Where the size of an operation fits its 32 bits, the buffer, the prepayment and what the engine
  pays are that size.\<close>

lemma OpBytes_fits: "op_cap opts < 2 ^ 32 \<Longrightarrow> unat (OpBytes opts) = op_cap opts"
  by (cases "0 < fo_vector_chunks opts") (simp_all add: OpBytes_def op_cap_def unat_word_ariths)

lemma op_cap_session: "op_cap opts \<le> unat (SessionOpBytes opts)"
proof -
  have c: "unat (max (ucast (fo_chunk_size opts)) 1 :: u64) = max (unat (fo_chunk_size opts)) 1"
    by (simp add: unat_max_word)
  have "max (unat (fo_chunk_size opts)) 1 * unat (fo_vector_chunks opts) < 2 ^ 32 * 2 ^ 16"
    using unat_u32_less [of "fo_chunk_size opts"] unat_u16_less [of "fo_vector_chunks opts"]
    by (intro mult_strict_mono') simp_all
  then have "unat (max (ucast (fo_chunk_size opts)) 1 * ucast (fo_vector_chunks opts) :: u64)
      = max (unat (fo_chunk_size opts)) 1 * unat (fo_vector_chunks opts)"
    by (subst unat_mult_u64) (simp_all add: c)
  then show ?thesis by (simp add: SessionOpBytes_def op_cap_def Let_def c)
qed

lemma NextOpBytes_fits:
  assumes "op_cap (fs_opts s) < 2 ^ 32"
  shows "unat (NextOpBytes s) = (if fs_budget_set s then min (op_cap (fs_opts s)) (unat (fs_remaining s))
     else op_cap (fs_opts s))"
proof -
  have "unat (ucast (OpBytes (fs_opts s)) :: u64) = op_cap (fs_opts s)" by (simp add: OpBytes_fits [OF assms])
  then show ?thesis by (simp add: NextOpBytes_def Let_def unat_min_word)
qed

end
