(* ===== verification/SessionProtocol.thy ===== *)
theory SessionProtocol
  imports SessionView
begin

text \<open>
  A session in its environment: XrdCl, which runs the handler of an operation it has accepted, once
  and at any later time; the deadline watchdog, which may fire at any time; and the engine, to which a
  paced session is handed after each read. Steps are the critical sections of the session's mutex, in
  any order. XrdCl may accept or reject any submission; the only thing assumed of it is that a
  handler runs at most once per accepted operation and that a read does not report more bytes than it
  was asked for.
\<close>

section \<open>The step relation\<close>

text \<open>Where the engine has the session: nowhere, in its ready queue, or paid for its next read.\<close>

datatype hand = NotReady | Queued | Paid u64

record 'r session_sys =
  ss_fs :: "'r FileSession"
  ss_hand :: hand
  ss_charged :: nat

inductive session_step :: "'r rng_api \<Rightarrow> 'r session_sys \<Rightarrow> 'r session_sys \<Rightarrow> bool" for G where
  cb_open: "0 < owed FnOpen (fs_log (ss_fs y)) \<Longrightarrow>
     session_step G y (y \<lparr> ss_fs := OnOpen env st hosts server (ss_fs y) \<rparr>)"
| cb_stat: "0 < owed FnStat (fs_log (ss_fs y)) \<Longrightarrow>
     session_step G y (y \<lparr> ss_fs := OnStat G env st fsize (ss_fs y) \<rparr>)"
| cb_read: "0 < owed FnRead (fs_log (ss_fs y)) \<Longrightarrow> (\<forall>n. info = Some n \<longrightarrow> n \<le> fs_requested (ss_fs y)) \<Longrightarrow>
     s' = OnRead G env st info (ss_fs y) \<Longrightarrow>
     session_step G y (y \<lparr> ss_fs := s', ss_hand := (if readies (fs_log (ss_fs y)) < readies (fs_log s') then Queued else ss_hand y) \<rparr>)"
| cb_close: "0 < owed FnClose (fs_log (ss_fs y)) \<Longrightarrow>
     session_step G y (y \<lparr> ss_fs := OnClose env st (ss_fs y) \<rparr>)"
| timeout: "session_step G y (y \<lparr> ss_fs := RequestWallTimeout env (ss_fs y) \<rparr>)"
| pay: "ss_hand y = Queued \<Longrightarrow> NextOpBytes (ss_fs y) = n \<Longrightarrow> n \<noteq> 0 \<Longrightarrow>
     session_step G y (y \<lparr> ss_hand := Paid n, ss_charged := ss_charged y + unat n \<rparr>)"
| issue: "ss_hand y = Paid n \<Longrightarrow>
     session_step G y (y \<lparr> ss_fs := IssueNextFromEngine G env (ss_fs y), ss_hand := NotReady \<rparr>)"
| close: "ss_hand y = Queued \<Longrightarrow>
     session_step G y (y \<lparr> ss_fs := CloseNow env (ss_fs y), ss_hand := NotReady \<rparr>)"
| drop_done: "ss_hand y = Queued \<Longrightarrow> fs_completed (ss_fs y) \<Longrightarrow>
     session_step G y (y \<lparr> ss_hand := NotReady \<rparr>)"

text \<open>A paced session starts with its first read prepaid and the engine's callbacks; an unpaced one
  (\<^verbatim>\<open>RunFileSession\<close>, \<^verbatim>\<open>FileSessionPacing{}\<close>) with none.\<close>

definition session_start ::
  "'r rng_api \<Rightarrow> FileSessionOptions \<Rightarrow> bool \<Rightarrow> u64 \<Rightarrow> session_env \<Rightarrow> 'r session_sys" where
  "session_start G opts paced prepaid env =
     (let n = (if paced then prepaid else 0)
      in \<lparr> ss_fs = fs_Start env (new_FileSession G opts True paced n paced paced paced),
           ss_hand = NotReady, ss_charged = unat n \<rparr>)"

inductive session_reach ::
  "'r rng_api \<Rightarrow> FileSessionOptions \<Rightarrow> bool \<Rightarrow> u64 \<Rightarrow> 'r session_sys \<Rightarrow> bool" for G opts paced prepaid where
  start: "session_reach G opts paced prepaid (session_start G opts paced prepaid env)"
| step: "session_reach G opts paced prepaid y \<Longrightarrow> session_step G y y' \<Longrightarrow> session_reach G opts paced prepaid y'"

inductive_simps session_step_simps: "session_step G y y'"

section \<open>Control: callbacks, completion, release\<close>

definition in_hand :: "hand \<Rightarrow> int" where
  "in_hand h = (if h = NotReady then 0 else 1)"

text \<open>The control token: who moves the session next.\<close>

definition ctl_token :: "hand \<Rightarrow> 'r FileSession \<Rightarrow> int" where
  "ctl_token h s = owed FnOpen (fs_log s) + owed FnStat (fs_log s) + owed FnRead (fs_log s) + in_hand h"

definition owed_ok :: "hand \<Rightarrow> 'r FileSession \<Rightarrow> bool" where
  "owed_ok h s \<longleftrightarrow> 0 \<le> owed FnOpen (fs_log s) \<and> 0 \<le> owed FnStat (fs_log s) \<and> 0 \<le> owed FnRead (fs_log s)
     \<and> 0 \<le> owed FnClose (fs_log s) \<and> owed FnClose (fs_log s) \<le> 1 \<and> ctl_token h s \<le> 1
     \<and> fs_pending_cbs s = owed FnOpen (fs_log s) + owed FnStat (fs_log s) + owed FnRead (fs_log s)
         + owed FnClose (fs_log s)"

definition ctl_inv :: "hand \<Rightarrow> 'r FileSession \<Rightarrow> bool" where
  "ctl_inv h s \<longleftrightarrow> owed_ok h s
     \<and> fs_on_done s = (\<not> fs_completed s) \<and> dones (fs_log s) = (if fs_completed s then 1 else 0)
     \<and> fs_self_keep s = (\<not> (fs_completed s \<and> fs_pending_cbs s = 0))
     \<and> releases (fs_log s) = (if fs_self_keep s then 0 else 1)
     \<and> (\<not> fs_completed s \<longrightarrow> fs_close_requested s = (owed FnClose (fs_log s) = 1))
     \<and> (\<not> fs_completed s \<longrightarrow> ctl_token h s = 1 \<or> owed FnClose (fs_log s) = 1)
     \<and> (fs_close_requested s \<and> \<not> fs_timed_out s \<longrightarrow> ctl_token h s = 0)
     \<and> (fs_completed s \<and> \<not> fs_timed_out s \<longrightarrow> ctl_token h s = 0)"

text \<open>The state of a handler that has taken the token and not yet acted.\<close>

definition ctl_pre :: "'r FileSession \<Rightarrow> bool" where
  "ctl_pre s \<longleftrightarrow> \<not> fs_completed s \<and> fs_on_done s \<and> fs_self_keep s
     \<and> dones (fs_log s) = 0 \<and> releases (fs_log s) = 0
     \<and> owed FnOpen (fs_log s) = 0 \<and> owed FnStat (fs_log s) = 0 \<and> owed FnRead (fs_log s) = 0
     \<and> 0 \<le> owed FnClose (fs_log s) \<and> owed FnClose (fs_log s) \<le> 1
     \<and> fs_pending_cbs s = owed FnClose (fs_log s)
     \<and> fs_close_requested s = (owed FnClose (fs_log s) = 1)
     \<and> (fs_close_requested s \<longrightarrow> fs_timed_out s)"

lemmas ctl_defs = ctl_inv_def owed_ok_def ctl_token_def in_hand_def

lemma pre_close: "ctl_pre s \<Longrightarrow> ctl_inv NotReady (ReleaseIfIdle (SubmitClose env s))"
  by (auto simp: ctl_pre_def ctl_defs fs_view)

lemma pre_complete: "ctl_pre s \<Longrightarrow> ctl_inv NotReady (ReleaseIfIdle (Complete s))"
  by (auto simp: ctl_pre_def ctl_defs fs_view)

lemma pre_fail: "ctl_pre s \<Longrightarrow> ctl_inv NotReady (ReleaseIfIdle (Fail env stage st s))"
  by (auto simp: ctl_pre_def ctl_defs fs_view)

lemma pre_issue: "ctl_pre s \<Longrightarrow> ctl_inv NotReady (ReleaseIfIdle (IssueNext G env s))"
proof (cases "fs_timed_out s \<or> fs_remaining s = 0")
  case True
  assume p: "ctl_pre s"
  then have "ctl_pre (RefundPrepaid (s \<lparr> fs_remaining := 0, fs_t_last_byte := ev_clock env AtLastByte \<rparr>))"
    by (simp add: ctl_pre_def fs_view)
  from pre_close [OF this] show ?thesis using p True by (simp add: IssueNext_close ctl_pre_def)
next
  case False
  assume p: "ctl_pre s"
  then have n: "\<not> fs_completed s" by (simp add: ctl_pre_def)
  show ?thesis using p False unfolding IssueNext_read [OF n, of G env] 
    by (auto simp: IssueNext_read ctl_pre_def ctl_defs fs_view issued_view Let_def)
qed

text \<open>Taking the token.\<close>

lemma enter_view [fs_view]:
  "owed h (fs_log (enter h' s)) = owed h (fs_log s) - (if h = h' then 1 else 0)"
  "refunded (fs_log (enter h' s)) = refunded (fs_log s)" "dones (fs_log (enter h' s)) = dones (fs_log s)"
  "releases (fs_log (enter h' s)) = releases (fs_log s)" "readies (fs_log (enter h' s)) = readies (fs_log s)"
  "fs_opts (enter h' s) = fs_opts s" "fs_on_done (enter h' s) = fs_on_done s" "fs_paced (enter h' s) = fs_paced s"
  "fs_prepaid_op_bytes (enter h' s) = fs_prepaid_op_bytes s" "fs_has_refund (enter h' s) = fs_has_refund s"
  "fs_has_ready (enter h' s) = fs_has_ready s" "fs_result (enter h' s) = fs_result s"
  "fs_self_keep (enter h' s) = fs_self_keep s" "fs_buffer (enter h' s) = fs_buffer s"
  "fs_file_size (enter h' s) = fs_file_size s"
  "fs_remaining (enter h' s) = fs_remaining s" "fs_next_offset (enter h' s) = fs_next_offset s"
  "fs_requested (enter h' s) = fs_requested s" "fs_bytes_read (enter h' s) = fs_bytes_read s"
  "fs_pending_cbs (enter h' s) = fs_pending_cbs s - 1" "fs_timed_out (enter h' s) = fs_timed_out s"
  "fs_close_requested (enter h' s) = fs_close_requested s" "fs_budget_set (enter h' s) = fs_budget_set s"
  "fs_issued_read (enter h' s) = fs_issued_read s" "fs_completed (enter h' s) = fs_completed s"
  by (simp_all add: enter_def fs_view)

lemma take_token:
  assumes "ctl_inv h s" "0 < owed f (fs_log s)" "f \<noteq> FnClose" "\<not> fs_completed s"
  shows "ctl_pre (enter f s) \<and> h = NotReady"
  using assms by (cases f; cases "h = NotReady") (auto simp: ctl_pre_def ctl_defs fs_view)

lemma take_hand:
  assumes "ctl_inv h s" "h \<noteq> NotReady" "\<not> fs_completed s" shows "ctl_pre s"
  using assms by (auto simp: ctl_pre_def ctl_defs)

lemma late_callback:
  assumes "ctl_inv h s" "0 < owed f (fs_log s)" "fs_completed s"
  shows "ctl_inv h (ReleaseIfIdle (enter f s))"
  using assms by (cases f; cases "h = NotReady") (auto simp: ctl_defs fs_view)

text \<open>One lemma per call.\<close>

lemma OnOpen_ctl:
  assumes "ctl_inv h s" "0 < owed FnOpen (fs_log s)"
  shows "ctl_inv h (OnOpen env st hosts server s)"
proof (cases "fs_completed s")
  case True
  then show ?thesis using late_callback [OF assms True] by (simp add: OnOpen_def fs_view)
next
  case False
  note t = take_token [OF assms _ False, simplified]
  let ?s = "(enter FnOpen s) \<lparr> fs_t_open := ev_clock env AtEntry,
      fs_hops := (case hosts of Some n \<Rightarrow> n | None \<Rightarrow> fs_hops (enter FnOpen s)), fs_data_server := server \<rparr>"
  have p: "ctl_pre ?s" using t by (simp add: ctl_pre_def)
  have f: "ctl_pre ((enter FnOpen s) \<lparr> fs_t_open := ev_clock env AtEntry,
      fs_hops := (case hosts of Some n \<Rightarrow> n | None \<Rightarrow> fs_hops (enter FnOpen s)) \<rparr>)"
    using t by (simp add: ctl_pre_def)
  consider "\<not> xs_ok st" | "xs_ok st" "fs_timed_out s" | "xs_ok st" "\<not> fs_timed_out s" by blast
  then show ?thesis
  proof cases
    case 1
    then show ?thesis using pre_fail [OF f] t False by (simp add: OnOpen_def fs_view Let_def)
  next
    case 2
    then show ?thesis using pre_close [OF p] t False by (simp add: OnOpen_def fs_view Let_def)
  next
    case 3
    then show ?thesis using p t False
      by (auto simp: OnOpen_def fs_view Let_def ctl_pre_def ctl_defs)
  qed
qed

lemma OnStat_ctl:
  assumes "ctl_inv h s" "0 < owed FnStat (fs_log s)"
  shows "ctl_inv h (OnStat G env st fsize s)"
proof (cases "fs_completed s")
  case True
  then show ?thesis using late_callback [OF assms True] by (simp add: OnStat_def fs_view)
next
  case False
  note t = take_token [OF assms _ False, simplified]
  then show ?thesis using False
    by (auto simp: OnStat_def fs_view Let_def intro!: pre_fail pre_issue pre_complete)
      (simp_all add: ctl_pre_def fs_view)
qed

lemma OnRead_ok:
  "\<not> fs_completed s \<Longrightarrow> xs_ok st \<Longrightarrow> OnRead G env st info s =
    (let s = read_done env info (enter FnRead s) in
     if fs_paced s \<and> 0 < fs_remaining s \<and> fs_has_ready s then emit Ready (emit DisarmDeadline s)
     else ReleaseIfIdle (IssueNext G env s))"
  by (simp add: OnRead_def Let_def enter_view)

lemma OnRead_err:
  "\<not> fs_completed s \<Longrightarrow> \<not> xs_ok st \<Longrightarrow> OnRead G env st info s = ReleaseIfIdle
     (Fail env (if 0 < fo_vector_chunks (fs_opts s) then ''vector_read'' else ''read'') st (enter FnRead s))"
  by (simp add: OnRead_def Let_def enter_view)

lemma read_account_view:
  "fs_log (read_account env got s) = fs_log s" "fs_opts (read_account env got s) = fs_opts s"
  "fs_on_done (read_account env got s) = fs_on_done s" "fs_paced (read_account env got s) = fs_paced s"
  "fs_prepaid_op_bytes (read_account env got s) = fs_prepaid_op_bytes s"
  "fs_has_refund (read_account env got s) = fs_has_refund s" "fs_has_ready (read_account env got s) = fs_has_ready s"
  "fs_result (read_account env got s) = fs_result s" "fs_self_keep (read_account env got s) = fs_self_keep s"
  "fs_buffer (read_account env got s) = fs_buffer s" "fs_file_size (read_account env got s) = fs_file_size s"
  "fs_remaining (read_account env got s) = (if got < fs_requested s then 0 else fs_remaining s - got)"
  "fs_next_offset (read_account env got s) =
     (if fo_random_offset (fs_opts s) then fs_next_offset s else fs_next_offset s + got)"
  "fs_requested (read_account env got s) = fs_requested s"
  "fs_bytes_read (read_account env got s) = fs_bytes_read s + got"
  "fs_pending_cbs (read_account env got s) = fs_pending_cbs s"
  "fs_timed_out (read_account env got s) = fs_timed_out s"
  "fs_close_requested (read_account env got s) = fs_close_requested s"
  "fs_budget_set (read_account env got s) = fs_budget_set s" "fs_issued_read (read_account env got s) = fs_issued_read s"
  "fs_completed (read_account env got s) = fs_completed s"
  by (simp_all add: read_account_def Let_def)

lemma read_notify_view:
  "owed h (fs_log (read_notify env s)) = owed h (fs_log s)" "refunded (fs_log (read_notify env s)) = refunded (fs_log s)"
  "dones (fs_log (read_notify env s)) = dones (fs_log s)" "releases (fs_log (read_notify env s)) = releases (fs_log s)"
  "readies (fs_log (read_notify env s)) = readies (fs_log s)"
  "fs_opts (read_notify env s) = fs_opts s" "fs_on_done (read_notify env s) = fs_on_done s"
  "fs_paced (read_notify env s) = fs_paced s" "fs_prepaid_op_bytes (read_notify env s) = fs_prepaid_op_bytes s"
  "fs_has_refund (read_notify env s) = fs_has_refund s" "fs_has_ready (read_notify env s) = fs_has_ready s"
  "fs_result (read_notify env s) = fs_result s" "fs_self_keep (read_notify env s) = fs_self_keep s"
  "fs_buffer (read_notify env s) = fs_buffer s" "fs_file_size (read_notify env s) = fs_file_size s"
  "fs_remaining (read_notify env s) = fs_remaining s" "fs_next_offset (read_notify env s) = fs_next_offset s"
  "fs_requested (read_notify env s) = fs_requested s" "fs_bytes_read (read_notify env s) = fs_bytes_read s"
  "fs_pending_cbs (read_notify env s) = fs_pending_cbs s" "fs_timed_out (read_notify env s) = fs_timed_out s"
  "fs_close_requested (read_notify env s) = fs_close_requested s" "fs_budget_set (read_notify env s) = fs_budget_set s"
  "fs_issued_read (read_notify env s) = fs_issued_read s" "fs_completed (read_notify env s) = fs_completed s"
  by (simp_all add: read_notify_def fs_view)

lemma read_done_view [fs_view]:
  "owed h (fs_log (read_done env info s)) = owed h (fs_log s) "
  "refunded (fs_log (read_done env info s)) = refunded (fs_log s)
     + (if fs_has_refund s \<and> got_bytes info s < fs_requested s then unat (fs_requested s - got_bytes info s) else 0)"
  "dones (fs_log (read_done env info s)) = dones (fs_log s)"
  "releases (fs_log (read_done env info s)) = releases (fs_log s)"
  "readies (fs_log (read_done env info s)) = readies (fs_log s)"
  "fs_opts (read_done env info s) = fs_opts s" "fs_on_done (read_done env info s) = fs_on_done s"
  "fs_paced (read_done env info s) = fs_paced s"
  "fs_prepaid_op_bytes (read_done env info s) = fs_prepaid_op_bytes s"
  "fs_has_refund (read_done env info s) = fs_has_refund s" "fs_has_ready (read_done env info s) = fs_has_ready s"
  "fs_result (read_done env info s) = fs_result s" "fs_self_keep (read_done env info s) = fs_self_keep s"
  "fs_buffer (read_done env info s) = fs_buffer s" "fs_file_size (read_done env info s) = fs_file_size s"
  "fs_remaining (read_done env info s) =
     (if got_bytes info s < fs_requested s then 0 else fs_remaining s - got_bytes info s)"
  "fs_next_offset (read_done env info s) =
     (if fo_random_offset (fs_opts s) then fs_next_offset s else fs_next_offset s + got_bytes info s)"
  "fs_requested (read_done env info s) = 0"
  "fs_bytes_read (read_done env info s) = fs_bytes_read s + got_bytes info s"
  "fs_pending_cbs (read_done env info s) = fs_pending_cbs s"
  "fs_timed_out (read_done env info s) = fs_timed_out s"
  "fs_close_requested (read_done env info s) = fs_close_requested s"
  "fs_budget_set (read_done env info s) = fs_budget_set s" "fs_issued_read (read_done env info s) = fs_issued_read s"
  "fs_completed (read_done env info s) = fs_completed s"
  by (simp_all add: read_done_def Let_def fs_view read_account_view read_notify_view)

lemma OnRead_ctl:
  assumes "ctl_inv h s" "0 < owed FnRead (fs_log s)" "s' = OnRead G env st info s"
  shows "ctl_inv (if readies (fs_log s) < readies (fs_log s') then Queued else h) s'"
proof (cases "fs_completed s")
  case True
  then have "s' = ReleaseIfIdle (enter FnRead s)" by (simp add: assms(3) OnRead_def enter_view)
  then show ?thesis using late_callback [OF assms(1,2) True] by (simp add: fs_view)
next
  case False
  note t = take_token [OF assms(1,2) _ False, simplified]
  show ?thesis
  proof (cases "xs_ok st")
    case False
    then have "s' = ReleaseIfIdle (Fail env (if 0 < fo_vector_chunks (fs_opts s) then ''vector_read'' else ''read'')
        st (enter FnRead s))" using \<open>\<not> fs_completed s\<close> by (simp add: assms(3) OnRead_err)
    then show ?thesis using t by (simp add: fs_view pre_fail)
  next
    case True
    let ?s = "read_done env info (enter FnRead s)"
    have p: "ctl_pre ?s" using t by (simp add: ctl_pre_def fs_view)
    show ?thesis
    proof (cases "fs_paced ?s \<and> 0 < fs_remaining ?s \<and> fs_has_ready ?s")
      case True
      then have "s' = emit Ready (emit DisarmDeadline ?s)"
        using \<open>\<not> fs_completed s\<close> \<open>xs_ok st\<close> by (simp add: assms(3) OnRead_ok Let_def)
      moreover have "ctl_inv Queued (emit Ready (emit DisarmDeadline ?s))"
        using p by (auto simp: ctl_pre_def ctl_defs emit_view measure_emit)
      moreover have "readies (fs_log (emit Ready (emit DisarmDeadline ?s))) = readies (fs_log s) + 1"
        by (simp add: fs_view)
      ultimately show ?thesis by simp
    next
      case no: False
      then have "s' = ReleaseIfIdle (IssueNext G env ?s)"
        using \<open>\<not> fs_completed s\<close> \<open>xs_ok st\<close> by (auto simp: assms(3) OnRead_ok Let_def)
      then show ?thesis using t pre_issue [OF p] by (simp add: fs_view)
    qed
  qed
qed

lemma OnClose_ctl:
  assumes "ctl_inv h s" "0 < owed FnClose (fs_log s)"
  shows "ctl_inv h (OnClose env st s)"
proof (cases "fs_completed s")
  case True
  then show ?thesis using late_callback [OF assms True] by (simp add: OnClose_def fs_view)
next
  case False
  then show ?thesis using assms
    by (cases "fs_timed_out s"; cases "xs_ok st"; cases "h = NotReady")
      (auto simp: OnClose_def Let_def ctl_defs fs_view)
qed

lemma RequestWallTimeout_ctl:
  assumes "ctl_inv h s" shows "ctl_inv h (RequestWallTimeout env s)"
proof (cases "fs_completed s \<or> fs_close_requested s")
  case False
  then show ?thesis using assms
    by (cases "xs_ok (ev_submit env)"; cases "h = NotReady")
      (auto simp: RequestWallTimeout_def ctl_defs fs_view)
qed (use assms in \<open>auto simp: RequestWallTimeout_def\<close>)

lemma release_again: "ctl_inv h s \<Longrightarrow> fs_completed s \<Longrightarrow> ctl_inv NotReady (ReleaseIfIdle s)"
  by (cases "h = NotReady") (auto simp: ctl_defs fs_view)

lemma IssueNextFromEngine_ctl:
  assumes "ctl_inv h s" "h \<noteq> NotReady" shows "ctl_inv NotReady (IssueNextFromEngine G env s)"
  using release_again [OF assms(1)] take_hand [OF assms] pre_issue
  by (cases "fs_completed s") (auto simp: IssueNextFromEngine_def)

lemma CloseNow_ctl:
  assumes "ctl_inv h s" "h \<noteq> NotReady" shows "ctl_inv NotReady (CloseNow env s)"
proof (cases "fs_completed s")
  case True
  then show ?thesis using release_again [OF assms(1)] by (simp add: CloseNow_def)
next
  case False
  have "ctl_pre (s \<lparr> fs_remaining := 0 \<rparr>)" using take_hand [OF assms False] by (simp add: ctl_pre_def)
  then show ?thesis using False pre_close by (simp add: CloseNow_def)
qed

lemma start_ctl: "ctl_inv NotReady (fs_Start env (new_FileSession G opts True paced n a b c))"
  by (auto simp: fs_Start_def new_FileSession_def Let_def fs_view ctl_defs)

lemma session_step_ctl:
  assumes "session_step G y y'" "ctl_inv (ss_hand y) (ss_fs y)" shows "ctl_inv (ss_hand y') (ss_fs y')"
  using assms
proof (induction rule: session_step.induct)
  case (cb_read y info s' env st)
  then show ?case using OnRead_ctl [OF cb_read.prems cb_read.hyps(1,3)] by simp
next
  case (pay y n)
  then show ?case by (simp add: ctl_defs)
next
  case (drop_done y)
  then show ?case by (auto simp: ctl_defs)
next
  case (issue y n env)
  then show ?case using IssueNextFromEngine_ctl [OF issue.prems] by simp
next
  case (close y env)
  then show ?case using CloseNow_ctl [OF close.prems] by simp
qed (simp_all add: OnOpen_ctl OnStat_ctl OnClose_ctl RequestWallTimeout_ctl)

lemma reach_ctl: "session_reach G opts paced prepaid y \<Longrightarrow> ctl_inv (ss_hand y) (ss_fs y)"
  by (induction rule: session_reach.induct)
    (auto simp: session_start_def Let_def intro: start_ctl session_step_ctl)


section \<open>What the environment may rely on\<close>

text \<open>The invariant in the form its consumers use.\<close>

lemma ctl_owed:
  assumes "ctl_inv h s"
  shows "0 \<le> owed FnOpen (fs_log s)" "0 \<le> owed FnStat (fs_log s)" "0 \<le> owed FnRead (fs_log s)"
    "0 \<le> owed FnClose (fs_log s)" "owed FnClose (fs_log s) \<le> 1"
    "owed FnOpen (fs_log s) + owed FnStat (fs_log s) + owed FnRead (fs_log s) + in_hand h \<le> 1"
    "fs_pending_cbs s = owed FnOpen (fs_log s) + owed FnStat (fs_log s) + owed FnRead (fs_log s)
       + owed FnClose (fs_log s)"
    "0 \<le> in_hand h"
  using assms unfolding ctl_inv_def owed_ok_def ctl_token_def by (simp_all add: in_hand_def)

lemma ctl_flags:
  assumes "ctl_inv h s"
  shows "dones (fs_log s) = (if fs_completed s then 1 else 0)"
    "fs_self_keep s = (\<not> (fs_completed s \<and> fs_pending_cbs s = 0))"
    "releases (fs_log s) = (if fs_self_keep s then 0 else 1)"
  using assms unfolding ctl_inv_def by simp_all

lemma ctl_live:
  assumes "ctl_inv h s" "\<not> fs_completed s"
  shows "owed FnOpen (fs_log s) + owed FnStat (fs_log s) + owed FnRead (fs_log s) + in_hand h = 1
    \<or> owed FnClose (fs_log s) = 1"
  using assms unfolding ctl_inv_def ctl_token_def by simp

text \<open>A concrete run for the witnesses: every submission accepted at time 1.\<close>

definition demo_env :: session_env where
  "demo_env = \<lparr> ev_submit = \<lparr> xs_ok = True, xs_code = 0, xs_errno = 0, xs_text = [] \<rparr>, ev_clock = (\<lambda>_. 1) \<rparr>"

definition demo_opts :: FileSessionOptions where
  "demo_opts = default_FileSessionOptions \<lparr> fo_chunk_size := 100, fo_wall_timeout_s := Fin 60 \<rparr>"

definition demo_session :: "u64 session_sys" where
  "demo_session = session_start counter_rng demo_opts True 100 demo_env"

lemma demo_reach: "session_reach counter_rng demo_opts True 100 demo_session"
  unfolding demo_session_def by (rule session_reach.start)

lemma demo_owed: "owed FnOpen (fs_log (ss_fs demo_session)) = 1"
  by (simp add: demo_session_def session_start_def fs_Start_def demo_env_def new_FileSession_def Let_def fs_view)

text \<open>C9. A session is never destroyed under a pending callback and never completed twice: in every
  reachable state the callback counter is the number of accepted operations whose handler has not
  run, the session keeps itself alive while one is pending, it is released exactly when it is
  completed and none is, and \<open>on_done\<close> has been called once if it is completed and not at all if not.\<close>

theorem session_lifetime:
  assumes "session_reach G opts paced prepaid y"
  shows "let s = ss_fs y; L = fs_log s; pending = owed FnOpen L + owed FnStat L + owed FnRead L + owed FnClose L
    in fs_pending_cbs s = pending \<and> 0 \<le> pending \<and> pending \<le> 2
      \<and> fs_self_keep s = (\<not> fs_completed s \<or> 0 < pending)
      \<and> releases L = (if fs_self_keep s then 0 else 1)
      \<and> dones L = (if fs_completed s then 1 else 0)"
proof -
  note c = reach_ctl [OF assms]
  note o = ctl_owed [OF c] and f = ctl_flags [OF c]
  have "owed FnOpen (fs_log (ss_fs y)) + owed FnStat (fs_log (ss_fs y)) + owed FnRead (fs_log (ss_fs y)) \<le> 1"
    using o(5,6,8) by linarith
  moreover have "(fs_completed (ss_fs y) \<and> fs_pending_cbs (ss_fs y) = 0)
      = (fs_completed (ss_fs y) \<and> \<not> 0 < fs_pending_cbs (ss_fs y))"
    using o by linarith
  ultimately show ?thesis using o f by (simp add: Let_def)
qed

lemma session_lifetime_witness:
  "fs_pending_cbs (ss_fs demo_session) \<le> 2 \<and> 0 \<le> fs_pending_cbs (ss_fs demo_session)"
  using session_lifetime [OF demo_reach] by (simp add: Let_def)

text \<open>C10. No session gets stuck on its own, and the engine does not act on one that XrdCl is working on: a session that is
  not completed has a callback coming, or is in the hands of the engine, which will either pay and issue its next read or
  close it. It is both only when its wall timeout has fired and the close requested for that is still outstanding:
  an open, a stat or a read never is while the engine holds the session, and no close but the timeout's.\<close>

theorem session_never_stuck:
  assumes "session_reach G opts paced prepaid y" "\<not> fs_completed (ss_fs y)"
  shows "if ss_hand y = NotReady then \<exists>h. 0 < owed h (fs_log (ss_fs y))
    else \<forall>h. owed h (fs_log (ss_fs y)) \<noteq> 0 \<longrightarrow> h = FnClose \<and> fs_timed_out (ss_fs y) \<and> fs_close_requested (ss_fs y)"
proof -
  note c = reach_ctl [OF assms(1)]
  note o = ctl_owed [OF c] and l = ctl_live [OF c assms(2)]
  show ?thesis
  proof (cases "ss_hand y = NotReady")
    case True
    then have "0 < owed FnOpen (fs_log (ss_fs y)) \<or> 0 < owed FnStat (fs_log (ss_fs y))
        \<or> 0 < owed FnRead (fs_log (ss_fs y)) \<or> 0 < owed FnClose (fs_log (ss_fs y))"
      using o l by (simp add: in_hand_def) linarith
    then have "\<exists>h. 0 < owed h (fs_log (ss_fs y))" by blast
    then show ?thesis using True by simp
  next
    case False
    then have z: "owed FnOpen (fs_log (ss_fs y)) = 0" "owed FnStat (fs_log (ss_fs y)) = 0" "owed FnRead (fs_log (ss_fs y)) = 0"
      using o by (simp_all add: in_hand_def)
    have "fs_timed_out (ss_fs y) \<and> fs_close_requested (ss_fs y)" if "owed FnClose (fs_log (ss_fs y)) \<noteq> 0"
      using c assms(2) that False by (auto simp: ctl_defs)
    then have "h = FnClose \<and> fs_timed_out (ss_fs y) \<and> fs_close_requested (ss_fs y)"
      if "owed h (fs_log (ss_fs y)) \<noteq> 0" for h using that z by (cases h) simp_all
    then show ?thesis using False by simp
  qed
qed

lemma demo_open: "\<not> fs_completed (ss_fs demo_session)" "ss_hand demo_session = NotReady"
  by (simp_all add: demo_session_def session_start_def fs_Start_def demo_env_def new_FileSession_def Let_def fs_view)

lemma session_never_stuck_witness:
  "\<exists>h. 0 < owed h (fs_log (ss_fs demo_session))"
  using session_never_stuck [OF demo_reach demo_open(1)] demo_open(2) by simp

end
