(* ===== verification/SessionLedger.thy ===== *)
theory SessionLedger
  imports SessionReads SessionProtocol
begin

text \<open>
  The session's accounts. Tokens come in with the prepayment and with every payment of the engine; they
  leave as bytes read or as refunds; in between they are the size of the read in flight, the unused
  prepayment, or a payment the engine has not acted on. The invariant says that these add up, that the
  session stays within its byte budget, and that every read lies in the file and fits the buffer.
\<close>

section \<open>The invariant\<close>

text \<open>What the server and the options allow the session to read.\<close>

definition budget_of :: "'r FileSession \<Rightarrow> nat" where
  "budget_of s = (if 0 < fo_max_bytes (fs_opts s)
     then min (unat (fs_file_size s)) (unat (fo_max_bytes (fs_opts s))) else unat (fs_file_size s))"

definition paid :: "hand \<Rightarrow> nat" where
  "paid h = (case h of Paid n \<Rightarrow> unat n | _ \<Rightarrow> 0)"

definition spent :: "'r FileSession \<Rightarrow> nat" where
  "spent s = unat (fs_bytes_read s) + refunded (fs_log s) + unat (fs_requested s) + unat (fs_prepaid_op_bytes s)"

definition span_ok :: "'r FileSession \<Rightarrow> bool" where
  "span_ok s \<longleftrightarrow> fs_requested s \<le> fs_remaining s
     \<and> (if fs_budget_set s then unat (fs_bytes_read s) + unat (fs_remaining s) \<le> budget_of s \<and> readable s
        else fs_bytes_read s = 0 \<and> fs_remaining s = 0 \<and> reads (fs_log s) = [])"

definition reads_ok :: "'r FileSession \<Rightarrow> bool" where
  "reads_ok s \<longleftrightarrow> fs_buffer s = op_cap (fs_opts s)
     \<and> list_all (\<lambda>op. op_inside (fs_file_size s) op \<and> op_bytes op \<le> fs_buffer s) (reads (fs_log s))"

definition money_ok :: "nat \<Rightarrow> nat \<Rightarrow> 'r FileSession \<Rightarrow> bool" where
  "money_ok c n s \<longleftrightarrow> fs_has_refund s \<and> fs_paced s \<and> fs_has_ready s \<and> (fs_issued_read s \<longrightarrow> fs_prepaid_op_bytes s = 0)
     \<and> spent s + n \<le> c \<and> (\<not> fs_timed_out s \<longrightarrow> spent s + n = c)"

text \<open>A handler that holds the token and has not acted; \<open>n\<close> is the engine's payment in its hands.\<close>

definition data_pre :: "nat \<Rightarrow> nat \<Rightarrow> 'r FileSession \<Rightarrow> bool" where
  "data_pre c n s \<longleftrightarrow> money_ok c n s \<and> span_ok s \<and> reads_ok s \<and> fs_requested s = 0"

definition settled :: "'r FileSession \<Rightarrow> bool" where
  "settled s \<longleftrightarrow> ((fs_close_requested s \<or> fs_completed s) \<and> \<not> fs_timed_out s
     \<longrightarrow> fs_requested s = 0 \<and> fs_prepaid_op_bytes s = 0)"

definition data_inv :: "FileSessionOptions \<Rightarrow> nat \<Rightarrow> hand \<Rightarrow> 'r FileSession \<Rightarrow> bool" where
  "data_inv opts c h s \<longleftrightarrow> fs_opts s = opts \<and> money_ok c (paid h) s \<and> span_ok s \<and> reads_ok s \<and> settled s
     \<and> (fs_requested s \<noteq> 0 \<and> \<not> fs_completed s \<longrightarrow> owed FnRead (fs_log s) = 1)
     \<and> (0 < owed FnRead (fs_log s) \<and> \<not> fs_completed s \<longrightarrow> fs_issued_read s \<and> fs_budget_set s)
     \<and> (h \<noteq> NotReady \<longrightarrow> fs_issued_read s \<and> fs_budget_set s)
     \<and> (\<forall>n. h = Paid n \<longrightarrow> unat n = min (op_cap opts) (unat (fs_remaining s)))
     \<and> (0 < owed FnOpen (fs_log s) + owed FnStat (fs_log s) \<and> \<not> fs_completed s \<longrightarrow>
          \<not> fs_issued_read s \<and> \<not> fs_budget_set s \<and> fs_prepaid_op_bytes s = SessionOpBytes opts)"

lemmas acct_defs = money_ok_def span_ok_def reads_ok_def spent_def budget_of_def readable_def

text \<open>Closing and completing from the token's state.\<close>

definition idle :: "'r FileSession \<Rightarrow> bool" where
  "idle s \<longleftrightarrow> owed FnOpen (fs_log s) = 0 \<and> owed FnStat (fs_log s) = 0 \<and> owed FnRead (fs_log s) = 0"

lemma ctl_pre_idle: "ctl_pre s \<Longrightarrow> idle s \<and> \<not> fs_completed s"
  by (simp add: ctl_pre_def idle_def)

text \<open>The parts only look at the fields they name.\<close>

lemma span_frame:
  assumes "span_ok s" "fs_requested t = 0" "fs_remaining t \<le> fs_remaining s" "fs_budget_set t = fs_budget_set s"
    "fs_bytes_read t = fs_bytes_read s" "fs_opts t = fs_opts s" "fs_file_size t = fs_file_size s"
    "fs_next_offset t = fs_next_offset s" "reads (fs_log t) = reads (fs_log s)"
  shows "span_ok t"
proof -
  have b: "budget_of t = budget_of s" by (simp only: budget_of_def assms)
  have r: "readable s \<Longrightarrow> readable t" using assms(3) unfolding readable_def assms(6-8) word_le_nat_alt by auto
  have l: "unat (fs_remaining t) \<le> unat (fs_remaining s)" using assms(3) by (simp add: word_le_nat_alt)
  show ?thesis
  proof (cases "fs_budget_set s")
    case True
    then have "unat (fs_bytes_read s) + unat (fs_remaining s) \<le> budget_of s" "readable s"
      using assms(1) unfolding span_ok_def by simp_all
    then show ?thesis using True l r unfolding span_ok_def assms(2,4,5) b by simp
  next
    case False
    then have "fs_bytes_read s = 0" "fs_remaining s = 0" "reads (fs_log s) = []"
      using assms(1) unfolding span_ok_def by simp_all
    then show ?thesis using False l unfolding span_ok_def assms(2,4,5,9) by (simp add: word_unat_eq_iff)
  qed
qed

lemma reads_frame:
  assumes "reads_ok s" "fs_buffer t = fs_buffer s" "fs_opts t = fs_opts s" "fs_file_size t = fs_file_size s"
    "reads (fs_log t) = reads (fs_log s)"
  shows "reads_ok t"
  using assms(1) unfolding reads_ok_def assms(2-5) .

lemma data_doneI:
  assumes "money_ok c 0 s" "span_ok s" "reads_ok s" "fs_requested s = 0" "idle s"
    "\<not> fs_timed_out s \<Longrightarrow> fs_prepaid_op_bytes s = 0" "fs_opts s = opts"
  shows "data_inv opts c NotReady s"
  using assms by (simp add: data_inv_def paid_def settled_def idle_def)

lemma close_data:
  assumes "data_pre c n s" "idle s" "fs_opts s = opts"
    "\<not> fs_timed_out s \<Longrightarrow> n = 0 \<and> fs_prepaid_op_bytes s = 0"
  shows "data_inv opts c NotReady (ReleaseIfIdle (SubmitClose env s))"
proof (rule data_doneI)
  let ?t = "ReleaseIfIdle (SubmitClose env s)"
  note p = assms(1) [unfolded data_pre_def]
  show "money_ok c 0 ?t" using p assms(4) by (auto simp: money_ok_def spent_def fs_view)
  show "span_ok ?t" by (rule span_frame [of s]) (use p in \<open>simp_all add: fs_view\<close>)
  show "reads_ok ?t" by (rule reads_frame [of s]) (use p in \<open>simp_all add: fs_view\<close>)
qed (use assms in \<open>auto simp: data_pre_def idle_def fs_view\<close>)

lemma finish_data:
  assumes "data_pre c 0 s" "idle s" "fs_opts s = opts" "\<not> fs_timed_out s \<Longrightarrow> fs_prepaid_op_bytes s = 0"
  shows "data_inv opts c NotReady (ReleaseIfIdle (Complete s))"
proof (rule data_doneI)
  let ?t = "ReleaseIfIdle (Complete s)"
  note p = assms(1) [unfolded data_pre_def]
  show "money_ok c 0 ?t" using p by (auto simp: money_ok_def spent_def fs_view)
  show "span_ok ?t" by (rule span_frame [of s]) (use p in \<open>simp_all add: fs_view\<close>)
  show "reads_ok ?t" by (rule reads_frame [of s]) (use p in \<open>simp_all add: fs_view\<close>)
qed (use assms in \<open>auto simp: data_pre_def idle_def fs_view\<close>)

text \<open>Giving tokens back, and forgetting that a session was to read.\<close>

lemma refund_prepaid_pre:
  assumes "data_pre c n s"
  shows "data_pre c n (RefundPrepaid s)" "fs_prepaid_op_bytes (RefundPrepaid s) = 0"
proof -
  note p = assms [unfolded data_pre_def]
  have "money_ok c n (RefundPrepaid s)" using p by (auto simp: money_ok_def spent_def fs_view)
  moreover have "span_ok (RefundPrepaid s)" by (rule span_frame [of s]) (use p in \<open>simp_all add: fs_view\<close>)
  moreover have "reads_ok (RefundPrepaid s)" by (rule reads_frame [of s]) (use p in \<open>simp_all add: fs_view\<close>)
  ultimately show "data_pre c n (RefundPrepaid s)" using p by (simp add: data_pre_def fs_view)
  show "fs_prepaid_op_bytes (RefundPrepaid s) = 0" using p by (simp add: money_ok_def fs_view)
qed

lemma drop_remaining_pre:
  assumes "data_pre c n s"
  shows "data_pre c n (s \<lparr> fs_remaining := 0, fs_t_last_byte := t \<rparr>)" "data_pre c n (s \<lparr> fs_remaining := 0 \<rparr>)"
proof -
  note p = assms [unfolded data_pre_def]
  have "span_ok (s \<lparr> fs_remaining := 0 \<rparr>)" by (rule span_frame [of s]) (use p in simp_all)
  moreover have "span_ok (s \<lparr> fs_remaining := 0, fs_t_last_byte := t \<rparr>)" by (rule span_frame [of s]) (use p in simp_all)
  moreover have "reads_ok (s \<lparr> fs_remaining := 0 \<rparr>)" by (rule reads_frame [of s]) (use p in simp_all)
  moreover have "reads_ok (s \<lparr> fs_remaining := 0, fs_t_last_byte := t \<rparr>)" by (rule reads_frame [of s]) (use p in simp_all)
  moreover have "money_ok c n (s \<lparr> fs_remaining := 0 \<rparr>) = money_ok c n s"
      "money_ok c n (s \<lparr> fs_remaining := 0, fs_t_last_byte := t \<rparr>) = money_ok c n s"
    by (simp_all add: money_ok_def spent_def)
  ultimately show "data_pre c n (s \<lparr> fs_remaining := 0, fs_t_last_byte := t \<rparr>)" "data_pre c n (s \<lparr> fs_remaining := 0 \<rparr>)"
    using p unfolding data_pre_def by simp_all
qed

text \<open>Issuing a read: the payment or the prepayment covers its size.\<close>

definition covered :: "nat \<Rightarrow> 'r FileSession \<Rightarrow> bool" where
  "covered n s \<longleftrightarrow> (if fs_issued_read s then n = min (op_cap (fs_opts s)) (unat (fs_remaining s))
     else n = 0 \<and> op_cap (fs_opts s) \<le> unat (fs_prepaid_op_bytes s))"

lemma issued_span:
  assumes "rng_bounded G" "span_ok s" "reads_ok s" "fs_budget_set s"
  shows "span_ok (issued G env s) \<and> reads_ok (issued G env s)"
proof
  have r: "readable s" using assms(2,4) by (simp add: span_ok_def)
  note f = next_read_facts [OF assms(1) r]
  have size: "unat (next_size G s) \<le> unat (fs_remaining s)" using f(1) by simp
  have b: "budget_of (issued G env s) = budget_of s" by (simp add: budget_of_def issued_view)
  have "readable (issued G env s)" using r f(4)
    by (cases "fo_random_offset (fs_opts s)") (simp_all add: readable_def issued_view)
  then show "span_ok (issued G env s)" using assms(2,4) size b
    by (simp add: span_ok_def issued_view word_le_nat_alt)
  have "op_bytes (next_op G s) \<le> op_cap (fs_opts s)" using f(1,2) by simp
  then show "reads_ok (issued G env s)" using assms(3) f(3)
    by (auto simp: reads_ok_def issued_view issued_reads list_all_iff)
qed

lemma issued_data:
  assumes "rng_bounded G" "data_pre c n s" "fs_budget_set s" "covered n s" "op_cap (fs_opts s) < 2 ^ 32"
  shows "money_ok c 0 (issued G env s)" "span_ok (issued G env s)" "reads_ok (issued G env s)"
proof -
  note p = assms(2) [unfolded data_pre_def]
  have r: "readable s" using p assms(3) by (simp add: span_ok_def)
  note f = next_read_facts [OF assms(1) r]
  have "unat (next_size G s) + (if next_size G s < fs_prepaid_op_bytes s
      then unat (fs_prepaid_op_bytes s - next_size G s) else 0) = unat (fs_prepaid_op_bytes s) + n"
  proof (cases "fs_issued_read s")
    case True
    then show ?thesis using assms(4) f(1) p by (simp add: covered_def money_ok_def)
  next
    case False
    then have "unat (next_size G s) \<le> unat (fs_prepaid_op_bytes s)" "n = 0"
      using assms(4) unfolding f(1) covered_def by (simp_all add: min_le_iff_disj)
    then show ?thesis by (auto simp: unat_sub_u64 word_le_nat_alt word_less_nat_alt)
  qed
  then show "money_ok c 0 (issued G env s)" using p
    by (auto simp: money_ok_def spent_def issued_view)
  show "span_ok (issued G env s)" "reads_ok (issued G env s)"
    using issued_span [OF assms(1) _ _ assms(3)] p by simp_all
qed

lemma enter_reads: "reads (fs_log (enter f s)) = reads (fs_log s)"
  by (simp add: enter_def fs_view)

lemma issued_owed: "idle s \<Longrightarrow> xs_ok (ev_submit env) \<Longrightarrow> owed FnOpen (fs_log (issued G env s)) = 0
    \<and> owed FnStat (fs_log (issued G env s)) = 0 \<and> owed FnRead (fs_log (issued G env s)) = 1"
  by (simp add: idle_def issued_view)

lemma issue_data:
  assumes "rng_bounded G" "data_pre c n s" "ctl_pre s" "fs_opts s = opts" "fs_budget_set s"
    "covered n s \<or> fs_timed_out s" "op_cap opts < 2 ^ 32"
    "fs_remaining s = 0 \<Longrightarrow> \<not> fs_timed_out s \<Longrightarrow> n = 0"
  shows "data_inv opts c NotReady (ReleaseIfIdle (IssueNext G env s))"
proof (cases "fs_timed_out s \<or> fs_remaining s = 0")
  case True
  let ?r = "s \<lparr> fs_remaining := 0, fs_t_last_byte := ev_clock env AtLastByte \<rparr>"
  note r = drop_remaining_pre(1) [OF assms(2), of "ev_clock env AtLastByte"]
  have "data_inv opts c NotReady (ReleaseIfIdle (SubmitClose env (RefundPrepaid ?r)))"
    using refund_prepaid_pre [OF r] assms(3,4,8) True ctl_pre_idle [OF assms(3)]
    by (intro close_data [of c n]) (auto simp: idle_def fs_view)
  then show ?thesis using True assms(3) by (simp add: IssueNext_close ctl_pre_def)
next
  case go: False
  let ?i = "issued G env s"
  have nc: "\<not> fs_completed s" "idle s" using ctl_pre_idle [OF assms(3)] by simp_all
  have cov: "covered n s" using assms(6) go by simp
  note i = issued_data [OF assms(1,2,5) cov, unfolded assms(4), OF assms(7), of env]
  have q: "\<not> fs_close_requested s" using assms(3) go by (auto simp: ctl_pre_def)
  show ?thesis
  proof (cases "xs_ok (ev_submit env)")
    case True
    have d: "data_inv opts c NotReady ?i"
      unfolding data_inv_def using i issued_owed [OF nc(2) True] assms(4,5) nc(1) q
      by (simp add: issued_view settled_def paid_def)
    have "ReleaseIfIdle ?i = ?i" using nc(1) by (simp add: ReleaseIfIdle_def issued_view)
    then show ?thesis using d go nc(1) True by (simp add: IssueNext_read)
  next
    case False
    define t where "t = set_error (''read submission failed: '' @ xs_text (ev_submit env)) (xs_code (ev_submit env))
      (xs_errno (ev_submit env)) (CapturePartialCounters env (?i \<lparr> fs_pending_cbs := fs_pending_cbs ?i - 1 \<rparr>))"
    define u where "u = (RefundBytes (fs_requested t) t) \<lparr> fs_requested := 0 \<rparr>"
    have m: "money_ok c 0 u" using i(1) by (auto simp: money_ok_def spent_def u_def t_def fs_view)
    have sp: "span_ok u" by (rule span_frame [of ?i]) (use i(2) in \<open>simp_all add: u_def t_def fs_view\<close>)
    have re: "reads_ok u" by (rule reads_frame [of ?i]) (use i(3) in \<open>simp_all add: u_def t_def fs_view\<close>)
    have dp: "data_pre c 0 u" using m sp re by (simp add: data_pre_def u_def)
    have "data_inv opts c NotReady (ReleaseIfIdle (Complete u))"
      using nc(2) False assms(4) by (intro finish_data [OF dp]) (simp_all add: u_def t_def idle_def issued_view fs_view)
    moreover have "IssueNext G env s = Complete u"
      using go nc(1) False by (simp add: IssueNext_read u_def t_def Let_def)
    ultimately show ?thesis by simp
  qed
qed

text \<open>A handler that takes the token, in the invariant's terms.\<close>

lemma enter_data:
  assumes "data_inv opts c h s" "ctl_inv h s" "0 < owed f (fs_log s)" "f \<noteq> FnClose" "\<not> fs_completed s" "f \<noteq> FnRead"
  shows "data_pre c 0 (enter f s) \<and> ctl_pre (enter f s) \<and> h = NotReady
    \<and> \<not> fs_issued_read s \<and> \<not> fs_budget_set s \<and> fs_prepaid_op_bytes s = SessionOpBytes opts"
proof -
  note t = take_token [OF assms(2,3,4,5)]
  have o: "owed FnOpen (fs_log s) \<ge> 0" "owed FnStat (fs_log s) \<ge> 0"
    "owed FnOpen (fs_log s) + owed FnStat (fs_log s) + owed FnRead (fs_log s) \<le> 1"
    "owed FnRead (fs_log s) \<ge> 0" "in_hand h \<ge> 0"
    using ctl_owed [OF assms(2)] by linarith+
  have e: "0 < owed FnOpen (fs_log s) + owed FnStat (fs_log s)" using assms(3,4,6) o(1,2) by (cases f) simp_all
  have "owed FnRead (fs_log s) \<noteq> 1" using o e by linarith
  then have z: "fs_requested s = 0" using assms(1,5) by (auto simp: data_inv_def)
  have "money_ok c 0 (enter f s)" using assms(1) t by (simp add: data_inv_def money_ok_def spent_def paid_def fs_view)
  moreover have "span_ok (enter f s)"
    by (rule span_frame [of s]) (use assms(1) z in \<open>simp_all add: data_inv_def fs_view enter_reads\<close>)
  moreover have "reads_ok (enter f s)"
    by (rule reads_frame [of s]) (use assms(1) in \<open>simp_all add: data_inv_def fs_view enter_reads\<close>)
  ultimately show ?thesis using t e z assms(1,5) by (simp add: data_pre_def data_inv_def fs_view)
qed

section \<open>One lemma per call\<close>

lemma late_data:
  assumes "data_inv opts c h s" "fs_completed s"
  shows "data_inv opts c h (ReleaseIfIdle (enter f s))"
proof -
  let ?t = "ReleaseIfIdle (enter f s)"
  note p = assms(1) [unfolded data_inv_def]
  have "money_ok c (paid h) ?t" using p by (simp add: money_ok_def spent_def fs_view)
  moreover have "reads_ok ?t" by (rule reads_frame [of s]) (use p in \<open>simp_all add: fs_view enter_reads\<close>)
  moreover have "budget_of ?t = budget_of s" "readable ?t = readable s"
    by (simp_all add: budget_of_def readable_def fs_view)
  then have "span_ok ?t" using p by (simp add: span_ok_def fs_view enter_reads)
  ultimately show ?thesis using p assms(2) by (simp add: data_inv_def settled_def fs_view)
qed

lemma fail_data:
  assumes "data_pre c 0 s" "idle s" "fs_opts s = opts" "stage = ''read'' \<or> stage = ''vector_read'' \<Longrightarrow> fs_issued_read s"
  shows "data_inv opts c NotReady (ReleaseIfIdle (Fail env stage st s))"
proof (rule data_doneI)
  let ?t = "ReleaseIfIdle (Fail env stage st s)"
  note p = assms(1) [unfolded data_pre_def]
  have v: "fs_prepaid_op_bytes ?t = 0" using p assms(4) by (auto simp: money_ok_def fs_view)
  then show "fs_prepaid_op_bytes ?t = 0" .
  have z: "fs_requested s = 0" using p by simp
  have "spent ?t = spent s"
    unfolding spent_def v using p assms(4) z by (auto simp: money_ok_def fs_view)
  then show "money_ok c 0 ?t" using p v by (simp add: money_ok_def fs_view)
  show "span_ok ?t" by (rule span_frame [of s]) (use p in \<open>simp_all add: fs_view\<close>)
  show "reads_ok ?t" by (rule reads_frame [of s]) (use p in \<open>simp_all add: fs_view\<close>)
qed (use assms in \<open>auto simp: data_pre_def idle_def fs_view\<close>)

lemma abandon_data:
  assumes "data_pre c 0 s" "idle s" "fs_opts s = opts"
  shows "data_inv opts c NotReady (ReleaseIfIdle (Complete (RefundPrepaid s)))"
  using refund_prepaid_pre [OF assms(1)] assms(2,3)
  by (intro finish_data) (simp_all add: idle_def fs_view)

lemma data_pre_frame:
  assumes "data_pre c n s" "fs_requested t = 0" "fs_remaining t = fs_remaining s" "fs_budget_set t = fs_budget_set s"
    "fs_bytes_read t = fs_bytes_read s" "fs_opts t = fs_opts s" "fs_file_size t = fs_file_size s"
    "fs_next_offset t = fs_next_offset s" "reads (fs_log t) = reads (fs_log s)" "fs_buffer t = fs_buffer s"
    "refunded (fs_log t) = refunded (fs_log s)" "fs_prepaid_op_bytes t = fs_prepaid_op_bytes s"
    "fs_has_refund t = fs_has_refund s" "fs_paced t = fs_paced s" "fs_has_ready t = fs_has_ready s"
    "fs_issued_read t = fs_issued_read s" "fs_timed_out t = fs_timed_out s"
  shows "data_pre c n t"
proof -
  note p = assms(1) [unfolded data_pre_def]
  have "span_ok t" by (rule span_frame [of s]) (use p assms in simp_all)
  moreover have "reads_ok t" by (rule reads_frame [of s]) (use p assms in simp_all)
  moreover have "spent t = spent s" using p assms(2) unfolding spent_def assms(5,11,12) by simp
  then have "money_ok c n t" using p unfolding money_ok_def assms(12-17) by simp
  ultimately show ?thesis using assms(2) by (simp add: data_pre_def)
qed

lemma OnOpen_data:
  assumes "data_inv opts c h s" "ctl_inv h s" "0 < owed FnOpen (fs_log s)"
  shows "data_inv opts c h (OnOpen env st hosts server s)"
proof (cases "fs_completed s")
  case True
  then show ?thesis using late_data [OF assms(1) True] by (simp add: OnOpen_def fs_view)
next
  case False
  have e: "data_pre c 0 (enter FnOpen s)" "ctl_pre (enter FnOpen s)" "h = NotReady" "\<not> fs_issued_read s"
      "\<not> fs_budget_set s" "fs_prepaid_op_bytes s = SessionOpBytes opts" "fs_opts s = opts"
    using enter_data [OF assms(1-3) _ False] assms(1) by (auto simp: data_inv_def)
  define t where "t = (enter FnOpen s) \<lparr> fs_t_open := ev_clock env AtEntry,
      fs_hops := (case hosts of Some n \<Rightarrow> n | None \<Rightarrow> fs_hops (enter FnOpen s)) \<rparr>"
  define u where "u = t \<lparr> fs_data_server := server \<rparr>"
  have pt: "data_pre c 0 t" "idle t" "fs_opts t = opts"
    using data_pre_frame [OF e(1), of t] e(1,7) ctl_pre_idle [OF e(2)]
    by (simp_all add: t_def data_pre_def idle_def enter_view)
  have pu: "data_pre c 0 u" "idle u" "fs_opts u = opts"
    using data_pre_frame [OF pt(1), of u] pt by (simp_all add: u_def data_pre_def idle_def)
  consider "\<not> xs_ok st" | "xs_ok st" "fs_timed_out s" | "xs_ok st" "\<not> fs_timed_out s" "\<not> xs_ok (ev_submit env)"
    | "xs_ok st" "\<not> fs_timed_out s" "xs_ok (ev_submit env)" by blast
  then show ?thesis
  proof cases
    case 1
    then have "OnOpen env st hosts server s = ReleaseIfIdle (Fail env ''open'' st t)"
      using False by (simp add: OnOpen_def t_def Let_def enter_view)
    then show ?thesis using fail_data [OF pt, of "''open''"] e(3) by simp
  next
    case 2
    then have "OnOpen env st hosts server s = ReleaseIfIdle (SubmitClose env u)"
      using False by (simp add: OnOpen_def t_def u_def Let_def enter_view)
    then show ?thesis using close_data [OF pu] 2 e(3) by (simp add: u_def t_def enter_view)
  next
    case 3
    let ?sub = "ev_submit env"
    define w where "w = emit (Submit OpStat False) (ArmOpDeadline (u \<lparr> fs_pending_cbs := fs_pending_cbs u + 1 \<rparr>))"
    define v where "v = set_error (''stat submission failed: '' @ xs_text ?sub) (xs_code ?sub) (xs_errno ?sub)
        (w \<lparr> fs_pending_cbs := fs_pending_cbs w - 1 \<rparr>)"
    have pv: "data_pre c 0 v" "idle v" "fs_opts v = opts"
      using data_pre_frame [OF pu(1), of v] pu by (simp_all add: v_def w_def data_pre_def idle_def fs_view)
    have "OnOpen env st hosts server s = ReleaseIfIdle (Complete (RefundPrepaid v))"
      using False 3 by (simp add: OnOpen_def t_def u_def v_def w_def Let_def enter_view)
    then show ?thesis using abandon_data [OF pv] e(3) by simp
  next
    case 4
    define w where "w = emit (Submit OpStat True) (ArmOpDeadline (u \<lparr> fs_pending_cbs := fs_pending_cbs u + 1 \<rparr>))"
    have pw: "data_pre c 0 w" "fs_opts w = opts"
      using data_pre_frame [OF pu(1), of w] pu by (simp_all add: w_def data_pre_def fs_view)
    have ow: "owed FnOpen (fs_log w) = 0" "owed FnStat (fs_log w) = 1" "owed FnRead (fs_log w) = 0"
      using pu(2) by (simp_all add: w_def idle_def fs_view)
    have "OnOpen env st hosts server s = w"
      using False 4 by (simp add: OnOpen_def t_def u_def w_def Let_def enter_view ReleaseIfIdle_def emit_view ArmOpDeadline_view)
    moreover have "data_inv opts c NotReady w"
    proof -
      have "\<not> fs_completed w" "\<not> fs_close_requested w" "\<not> fs_issued_read w" "\<not> fs_budget_set w"
          "fs_prepaid_op_bytes w = SessionOpBytes opts"
        using e False 4(2) by (auto simp: w_def u_def t_def fs_view ctl_pre_def)
      then show ?thesis using pw ow by (simp add: data_inv_def data_pre_def settled_def paid_def)
    qed
    ultimately show ?thesis using e(3) by simp
  qed
qed

text \<open>The budget of a session is set once, before anything is read.\<close>

lemma set_budget_pre:
  assumes "data_pre c 0 s" "\<not> fs_budget_set s"
    "fs_opts t = fs_opts s" "fs_file_size t = fsize" "fs_budget_set t" "fs_requested t = 0" "fs_bytes_read t = fs_bytes_read s"
    "fs_log t = fs_log s" "fs_buffer t = fs_buffer s" "fs_prepaid_op_bytes t = fs_prepaid_op_bytes s"
    "fs_has_refund t = fs_has_refund s" "fs_paced t = fs_paced s" "fs_has_ready t = fs_has_ready s"
    "fs_issued_read t = fs_issued_read s" "fs_timed_out t = fs_timed_out s"
    "unat (fs_remaining t) \<le> budget_of t" "readable t"
  shows "data_pre c 0 t"
proof -
  note p = assms(1) [unfolded data_pre_def]
  have b: "fs_bytes_read s = 0" "reads (fs_log s) = []" using p assms(2) by (simp_all add: span_ok_def)
  have "spent t = spent s" using p assms(6) unfolding spent_def assms(7,8,10) by simp
  then have "money_ok c 0 t" using p unfolding money_ok_def assms(10-15) by simp
  moreover have "reads_ok t" using p b(2) unfolding reads_ok_def assms(3,8,9) by simp
  moreover have "span_ok t" using assms(5,6,16,17) b(1) by (simp add: span_ok_def assms(7))
  ultimately show ?thesis using assms(6) by (simp add: data_pre_def)
qed

lemma OnStat_data:
  assumes "data_inv opts c h s" "ctl_inv h s" "0 < owed FnStat (fs_log s)" "rng_bounded G" "op_cap opts < 2 ^ 32"
  shows "data_inv opts c h (OnStat G env st fsize s)"
proof (cases "fs_completed s")
  case True
  then show ?thesis using late_data [OF assms(1) True] by (simp add: OnStat_def fs_view)
next
  case False
  have e: "data_pre c 0 (enter FnStat s)" "ctl_pre (enter FnStat s)" "h = NotReady" "\<not> fs_issued_read s"
      "\<not> fs_budget_set s" "fs_prepaid_op_bytes s = SessionOpBytes opts" "fs_opts s = opts"
    using enter_data [OF assms(1-3) _ False] assms(1) by (auto simp: data_inv_def)
  have idle: "idle (enter FnStat s)" using ctl_pre_idle [OF e(2)] by simp
  have b: "fs_bytes_read s = 0" "fs_requested s = 0" "reads (fs_log s) = []"
    using e(1) \<open>\<not> fs_budget_set s\<close> False assms(1) by (auto simp: data_pre_def span_ok_def enter_view enter_reads data_inv_def)
  let ?cap = "if 0 < fo_max_bytes opts then min fsize (fo_max_bytes opts) else fsize"
  have cap: "unat ?cap = (if 0 < fo_max_bytes opts then min (unat fsize) (unat (fo_max_bytes opts)) else unat fsize)"
    by (simp add: unat_min_word)
  consider "\<not> xs_ok st" | "xs_ok st" "fo_random_offset opts"
    | "xs_ok st" "\<not> fo_random_offset opts" "fsize \<le> fo_offset opts"
    | "xs_ok st" "\<not> fo_random_offset opts" "\<not> fsize \<le> fo_offset opts" by blast
  then show ?thesis
  proof cases
    case 1
    then have "OnStat G env st fsize s = ReleaseIfIdle (Fail env ''stat'' st (enter FnStat s))"
      using False by (simp add: OnStat_def Let_def enter_view)
    then show ?thesis using fail_data [OF e(1) idle, of opts "''stat''"] e(3,7) by (simp add: enter_view)
  next
    case 2
    define t where "t = (enter FnStat s) \<lparr> fs_file_size := fsize, fs_rng := rng_seed G (fo_offset_seed opts),
        fs_remaining := ?cap, fs_next_offset := 0, fs_budget_set := True \<rparr>"
    have o: "OnStat G env st fsize s = ReleaseIfIdle (IssueNext G env t)"
      using False 2 e(7) by (simp add: OnStat_def t_def Let_def enter_view)
    have pt: "data_pre c 0 t"
      by (rule set_budget_pre [OF e(1), of t fsize])
        (use 2(2) b e(5,7) cap in \<open>simp_all add: t_def enter_view budget_of_def readable_def\<close>)
    have ct: "ctl_pre t" using e(2) by (simp add: t_def ctl_pre_def)
    have "covered 0 t" using e(4,6,7) op_cap_session [of opts] by (simp add: covered_def t_def enter_view)
    then show ?thesis unfolding o e(3)
      using e(7) ct pt assms(4,5) by (intro issue_data [of G c 0]) (simp_all add: t_def enter_view)
  next
    case 3
    define t where "t = (enter FnStat s) \<lparr> fs_file_size := fsize, fs_result := fs_result (enter FnStat s)
        \<lparr> fr_error := ''offset '' @ nat_to_dec (unat (fo_offset opts)) @ '' is beyond file size ''
             @ nat_to_dec (unat fsize),
           fr_file_size := fsize, fr_data_server := fs_data_server (enter FnStat s),
           fr_open_hosts := fs_hops (enter FnStat s) \<rparr> \<rparr>"
    have o: "OnStat G env st fsize s = ReleaseIfIdle (Complete (RefundPrepaid t))"
      using False 3 e(7) by (simp add: OnStat_def t_def Let_def enter_view)
    have "money_ok c 0 t = money_ok c 0 (enter FnStat s)" by (simp add: money_ok_def spent_def t_def)
    then have "money_ok c 0 t" using e(1) by (simp add: data_pre_def)
    moreover have "span_ok t" using e(1,5) b by (simp add: data_pre_def span_ok_def t_def enter_view enter_reads)
    moreover have "reads_ok t" using e(1) b by (simp add: data_pre_def reads_ok_def t_def enter_view enter_reads)
    ultimately have pt: "data_pre c 0 t" using b by (simp add: data_pre_def t_def enter_view)
    show ?thesis unfolding o e(3)
      using idle e(7) by (intro abandon_data [OF pt]) (simp_all add: t_def idle_def enter_view)
  next
    case 4
    define t where "t = (enter FnStat s) \<lparr> fs_file_size := fsize, fs_remaining := min (fsize - fo_offset opts) ?cap,
        fs_next_offset := fo_offset opts, fs_budget_set := True \<rparr>"
    have o: "OnStat G env st fsize s = ReleaseIfIdle (IssueNext G env t)"
      using False 4 e(7) by (simp add: OnStat_def t_def Let_def enter_view)
    have le: "fo_offset opts \<le> fsize" "unat (fo_offset opts) \<le> unat fsize" using 4(3) by (simp_all add: word_le_nat_alt)
    have r: "unat (min (fsize - fo_offset opts) ?cap) = min (unat fsize - unat (fo_offset opts)) (unat ?cap)"
      by (simp only: unat_min_word unat_sub_u64 [OF le(1)])
    have "unat (fs_remaining t) \<le> unat fsize - unat (fo_offset opts)" unfolding t_def using r by simp
    then have q: "unat (fo_offset opts) + unat (fs_remaining t) \<le> unat fsize" "unat (fs_remaining t) \<le> unat fsize"
      using le(2) by linarith+
    have "fs_next_offset t = fo_offset opts" "fs_file_size t = fsize" by (simp_all add: t_def)
    then have rt: "readable t" unfolding readable_def using q by simp
    have "budget_of t = unat ?cap" unfolding cap using e(7) by (simp add: t_def enter_view budget_of_def)
    moreover have "unat (fs_remaining t) = min (unat fsize - unat (fo_offset opts)) (unat ?cap)"
      using r by (simp add: t_def)
    ultimately have bt: "unat (fs_remaining t) \<le> budget_of t" by linarith
    have pt: "data_pre c 0 t"
      by (rule set_budget_pre [OF e(1), of t fsize])
        (use b e(5,7) bt rt in \<open>simp_all add: t_def enter_view\<close>)
    have ct: "ctl_pre t" using e(2) by (simp add: t_def ctl_pre_def)
    have "covered 0 t" using e(4,6,7) op_cap_session [of opts] by (simp add: covered_def t_def enter_view)
    then show ?thesis unfolding o e(3)
      using e(7) ct pt assms(4,5) by (intro issue_data [of G c 0]) (simp_all add: t_def enter_view)
  qed
qed

lemma read_reads: "reads (fs_log (read_done env info s)) = reads (fs_log s)"
  by (simp add: read_done_def read_notify_def read_account_view Let_def fs_view)

lemma read_done_span:
  fixes env :: session_env
  assumes "span_ok s" "reads_ok s" "fs_budget_set s" "\<forall>n. info = Some n \<longrightarrow> n \<le> fs_requested s"
  defines "t \<equiv> read_done env info (enter FnRead s)" and "g \<equiv> got_bytes info (enter FnRead s)"
  shows "span_ok t" "reads_ok t" "g \<le> fs_requested s" "unat (fs_bytes_read t) = unat (fs_bytes_read s) + unat g"
proof -
  show g: "g \<le> fs_requested s" using assms(4) by (auto simp: g_def got_bytes_def enter_view split: option.split)
  have rr: "fs_requested s \<le> fs_remaining s"
      "unat (fs_bytes_read s) + unat (fs_remaining s) \<le> budget_of s" "readable s"
    using assms(1,3) by (simp_all add: span_ok_def)
  have gr: "unat g \<le> unat (fs_requested s)" "unat (fs_requested s) \<le> unat (fs_remaining s)"
    using g rr(1) by (simp_all add: word_le_nat_alt)
  have "budget_of s < 2 ^ 64" using unat_u64_less [of "fs_file_size s"] by (simp add: budget_of_def min_less_iff_disj)
  then show br: "unat (fs_bytes_read t) = unat (fs_bytes_read s) + unat g"
    unfolding t_def using rr(2) gr
    by (subst read_done_view) (simp only: enter_view g_def [symmetric], intro unat_add_u64, linarith)
  have rem: "unat (fs_remaining t) + unat g \<le> unat (fs_remaining s)"
    using gr by (auto simp: t_def g_def [symmetric] fs_view unat_sub_u64 word_le_nat_alt word_less_nat_alt)
  have b: "budget_of t = budget_of s" by (simp add: t_def budget_of_def fs_view)
  have n: "fo_random_offset (fs_opts s) \<or> unat (fs_next_offset t) \<le> unat (fs_next_offset s) + unat g"
    by (simp add: t_def g_def [symmetric] fs_view unat_word_ariths mod_less_eq_dividend)
  have "fs_opts t = fs_opts s" "fs_file_size t = fs_file_size s" by (simp_all add: t_def fs_view)
  then have "readable t" using rr(3) rem n by (auto simp: readable_def)
  moreover have "fs_requested t = 0" "fs_budget_set t" using assms(3) by (simp_all add: t_def fs_view)
  ultimately show "span_ok t" using br rem rr(2) b unfolding span_ok_def by simp
  show "reads_ok t" by (rule reads_frame [OF assms(2)]) (simp_all add: t_def fs_view read_reads enter_reads)
qed

lemma read_done_pre:
  assumes "data_inv opts c h s" "ctl_inv h s" "0 < owed FnRead (fs_log s)" "\<not> fs_completed s"
    "\<forall>n. info = Some n \<longrightarrow> n \<le> fs_requested s"
  shows "data_pre c 0 (read_done env info (enter FnRead s))"
proof -
  let ?t = "read_done env info (enter FnRead s)" and ?g = "got_bytes info (enter FnRead s)"
  note p = assms(1) [unfolded data_inv_def]
  have h: "h = NotReady" using take_token [OF assms(2,3) _ assms(4)] by simp
  have "fs_budget_set s" using p assms(3,4) by simp
  note d = read_done_span [OF _ _ this assms(5)]
  have d: "span_ok ?t" "reads_ok ?t" "?g \<le> fs_requested s" "unat (fs_bytes_read ?t) = unat (fs_bytes_read s) + unat ?g"
    using d p by blast+
  have gr: "unat ?g \<le> unat (fs_requested s)" using d(3) by (simp add: word_le_nat_alt)
  have rest: "unat (fs_requested s - ?g) = unat (fs_requested s) - unat ?g" using d(3) by (rule unat_sub_u64)
  have "refunded (fs_log ?t) = refunded (fs_log s) + (unat (fs_requested s) - unat ?g)"
    using p gr rest by (auto simp: fs_view money_ok_def word_less_nat_alt)
  then have sp: "spent ?t = spent s" unfolding spent_def d(4) using gr by (simp add: fs_view)
  then have "money_ok c 0 ?t" using p h by (simp add: money_ok_def paid_def fs_view)
  then show ?thesis using d by (simp add: data_pre_def fs_view)
qed

text \<open>A read that fails gives its whole size back.\<close>

lemma read_fail_data:
  assumes "data_inv opts c h s" "ctl_inv h s" "0 < owed FnRead (fs_log s)" "\<not> fs_completed s"
  shows "data_inv opts c NotReady (ReleaseIfIdle (Fail env
     (if 0 < fo_vector_chunks (fs_opts s) then ''vector_read'' else ''read'') st (enter FnRead s)))"
proof (rule data_doneI)
  let ?stage = "if 0 < fo_vector_chunks (fs_opts s) then ''vector_read'' else ''read''"
  let ?t = "ReleaseIfIdle (Fail env ?stage st (enter FnRead s))"
  note p = assms(1) [unfolded data_inv_def]
  have i: "fs_prepaid_op_bytes s = 0" "fs_opts s = opts" using p assms(3,4) by (simp_all add: money_ok_def)
  have t: "ctl_pre (enter FnRead s)" "h = NotReady" using take_token [OF assms(2,3) _ assms(4)] by simp_all
  have stage: "?stage = ''read'' \<or> ?stage = ''vector_read''" by simp
  show "fs_prepaid_op_bytes ?t = 0" using i(1) by (simp add: fs_view)
  show z: "fs_requested ?t = 0" by (simp add: fs_view)
  have "spent ?t = spent s" using p by (auto simp: spent_def i(1) z fs_view money_ok_def)
  then show "money_ok c 0 ?t" using p t(2) by (simp add: money_ok_def paid_def fs_view)
  show "span_ok ?t" by (rule span_frame [of s]) (use p in \<open>simp_all add: fs_view enter_reads\<close>)
  show "reads_ok ?t" by (rule reads_frame [of s]) (use p in \<open>simp_all add: fs_view enter_reads\<close>)
  show "idle ?t" using ctl_pre_idle [OF t(1)] by (simp add: idle_def fs_view)
  show "fs_opts ?t = opts" using i(2) by (simp add: fs_view)
qed

lemma OnRead_data:
  assumes "data_inv opts c h s" "ctl_inv h s" "0 < owed FnRead (fs_log s)"
    "\<forall>n. info = Some n \<longrightarrow> n \<le> fs_requested s" "s' = OnRead G env st info s" "rng_bounded G" "op_cap opts < 2 ^ 32"
  shows "data_inv opts c (if readies (fs_log s) < readies (fs_log s') then Queued else h) s'"
proof (cases "fs_completed s")
  case True
  then have "s' = ReleaseIfIdle (enter FnRead s)" by (simp add: assms(5) OnRead_def enter_view)
  then show ?thesis using late_data [OF assms(1) True] by (simp add: fs_view)
next
  case live: False
  note p = assms(1) [unfolded data_inv_def]
  have i: "fs_issued_read s" "fs_budget_set s" "fs_opts s = opts" using p assms(3) live by simp_all
  have t: "ctl_pre (enter FnRead s)" "h = NotReady" using take_token [OF assms(2,3) _ live] by simp_all
  show ?thesis
  proof (cases "xs_ok st")
    case False
    have n: "s' = ReleaseIfIdle (Fail env (if 0 < fo_vector_chunks (fs_opts s) then ''vector_read'' else ''read'')
        st (enter FnRead s))" using live False by (simp add: assms(5) OnRead_err)
    have "data_inv opts c NotReady s'" unfolding n using read_fail_data [OF assms(1-3) live] by blast
    moreover have "readies (fs_log s') = readies (fs_log s)" by (simp add: n fs_view)
    ultimately show ?thesis using t(2) by simp
  next
    case True
    let ?s = "read_done env info (enter FnRead s)"
    note pre = read_done_pre [OF assms(1-3) live assms(4), of env]
    have c: "ctl_pre ?s" using t(1) by (simp add: ctl_pre_def fs_view)
    have f: "fs_issued_read ?s" "fs_budget_set ?s" "fs_opts ?s = opts" "idle ?s"
      using i ctl_pre_idle [OF c] by (simp_all add: fs_view)
    show ?thesis
    proof (cases "0 < fs_remaining ?s")
      case rem: True
      have o: "s' = emit Ready (emit DisarmDeadline ?s)"
        using live True rem pre by (simp add: assms(5) OnRead_ok Let_def data_pre_def money_ok_def)
      have d: "data_pre c 0 s'" by (rule data_pre_frame [OF pre])
        (use pre in \<open>simp_all add: o data_pre_def emit_view measure_emit\<close>)
      have "\<not> fs_completed s'" "fs_close_requested s' \<longrightarrow> fs_timed_out s'" using c by (simp_all add: o ctl_pre_def emit_view)
      then have "settled s'" by (auto simp: settled_def)
      moreover have "owed FnOpen (fs_log s') = 0" "owed FnStat (fs_log s') = 0" "owed FnRead (fs_log s') = 0"
        using f(4) by (simp_all add: idle_def o emit_view measure_emit)
      moreover have "fs_issued_read s'" "fs_budget_set s'" "fs_opts s' = opts" using f by (simp_all add: o emit_view)
      ultimately have "data_inv opts c Queued s'" using d
        unfolding data_inv_def data_pre_def paid_def by simp
      moreover have "readies (fs_log s') = readies (fs_log s) + 1" by (simp add: o fs_view)
      ultimately show ?thesis by simp
    next
      case rem: False
      then have z: "fs_remaining ?s = 0" by (simp add: word_gt_0)
      have o: "s' = ReleaseIfIdle (IssueNext G env ?s)"
        using live True rem by (simp add: assms(5) OnRead_ok Let_def)
      have "covered 0 ?s" using f(1) z by (simp add: covered_def)
      then have "data_inv opts c NotReady s'" unfolding o
        using f c pre assms(6,7) by (intro issue_data [of G c 0]) simp_all
      moreover have "readies (fs_log s') = readies (fs_log s)" by (simp add: o fs_view)
      ultimately show ?thesis using t(2) by simp
    qed
  qed
qed

text \<open>A step that leaves the accounts alone.\<close>

lemma data_frame:
  assumes "data_inv opts c h s" "settled t" "fs_timed_out s \<Longrightarrow> fs_timed_out t"
    "fs_completed t \<or> \<not> fs_completed s \<and> owed FnOpen (fs_log t) = owed FnOpen (fs_log s)
       \<and> owed FnStat (fs_log t) = owed FnStat (fs_log s) \<and> owed FnRead (fs_log t) = owed FnRead (fs_log s)"
    "fs_requested t = fs_requested s" "fs_remaining t = fs_remaining s" "fs_budget_set t = fs_budget_set s"
    "fs_bytes_read t = fs_bytes_read s" "fs_opts t = fs_opts s" "fs_file_size t = fs_file_size s"
    "fs_next_offset t = fs_next_offset s" "reads (fs_log t) = reads (fs_log s)" "fs_buffer t = fs_buffer s"
    "refunded (fs_log t) = refunded (fs_log s)" "fs_prepaid_op_bytes t = fs_prepaid_op_bytes s"
    "fs_has_refund t = fs_has_refund s" "fs_paced t = fs_paced s" "fs_has_ready t = fs_has_ready s"
    "fs_issued_read t = fs_issued_read s"
  shows "data_inv opts c h t"
proof -
  note p = assms(1) [unfolded data_inv_def]
  have "spent t = spent s" unfolding spent_def assms(5,8,14,15) by (rule refl)
  then have "money_ok c (paid h) t" using p assms(3) unfolding money_ok_def assms(15-19) by auto
  moreover have "span_ok t"
  proof -
    have "budget_of t = budget_of s" "readable t = readable s"
      unfolding budget_of_def readable_def assms(6,9-11) by (rule refl)+
    then show ?thesis using p unfolding span_ok_def assms(5-8,12) by simp
  qed
  moreover have "reads_ok s" using p by blast
  then have "reads_ok t" unfolding reads_ok_def assms(9,10,12,13) .
  ultimately show ?thesis using p assms(2,4) unfolding data_inv_def assms(5-7,9,15,19) by auto
qed

lemma OnClose_data:
  assumes "data_inv opts c h s" "ctl_inv h s" "0 < owed FnClose (fs_log s)"
  shows "data_inv opts c h (OnClose env st s)"
proof (cases "fs_completed s")
  case True
  then show ?thesis using late_data [OF assms(1) True] by (simp add: OnClose_def fs_view)
next
  case False
  let ?t = "OnClose env st s"
  have "owed FnClose (fs_log s) = 1" using ctl_owed(4,5) [OF assms(2)] assms(3) by linarith
  then have q: "fs_close_requested s" using assms(2) False by (simp add: ctl_inv_def)
  have z: "fs_requested s = 0 \<and> fs_prepaid_op_bytes s = 0" if "\<not> fs_timed_out s"
    using assms(1) q that by (simp add: data_inv_def settled_def)
  have d: "fs_completed ?t" using False by (auto simp: OnClose_def Let_def fs_view)
  have fields: "fs_requested ?t = fs_requested s" "fs_remaining ?t = fs_remaining s" "fs_budget_set ?t = fs_budget_set s"
    "fs_bytes_read ?t = fs_bytes_read s" "fs_opts ?t = fs_opts s" "fs_file_size ?t = fs_file_size s"
    "fs_next_offset ?t = fs_next_offset s" "reads (fs_log ?t) = reads (fs_log s)" "fs_buffer ?t = fs_buffer s"
    "refunded (fs_log ?t) = refunded (fs_log s)" "fs_prepaid_op_bytes ?t = fs_prepaid_op_bytes s"
    "fs_has_refund ?t = fs_has_refund s" "fs_paced ?t = fs_paced s" "fs_has_ready ?t = fs_has_ready s"
    "fs_issued_read ?t = fs_issued_read s" "fs_timed_out ?t = fs_timed_out s"
    using False z by (simp_all add: OnClose_def Let_def fs_view enter_reads)
  show ?thesis using d z fields by (intro data_frame [OF assms(1)]) (simp_all add: settled_def)
qed

lemma RequestWallTimeout_data:
  assumes "data_inv opts c h s" "ctl_inv h s"
  shows "data_inv opts c h (RequestWallTimeout env s)"
proof (cases "fs_completed s \<or> fs_close_requested s")
  case False
  let ?t = "RequestWallTimeout env s"
  have fields: "fs_requested ?t = fs_requested s" "fs_remaining ?t = fs_remaining s" "fs_budget_set ?t = fs_budget_set s"
    "fs_bytes_read ?t = fs_bytes_read s" "fs_opts ?t = fs_opts s" "fs_file_size ?t = fs_file_size s"
    "fs_next_offset ?t = fs_next_offset s" "reads (fs_log ?t) = reads (fs_log s)" "fs_buffer ?t = fs_buffer s"
    "refunded (fs_log ?t) = refunded (fs_log s)" "fs_prepaid_op_bytes ?t = fs_prepaid_op_bytes s"
    "fs_has_refund ?t = fs_has_refund s" "fs_paced ?t = fs_paced s" "fs_has_ready ?t = fs_has_ready s"
    "fs_issued_read ?t = fs_issued_read s" "fs_timed_out ?t"
    "owed FnOpen (fs_log ?t) = owed FnOpen (fs_log s)" "owed FnStat (fs_log ?t) = owed FnStat (fs_log s)"
    "owed FnRead (fs_log ?t) = owed FnRead (fs_log s)"
    using False by (simp_all add: RequestWallTimeout_def fs_view)
  show ?thesis using False fields by (intro data_frame [OF assms(1)]) (simp_all add: settled_def)
qed (use assms in \<open>auto simp: RequestWallTimeout_def\<close>)

text \<open>What the engine does with a session in its hands.\<close>

lemma hand_facts:
  assumes "data_inv opts c h s" "ctl_inv h s" "h \<noteq> NotReady"
  shows "fs_completed s \<Longrightarrow> fs_timed_out s" "\<not> fs_completed s \<Longrightarrow> ctl_pre s \<and> data_pre c (paid h) s"
    "fs_issued_read s" "fs_budget_set s" "fs_opts s = opts" "fs_prepaid_op_bytes s = 0"
proof -
  note p = assms(1) [unfolded data_inv_def]
  have o: "owed FnRead (fs_log s) = 0" "1 \<le> ctl_token h s"
    using ctl_owed [OF assms(2)] assms(3) by (simp_all add: ctl_token_def in_hand_def)
  then show "fs_completed s \<Longrightarrow> fs_timed_out s" using assms(2) by (auto simp: ctl_inv_def)
  show i: "fs_issued_read s" "fs_budget_set s" "fs_opts s = opts" using p assms(3) by simp_all
  then show "fs_prepaid_op_bytes s = 0" using p by (simp add: money_ok_def)
  have "\<not> fs_completed s \<Longrightarrow> fs_requested s = 0" using p o(1) by auto
  then show "\<not> fs_completed s \<Longrightarrow> ctl_pre s \<and> data_pre c (paid h) s"
    using p take_hand [OF assms(2,3)] by (simp add: data_pre_def)
qed

lemma release_data:
  assumes "data_inv opts c h s" "ctl_inv h s" "fs_completed s" "h \<noteq> NotReady"
  shows "data_inv opts c NotReady (ReleaseIfIdle s)"
proof -
  have "data_inv opts c h (ReleaseIfIdle s)"
    using assms(1,3) by (intro data_frame [OF assms(1)]) (simp_all add: data_inv_def settled_def fs_view)
  moreover have "fs_timed_out s" by (rule hand_facts(1) [OF assms(1,2,4,3)])
  ultimately show ?thesis using assms(3) unfolding data_inv_def money_ok_def by (simp add: paid_def fs_view)
qed

lemma IssueNextFromEngine_data:
  assumes "data_inv opts c (Paid n) s" "ctl_inv (Paid n) s" "rng_bounded G" "op_cap opts < 2 ^ 32"
  shows "data_inv opts c NotReady (IssueNextFromEngine G env s)"
proof (cases "fs_completed s")
  case True
  then show ?thesis using release_data [OF assms(1,2) True] by (simp add: IssueNextFromEngine_def)
next
  case False
  note f = hand_facts [OF assms(1,2)]
  have n: "unat n = min (op_cap opts) (unat (fs_remaining s))" using assms(1) by (simp add: data_inv_def)
  have "covered (unat n) s" using f(3,5) n by (simp add: covered_def)
  then have "data_inv opts c NotReady (ReleaseIfIdle (IssueNext G env s))"
    using f False n assms(3,4) by (intro issue_data [of G c "unat n"]) (simp_all add: paid_def)
  then show ?thesis using False by (simp add: IssueNextFromEngine_def)
qed

lemma CloseNow_data:
  assumes "data_inv opts c Queued s" "ctl_inv Queued s"
  shows "data_inv opts c NotReady (CloseNow env s)"
proof (cases "fs_completed s")
  case True
  then show ?thesis using release_data [OF assms True] by (simp add: CloseNow_def)
next
  case False
  note f = hand_facts [OF assms]
  have "data_pre c 0 s" "idle s" using f(2) False ctl_pre_idle [of s] by (simp_all add: paid_def)
  then have "data_inv opts c NotReady (ReleaseIfIdle (SubmitClose env (s \<lparr> fs_remaining := 0 \<rparr>)))"
    using f(5,6) by (intro close_data [OF drop_remaining_pre(2)]) (simp_all add: idle_def)
  then show ?thesis using False by (simp add: CloseNow_def)
qed

lemma pay_data:
  assumes "data_inv opts c Queued s" "op_cap opts < 2 ^ 32" "NextOpBytes s = n"
  shows "data_inv opts (c + unat n) (Paid n) s"
proof -
  note p = assms(1) [unfolded data_inv_def]
  have "unat n = min (op_cap opts) (unat (fs_remaining s))"
    using NextOpBytes_fits [of s] p assms(2,3) by simp
  then show ?thesis using p unfolding data_inv_def money_ok_def by (auto simp: paid_def)
qed

lemma start_data:
  assumes "prepaid = SessionOpBytes opts" "op_cap opts < 2 ^ 32"
  shows "data_inv opts (unat prepaid) NotReady (fs_Start env (new_FileSession G opts True True prepaid True True True))"
proof -
  let ?n = "new_FileSession G opts True True prepaid True True True"
  have b: "unat (OpBytes opts) = op_cap opts" by (rule OpBytes_fits [OF assms(2)])
  define t where "t = emit (Submit (OpOpen (fo_url opts)) (xs_ok (ev_submit env)))
     ((ArmOpDeadline (?n \<lparr> fs_self_keep := True, fs_buffer := unat (OpBytes opts), fs_t_start := ev_clock env AtEntry \<rparr>))
        \<lparr> fs_pending_cbs := 1 \<rparr>)"
  have f: "fs_opts t = opts" "fs_requested t = 0" "fs_remaining t = 0" "\<not> fs_budget_set t" "fs_bytes_read t = 0"
     "fs_buffer t = op_cap opts" "refunded (fs_log t) = 0" "fs_prepaid_op_bytes t = prepaid" "fs_has_refund t"
     "fs_paced t" "fs_has_ready t" "\<not> fs_issued_read t" "\<not> fs_timed_out t" "\<not> fs_completed t"
     "\<not> fs_close_requested t" "reads (fs_log t) = []"
     "owed FnOpen (fs_log t) = (if xs_ok (ev_submit env) then 1 else 0)" "owed FnStat (fs_log t) = 0" "owed FnRead (fs_log t) = 0"
    by (simp_all add: t_def new_FileSession_def fs_view b)
  have pre: "data_pre (unat prepaid) 0 t"
    using f by (simp add: data_pre_def money_ok_def spent_def span_ok_def reads_ok_def)
  show ?thesis
  proof (cases "xs_ok (ev_submit env)")
    case True
    then have "fs_Start env ?n = t" by (simp add: fs_Start_def t_def Let_def new_FileSession_def emit_def ArmOpDeadline_def)
    moreover have "data_inv opts (unat prepaid) NotReady t"
      using pre f True assms(1) by (simp add: data_inv_def data_pre_def settled_def paid_def)
    ultimately show ?thesis by simp
  next
    case False
    define u where "u = set_error (''open submission failed: '' @ xs_text (ev_submit env)) (xs_code (ev_submit env))
      (xs_errno (ev_submit env)) (t \<lparr> fs_pending_cbs := 0 \<rparr>)"
    have "fs_Start env ?n = ReleaseIfIdle (Complete (RefundPrepaid u))"
      using False by (simp add: fs_Start_def t_def u_def Let_def new_FileSession_def emit_def ArmOpDeadline_def)
    moreover have "data_pre (unat prepaid) 0 u" by (rule data_pre_frame [OF pre]) (simp_all add: u_def f fs_view)
    then have "data_inv opts (unat prepaid) NotReady (ReleaseIfIdle (Complete (RefundPrepaid u)))"
      using f False by (intro abandon_data) (simp_all add: u_def idle_def fs_view)
    ultimately show ?thesis by simp
  qed
qed

lemma session_step_data:
  assumes "session_step G y y'" "ctl_inv (ss_hand y) (ss_fs y)" "data_inv opts (ss_charged y) (ss_hand y) (ss_fs y)"
    "rng_bounded G" "op_cap opts < 2 ^ 32"
  shows "data_inv opts (ss_charged y') (ss_hand y') (ss_fs y')"
  using assms
proof (induction rule: session_step.induct)
  case (cb_read y info s' env st)
  then show ?case using OnRead_data [OF cb_read.prems(2,1) cb_read.hyps(1) _ cb_read.hyps(3)] by simp
next
  case (drop_done y)
  then have "fs_timed_out (ss_fs y)" using hand_facts(1) [OF drop_done.prems(2,1)] by simp
  then show ?case using drop_done unfolding data_inv_def money_ok_def by (simp add: paid_def)
next
  case (issue y n env)
  then show ?case using IssueNextFromEngine_data [of opts "ss_charged y" n "ss_fs y"] by simp
qed (simp_all add: OnOpen_data OnStat_data OnClose_data RequestWallTimeout_data CloseNow_data pay_data)

lemma reach_data:
  assumes "session_reach G opts True prepaid y" "prepaid = SessionOpBytes opts" "rng_bounded G" "op_cap opts < 2 ^ 32"
  shows "data_inv opts (ss_charged y) (ss_hand y) (ss_fs y)"
  using assms(1)
proof (induction rule: session_reach.induct)
  case (start env)
  then show ?case using start_data [OF assms(2,4)] by (simp add: session_start_def)
next
  case (step y y')
  then show ?case using session_step_data [OF step(2) reach_ctl [OF step(1)] step(3) assms(3,4)] by simp
qed

section \<open>What the engine and the server may rely on\<close>

lemma demo_fits: "op_cap demo_opts < 2 ^ 32" "SessionOpBytes demo_opts = 100"
  by (simp_all add: demo_opts_def op_cap_def default_FileSessionOptions_def SessionOpBytes_def)

text \<open>C11. Tokens are conserved, for operations below 4 GiB (chunk size times chunks, \<open>op_cap\<close>): what a session has read and
  given back never exceeds what it was charged, and a session that completes without a wall timeout has given back every
  byte it did not read. From 4 GiB on the size of an operation wraps in the code, and continuation reads are charged the
  wrapped size (\<open>buffer_wraps\<close>).\<close>

theorem session_tokens:
  assumes "session_reach G opts True prepaid y" "prepaid = SessionOpBytes opts" "rng_bounded G" "op_cap opts < 2 ^ 32"
  shows "let s = ss_fs y; used = unat (fs_bytes_read s) + refunded (fs_log s) in
    if fs_completed s \<and> \<not> fs_timed_out s then used = ss_charged y else used \<le> ss_charged y"
proof -
  note d = reach_data [OF assms] and c = reach_ctl [OF assms(1)]
  have m: "money_ok (ss_charged y) (paid (ss_hand y)) (ss_fs y)" using d by (simp add: data_inv_def)
  have "spent (ss_fs y) = ss_charged y \<and> fs_requested (ss_fs y) = 0 \<and> fs_prepaid_op_bytes (ss_fs y) = 0"
    if f: "fs_completed (ss_fs y)" "\<not> fs_timed_out (ss_fs y)"
  proof -
    have "ss_hand y = NotReady" using hand_facts(1) [OF d c] f by blast
    then show ?thesis using d m f by (simp add: data_inv_def settled_def money_ok_def paid_def)
  qed
  then show ?thesis using m by (auto simp: Let_def money_ok_def spent_def)
qed

lemma session_tokens_witness:
  "unat (fs_bytes_read (ss_fs demo_session)) + refunded (fs_log (ss_fs demo_session)) \<le> ss_charged demo_session"
  using session_tokens [OF demo_reach demo_fits(2) [symmetric] counter_rng_bounded demo_fits(1)] demo_open(1)
  by (simp add: Let_def)

text \<open>Where the product of chunk size and count wraps, the buffer is smaller than the read: here it is
  empty, and the read is of two gigabyte chunks.\<close>

definition wrap_opts :: FileSessionOptions where
  "wrap_opts = default_FileSessionOptions \<lparr> fo_chunk_size := 0x80000000, fo_vector_chunks := 2 \<rparr>"

lemma buffer_wraps: "OpBytes wrap_opts = 0 \<and> op_cap wrap_opts = 2 ^ 32 \<and> SessionOpBytes wrap_opts = 2 ^ 32"
  by (simp add: wrap_opts_def OpBytes_def op_cap_def SessionOpBytes_def default_FileSessionOptions_def)

text \<open>A wall timeout can cost tokens: here it fires while the open is in flight, XrdCl rejects the close,
  the open's handler closes the file, and the prepayment is neither used nor given back.\<close>

definition reject_env :: session_env where
  "reject_env = demo_env \<lparr> ev_submit := (ev_submit demo_env) \<lparr> xs_ok := False \<rparr> \<rparr>"

definition leak_run :: "u64 session_sys" where
  "leak_run = demo_session \<lparr> ss_fs :=
     OnClose demo_env (ev_submit demo_env) (OnOpen demo_env (ev_submit demo_env) None ''ds''
       (RequestWallTimeout reject_env (ss_fs demo_session))) \<rparr>"

lemma leak_run_state: "fs_completed (ss_fs leak_run) \<and> fs_bytes_read (ss_fs leak_run) = 0
    \<and> refunded (fs_log (ss_fs leak_run)) = 0 \<and> ss_charged leak_run = 100
    \<and> owed FnOpen (fs_log (RequestWallTimeout reject_env (ss_fs demo_session))) = 1
    \<and> owed FnClose (fs_log (OnOpen demo_env (ev_submit demo_env) None ''ds''
       (RequestWallTimeout reject_env (ss_fs demo_session)))) = 1"
  by code_simp

lemma timeout_leaks_tokens:
  "\<exists>y. session_reach counter_rng demo_opts True 100 y \<and> fs_completed (ss_fs y)
     \<and> unat (fs_bytes_read (ss_fs y)) + refunded (fs_log (ss_fs y)) = 0 \<and> ss_charged y = 100"
proof (intro exI conjI)
  let ?y1 = "demo_session \<lparr> ss_fs := RequestWallTimeout reject_env (ss_fs demo_session) \<rparr>"
  let ?y2 = "?y1 \<lparr> ss_fs := OnOpen demo_env (ev_submit demo_env) None ''ds'' (ss_fs ?y1) \<rparr>"
  have 1: "session_reach counter_rng demo_opts True 100 ?y1"
    by (rule session_reach.step [OF demo_reach session_step.timeout])
  have 2: "session_reach counter_rng demo_opts True 100 ?y2"
    by (rule session_reach.step [OF 1 session_step.cb_open]) (simp add: leak_run_state)
  have "session_reach counter_rng demo_opts True 100
      (?y2 \<lparr> ss_fs := OnClose demo_env (ev_submit demo_env) (ss_fs ?y2) \<rparr>)"
    by (rule session_reach.step [OF 2 session_step.cb_close]) (simp add: leak_run_state)
  then show "session_reach counter_rng demo_opts True 100 leak_run" by (simp add: leak_run_def)
qed (simp_all add: leak_run_state)

end
