(* ===== verification/SessionResults.thy ===== *)
theory SessionResults
  imports SessionProtocol
begin

text \<open>
  The result a session reports: exactly one, made by the call that completes it, and good or bad as a
  whole. The invariant needs nothing of the environment: each call keeps it.
\<close>

definition res_inv :: "'r FileSession \<Rightarrow> bool" where
  "res_inv s \<longleftrightarrow> fs_on_done s = (\<not> fs_completed s)
     \<and> results (fs_log s) = (if fs_completed s then [fs_result s] else [])
     \<and> fr_ok (fs_result s) = (fs_completed s \<and> fr_error (fs_result s) = [])
     \<and> (\<not> fs_completed s \<longrightarrow> fr_error (fs_result s) = [])
     \<and> (fr_ok (fs_result s) \<longrightarrow> fr_bytes_read (fs_result s) = fs_bytes_read s \<and> \<not> fs_timed_out s)"

text \<open>Calls that leave the result and the log's results alone.\<close>

lemma res_frame:
  assumes "res_inv s" "fs_on_done t = fs_on_done s" "fs_completed t = fs_completed s"
    "results (fs_log t) = results (fs_log s)" "fs_result t = fs_result s" "fs_bytes_read t = fs_bytes_read s"
    "fs_timed_out t = fs_timed_out s"
  shows "res_inv t"
  using assms(1) unfolding res_inv_def assms(2-7) .

text \<open>A session that is not completed keeps the invariant whatever happens to its counters.\<close>

lemma res_open_frame:
  assumes "res_inv s" "\<not> fs_completed s" "fs_on_done t = fs_on_done s" "\<not> fs_completed t"
    "results (fs_log t) = results (fs_log s)" "fr_ok (fs_result t) = fr_ok (fs_result s)"
    "fr_error (fs_result t) = fr_error (fs_result s)"
  shows "res_inv t"
  using assms by (simp add: res_inv_def)

lemma res_fail:
  assumes "res_inv s" "\<not> fs_completed s" "fs_on_done t" "\<not> fs_completed t"
    "results (fs_log t) = results (fs_log s)" "fr_ok (fs_result t) = fr_ok (fs_result s)" "fr_error (fs_result t) \<noteq> []"
  shows "res_inv (Complete t)"
  using assms by (simp add: res_inv_def fs_view)

lemma res_good:
  assumes "res_inv s" "\<not> fs_completed s" "fs_on_done t" "\<not> fs_completed t"
    "results (fs_log t) = results (fs_log s)" "fr_ok (fs_result t)" "fr_error (fs_result t) = fr_error (fs_result s)"
    "fr_bytes_read (fs_result t) = fs_bytes_read t" "\<not> fs_timed_out t"
  shows "res_inv (Complete t)"
  using assms by (simp add: res_inv_def fs_view)

lemma res_release: "res_inv s \<Longrightarrow> res_inv (ReleaseIfIdle s)"
  by (rule res_frame) (simp_all add: fs_view)

lemma enter_results: "results (fs_log (enter f s)) = results (fs_log s)" "fs_result (enter f s) = fs_result s"
  by (simp_all add: enter_def fs_view)

lemma res_enter: "res_inv s \<Longrightarrow> res_inv (enter f s)"
  by (rule res_frame) (simp_all add: enter_view enter_results)

lemma res_SubmitClose:
  assumes "res_inv s" "\<not> fs_completed s" shows "res_inv (SubmitClose env s)"
proof -
  have d: "fs_on_done s" using assms by (simp add: res_inv_def)
  define t where "t = emit (Submit OpClose (xs_ok (ev_submit env)))
      (ArmOpDeadline (s \<lparr> fs_close_requested := True, fs_pending_cbs := fs_pending_cbs s + 1 \<rparr>))"
  have t: "res_inv t" by (rule res_open_frame [OF assms]) (use d assms in \<open>simp_all add: t_def fs_view\<close>)
  have t': "fs_on_done t" "\<not> fs_completed t" using d assms by (simp_all add: t_def fs_view)
  have f: "res_inv (Complete (set_error e c n u))" if "u = CapturePartialCounters env (t \<lparr> fs_pending_cbs := k \<rparr>)
      \<or> u = (let v = CapturePartialCounters env (t \<lparr> fs_pending_cbs := k \<rparr>) in v \<lparr> fs_result := fs_result v \<lparr> fr_timed_out := True \<rparr> \<rparr>)"
      "e \<noteq> []" for e c n u k
    by (rule res_fail [OF t t'(2)]) (use that t' in \<open>auto simp: Let_def fs_view\<close>)
  have r: "res_inv (t \<lparr> fs_pending_cbs := k, fs_close_requested := False \<rparr>)" for k
    by (rule res_open_frame [OF t t'(2)]) (use t' in simp_all)
  consider "fs_close_requested s" | "\<not> fs_close_requested s" "xs_ok (ev_submit env)"
    | "\<not> fs_close_requested s" "\<not> xs_ok (ev_submit env)" by blast
  then show ?thesis
  proof cases
    case 1
    then show ?thesis using assms(1) by (simp add: SubmitClose_def)
  next
    case 2
    then show ?thesis using t by (simp add: SubmitClose_def Let_def t_def)
  next
    case 3
    define v where "v = t \<lparr> fs_pending_cbs := fs_pending_cbs t - 1 \<rparr>"
    define u where "u = CapturePartialCounters env v"
    let ?st = "ev_submit env"
    have "SubmitClose env s = (if 0 < fs_pending_cbs v then v \<lparr> fs_close_requested := False \<rparr>
        else Complete (if fs_timed_out u
          then set_error ''session wall timeout'' (xs_code ?st) 110 (u \<lparr> fs_result := fs_result u \<lparr> fr_timed_out := True \<rparr> \<rparr>)
          else set_error (''close submission failed: '' @ xs_text ?st) (xs_code ?st) (xs_errno ?st) u))"
      using 3 by (simp add: SubmitClose_def Let_def t_def v_def u_def)
    moreover have "res_inv (v \<lparr> fs_close_requested := False \<rparr>)" unfolding v_def using r by simp
    moreover have "res_inv (Complete (set_error ''session wall timeout'' (xs_code ?st) 110
        (u \<lparr> fs_result := fs_result u \<lparr> fr_timed_out := True \<rparr> \<rparr>)))"
      unfolding u_def v_def by (rule f [where k = "fs_pending_cbs t - 1"]) (simp_all add: Let_def)
    moreover have "res_inv (Complete (set_error (''close submission failed: '' @ xs_text ?st) (xs_code ?st) (xs_errno ?st) u))"
      unfolding u_def v_def by (rule f [where k = "fs_pending_cbs t - 1"]) simp_all
    ultimately show ?thesis by presburger
  qed
qed

lemma res_Fail:
  assumes "res_inv s" "\<not> fs_completed s" shows "res_inv (Fail env stage st s)"
proof -
  have d: "fs_on_done s" using assms by (simp add: res_inv_def)
  show ?thesis unfolding Fail_def Let_def
    by (rule res_fail [OF assms]) (use d assms in \<open>auto simp: fs_view RefundPrepaid_def\<close>)
qed

lemma result_view:
  "fs_result (RefundPrepaid s) = fs_result s" "fs_result (RefundBytes n s) = fs_result s"
  by (simp_all add: fs_view)

lemma res_IssueNext:
  assumes "res_inv s" shows "res_inv (IssueNext G env s)"
proof (cases "fs_completed s")
  case False
  have d: "fs_on_done s" using assms False by (simp add: res_inv_def)
  show ?thesis
  proof (cases "fs_timed_out s \<or> fs_remaining s = 0")
    case True
    have "res_inv (RefundPrepaid (s \<lparr> fs_remaining := 0, fs_t_last_byte := ev_clock env AtLastByte \<rparr>))"
      by (rule res_open_frame [OF assms False]) (use d False in \<open>simp_all add: fs_view\<close>)
    then show ?thesis using True False by (simp add: IssueNext_close res_SubmitClose fs_view)
  next
    case go: False
    have i: "res_inv (issued G env s)"
      by (rule res_open_frame [OF assms False]) (use d False in \<open>simp_all add: issued_view issued_reads\<close>)
    have "res_inv (Complete u)" if "u = (let st = ev_submit env; t = issued G env s;
        t = CapturePartialCounters env (t \<lparr> fs_pending_cbs := fs_pending_cbs t - 1 \<rparr>);
        t = set_error (''read submission failed: '' @ xs_text st) (xs_code st) (xs_errno st) t
      in (RefundBytes (fs_requested t) t) \<lparr> fs_requested := 0 \<rparr>)" for u
      by (rule res_fail [OF assms False])
        (use d False that in \<open>simp_all add: issued_view issued_reads fs_view Let_def\<close>)
    then show ?thesis using i go False by (simp add: IssueNext_read Let_def)
  qed
qed (use assms in \<open>simp add: IssueNext_def\<close>)

section \<open>One lemma per call\<close>

lemma OnOpen_res:
  assumes "res_inv s" shows "res_inv (OnOpen env st hosts server s)"
proof (cases "fs_completed s")
  case True
  then show ?thesis using assms by (simp add: OnOpen_def enter_view res_release res_enter)
next
  case False
  define t where "t = (enter FnOpen s) \<lparr> fs_t_open := ev_clock env AtEntry,
      fs_hops := (case hosts of Some n \<Rightarrow> n | None \<Rightarrow> fs_hops (enter FnOpen s)) \<rparr>"
  define u where "u = t \<lparr> fs_data_server := server \<rparr>"
  define w where "w = (\<lambda>b. emit (Submit OpStat b) (ArmOpDeadline (u \<lparr> fs_pending_cbs := fs_pending_cbs u + 1 \<rparr>)))"
  have d: "fs_on_done s" using assms False by (simp add: res_inv_def)
  have t: "res_inv t" "\<not> fs_completed t" by (rule res_open_frame [OF assms False])
    (use False in \<open>simp_all add: t_def enter_view enter_results\<close>)
  have u: "res_inv u" "\<not> fs_completed u" by (rule res_open_frame [OF t]) (use t in \<open>simp_all add: u_def\<close>)
  have w: "res_inv (w b)" "\<not> fs_completed (w b)" for b
    by (rule res_open_frame [OF u]) (use u in \<open>simp_all add: w_def fs_view\<close>)
  have c: "res_inv (Complete (RefundPrepaid (set_error (''stat submission failed: '' @ e) c n (w b \<lparr> fs_pending_cbs := k \<rparr>))))"
    for e c n b k
    by (rule res_fail [OF w(1,2)]) (use d w(2) in \<open>simp_all add: fs_view w_def u_def t_def enter_view\<close>)
  show ?thesis using False t u w(1) [of True, unfolded w_def] c [where b = False, unfolded w_def]
    by (simp add: OnOpen_def Let_def enter_view t_def [symmetric] u_def [symmetric]
        res_release res_Fail res_SubmitClose)
qed

lemma OnStat_res:
  assumes "res_inv s" shows "res_inv (OnStat G env st fsize s)"
proof (cases "fs_completed s")
  case True
  then show ?thesis using assms by (simp add: OnStat_def enter_view res_release res_enter)
next
  case False
  have d: "fs_on_done s" using assms False by (simp add: res_inv_def)
  note e = res_enter [OF assms, of FnStat]
  have e': "\<not> fs_completed (enter FnStat s)" using False by (simp add: enter_view)
  have r: "res_inv ((enter FnStat s) \<lparr> fs_file_size := a, fs_rng := b, fs_remaining := c, fs_next_offset := x, fs_budget_set := True \<rparr>)"
    "res_inv ((enter FnStat s) \<lparr> fs_file_size := a, fs_remaining := c, fs_next_offset := x, fs_budget_set := True \<rparr>)"
    for a b c x by (rule res_open_frame [OF e e'], use e' in simp_all)+
  have "res_inv (Complete (RefundPrepaid ((enter FnStat s) \<lparr> fs_file_size := a, fs_result := fs_result (enter FnStat s)
      \<lparr> fr_error := ''offset '' @ m, fr_file_size := a, fr_data_server := b, fr_open_hosts := c \<rparr> \<rparr>)))" for a b c m
    by (rule res_fail [OF e e']) (use d e' in \<open>simp_all add: fs_view enter_view enter_results\<close>)
  then show ?thesis using False e r e'
    by (simp add: OnStat_def Let_def enter_view res_release res_Fail res_IssueNext)
qed

lemma OnRead_res:
  assumes "res_inv s" shows "res_inv (OnRead G env st info s)"
proof (cases "fs_completed s")
  case True
  then show ?thesis using assms by (simp add: OnRead_def enter_view res_release res_enter)
next
  case False
  note e = res_enter [OF assms, of FnRead]
  have e': "\<not> fs_completed (enter FnRead s)" using False by (simp add: enter_view)
  let ?t = "read_done env info (enter FnRead s)"
  have l: "results (fs_log ?t) = results (fs_log (enter FnRead s))"
    by (simp add: read_done_def read_notify_def read_account_view Let_def fs_view)
  have t: "res_inv ?t" by (rule res_open_frame [OF e e']) (use e' l in \<open>simp_all add: read_done_view\<close>)
  have "res_inv (emit Ready (emit DisarmDeadline ?t))"
    by (rule res_frame [OF t]) (simp_all add: emit_view measure_emit)
  then show ?thesis using False e e' t
    by (cases "xs_ok st") (simp_all add: OnRead_ok OnRead_err Let_def res_release res_Fail res_IssueNext)
qed

lemma OnClose_res:
  assumes "res_inv s" shows "res_inv (OnClose env st s)"
proof (cases "fs_completed s")
  case True
  then show ?thesis using assms by (simp add: OnClose_def enter_view res_release res_enter)
next
  case False
  have d: "fs_on_done s" using assms False by (simp add: res_inv_def)
  define t where "t = (enter FnClose s) \<lparr> fs_t_end := ev_clock env AtEntry \<rparr>"
  have t: "res_inv t" "\<not> fs_completed t" "fs_on_done t" by (rule res_open_frame [OF assms False])
    (use False d in \<open>simp_all add: t_def enter_view enter_results\<close>)
  define u where "u = CapturePartialCounters env t"
  have "res_inv (Complete (set_error ''session wall timeout'' c n (u \<lparr> fs_result := fs_result u \<lparr> fr_timed_out := True \<rparr> \<rparr>)))"
    for c n by (rule res_fail [OF t(1,2)]) (use t(2,3) in \<open>simp_all add: fs_view u_def\<close>)
  moreover have "res_inv (FinishOk t)" if "\<not> fs_timed_out t"
    unfolding FinishOk_def Let_def by (rule res_good [OF t(1,2)]) (use t that in simp_all)
  ultimately show ?thesis using False t
    by (simp add: OnClose_def Let_def enter_view t_def [symmetric] u_def [symmetric] res_release res_Fail)
qed

lemma RequestWallTimeout_res:
  assumes "res_inv s" shows "res_inv (RequestWallTimeout env s)"
proof (cases "fs_completed s")
  case False
  have "res_inv (s \<lparr> fs_timed_out := True \<rparr>)"
    by (rule res_open_frame [OF assms False]) (use False in simp_all)
  then show ?thesis using False assms by (simp add: RequestWallTimeout_def res_release res_SubmitClose)
qed (use assms in \<open>simp add: RequestWallTimeout_def\<close>)

lemma IssueNextFromEngine_res: "res_inv s \<Longrightarrow> res_inv (IssueNextFromEngine G env s)"
  by (simp add: IssueNextFromEngine_def res_release res_IssueNext)

lemma CloseNow_res:
  assumes "res_inv s" shows "res_inv (CloseNow env s)"
proof (cases "fs_completed s")
  case False
  have "res_inv (s \<lparr> fs_remaining := 0 \<rparr>)" by (rule res_frame [OF assms]) simp_all
  then show ?thesis using False by (simp add: CloseNow_def res_release res_SubmitClose)
qed (use assms in \<open>simp add: CloseNow_def res_release\<close>)

lemma start_res: "res_inv (fs_Start env (new_FileSession G opts True paced n a b c))"
proof -
  let ?n = "new_FileSession G opts True paced n a b c"
  have i: "res_inv ?n" "\<not> fs_completed ?n" by (simp_all add: res_inv_def new_FileSession_def new_FileSessionResult_def fs_view)
  define t where "t = (\<lambda>b. emit (Submit (OpOpen (fo_url opts)) b)
     ((ArmOpDeadline (?n \<lparr> fs_self_keep := True, fs_buffer := unat (OpBytes opts), fs_t_start := ev_clock env AtEntry \<rparr>))
        \<lparr> fs_pending_cbs := 1 \<rparr>))"
  have t: "res_inv (t b)" "\<not> fs_completed (t b)" "fs_on_done (t b)" for b
    by (rule res_open_frame [OF i]) (simp_all add: t_def new_FileSession_def fs_view)
  have "res_inv (Complete (RefundPrepaid (set_error (''open submission failed: '' @ e) c n (t b \<lparr> fs_pending_cbs := k \<rparr>))))"
    for b e c n k
    by (rule res_fail [OF t(1,2)]) (use t(2,3) in \<open>simp_all add: fs_view\<close>)
  note f = this
  show ?thesis
  proof (cases "xs_ok (ev_submit env)")
    case True
    then have "fs_Start env ?n = t True"
      by (simp add: fs_Start_def t_def Let_def new_FileSession_def emit_def ArmOpDeadline_def)
    then show ?thesis using t(1) by simp
  next
    case False
    have "fs_Start env ?n = ReleaseIfIdle (Complete (RefundPrepaid (set_error
        (''open submission failed: '' @ xs_text (ev_submit env)) (xs_code (ev_submit env)) (xs_errno (ev_submit env))
        (t False \<lparr> fs_pending_cbs := 0 \<rparr>))))"
      using False by (simp add: fs_Start_def t_def Let_def new_FileSession_def emit_def ArmOpDeadline_def)
    then show ?thesis by (simp only: res_release [OF f])
  qed
qed

lemma session_step_res:
  assumes "session_step G y y'" "res_inv (ss_fs y)" shows "res_inv (ss_fs y')"
  using assms
  by (induction rule: session_step.induct)
    (simp_all add: OnOpen_res OnStat_res OnRead_res OnClose_res RequestWallTimeout_res
      IssueNextFromEngine_res CloseNow_res)

lemma reach_res: "session_reach G opts paced prepaid y \<Longrightarrow> res_inv (ss_fs y)"
  by (induction rule: session_reach.induct) (simp_all add: session_start_def start_res session_step_res Let_def)

text \<open>C15. One honest result: a session that is completed has reported exactly one result, one that is not has
  reported none; the result is good exactly when it carries no error text, and then it counts the
  bytes read and no wall timeout fired.\<close>

theorem session_one_result:
  assumes "session_reach G opts paced prepaid y"
  shows "let s = ss_fs y; r = fs_result s in
    results (fs_log s) = (if fs_completed s then [r] else [])
    \<and> fr_ok r = (fs_completed s \<and> fr_error r = [])
    \<and> (if fr_ok r then fr_bytes_read r = fs_bytes_read s \<and> \<not> fs_timed_out s else True)"
  using reach_res [OF assms] by (simp add: res_inv_def Let_def)

lemma session_one_result_witness: "results (fs_log (ss_fs demo_session)) = []"
  using session_one_result [OF demo_reach] demo_open(1) by (simp add: Let_def)

end
