(* ===== verification/Workload.thy ===== *)
theory Workload
  imports Units RunConfig SiteMap
begin

text \<open>
  \<^verbatim>\<open>src/workload_spec.cc\<close>: validating a workload document, and turning each of its targets into the
  configuration of a run. The JSON library is the parameter \<open>J\<close>; the file system is a function from
  paths to contents (\<open>None\<close> where a file cannot be opened); SHA-256 is a parameter as well, its
  hexadecimal spelling is the program's.
\<close>

section \<open>Types\<close>

record PatternSpec =
  ps_type :: PatternType
  ps_read_size_input :: string
  ps_chunk_size :: u32
  ps_vector_fraction :: double
  ps_vector_chunks :: u16
  ps_max_bytes_input :: string
  ps_max_bytes :: u64
  ps_max_bytes_auto :: bool

record TargetSpec =
  ts_name :: string
  ts_endpoint :: string
  ts_filelist :: string
  ts_filelist_input :: string
  ts_files :: "string list"
  ts_target_rate_input :: string
  ts_target_rate_bytes_per_s :: u64
  ts_max_inflight :: u32
  ts_pattern :: PatternSpec

record ClientTuningSpec =
  ct_session_timeout_input :: string
  ct_session_timeout_s :: double
  ct_connection_window_s :: int
  ct_connection_retry :: int
  ct_request_timeout_s :: int

record PushgatewaySpec =
  pg_url :: string
  pg_job :: string
  pg_keep :: bool

record ChirpSpec =
  ch_classads :: bool
  ch_prom_path :: string

record SinkSpec =
  sk_results_dir :: string
  sk_snapshot_interval_input :: string
  sk_snapshot_interval_s :: double
  sk_job_id :: string
  sk_write_results :: bool
  sk_pushgateway :: PushgatewaySpec
  sk_chirp :: ChirpSpec
  sk_site_map :: string
  sk_site_map_input :: string

record WorkloadSpec =
  wl_schema_version :: int
  wl_run_id :: string
  wl_duration_input :: string
  wl_duration_s :: double
  wl_seed :: u64
  wl_auth_mode :: string
  wl_targets :: "TargetSpec list"
  wl_client_tuning :: ClientTuningSpec
  wl_sinks :: SinkSpec

record ValidationIssue =
  vi_field :: string
  vi_message :: string

record ValidateResult =
  vr_ok :: bool
  vr_issues :: "ValidationIssue list"
  vr_resolved :: WorkloadSpec
  vr_canonical_json :: string
  vr_workload_hash :: string

definition default_PatternSpec :: PatternSpec where
  "default_PatternSpec = \<lparr> ps_type = Sequential, ps_read_size_input = ''1MiB'', ps_chunk_size = 2 ^ 20,
     ps_vector_fraction = lit (4 / 10), ps_vector_chunks = 8, ps_max_bytes_input = ''auto'',
     ps_max_bytes = 0, ps_max_bytes_auto = True \<rparr>"

definition default_TargetSpec :: TargetSpec where
  "default_TargetSpec = \<lparr> ts_name = [], ts_endpoint = [], ts_filelist = [], ts_filelist_input = [],
     ts_files = [], ts_target_rate_input = [], ts_target_rate_bytes_per_s = 0, ts_max_inflight = 16,
     ts_pattern = default_PatternSpec \<rparr>"

definition default_ClientTuningSpec :: ClientTuningSpec where
  "default_ClientTuningSpec = \<lparr> ct_session_timeout_input = ''60s'', ct_session_timeout_s = Fin 60,
     ct_connection_window_s = 15, ct_connection_retry = 2, ct_request_timeout_s = 60 \<rparr>"

definition default_SinkSpec :: SinkSpec where
  "default_SinkSpec = \<lparr> sk_results_dir = ''results'', sk_snapshot_interval_input = ''15s'',
     sk_snapshot_interval_s = Fin 15, sk_job_id = [], sk_write_results = True,
     sk_pushgateway = \<lparr> pg_url = [], pg_job = ''xrdhover'', pg_keep = False \<rparr>,
     sk_chirp = \<lparr> ch_classads = False, ch_prom_path = [] \<rparr>, sk_site_map = [], sk_site_map_input = [] \<rparr>"

definition default_WorkloadSpec :: WorkloadSpec where
  "default_WorkloadSpec = \<lparr> wl_schema_version = 1, wl_run_id = ''run'', wl_duration_input = ''30s'',
     wl_duration_s = Fin 30, wl_seed = 1, wl_auth_mode = ''x509'', wl_targets = [],
     wl_client_tuning = default_ClientTuningSpec, wl_sinks = default_SinkSpec \<rparr>"

text \<open>What a run of the validator reads: the JSON library, the files, the digest.\<close>

record 'j wl_env =
  we_json :: "'j json_api"
  we_file :: "string \<Rightarrow> string option"
  we_sha256 :: "string \<Rightarrow> string res"

section \<open>Collecting issues\<close>

text \<open>Each check only appends to \<^verbatim>\<open>r.issues\<close>: its value is the new value of the field it fills, with the
  issues it adds.\<close>

type_synonym 'a checked = "('a \<times> ValidationIssue list) res"

definition ck_return :: "'a \<Rightarrow> 'a checked" where
  "ck_return x = Inr (x, [])"

definition ck_bind :: "'a checked \<Rightarrow> ('a \<Rightarrow> 'b checked) \<Rightarrow> 'b checked" where
  "ck_bind m f = (case m of Inl e \<Rightarrow> Inl e
     | Inr (x, is) \<Rightarrow> (case f x of Inl e \<Rightarrow> Inl e | Inr (y, js) \<Rightarrow> Inr (y, is @ js)))"

definition AddIssue :: "string \<Rightarrow> string \<Rightarrow> 'a \<Rightarrow> 'a checked" where
  "AddIssue field message x = Inr (x, [\<lparr> vi_field = field, vi_message = message \<rparr>])"

text \<open>\<^verbatim>\<open>try { k(m) } catch (const std::exception& e) { AddIssue(field, e.what()) }\<close>.\<close>

definition ck_try :: "string \<Rightarrow> 'b res \<Rightarrow> ('b \<Rightarrow> 'a checked) \<Rightarrow> 'a \<Rightarrow> 'a checked" where
  "ck_try field m k old = (case m of Inr x \<Rightarrow> k x
     | Inl Undefined_behaviour \<Rightarrow> Inl Undefined_behaviour
     | Inl e \<Rightarrow> AddIssue field (what e) old)"

primrec ck_unit :: "unit checked list \<Rightarrow> unit checked" where
  "ck_unit [] = ck_return ()"
| "ck_unit (m # ms) = ck_bind m (\<lambda>_. ck_unit ms)"

definition RejectUnknown :: "'j json_api \<Rightarrow> 'j \<Rightarrow> string list \<Rightarrow> string \<Rightarrow> unit checked" where
  "RejectUnknown J obj allowed path =
     (if \<not> js_is_object J obj then ck_return ()
      else ck_unit (map (\<lambda>(k, v). if k \<in> set allowed then ck_return ()
                          else AddIssue (if path = [] then k else path @ ''.'' @ k) ''unknown field'' ())
                    (js_items J obj)))"

text \<open>The required and optional fields: whether the field was good, and its new value.\<close>

definition RequireString :: "'j json_api \<Rightarrow> 'j \<Rightarrow> string \<Rightarrow> string \<Rightarrow> string \<Rightarrow> (bool \<times> string) checked" where
  "RequireString J parent key path out =
     (case js_field J parent key of
        None \<Rightarrow> AddIssue path ''required field missing'' (False, out)
      | Some v \<Rightarrow> if \<not> js_is_string J v then AddIssue path ''must be a string'' (False, out)
                  else ck_return (True, js_get_string J v))"

definition OptionalString :: "'j json_api \<Rightarrow> 'j \<Rightarrow> string \<Rightarrow> string \<Rightarrow> string \<Rightarrow> (bool \<times> string) checked" where
  "OptionalString J parent key path out =
     (case js_field J parent key of
        None \<Rightarrow> ck_return (True, out)
      | Some v \<Rightarrow> if \<not> js_is_string J v then AddIssue path ''must be a string'' (False, out)
                  else ck_return (True, js_get_string J v))"

definition OptionalUint :: "'j json_api \<Rightarrow> 'j \<Rightarrow> string \<Rightarrow> string \<Rightarrow> u64 \<Rightarrow> u64 checked" where
  "OptionalUint J parent key path out =
     (case js_field J parent key of
        None \<Rightarrow> ck_return out
      | Some v \<Rightarrow> if \<not> js_is_number_integer J v \<or> js_get_int64 J v < 0
                  then AddIssue path ''must be a non-negative integer'' out
                  else ck_return (js_get_u64 J v))"

definition OptionalInt :: "'j json_api \<Rightarrow> 'j \<Rightarrow> string \<Rightarrow> string \<Rightarrow> int \<Rightarrow> int \<Rightarrow> int \<Rightarrow> int checked" where
  "OptionalInt J parent key path out min_v max_v =
     (case js_field J parent key of
        None \<Rightarrow> ck_return out
      | Some v \<Rightarrow> if \<not> js_is_number_integer J v then AddIssue path ''must be an integer'' out
                  else if js_get_int64 J v < min_v \<or> max_v < js_get_int64 J v
                  then AddIssue path ''out of range'' out
                  else ck_return (js_get_int64 J v))"

definition OptionalBool :: "'j json_api \<Rightarrow> 'j \<Rightarrow> string \<Rightarrow> string \<Rightarrow> bool \<Rightarrow> bool checked" where
  "OptionalBool J parent key path out =
     (case js_field J parent key of
        None \<Rightarrow> ck_return out
      | Some v \<Rightarrow> if \<not> js_is_boolean J v then AddIssue path ''must be a boolean'' out
                  else ck_return (js_get_bool J v))"

definition OptionalDouble ::
  "'j json_api \<Rightarrow> 'j \<Rightarrow> string \<Rightarrow> string \<Rightarrow> double \<Rightarrow> double \<Rightarrow> double \<Rightarrow> double checked" where
  "OptionalDouble J parent key path out min_v max_v =
     (case js_field J parent key of
        None \<Rightarrow> ck_return out
      | Some v \<Rightarrow> if \<not> js_is_number J v then AddIssue path ''must be a number'' out
                  else if dlt (js_get_double J v) min_v \<or> dlt max_v (js_get_double J v)
                  then AddIssue path ''out of range'' out
                  else ck_return (js_get_double J v))"

definition ParsePatternType :: "string \<Rightarrow> string \<Rightarrow> PatternType checked" where
  "ParsePatternType s path =
     (if s = ''sequential'' then ck_return Sequential
      else if s = ''random'' then ck_return Random
      else if s = ''vector'' then ck_return Vector
      else if s = ''mixed'' then ck_return Mixed
      else AddIssue path ''must be sequential|random|vector|mixed'' Sequential)"

section \<open>Paths\<close>

text \<open>\<^verbatim>\<open>std::filesystem::path\<close> on POSIX, as far as the code uses it: the pieces between slashes,
  \<^verbatim>\<open>parent_path\<close>, \<^verbatim>\<open>operator/\<close> and \<^verbatim>\<open>lexically_normal\<close>.\<close>

fun split_on :: "char \<Rightarrow> string \<Rightarrow> string list" where
  "split_on c [] = [[]]"
| "split_on c (x # xs) =
     (if x = c then [] # split_on c xs
      else case split_on c xs of [] \<Rightarrow> [[x]] | p # ps \<Rightarrow> (x # p) # ps)"

definition path_is_absolute :: "string \<Rightarrow> bool" where
  "path_is_absolute p \<longleftrightarrow> take 1 p = ''/''"

definition path_append :: "string \<Rightarrow> string \<Rightarrow> string" where
  "path_append base rel =
     (if path_is_absolute rel then rel
      else if base = [] \<or> last base = CHR ''/'' then base @ rel
      else base @ ''/'' @ rel)"

text \<open>The pieces so far (reversed) and whether a separator follows them.\<close>

fun normal_step :: "bool \<Rightarrow> string list \<times> bool \<Rightarrow> string \<Rightarrow> string list \<times> bool" where
  "normal_step absolute (ps, slash) piece =
     (if piece = [] \<or> piece = ''.'' then (ps, True)
      else if piece = ''..'' then
        (case ps of
           [] \<Rightarrow> if absolute then ([], True) else ([''..''], False)
         | p # qs \<Rightarrow> if p = ''..'' then (''..'' # ps, False) else (qs, True))
      else (piece # ps, False))"

fun join_with :: "string \<Rightarrow> string list \<Rightarrow> string" where
  "join_with sep [] = []"
| "join_with sep [p] = p"
| "join_with sep (p # q # ps) = p @ sep @ join_with sep (q # ps)"

definition lexically_normal :: "string \<Rightarrow> string" where
  "lexically_normal p =
     (if p = [] then []
      else let absolute = path_is_absolute p;
               (ps, slash) = foldl (normal_step absolute) ([], False) (split_on (CHR ''/'') p);
               body = join_with ''/'' (rev ps)
           in if ps = [] then (if absolute then ''/'' else ''.'')
              else (if absolute then ''/'' else []) @ body
                   @ (if slash \<and> hd ps \<noteq> ''..'' then ''/'' else []))"

definition drop_while_end :: "(char \<Rightarrow> bool) \<Rightarrow> string \<Rightarrow> string" where
  "drop_while_end P s = rev (dropWhile P (rev s))"

definition parent_path :: "string \<Rightarrow> string" where
  "parent_path p =
     (if list_all (\<lambda>c. c = CHR ''/'') p then p
      else let dir = drop_while_end (\<lambda>c. c \<noteq> CHR ''/'') p;
               dir' = drop_while_end (\<lambda>c. c = CHR ''/'') dir
           in if dir \<noteq> [] \<and> dir' = [] then ''/'' else dir')"

definition ParentDir :: "string \<Rightarrow> string" where
  "ParentDir path = (let parent = parent_path path in if parent = [] then ''.'' else parent)"

definition ResolveRelative :: "string \<Rightarrow> string \<Rightarrow> string" where
  "ResolveRelative base_dir rel =
     (if path_is_absolute rel then lexically_normal rel
      else lexically_normal (path_append base_dir rel))"

section \<open>The canonical document and its hash\<close>

definition hex_digit :: "nat \<Rightarrow> char" where
  "hex_digit n = ''0123456789abcdef'' ! n"

definition hex_of :: "string \<Rightarrow> string" where
  "hex_of digest = concat (map (\<lambda>c. [hex_digit (of_char c div 16), hex_digit (of_char c mod 16)]) digest)"

definition Sha256Hex :: "'j wl_env \<Rightarrow> string \<Rightarrow> string res" where
  "Sha256Hex E data = res_bind (we_sha256 E data) (\<lambda>digest. Inr (hex_of digest))"

definition PatternToJson :: "'j json_api \<Rightarrow> PatternSpec \<Rightarrow> 'j" where
  "PatternToJson J p = js_object J
     [(''max_bytes'', js_string J (ps_max_bytes_input p)),
      (''max_bytes_auto'', js_boolean J (ps_max_bytes_auto p)),
      (''max_bytes_resolved'', js_unsigned J (ps_max_bytes p)),
      (''read_size'', js_string J (ps_read_size_input p)),
      (''read_size_bytes'', js_unsigned J (ucast (ps_chunk_size p))),
      (''type'', js_string J (PatternTypeName (ps_type p))),
      (''vector_chunks'', js_unsigned J (ucast (ps_vector_chunks p))),
      (''vector_fraction'', js_float J (ps_vector_fraction p))]"

definition TargetToJson :: "'j json_api \<Rightarrow> TargetSpec \<Rightarrow> 'j" where
  "TargetToJson J t = js_object J
     [(''endpoint'', js_string J (ts_endpoint t)),
      (''file_count'', js_unsigned J (of_nat (length (ts_files t)))),
      (''filelist'', js_string J (ts_filelist_input t)),
      (''files'', js_array J (map (js_string J) (ts_files t))),
      (''name'', js_string J (ts_name t)),
      (''pattern'', PatternToJson J (ts_pattern t)),
      (''target_rate'', js_string J (ts_target_rate_input t)),
      (''target_rate_bytes_per_s'', js_unsigned J (ts_target_rate_bytes_per_s t)),
      (''max_inflight'', js_unsigned J (ucast (ts_max_inflight t)))]"

definition SinksToJson :: "'j json_api \<Rightarrow> SinkSpec \<Rightarrow> 'j" where
  "SinksToJson J k = js_object J
     [(''chirp'', js_object J
         [(''classads'', js_boolean J (ch_classads (sk_chirp k))),
          (''prom_path'', js_string J (ch_prom_path (sk_chirp k)))]),
      (''job_id'', js_string J (sk_job_id k)),
      (''pushgateway'', js_object J
         [(''job'', js_string J (pg_job (sk_pushgateway k))),
          (''keep'', js_boolean J (pg_keep (sk_pushgateway k))),
          (''url'', js_string J (pg_url (sk_pushgateway k)))]),
      (''results_dir'', js_string J (sk_results_dir k)),
      (''site_map'', js_string J (sk_site_map_input k)),
      (''snapshot_interval'', js_string J (sk_snapshot_interval_input k)),
      (''snapshot_interval_s'', js_float J (sk_snapshot_interval_s k)),
      (''write_results'', js_boolean J (sk_write_results k))]"

definition WorkloadToCanonicalJson :: "'j json_api \<Rightarrow> WorkloadSpec \<Rightarrow> 'j" where
  "WorkloadToCanonicalJson J wl = (let ct = wl_client_tuning wl in js_object J
     [(''auth'', js_object J [(''mode'', js_string J (wl_auth_mode wl))]),
      (''client_tuning'', js_object J
         [(''connection_retry'', js_integer J (ct_connection_retry ct)),
          (''connection_window'', js_integer J (ct_connection_window_s ct)),
          (''request_timeout'', js_integer J (ct_request_timeout_s ct)),
          (''session_timeout'', js_string J (ct_session_timeout_input ct)),
          (''session_timeout_s'', js_float J (ct_session_timeout_s ct))]),
      (''duration'', js_string J (wl_duration_input wl)),
      (''duration_s'', js_float J (wl_duration_s wl)),
      (''run_id'', js_string J (wl_run_id wl)),
      (''schema_version'', js_integer J (wl_schema_version wl)),
      (''seed'', js_unsigned J (wl_seed wl)),
      (''sinks'', SinksToJson J (wl_sinks wl)),
      (''targets'', js_array J (map (TargetToJson J) (wl_targets wl)))])"

section \<open>Validation\<close>

definition check_schema_version :: "'j json_api \<Rightarrow> 'j \<Rightarrow> int \<Rightarrow> int checked" where
  "check_schema_version J doc old =
     (case js_field J doc ''schema_version'' of
        None \<Rightarrow> AddIssue ''schema_version'' ''required field missing'' old
      | Some v \<Rightarrow> if \<not> js_is_number_integer J v then AddIssue ''schema_version'' ''must be an integer'' old
          else if js_get_int J v \<noteq> 1
          then AddIssue ''schema_version'' ''unsupported schema_version (expected 1)'' (js_get_int J v)
          else ck_return (js_get_int J v))"

definition check_run_id :: "'j json_api \<Rightarrow> 'j \<Rightarrow> string \<Rightarrow> string checked" where
  "check_run_id J doc old =
     ck_bind (RequireString J doc ''run_id'' ''run_id'' old) (\<lambda>(good, run_id).
       if good \<and> run_id = [] then AddIssue ''run_id'' ''must be non-empty'' run_id else ck_return run_id)"

text \<open>A duration field: \<open>bad\<close> is the test after parsing and \<open>message\<close> its complaint.\<close>

definition check_duration_text :: "string \<Rightarrow> string \<Rightarrow> double \<Rightarrow> (double \<Rightarrow> bool) \<Rightarrow> string \<Rightarrow> double checked" where
  "check_duration_text field input old bad message =
     ck_try field (ParseDurationString input)
       (\<lambda>d. if bad d then AddIssue field message d else ck_return d) old"

definition check_duration :: "'j json_api \<Rightarrow> 'j \<Rightarrow> WorkloadSpec \<Rightarrow> WorkloadSpec checked" where
  "check_duration J doc wl =
     ck_bind (RequireString J doc ''duration'' ''duration'' (wl_duration_input wl)) (\<lambda>(good, input).
       if \<not> good then ck_return wl
       else ck_bind (check_duration_text ''duration'' input (wl_duration_s wl) (\<lambda>d. dle d (Fin 0)) ''must be > 0'')
              (\<lambda>d. ck_return (wl \<lparr> wl_duration_input := input, wl_duration_s := d \<rparr>)))"

definition unsupported_mode :: string where
  "unsupported_mode = ''unsupported auth mode (only '' @ [CHR 0x22] @ ''x509'' @ [CHR 0x22] @ '' / X509_USER_PROXY in v1; ''
     @ ''bearer tokens deferred until after Phases 3'' @ [CHR 0xE2, CHR 0x80, CHR 0x93] @ ''6)''"

definition check_auth :: "'j json_api \<Rightarrow> 'j \<Rightarrow> string \<Rightarrow> string checked" where
  "check_auth J doc old =
     (case js_field J doc ''auth'' of
        None \<Rightarrow> AddIssue ''auth'' ''required field missing'' old
      | Some auth \<Rightarrow> if \<not> js_is_object J auth then AddIssue ''auth'' ''must be an object'' old
          else ck_bind (RejectUnknown J auth [''mode''] ''auth'') (\<lambda>_.
               ck_bind (RequireString J auth ''mode'' ''auth.mode'' []) (\<lambda>(good, mode).
                 if \<not> good then ck_return old
                 else if mode \<noteq> ''x509'' then AddIssue ''auth.mode'' unsupported_mode old
                 else ck_return mode)))"

definition check_client_tuning :: "'j json_api \<Rightarrow> 'j \<Rightarrow> ClientTuningSpec \<Rightarrow> ClientTuningSpec checked" where
  "check_client_tuning J doc old =
     (case js_field J doc ''client_tuning'' of
        None \<Rightarrow> ck_return old
      | Some ct \<Rightarrow> if \<not> js_is_object J ct then AddIssue ''client_tuning'' ''must be an object'' old
          else ck_bind (RejectUnknown J ct [''session_timeout'', ''connection_window'', ''connection_retry'',
                          ''request_timeout''] ''client_tuning'') (\<lambda>_.
               ck_bind (OptionalString J ct ''session_timeout'' ''client_tuning.session_timeout''
                          (ct_session_timeout_input old)) (\<lambda>(good, input).
               ck_bind (if good \<and> js_field J ct ''session_timeout'' \<noteq> None
                        then check_duration_text ''client_tuning.session_timeout'' input
                               (ct_session_timeout_s old) (\<lambda>d. dlt d (Fin 0)) ''must be >= 0''
                        else ck_return (ct_session_timeout_s old)) (\<lambda>timeout.
               ck_bind (OptionalInt J ct ''connection_window'' ''client_tuning.connection_window''
                          (ct_connection_window_s old) 1 86400) (\<lambda>window.
               ck_bind (OptionalInt J ct ''connection_retry'' ''client_tuning.connection_retry''
                          (ct_connection_retry old) 0 1000) (\<lambda>retry.
               ck_bind (OptionalInt J ct ''request_timeout'' ''client_tuning.request_timeout''
                          (ct_request_timeout_s old) 1 86400) (\<lambda>request.
               ck_return \<lparr> ct_session_timeout_input = input, ct_session_timeout_s = timeout,
                 ct_connection_window_s = window, ct_connection_retry = retry,
                 ct_request_timeout_s = request \<rparr>)))))))"

definition check_pushgateway :: "'j json_api \<Rightarrow> 'j \<Rightarrow> PushgatewaySpec \<Rightarrow> PushgatewaySpec checked" where
  "check_pushgateway J sinks old =
     (case js_field J sinks ''pushgateway'' of
        None \<Rightarrow> ck_return old
      | Some pg \<Rightarrow> if \<not> js_is_object J pg then AddIssue ''sinks.pushgateway'' ''must be an object'' old
          else ck_bind (RejectUnknown J pg [''url'', ''job'', ''keep''] ''sinks.pushgateway'') (\<lambda>_.
               ck_bind (OptionalString J pg ''url'' ''sinks.pushgateway.url'' (pg_url old)) (\<lambda>(_, url).
               ck_bind (OptionalString J pg ''job'' ''sinks.pushgateway.job'' (pg_job old)) (\<lambda>(_, job).
               ck_bind (OptionalBool J pg ''keep'' ''sinks.pushgateway.keep'' (pg_keep old)) (\<lambda>keep.
               ck_return \<lparr> pg_url = url, pg_job = job, pg_keep = keep \<rparr>)))))"

definition check_chirp :: "'j json_api \<Rightarrow> 'j \<Rightarrow> ChirpSpec \<Rightarrow> ChirpSpec checked" where
  "check_chirp J sinks old =
     (case js_field J sinks ''chirp'' of
        None \<Rightarrow> ck_return old
      | Some ch \<Rightarrow> if \<not> js_is_object J ch then AddIssue ''sinks.chirp'' ''must be an object'' old
          else ck_bind (RejectUnknown J ch [''classads'', ''prom_path''] ''sinks.chirp'') (\<lambda>_.
               ck_bind (OptionalBool J ch ''classads'' ''sinks.chirp.classads'' (ch_classads old)) (\<lambda>ads.
               ck_bind (OptionalString J ch ''prom_path'' ''sinks.chirp.prom_path'' (ch_prom_path old)) (\<lambda>(_, prom).
               ck_return \<lparr> ch_classads = ads, ch_prom_path = prom \<rparr>))))"

text \<open>The site map is loaded only to see that it can be; the resolved path is kept either way.\<close>

definition check_site_map :: "'j wl_env \<Rightarrow> 'j \<Rightarrow> string \<Rightarrow> SinkSpec \<Rightarrow> (string \<times> string) checked" where
  "check_site_map E sinks workload_dir old =
     (let J = we_json E in
      ck_bind (OptionalString J sinks ''site_map'' ''sinks.site_map'' (sk_site_map_input old)) (\<lambda>(good, input).
        if good \<and> input \<noteq> []
        then let path = ResolveRelative workload_dir input
             in ck_try ''sinks.site_map'' (sm_LoadFile J path (we_file E path))
                  (\<lambda>_. ck_return (path, input)) (path, input)
        else ck_return (sk_site_map old, input)))"

definition check_sinks :: "'j wl_env \<Rightarrow> 'j \<Rightarrow> string \<Rightarrow> SinkSpec \<Rightarrow> SinkSpec checked" where
  "check_sinks E doc workload_dir old =
     (let J = we_json E in
      case js_field J doc ''sinks'' of
        None \<Rightarrow> ck_return old
      | Some sinks \<Rightarrow> if \<not> js_is_object J sinks then AddIssue ''sinks'' ''must be an object'' old
          else ck_bind (RejectUnknown J sinks [''results_dir'', ''snapshot_interval'', ''job_id'',
                          ''write_results'', ''pushgateway'', ''chirp'', ''site_map''] ''sinks'') (\<lambda>_.
               ck_bind (OptionalString J sinks ''results_dir'' ''sinks.results_dir'' (sk_results_dir old)) (\<lambda>(_, results_dir).
               ck_bind (OptionalString J sinks ''snapshot_interval'' ''sinks.snapshot_interval''
                          (sk_snapshot_interval_input old)) (\<lambda>(good, input).
               ck_bind (if good \<and> js_field J sinks ''snapshot_interval'' \<noteq> None
                        then check_duration_text ''sinks.snapshot_interval'' input
                               (sk_snapshot_interval_s old) (\<lambda>d. dle d (Fin 0)) ''must be > 0''
                        else ck_return (sk_snapshot_interval_s old)) (\<lambda>interval.
               ck_bind (OptionalString J sinks ''job_id'' ''sinks.job_id'' (sk_job_id old)) (\<lambda>(_, job_id).
               ck_bind (OptionalBool J sinks ''write_results'' ''sinks.write_results'' (sk_write_results old)) (\<lambda>writes.
               ck_bind (check_site_map E sinks workload_dir old) (\<lambda>(site_map, site_map_input).
               ck_bind (check_pushgateway J sinks (sk_pushgateway old)) (\<lambda>pg.
               ck_bind (check_chirp J sinks (sk_chirp old)) (\<lambda>ch.
               ck_return \<lparr> sk_results_dir = results_dir, sk_snapshot_interval_input = input,
                 sk_snapshot_interval_s = interval, sk_job_id = job_id, sk_write_results = writes,
                 sk_pushgateway = pg, sk_chirp = ch, sk_site_map = site_map,
                 sk_site_map_input = site_map_input \<rparr>))))))))))"

subsection \<open>Targets\<close>

text \<open>The name, and the names seen so far.\<close>

definition check_name :: "'j json_api \<Rightarrow> 'j \<Rightarrow> string \<Rightarrow> string list \<Rightarrow> (string \<times> string list) checked" where
  "check_name J tj base names =
     ck_bind (RequireString J tj ''name'' (base @ ''.name'') []) (\<lambda>(good, name).
       if \<not> good then ck_return (name, names)
       else if name = [] then AddIssue (base @ ''.name'') ''must be non-empty'' (name, names)
       else if name \<in> set names then AddIssue (base @ ''.name'') ''duplicate target name'' (name, names)
       else ck_return (name, name # names))"

definition check_endpoint :: "'j json_api \<Rightarrow> 'j \<Rightarrow> string \<Rightarrow> string checked" where
  "check_endpoint J tj base =
     ck_bind (RequireString J tj ''endpoint'' (base @ ''.endpoint'') []) (\<lambda>(good, endpoint).
       if good \<and> take 7 endpoint \<noteq> ''root://''
       then AddIssue (base @ ''.endpoint'') ''must start with root://'' endpoint
       else ck_return endpoint)"

definition check_filelist :: "'j wl_env \<Rightarrow> 'j \<Rightarrow> string \<Rightarrow> string \<Rightarrow> (string \<times> string \<times> string list) checked" where
  "check_filelist E tj workload_dir base =
     ck_bind (RequireString (we_json E) tj ''filelist'' (base @ ''.filelist'') []) (\<lambda>(good, input).
       if \<not> good then ck_return ([], input, [])
       else let path = ResolveRelative workload_dir input
            in ck_try (base @ ''.filelist'') (LoadFileList path (we_file E path))
                 (\<lambda>files. ck_return (path, input, files)) (path, input, []))"

definition check_target_rate :: "'j json_api \<Rightarrow> 'j \<Rightarrow> string \<Rightarrow> (string \<times> u64) checked" where
  "check_target_rate J tj base =
     (case js_field J tj ''target_rate'' of
        None \<Rightarrow> ck_return ([], 0)
      | Some v \<Rightarrow> if \<not> js_is_string J v then AddIssue (base @ ''.target_rate'') ''must be a string'' ([], 0)
          else let input = js_get_string J v
               in ck_try (base @ ''.target_rate'') (ParseTargetRateString input)
                    (\<lambda>rate. ck_return (input, rate)) (input, 0))"

text \<open>An integer field with a range that has its own message.\<close>

definition check_range :: "'j json_api \<Rightarrow> 'j \<Rightarrow> string \<Rightarrow> string \<Rightarrow> int \<Rightarrow> string \<Rightarrow> u64 \<Rightarrow> u64 checked" where
  "check_range J obj key path max_v message old =
     (case js_field J obj key of
        None \<Rightarrow> ck_return old
      | Some v \<Rightarrow> if \<not> js_is_number_integer J v \<or> js_get_int64 J v < 1 \<or> max_v < js_get_int64 J v
                  then AddIssue path message old
                  else ck_return (js_get_u64 J v))"

definition check_read_size :: "'j json_api \<Rightarrow> 'j \<Rightarrow> string \<Rightarrow> PatternSpec \<Rightarrow> PatternSpec checked" where
  "check_read_size J pj base p =
     ck_bind (OptionalString J pj ''read_size'' (base @ ''.pattern.read_size'') (ps_read_size_input p)) (\<lambda>(good, input).
       let p = p \<lparr> ps_read_size_input := input \<rparr> in
       if good \<and> js_field J pj ''read_size'' \<noteq> None
       then ck_try (base @ ''.pattern.read_size'') (ParseSizeString input)
              (\<lambda>sz. if sz = 0 \<or> 0xffffffff < sz then AddIssue (base @ ''.pattern.read_size'') ''out of range'' p
                    else ck_return (p \<lparr> ps_chunk_size := ucast sz \<rparr>)) p
       else ck_return p)"

definition check_max_bytes :: "'j json_api \<Rightarrow> 'j \<Rightarrow> string \<Rightarrow> PatternSpec \<Rightarrow> PatternSpec checked" where
  "check_max_bytes J pj base p =
     (case js_field J pj ''max_bytes'' of
        None \<Rightarrow> ck_return p
      | Some v \<Rightarrow> if \<not> js_is_string J v then AddIssue (base @ ''.pattern.max_bytes'') ''must be a string'' p
          else let input = js_get_string J v; p = p \<lparr> ps_max_bytes_input := input \<rparr>
               in if input = ''auto'' then ck_return (p \<lparr> ps_max_bytes_auto := True, ps_max_bytes := 0 \<rparr>)
                  else let p = p \<lparr> ps_max_bytes_auto := False \<rparr>
                       in ck_try (base @ ''.pattern.max_bytes'') (ParseSizeString input)
                            (\<lambda>n. ck_return (p \<lparr> ps_max_bytes := n \<rparr>)) p)"

definition check_pattern_sizes :: "'j json_api \<Rightarrow> 'j \<Rightarrow> string \<Rightarrow> u64 \<Rightarrow> PatternSpec \<Rightarrow> PatternSpec checked" where
  "check_pattern_sizes J pj base rate p =
     ck_bind (check_read_size J pj base p) (\<lambda>p.
     ck_bind (OptionalDouble J pj ''vector_fraction'' (base @ ''.pattern.vector_fraction'')
                (ps_vector_fraction p) (Fin 0) (Fin 1)) (\<lambda>fraction.
     ck_bind (check_range J pj ''vector_chunks'' (base @ ''.pattern.vector_chunks'') 65535
                ''must be an integer in [1, 65535]'' (ucast (ps_vector_chunks p))) (\<lambda>chunks.
     ck_bind (check_max_bytes J pj base
                (p \<lparr> ps_vector_fraction := fraction, ps_vector_chunks := ucast chunks \<rparr>)) (\<lambda>p.
     if rate = 0 \<and> (ps_max_bytes_auto p \<or> ps_max_bytes p = 0)
     then AddIssue (base @ ''.pattern.max_bytes'')
            (''uncapped target_rate requires explicit positive max_bytes (not '' @ quoted ''auto'' @ '' or 0)'') p
     else ck_return p))))"

definition check_pattern :: "'j json_api \<Rightarrow> 'j \<Rightarrow> string \<Rightarrow> u64 \<Rightarrow> PatternSpec \<Rightarrow> PatternSpec checked" where
  "check_pattern J tj base rate old =
     (case js_field J tj ''pattern'' of
        None \<Rightarrow> AddIssue (base @ ''.pattern'') ''required field missing'' old
      | Some pj \<Rightarrow> if \<not> js_is_object J pj then AddIssue (base @ ''.pattern'') ''must be an object'' old
          else ck_bind (RejectUnknown J pj [''type'', ''read_size'', ''vector_fraction'', ''vector_chunks'',
                          ''max_bytes''] (base @ ''.pattern'')) (\<lambda>_.
               ck_bind (RequireString J pj ''type'' (base @ ''.pattern.type'') []) (\<lambda>(good, type_s).
               ck_bind (if good then ParsePatternType type_s (base @ ''.pattern.type'') else ck_return (ps_type old))
                 (\<lambda>type. check_pattern_sizes J pj base rate (old \<lparr> ps_type := type \<rparr>)))))"

definition target_fields :: "string list" where
  "target_fields = [''name'', ''endpoint'', ''filelist'', ''target_rate'', ''max_inflight'', ''pattern'']"

definition check_target ::
  "'j wl_env \<Rightarrow> 'j \<Rightarrow> string \<Rightarrow> string \<Rightarrow> string list \<Rightarrow> (TargetSpec \<times> string list) checked" where
  "check_target E tj workload_dir base names =
     (let J = we_json E in
      ck_bind (RejectUnknown J tj target_fields base) (\<lambda>_.
      ck_bind (check_name J tj base names) (\<lambda>(name, names).
      ck_bind (check_endpoint J tj base) (\<lambda>endpoint.
      ck_bind (check_filelist E tj workload_dir base) (\<lambda>(filelist, filelist_input, files).
      ck_bind (check_target_rate J tj base) (\<lambda>(rate_input, rate).
      ck_bind (check_range J tj ''max_inflight'' (base @ ''.max_inflight'') 100000
                 ''must be an integer in [1, 100000]'' 16) (\<lambda>inflight.
      ck_bind (check_pattern J tj base rate default_PatternSpec) (\<lambda>pattern.
      ck_return (\<lparr> ts_name = name, ts_endpoint = endpoint, ts_filelist = filelist,
        ts_filelist_input = filelist_input, ts_files = files, ts_target_rate_input = rate_input,
        ts_target_rate_bytes_per_s = rate, ts_max_inflight = ucast inflight,
        ts_pattern = pattern \<rparr>, names)))))))))"

text \<open>A target that is not an object is reported and left out.\<close>

fun check_each ::
  "'j wl_env \<Rightarrow> string \<Rightarrow> nat \<Rightarrow> string list \<Rightarrow> 'j list \<Rightarrow> TargetSpec list checked" where
  "check_each E workload_dir idx names [] = ck_return []"
| "check_each E workload_dir idx names (tj # tjs) =
     (let base = ''targets['' @ nat_to_dec idx @ '']'' in
      if \<not> js_is_object (we_json E) tj
      then ck_bind (AddIssue base ''must be an object'' ()) (\<lambda>_. check_each E workload_dir (idx + 1) names tjs)
      else ck_bind (check_target E tj workload_dir base names) (\<lambda>(t, names).
           ck_bind (check_each E workload_dir (idx + 1) names tjs) (\<lambda>ts. ck_return (t # ts))))"

definition check_targets :: "'j wl_env \<Rightarrow> 'j \<Rightarrow> string \<Rightarrow> TargetSpec list checked" where
  "check_targets E doc workload_dir =
     (let J = we_json E in
      case js_field J doc ''targets'' of
        None \<Rightarrow> AddIssue ''targets'' ''required field missing'' []
      | Some v \<Rightarrow> if \<not> js_is_array J v then AddIssue ''targets'' ''must be an array'' []
          else if js_elems J v = [] then AddIssue ''targets'' ''must contain at least one target'' []
          else check_each E workload_dir 0 [] (js_elems J v))"

subsection \<open>The document\<close>

definition top_allowed :: "string list" where
  "top_allowed = [''schema_version'', ''run_id'', ''duration'', ''seed'', ''auth'', ''targets'',
     ''client_tuning'', ''sinks'']"

definition check_workload :: "'j wl_env \<Rightarrow> 'j \<Rightarrow> string \<Rightarrow> WorkloadSpec checked" where
  "check_workload E doc workload_dir =
     (let J = we_json E; wl = default_WorkloadSpec in
      if \<not> js_is_object J doc then AddIssue [] ''workload root must be a JSON object'' wl
      else ck_bind (RejectUnknown J doc top_allowed []) (\<lambda>_.
           ck_bind (check_schema_version J doc (wl_schema_version wl)) (\<lambda>version.
           ck_bind (check_run_id J doc (wl_run_id wl)) (\<lambda>run_id.
           ck_bind (check_duration J doc (wl \<lparr> wl_schema_version := version, wl_run_id := run_id \<rparr>)) (\<lambda>wl.
           ck_bind (OptionalUint J doc ''seed'' ''seed'' (wl_seed wl)) (\<lambda>seed.
           ck_bind (check_auth J doc (wl_auth_mode wl)) (\<lambda>mode.
           ck_bind (check_client_tuning J doc (wl_client_tuning wl)) (\<lambda>tuning.
           ck_bind (check_sinks E doc workload_dir (wl_sinks wl)) (\<lambda>sinks.
           ck_bind (check_targets E doc workload_dir) (\<lambda>targets.
           ck_return (wl \<lparr> wl_seed := seed, wl_auth_mode := mode, wl_client_tuning := tuning,
             wl_sinks := sinks, wl_targets := targets \<rparr>)))))))))))"

definition failed_result :: "ValidationIssue list \<Rightarrow> ValidateResult" where
  "failed_result issues = \<lparr> vr_ok = False, vr_issues = issues, vr_resolved = default_WorkloadSpec,
     vr_canonical_json = [], vr_workload_hash = [] \<rparr>"

definition ValidateWorkloadJson :: "'j wl_env \<Rightarrow> 'j \<Rightarrow> string \<Rightarrow> ValidateResult res" where
  "ValidateWorkloadJson E doc workload_dir =
     res_bind (check_workload E doc workload_dir) (\<lambda>(wl, issues).
       if issues \<noteq> [] then Inr (failed_result issues)
       else let J = we_json E in
            res_bind (js_dump2 J (WorkloadToCanonicalJson J wl)) (\<lambda>text.
            let canonical = text @ [CHR 0x0A] in
            res_bind (Sha256Hex E canonical) (\<lambda>hash.
            Inr \<lparr> vr_ok = True, vr_issues = [], vr_resolved = wl, vr_canonical_json = canonical,
                  vr_workload_hash = hash \<rparr>)))"

definition ValidateWorkloadFile :: "'j wl_env \<Rightarrow> string \<Rightarrow> ValidateResult res" where
  "ValidateWorkloadFile E path =
     (case we_file E path of
        None \<Rightarrow> Inr (failed_result [\<lparr> vi_field = path, vi_message = ''cannot open workload file'' \<rparr>])
      | Some text \<Rightarrow>
          (case js_parse (we_json E) text of
             Inl (Json_error e) \<Rightarrow>
               if js_is_parse_error (we_json E) e
               then Inr (failed_result [\<lparr> vi_field = path, vi_message = ''JSON parse error: '' @ e \<rparr>])
               else Inl (Json_error e)
           | Inl e \<Rightarrow> Inl e
           | Inr doc \<Rightarrow> ValidateWorkloadJson E doc (ParentDir path)))"

definition ToRunConfig :: "WorkloadSpec \<Rightarrow> TargetSpec \<Rightarrow> RunConfig" where
  "ToRunConfig wl target = default_RunConfig
     \<lparr> rc_run_id := wl_run_id wl, rc_duration_s := wl_duration_s wl, rc_endpoint := ts_endpoint target,
       rc_files := ts_files target, rc_filelist_path := ts_filelist target,
       rc_target_rate_bytes_per_s := ts_target_rate_bytes_per_s target,
       rc_target_rate_input := ts_target_rate_input target, rc_max_inflight := ts_max_inflight target,
       rc_pattern := ps_type (ts_pattern target), rc_chunk_size := ps_chunk_size (ts_pattern target),
       rc_vector_chunks := ps_vector_chunks (ts_pattern target),
       rc_vector_fraction := ps_vector_fraction (ts_pattern target),
       rc_max_bytes := ps_max_bytes (ts_pattern target),
       rc_max_bytes_auto := ps_max_bytes_auto (ts_pattern target), rc_seed := wl_seed wl,
       rc_session_timeout_s := ct_session_timeout_s (wl_client_tuning wl),
       rc_connection_window_s := ct_connection_window_s (wl_client_tuning wl),
       rc_connection_retry := ct_connection_retry (wl_client_tuning wl),
       rc_request_timeout_s := ct_request_timeout_s (wl_client_tuning wl),
       rc_results_dir := sk_results_dir (wl_sinks wl),
       rc_snapshot_interval_s := sk_snapshot_interval_s (wl_sinks wl),
       rc_job_id := sk_job_id (wl_sinks wl), rc_write_results := sk_write_results (wl_sinks wl),
       rc_target := ts_name target, rc_pushgateway_url := pg_url (sk_pushgateway (wl_sinks wl)),
       rc_pushgateway_job := pg_job (sk_pushgateway (wl_sinks wl)),
       rc_pushgateway_keep := pg_keep (sk_pushgateway (wl_sinks wl)),
       rc_chirp_classads := ch_classads (sk_chirp (wl_sinks wl)),
       rc_chirp_prom_path := ch_prom_path (sk_chirp (wl_sinks wl)),
       rc_site_map_path := sk_site_map (wl_sinks wl), rc_schema_version := wl_schema_version wl,
       rc_auth_mode := wl_auth_mode wl \<rparr>"

end
