(* ===== verification/WorkloadSound.thy ===== *)
theory WorkloadSound
  imports Workload
begin

text \<open>
  What a validated workload guarantees. A check that adds no issue is inverted step by step: the
  rules in \<open>ck_clean\<close> take a clean sequence of checks apart.
\<close>

named_theorems ck_clean \<open>inversion of checks that add no issue\<close>

lemma ck_bind_clean [ck_clean]:
  "ck_bind m f = Inr (y, []) \<longleftrightarrow> (\<exists>x. m = Inr (x, []) \<and> f x = Inr (y, []))"
  by (auto simp: ck_bind_def split: sum.splits prod.splits)

lemma AddIssue_clean [ck_clean]: "AddIssue field message x \<noteq> Inr (y, [])"
  by (simp add: AddIssue_def)

lemma ck_return_clean [ck_clean]: "ck_return x = Inr (y, []) \<longleftrightarrow> y = x"
  by (auto simp: ck_return_def)

lemma ck_try_clean [ck_clean]: "ck_try field m k old = Inr (y, []) \<longleftrightarrow> (\<exists>x. m = Inr x \<and> k x = Inr (y, []))"
  by (auto simp: ck_try_def AddIssue_clean split: sum.splits fault.splits)

lemma ck_if_clean [ck_clean]: "(if b then AddIssue f m x else c) = Inr (y, []) \<longleftrightarrow> \<not> b \<and> c = Inr (y, [])"
  by (simp add: AddIssue_clean)

text \<open>Numbers.\<close>

lemma check_range_clean:
  assumes "check_range J obj key path hi message old = Inr (n, [])" "js_ints_agree J"
  shows "n = old \<or> 1 \<le> uint n \<and> uint n \<le> hi"
  using assms by (auto simp: check_range_def js_ints_agree_def ck_clean split: option.splits if_splits)

lemma unat_ucast_small16: "uint (n :: u64) \<le> 65535 \<Longrightarrow> unat (ucast n :: u16) = unat n"
  by (simp add: unsigned_ucast_eq take_bit_nat_eq_self uint_unat_u64)

lemma unat_ucast_small32: "uint (n :: u64) \<le> 100000 \<Longrightarrow> unat (ucast n :: u32) = unat n"
  by (simp add: unsigned_ucast_eq take_bit_nat_eq_self uint_unat_u64)

text \<open>Fields.\<close>

lemma check_name_clean:
  assumes "check_name J tj base names = Inr ((name, names'), [])"
  shows "name \<noteq> [] \<and> name \<notin> set names \<and> names' = name # names"
  using assms by (auto simp: check_name_def RequireString_def ck_clean split: option.splits if_splits)

lemma check_endpoint_clean:
  "check_endpoint J tj base = Inr (endpoint, []) \<Longrightarrow> take 7 endpoint = ''root://''"
  by (auto simp: check_endpoint_def RequireString_def ck_clean split: option.splits if_splits)

lemma LoadFileList_nonempty: "LoadFileList p c = Inr files \<Longrightarrow> files \<noteq> []"
  by (auto simp: LoadFileList_def Let_def split: option.splits if_splits)

lemma check_filelist_clean:
  "check_filelist E tj dir base = Inr ((path, input, files), []) \<Longrightarrow>
     path = ResolveRelative dir input \<and> LoadFileList path (we_file E path) = Inr files"
  by (auto simp: check_filelist_def RequireString_def ck_clean Let_def split: option.splits if_splits)

lemma check_target_rate_clean:
  "check_target_rate J tj base = Inr ((input, rate), []) \<Longrightarrow> (input = [] \<and> rate = 0)
     \<or> ParseTargetRateString input = Inr rate"
  by (auto simp: check_target_rate_def ck_clean Let_def split: option.splits if_splits)

lemma check_read_size_clean:
  assumes "check_read_size J pj base p = Inr (p', [])"
  shows "ps_vector_chunks p' = ps_vector_chunks p \<and> ps_vector_fraction p' = ps_vector_fraction p
    \<and> (ps_chunk_size p \<noteq> 0 \<longrightarrow> ps_chunk_size p' \<noteq> 0)"
proof -
  have "(ucast sz :: u32) \<noteq> 0" if "sz \<noteq> 0" "\<not> 0xffffffff < sz" for sz :: u64
  proof -
    have "uint sz \<le> 0xffffffff" using that(2) by (simp add: word_less_alt)
    then have "unat (ucast sz :: u32) = unat sz"
      by (simp add: unsigned_ucast_eq take_bit_nat_eq_self uint_unat_u64)
    then show ?thesis using that(1) by (metis unat_eq_zero)
  qed
  then show ?thesis using assms
    by (auto simp: check_read_size_def OptionalString_def ck_clean Let_def split: option.splits if_splits)
qed

lemma check_max_bytes_frame:
  assumes "check_max_bytes J pj base p = Inr (p', [])"
  shows "ps_vector_chunks p' = ps_vector_chunks p \<and> ps_vector_fraction p' = ps_vector_fraction p
    \<and> ps_chunk_size p' = ps_chunk_size p"
  using assms by (auto simp: check_max_bytes_def ck_clean Let_def split: option.splits if_splits)

lemma OptionalDouble_clean:
  "OptionalDouble J pj key path old lo hi = Inr (d, []) \<Longrightarrow> d = old \<or> \<not> dlt d lo \<and> \<not> dlt hi d"
  by (auto simp: OptionalDouble_def ck_clean split: option.splits if_splits)

lemma fraction_default: "\<not> dlt (ps_vector_fraction default_PatternSpec) (Fin 0)
    \<and> \<not> dlt (Fin 1) (ps_vector_fraction default_PatternSpec)"
  by code_simp

definition pattern_sound :: "u64 \<Rightarrow> PatternSpec \<Rightarrow> bool" where
  "pattern_sound rate p \<longleftrightarrow> ps_chunk_size p \<noteq> 0 \<and> ps_vector_chunks p \<noteq> 0
     \<and> \<not> dlt (ps_vector_fraction p) (Fin 0) \<and> \<not> dlt (Fin 1) (ps_vector_fraction p)
     \<and> (rate = 0 \<longrightarrow> \<not> ps_max_bytes_auto p \<and> ps_max_bytes p \<noteq> 0)"

lemma check_range_u16:
  assumes "check_range J obj key path 65535 message (ucast (c :: u16)) = Inr (n, [])" "js_ints_agree J" "c \<noteq> 0"
  shows "(ucast n :: u16) \<noteq> 0"
proof -
  consider "n = ucast c" | "1 \<le> uint n" "uint n \<le> 65535" using check_range_clean [OF assms(1,2)] by blast
  then show ?thesis
  proof cases
    case 1
    have "uint n \<le> 65535" using unat_u16_less [of c] by (simp add: 1 uint_unat_u64)
    then have "unat (ucast n :: u16) = unat c" by (subst unat_ucast_small16) (simp_all add: 1)
    moreover have "unat c \<noteq> 0" using assms(3) unat_eq_zero by blast
    ultimately show ?thesis by (metis unat_0)
  next
    case 2
    then have "unat (ucast n :: u16) = unat n" by (intro unat_ucast_small16)
    moreover have "unat n \<noteq> 0" using 2(1) unfolding uint_unat_u64 by linarith
    ultimately show ?thesis by (metis unat_0)
  qed
qed

lemma check_pattern_sizes_clean:
  assumes "check_pattern_sizes J pj base rate p0 = Inr (p, [])" "js_ints_agree J"
    "ps_vector_chunks p0 = 8" "ps_chunk_size p0 = 2 ^ 20"
    "ps_vector_fraction p0 = ps_vector_fraction default_PatternSpec"
  shows "pattern_sound rate p"
proof -
  obtain p1 fraction chunks where
      r: "check_read_size J pj base p0 = Inr (p1, [])"
    and d: "OptionalDouble J pj ''vector_fraction'' (base @ ''.pattern.vector_fraction'')
               (ps_vector_fraction p1) (Fin 0) (Fin 1) = Inr (fraction, [])"
    and c: "check_range J pj ''vector_chunks'' (base @ ''.pattern.vector_chunks'') 65535
               ''must be an integer in [1, 65535]'' (ucast (ps_vector_chunks p1)) = Inr (chunks, [])"
    and m: "check_max_bytes J pj base
               (p1 \<lparr> ps_vector_fraction := fraction, ps_vector_chunks := ucast chunks \<rparr>) = Inr (p, [])"
    and z: "\<not> (rate = 0 \<and> (ps_max_bytes_auto p \<or> ps_max_bytes p = 0))"
    using assms(1) unfolding check_pattern_sizes_def ck_bind_clean ck_if_clean ck_return_clean by blast
  note f1 = check_read_size_clean [OF r] and f2 = check_max_bytes_frame [OF m]
  have "ps_vector_chunks p1 \<noteq> 0" using f1 assms(3) by simp
  then have "(ucast chunks :: u16) \<noteq> 0" by (rule check_range_u16 [OF c assms(2)])
  moreover have "ps_chunk_size p1 \<noteq> 0" using f1 assms(4) by simp
  moreover have "\<not> dlt fraction (Fin 0) \<and> \<not> dlt (Fin 1) fraction"
    using OptionalDouble_clean [OF d] f1 assms(5) fraction_default by auto
  ultimately show ?thesis using f2 z by (simp add: pattern_sound_def)
qed

lemma check_pattern_clean:
  assumes "check_pattern J tj base rate default_PatternSpec = Inr (p, [])" "js_ints_agree J"
  shows "pattern_sound rate p"
proof -
  have d: "ps_vector_chunks default_PatternSpec = 8" "ps_chunk_size default_PatternSpec = 2 ^ 20"
    by (simp_all add: default_PatternSpec_def)
  obtain pj p0 where "check_pattern_sizes J pj base rate p0 = Inr (p, [])"
      "ps_vector_chunks p0 = 8" "ps_chunk_size p0 = 2 ^ 20"
      "ps_vector_fraction p0 = ps_vector_fraction default_PatternSpec"
    using assms(1) d unfolding check_pattern_def by (auto simp: ck_clean split: option.splits if_splits)
  then show ?thesis using assms(2) by (intro check_pattern_sizes_clean)
qed

definition target_sound :: "TargetSpec \<Rightarrow> bool" where
  "target_sound t \<longleftrightarrow> ts_name t \<noteq> [] \<and> take 7 (ts_endpoint t) = ''root://'' \<and> ts_files t \<noteq> []
     \<and> 1 \<le> unat (ts_max_inflight t) \<and> unat (ts_max_inflight t) \<le> 100000
     \<and> pattern_sound (ts_target_rate_bytes_per_s t) (ts_pattern t)"

lemma check_inflight:
  assumes "check_range J obj key path 100000 message 16 = Inr (n, [])" "js_ints_agree J"
  shows "1 \<le> unat (ucast n :: u32) \<and> unat (ucast n :: u32) \<le> 100000"
proof -
  have "1 \<le> uint n \<and> uint n \<le> 100000" using check_range_clean [OF assms] by auto
  then show ?thesis using unat_ucast_small32 [of n] by (simp add: uint_unat_u64)
qed

lemma check_target_clean:
  assumes "check_target E tj dir base names = Inr ((t, names'), [])" "js_ints_agree (we_json E)"
  shows "target_sound t \<and> ts_name t \<notin> set names \<and> names' = ts_name t # names"
proof -
  obtain name nm endpoint filelist input files ri rate n pattern where
      a: "check_name (we_json E) tj base names = Inr ((name, nm), [])"
    and b: "check_endpoint (we_json E) tj base = Inr (endpoint, [])"
    and c: "check_filelist E tj dir base = Inr ((filelist, input, files), [])"
    and d: "check_range (we_json E) tj ''max_inflight'' (base @ ''.max_inflight'') 100000
              ''must be an integer in [1, 100000]'' 16 = Inr (n, [])"
    and e: "check_pattern (we_json E) tj base rate default_PatternSpec = Inr (pattern, [])"
    and t: "t = \<lparr> ts_name = name, ts_endpoint = endpoint, ts_filelist = filelist,
        ts_filelist_input = input, ts_files = files, ts_target_rate_input = ri,
        ts_target_rate_bytes_per_s = rate, ts_max_inflight = ucast n, ts_pattern = pattern \<rparr>" "names' = nm"
    using assms(1) unfolding check_target_def Let_def
    by (simp add: ck_clean split: prod.splits) blast
  show ?thesis
    using check_name_clean [OF a] check_endpoint_clean [OF b] check_filelist_clean [OF c]
      check_inflight [OF d assms(2)] check_pattern_clean [OF e assms(2)]
    by (auto simp: t target_sound_def dest: LoadFileList_nonempty)
qed

lemma check_each_clean:
  "check_each E dir idx names tjs = Inr (ts, []) \<Longrightarrow> js_ints_agree (we_json E) \<Longrightarrow>
     length ts = length tjs \<and> (\<forall>t \<in> set ts. target_sound t) \<and> distinct (map ts_name ts)
     \<and> set (map ts_name ts) \<inter> set names = {}"
proof (induction tjs arbitrary: idx names ts)
  case Nil
  then show ?case by (simp add: ck_clean)
next
  case (Cons tj tjs)
  obtain base t nm us where
      a: "check_target E tj dir base names = Inr ((t, nm), [])"
    and b: "check_each E dir (idx + 1) nm tjs = Inr (us, [])" "ts = t # us"
    using Cons.prems(1) by (auto simp: ck_clean Let_def split: if_splits)
  from check_target_clean [OF a Cons.prems(2)] Cons.IH [OF b(1) Cons.prems(2)] b(2)
  show ?case by auto
qed

lemma cast_u64_fault: "cast_u64 d = Inl e \<Longrightarrow> e = Undefined_behaviour"
  by (cases d) (auto split: if_splits)

lemma pattern_sound_refuses:
  assumes "pattern_sound (ts_target_rate_bytes_per_s t) (ts_pattern t)"
    "rc_target_rate_bytes_per_s cfg = rc_target_rate_bytes_per_s (ToRunConfig wl t)"
    "rc_max_bytes_auto cfg = rc_max_bytes_auto (ToRunConfig wl t)"
    "rc_max_bytes cfg = rc_max_bytes (ToRunConfig wl t)"
  shows "ResolveRunConfig cfg \<noteq> Inl (Runtime_error m)"
proof
  assume r: "ResolveRunConfig cfg = Inl (Runtime_error m)"
  have "rc_target_rate_bytes_per_s cfg \<noteq> 0"
  proof
    assume "rc_target_rate_bytes_per_s cfg = 0"
    then show False using assms r by (simp add: pattern_sound_def ResolveRunConfig_def ToRunConfig_def)
  qed
  then show False using r
    by (auto simp: ResolveRunConfig_def ComputeAutoMaxBytes_def cxx_res Let_def
        dest: cast_u64_fault split: if_splits)
qed

lemmas pattern_sound_resolves = pattern_sound_refuses [OF _ refl refl refl]

lemma duration_default: "\<not> dle (wl_duration_s default_WorkloadSpec) (Fin 0)"
  by code_simp

lemma check_workload_clean:
  assumes "check_workload E doc dir = Inr (wl, [])" "js_ints_agree (we_json E)"
  shows "wl_run_id wl \<noteq> [] \<and> \<not> dle (wl_duration_s wl) (Fin 0) \<and> wl_targets wl \<noteq> []
    \<and> (\<forall>t \<in> set (wl_targets wl). target_sound t) \<and> distinct (map ts_name (wl_targets wl))"
proof -
  let ?J = "we_json E"
  obtain v run_id w seed mode tuning sinks targets where
      a: "check_run_id ?J doc (wl_run_id default_WorkloadSpec) = Inr (run_id, [])"
    and b: "check_duration ?J doc (default_WorkloadSpec \<lparr> wl_schema_version := v, wl_run_id := run_id \<rparr>) = Inr (w, [])"
    and c: "check_targets E doc dir = Inr (targets, [])"
    and w: "wl = w \<lparr> wl_seed := seed, wl_auth_mode := mode, wl_client_tuning := tuning,
             wl_sinks := sinks, wl_targets := targets \<rparr>"
    using assms(1) unfolding check_workload_def Let_def ck_if_clean ck_bind_clean ck_return_clean by blast
  have "run_id \<noteq> []" using a by (auto simp: check_run_id_def RequireString_def ck_clean split: option.splits if_splits)
  moreover have "wl_run_id w = run_id \<and> \<not> dle (wl_duration_s w) (Fin 0)"
    using b duration_default by (auto simp: check_duration_def check_duration_text_def RequireString_def ck_clean split: option.splits if_splits)
  moreover obtain tjs where "check_each E dir 0 [] tjs = Inr (targets, [])" "tjs \<noteq> []"
    using c by (auto simp: check_targets_def ck_clean Let_def split: option.splits if_splits)
  then have "targets \<noteq> [] \<and> (\<forall>t \<in> set targets. target_sound t) \<and> distinct (map ts_name targets)"
    using check_each_clean [OF _ assms(2)] by fastforce
  ultimately show ?thesis by (simp add: w)
qed

lemma ValidateWorkloadJson_ok:
  assumes "ValidateWorkloadJson E doc dir = Inr r"
  shows "vr_ok r = (vr_issues r = [])"
    "vr_ok r \<Longrightarrow> check_workload E doc dir = Inr (vr_resolved r, [])"
  using assms by (auto simp: ValidateWorkloadJson_def failed_result_def cxx_res Let_def split: if_splits)

lemma auto_rate_resolves:
  assumes "rc_max_bytes_auto cfg \<longrightarrow> unat (rc_target_rate_bytes_per_s cfg) \<le> 2 ^ 60"
    "\<And>m. ResolveRunConfig cfg \<noteq> Inl (Runtime_error m)"
  shows "\<exists>n. ResolveRunConfig cfg = Inr (cfg \<lparr> rc_max_bytes := n \<rparr>)"
proof (cases "rc_target_rate_bytes_per_s cfg \<noteq> 0 \<and> rc_max_bytes_auto cfg")
  case True
  then show ?thesis using ComputeAutoMaxBytes_nat [of cfg] assms(1) by (auto simp: ResolveRunConfig_def)
next
  case False
  moreover have "\<not> (rc_target_rate_bytes_per_s cfg = 0 \<and> (rc_max_bytes_auto cfg \<or> rc_max_bytes cfg = 0))"
    using assms(2) ResolveRunConfig_spec [of cfg] by blast
  ultimately have "ResolveRunConfig cfg = Inr (cfg \<lparr> rc_max_bytes := rc_max_bytes cfg \<rparr>)"
    by (auto simp: ResolveRunConfig_def)
  then show ?thesis by blast
qed


text \<open>C19. A document the validator accepts is runnable: it reported no issue, the run id and the duration
  are usable, the targets have distinct names, and the configuration made of each target has a root
  URL, files, between 1 and 100000 sessions and non-empty reads, and \<open>ResolveRunConfig\<close> does not turn it down; it
  resolves, except that an automatic \<^verbatim>\<open>max_bytes\<close> at a rate above 2^60 bytes per second may be a conversion
  that C++ leaves undefined (\<open>huge_rate_undefined\<close>): the validator has no upper limit for the rate.\<close>

theorem validated_workload_runs:
  assumes "ValidateWorkloadJson E doc dir = Inr r" "vr_ok r" "js_ints_agree (we_json E)"
  shows "let wl = vr_resolved r in
    vr_issues r = [] \<and> wl_run_id wl \<noteq> [] \<and> \<not> dle (wl_duration_s wl) (Fin 0)
    \<and> wl_targets wl \<noteq> [] \<and> distinct (map ts_name (wl_targets wl))
    \<and> (\<forall>t \<in> set (wl_targets wl). let cfg = ToRunConfig wl t in
         take 7 (rc_endpoint cfg) = ''root://'' \<and> rc_files cfg \<noteq> []
         \<and> 1 \<le> unat (rc_max_inflight cfg) \<and> unat (rc_max_inflight cfg) \<le> 100000
         \<and> rc_chunk_size cfg \<noteq> 0 \<and> rc_vector_chunks cfg \<noteq> 0
         \<and> (\<forall>m. ResolveRunConfig cfg \<noteq> Inl (Runtime_error m))
         \<and> (rc_max_bytes_auto cfg \<and> 2 ^ 60 < unat (rc_target_rate_bytes_per_s cfg)
             \<or> (\<exists>n. ResolveRunConfig cfg = Inr (cfg \<lparr> rc_max_bytes := n \<rparr>))))"
proof -
  note ok = ValidateWorkloadJson_ok [OF assms(1)]
  note c = check_workload_clean [OF ok(2) [OF assms(2)] assms(3)]
  have "take 7 (rc_endpoint (ToRunConfig wl t)) = ''root://'' \<and> rc_files (ToRunConfig wl t) \<noteq> []
      \<and> 1 \<le> unat (rc_max_inflight (ToRunConfig wl t)) \<and> unat (rc_max_inflight (ToRunConfig wl t)) \<le> 100000
      \<and> rc_chunk_size (ToRunConfig wl t) \<noteq> 0 \<and> rc_vector_chunks (ToRunConfig wl t) \<noteq> 0
      \<and> (\<forall>m. ResolveRunConfig (ToRunConfig wl t) \<noteq> Inl (Runtime_error m))"
    if "target_sound t" for t wl
    using that pattern_sound_resolves [of t wl]
    by (simp add: target_sound_def pattern_sound_def ToRunConfig_def)
  then show ?thesis using ok(1) assms(2) c auto_rate_resolves by (simp add: Let_def not_less) (meson not_less)
qed

section \<open>An example\<close>

definition sample_workload :: jval where
  "sample_workload = JObject
     [(''auth'', JObject [(''mode'', JString ''x509'')]), (''duration'', JString ''5''),
      (''run_id'', JString ''r''), (''schema_version'', JInt 1),
      (''targets'', JArray [JObject
         [(''endpoint'', JString ''root://h''), (''filelist'', JString ''f''), (''max_inflight'', JInt 4),
          (''name'', JString ''t''),
          (''pattern'', JObject [(''max_bytes'', JString ''9''), (''type'', JString ''random'')])]])]"

definition sample_env :: "jval wl_env" where
  "sample_env = \<lparr> we_json = jval_api, we_file = (\<lambda>_. Some ''/a''), we_sha256 = (\<lambda>_. Inr []) \<rparr>"

lemma sample_accepted: "case ValidateWorkloadJson sample_env sample_workload ''.'' of
    Inr r \<Rightarrow> vr_ok r \<and> length (wl_targets (vr_resolved r)) = 1 | Inl e \<Rightarrow> False"
  by code_simp

lemma validated_workload_runs_witness:
  "\<exists>r. ValidateWorkloadJson sample_env sample_workload ''.'' = Inr r
     \<and> distinct (map ts_name (wl_targets (vr_resolved r)))"
proof -
  obtain r where r: "ValidateWorkloadJson sample_env sample_workload ''.'' = Inr r" "vr_ok r"
    using sample_accepted by (auto split: sum.splits)
  have "js_ints_agree (we_json sample_env)" by (simp add: sample_env_def jval_ints)
  from validated_workload_runs [OF r this] r(1) show ?thesis by (simp add: Let_def)
qed

text \<open>An absurd rate is accepted, and the automatic byte cap is then computed with a conversion that is undefined.\<close>

definition huge_workload :: jval where
  "huge_workload = JObject
     [(''auth'', JObject [(''mode'', JString ''x509'')]), (''duration'', JString ''5''),
      (''run_id'', JString ''r''), (''schema_version'', JInt 1),
      (''targets'', JArray [JObject
         [(''endpoint'', JString ''root://h''), (''filelist'', JString ''f''), (''max_inflight'', JInt 4),
          (''name'', JString ''t''), (''target_rate'', JString ''100000000000Gbps''),
          (''pattern'', JObject [(''max_bytes'', JString ''auto''), (''type'', JString ''random'')])]])]"

lemma huge_rate_undefined: "case ValidateWorkloadJson sample_env huge_workload ''.'' of
    Inr r \<Rightarrow> vr_ok r \<and> list_all (\<lambda>t. ResolveRunConfig (ToRunConfig (vr_resolved r) t) = Inl Undefined_behaviour)
        (wl_targets (vr_resolved r)) \<and> wl_targets (vr_resolved r) \<noteq> []
  | Inl e \<Rightarrow> False"
  by code_simp

text \<open>The version is narrowed to 32 bits before it is compared: a version of $2^{32} + 1$ is taken for 1.\<close>

lemma schema_version_narrowed:
  "check_schema_version jval_api (JObject [(''schema_version'', JInt 4294967297)]) 1 = ck_return 1"
  by code_simp

text \<open>A seed of $2^{63}$ or more is an unsigned number, and reported as negative.\<close>

lemma large_seed_rejected:
  "OptionalUint jval_api (JObject [(''seed'', JUnsigned 0x8000000000000000)]) ''seed'' ''seed'' 1
     = AddIssue ''seed'' ''must be a non-negative integer'' 1"
  by code_simp

end
