(* ===== verification/AuthCheck.thy ===== *)
theory AuthCheck
  imports WorkloadSound
begin

text \<open>
  \<^verbatim>\<open>src/auth_check.cc\<close>: the proxy certificate is there, private and lives long enough; and
  \<^verbatim>\<open>src/workload_run_command.cc\<close>: validate a workload, pick a target, check the credentials, run. The file
  system and OpenSSL are arguments.
\<close>

section \<open>Credentials\<close>

text \<open>What the host says: \<^verbatim>\<open>X509_USER_PROXY\<close>, the effective user, and of a path whether it exists, is a
  regular file, its group and other write bits (\<open>None\<close> where \<^verbatim>\<open>status\<close> fails), whether OpenSSL can open
  it, and the certificate in it (\<open>None\<close> if there is none) with the days and seconds
  \<^verbatim>\<open>ASN1_TIME_diff\<close> gives for its end, if it can.\<close>

record cred_env =
  ce_proxy_var :: "string option"
  ce_euid :: nat
  ce_exists :: "string \<Rightarrow> bool"
  ce_regular :: "string \<Rightarrow> bool"
  ce_writable :: "string \<Rightarrow> (bool \<times> bool) option"
  ce_opens :: "string \<Rightarrow> bool"
  ce_certificate :: "string \<Rightarrow> (int \<times> int) option option"

record AuthCheckResult =
  ac_ok :: bool
  ac_issues :: "ValidationIssue list"
  ac_proxy_path :: string
  ac_remaining_s :: double
  ac_loose_permissions :: bool

definition kCredentialSafetyMarginSec :: double where
  "kCredentialSafetyMarginSec = Fin 300"

definition RemainingSeconds :: "(int \<times> int) option \<Rightarrow> double" where
  "RemainingSeconds diff = (case diff of None \<Rightarrow> Fin 0
     | Some (day, sec) \<Rightarrow> dadd (dmul (d_of_int day) (Fin 86400)) (d_of_int sec))"

definition DefaultX509ProxyPath :: "cred_env \<Rightarrow> string" where
  "DefaultX509ProxyPath C =
     (case ce_proxy_var C of
        Some (c # cs) \<Rightarrow> c # cs
      | _ \<Rightarrow> ''/tmp/x509up_u'' @ nat_to_dec (ce_euid C))"

definition ac_issue :: "string \<Rightarrow> string \<Rightarrow> AuthCheckResult \<Rightarrow> AuthCheckResult" where
  "ac_issue field message r = r \<lparr> ac_issues := ac_issues r @ [\<lparr> vi_field = field, vi_message = message \<rparr>] \<rparr>"

text \<open>The part after the permissions: the certificate and its lifetime.\<close>

definition check_lifetime :: "cred_env \<Rightarrow> double \<Rightarrow> AuthCheckResult \<Rightarrow> AuthCheckResult" where
  "check_lifetime C required r =
     (let path = ac_proxy_path r in
      if \<not> ce_opens C path then ac_issue ''auth.proxy'' ''cannot open credential file for reading'' r
      else case ce_certificate C path of
        None \<Rightarrow> ac_issue ''auth.proxy'' ''cannot parse X509 certificate/proxy PEM'' r
      | Some diff \<Rightarrow>
          let r = r \<lparr> ac_remaining_s := RemainingSeconds diff \<rparr> in
          if dle (ac_remaining_s r) (Fin 0) then ac_issue ''auth.lifetime'' ''credential expired'' r
          else if dlt (ac_remaining_s r) (dadd required kCredentialSafetyMarginSec)
          then ac_issue ''auth.lifetime'' (''credential remaining lifetime is shorter than workload duration + ''
                 @ nat_to_dec 300 @ ''s safety margin'') r
          else if ac_loose_permissions r then r
          else r \<lparr> ac_ok := True \<rparr>)"

definition chosen_path :: "cred_env \<Rightarrow> string \<Rightarrow> string" where
  "chosen_path C override = (if override = [] then DefaultX509ProxyPath C else override)"

definition CheckX509Credentials :: "cred_env \<Rightarrow> double \<Rightarrow> string \<Rightarrow> AuthCheckResult" where
  "CheckX509Credentials C required override =
     (let path = chosen_path C override;
          r = \<lparr> ac_ok = False, ac_issues = [], ac_proxy_path = path, ac_remaining_s = Fin 0,
                ac_loose_permissions = False \<rparr>
      in if \<not> ce_exists C path
         then ac_issue ''auth.proxy'' ''credential file not found (set X509_USER_PROXY or create default proxy)'' r
         else if \<not> ce_regular C path
         then ac_issue ''auth.proxy'' ''credential path is not a regular file'' r
         else case ce_writable C path of
           None \<Rightarrow> ac_issue ''auth.proxy'' ''cannot stat credential file'' r
         | Some (group_write, others_write) \<Rightarrow>
             if group_write \<or> others_write
             then check_lifetime C required (ac_issue ''auth.proxy''
                    ''credential file is group/other-writable; tighten permissions'' (r \<lparr> ac_loose_permissions := True \<rparr>))
             else check_lifetime C required r)"

definition lives_long_enough :: "cred_env \<Rightarrow> double \<Rightarrow> string \<Rightarrow> bool" where
  "lives_long_enough C required path \<longleftrightarrow> (case ce_certificate C path of None \<Rightarrow> False
     | Some diff \<Rightarrow> \<not> dle (RemainingSeconds diff) (Fin 0)
         \<and> \<not> dlt (RemainingSeconds diff) (dadd required kCredentialSafetyMarginSec))"

lemma check_lifetime_ok:
  "\<not> ac_ok r \<Longrightarrow> ac_ok (check_lifetime C required r) = (ce_opens C (ac_proxy_path r)
     \<and> lives_long_enough C required (ac_proxy_path r) \<and> \<not> ac_loose_permissions r)"
  by (simp add: check_lifetime_def lives_long_enough_def ac_issue_def Let_def split: option.split)

lemma check_lifetime_issues:
  "ac_issues (check_lifetime C required r) = [] \<longleftrightarrow> ac_issues r = [] \<and> ce_opens C (ac_proxy_path r)
     \<and> lives_long_enough C required (ac_proxy_path r)"
  by (simp add: check_lifetime_def lives_long_enough_def ac_issue_def Let_def split: option.split)

text \<open>Credentials are accepted exactly when the proxy is an existing regular file that neither group nor
  others can write, holds a certificate, and the certificate has more than zero and at least the
  workload's duration plus the safety margin to live; otherwise an issue says why not.\<close>

lemma credentials_accepted_iff:
  "let path = chosen_path C override;
       r = CheckX509Credentials C required override
   in ac_ok r = (ce_exists C path \<and> ce_regular C path \<and> ce_writable C path = Some (False, False)
        \<and> ce_opens C path \<and> lives_long_enough C required path)
      \<and> ac_ok r = (ac_issues r = [])"
  by (cases "ce_writable C (chosen_path C override)")
    (simp_all add: CheckX509Credentials_def check_lifetime_ok check_lifetime_issues ac_issue_def Let_def
      split: prod.split)

section \<open>Running a workload\<close>

record WorkloadRunOptions =
  wo_workload_path :: string
  wo_target :: string
  wo_dry_run :: bool
  wo_skip_auth_check :: bool
  wo_site_map_path :: string
  wo_sitename_query :: bool

definition issue_line :: "ValidationIssue \<Rightarrow> string" where
  "issue_line i = (if vi_field i = [] then ''error: '' @ vi_message i else vi_field i @ '': '' @ vi_message i)"

definition select_target :: "TargetSpec list \<Rightarrow> string \<Rightarrow> string + TargetSpec" where
  "select_target targets wanted =
     (if wanted \<noteq> [] then
        (case find (\<lambda>t. ts_name t = wanted) targets of
           Some t \<Rightarrow> Inr t
         | None \<Rightarrow> Inl (''target: unknown target name '' @ quoted wanted))
      else case targets of
        [t] \<Rightarrow> Inr t
      | [] \<Rightarrow> Inl ''targets: no targets to run''
      | _ \<Rightarrow> Inl (''targets: --target required when workload has '' @ nat_to_dec (length targets) @ '' targets''))"

text \<open>Everything before the engine: the lines on the error stream, or the configuration to run.\<close>

definition PrepareWorkload ::
  "'j wl_env \<Rightarrow> cred_env \<Rightarrow> WorkloadRunOptions \<Rightarrow> (string list + RunConfig) res" where
  "PrepareWorkload E C opts =
     res_bind (ValidateWorkloadFile E (wo_workload_path opts)) (\<lambda>validated. Inr
       (if \<not> vr_ok validated then Inl (map issue_line (vr_issues validated))
        else let wl = vr_resolved validated in
          case select_target (wl_targets wl) (wo_target opts) of
            Inl line \<Rightarrow> Inl [line]
          | Inr t \<Rightarrow>
              let cfg = (ToRunConfig wl t) \<lparr> rc_dry_run := wo_dry_run opts,
                     rc_workload_hash := vr_workload_hash validated,
                     rc_workload_resolved_json := vr_canonical_json validated,
                     rc_sitename_query := wo_sitename_query opts \<rparr>;
                  cfg = (if wo_site_map_path opts \<noteq> [] then cfg \<lparr> rc_site_map_path := wo_site_map_path opts \<rparr> else cfg)
              in if wo_skip_auth_check opts then Inr cfg
                 else if wl_auth_mode wl \<noteq> ''x509'' then Inl [''auth.mode: unsupported auth mode for run'']
                 else let auth = CheckX509Credentials C (wl_duration_s wl) []
                      in if ac_ok auth then Inr cfg
                         else Inl (map (\<lambda>i. vi_field i @ '': '' @ vi_message i) (ac_issues auth))))"

text \<open>C20. The engine starts only on a checked workload: the document was accepted, the target is the one
  asked for (or the only one), the credentials were accepted for the workload's duration unless the
  check is skipped, and the configuration is the target's, with the hash of the accepted document;
  \<open>ResolveRunConfig\<close> does not turn it down.\<close>

theorem engine_starts_checked:
  assumes "PrepareWorkload E C opts = Inr (Inr cfg)" "js_ints_agree (we_json E)"
  shows "\<exists>r t. ValidateWorkloadFile E (wo_workload_path opts) = Inr r \<and> vr_ok r
    \<and> t \<in> set (wl_targets (vr_resolved r))
    \<and> (if wo_target opts = [] then wl_targets (vr_resolved r) = [t] else ts_name t = wo_target opts)
    \<and> (wo_skip_auth_check opts \<or> ac_ok (CheckX509Credentials C (wl_duration_s (vr_resolved r)) []))
    \<and> rc_endpoint cfg = ts_endpoint t \<and> rc_files cfg = ts_files t \<and> rc_files cfg \<noteq> []
    \<and> rc_workload_hash cfg = vr_workload_hash r
    \<and> (\<forall>m. ResolveRunConfig cfg \<noteq> Inl (Runtime_error m))"
proof -
  obtain r where r: "ValidateWorkloadFile E (wo_workload_path opts) = Inr r" "vr_ok r"
    using assms(1) by (auto simp: PrepareWorkload_def cxx_res split: if_splits)
  obtain t where t: "select_target (wl_targets (vr_resolved r)) (wo_target opts) = Inr t"
    using assms(1) r by (auto simp: PrepareWorkload_def Let_def split: sum.splits)
  define cfg0 where "cfg0 = ToRunConfig (vr_resolved r) t"
  have c: "rc_endpoint cfg = rc_endpoint cfg0" "rc_files cfg = rc_files cfg0"
      "rc_target_rate_bytes_per_s cfg = rc_target_rate_bytes_per_s cfg0"
      "rc_max_bytes_auto cfg = rc_max_bytes_auto cfg0" "rc_max_bytes cfg = rc_max_bytes cfg0"
      "rc_workload_hash cfg = vr_workload_hash r"
      "wo_skip_auth_check opts \<or> ac_ok (CheckX509Credentials C (wl_duration_s (vr_resolved r)) [])"
    using assms(1) r t by (auto simp: PrepareWorkload_def Let_def cfg0_def split: if_splits)
  obtain doc dir where "ValidateWorkloadJson E doc dir = Inr r"
    using r by (auto simp: ValidateWorkloadFile_def failed_result_def split: option.splits sum.splits fault.splits if_splits)
  note v = ValidateWorkloadJson_ok(2) [OF this r(2)]
  have m: "t \<in> set (wl_targets (vr_resolved r))"
    "if wo_target opts = [] then wl_targets (vr_resolved r) = [t] else ts_name t = wo_target opts"
    using t by (auto simp: select_target_def dest: find_SomeD split: option.splits list.splits if_splits)
  have s: "target_sound t" using check_workload_clean [OF v assms(2)] m(1) by blast
  have "ResolveRunConfig cfg \<noteq> Inl (Runtime_error e)" for e
    using pattern_sound_refuses [OF _ c(3-5) [unfolded cfg0_def]] s by (simp add: target_sound_def)
  moreover have "rc_endpoint cfg0 = ts_endpoint t" "rc_files cfg0 = ts_files t"
    by (simp_all add: cfg0_def ToRunConfig_def)
  ultimately show ?thesis using r m c s by (intro exI [of _ r] exI [of _ t]) (simp add: target_sound_def)
qed

definition sample_cred_env :: cred_env where
  "sample_cred_env = \<lparr> ce_proxy_var = None, ce_euid = 0, ce_exists = (\<lambda>_. False), ce_regular = (\<lambda>_. True),
     ce_writable = (\<lambda>_. None), ce_opens = (\<lambda>_. True), ce_certificate = (\<lambda>_. None) \<rparr>"

definition sample_wl_env :: "jval wl_env" where
  "sample_wl_env = \<lparr> we_json = jval_api \<lparr> js_parse := (\<lambda>_. Inr sample_workload) \<rparr>,
     we_file = (\<lambda>_. Some ''/a''), we_sha256 = (\<lambda>_. Inr []) \<rparr>"

definition sample_wo :: WorkloadRunOptions where
  "sample_wo = \<lparr> wo_workload_path = ''w'', wo_target = ''t'', wo_dry_run = True, wo_skip_auth_check = True,
     wo_site_map_path = [], wo_sitename_query = False \<rparr>"

lemma sample_prepared: "case PrepareWorkload sample_wl_env sample_cred_env sample_wo of
    Inr (Inr cfg) \<Rightarrow> True | _ \<Rightarrow> False"
  by code_simp

lemma engine_starts_checked_witness:
  "\<exists>cfg. PrepareWorkload sample_wl_env sample_cred_env sample_wo = Inr (Inr cfg) \<and> rc_files cfg \<noteq> []"
proof -
  obtain cfg where c: "PrepareWorkload sample_wl_env sample_cred_env sample_wo = Inr (Inr cfg)"
    using sample_prepared by (auto split: sum.splits)
  have "js_ints_agree (we_json sample_wl_env)"
    using jval_ints by (simp add: sample_wl_env_def js_ints_agree_def)
  from engine_starts_checked [OF c this] c show ?thesis by blast
qed

end
