(* ===== verification/Engine.thy ===== *)
theory Engine
  imports Units Inflight Registry SessionProtocol
begin

text \<open>
  \<^verbatim>\<open>src/run_command.cc\<close>, \<^verbatim>\<open>RunEngine\<close>: the paced loop that admits sessions, pays for their
  reads and drains them, as a machine over the components it shares with the threads around it. One
  action is one atomic step of one thread: the main thread between two accesses to shared state
  (\<open>engine_pc\<close> is its program counter), the XrdCl thread that runs a response handler of a session, the
  watchdog, the snapshot timer, the site thread, the XrdCl log.

  A handler runs under its session's mutex and calls the engine back from there (refund, read
  latency, completion): those calls are the effects its step has appended to the session's log, carried
  out one by one (\<open>Perform\<close>) before anything else can enter the session. \<open>on_ready\<close> is called after the
  mutex is released; it tests \<^verbatim>\<open>stop_pace\<close> and then pushes, two steps that others may come between.
\<close>

section \<open>State\<close>

text \<open>How far the completion callback of a session has come.\<close>

datatype done_phase = Running | Reported | Uncounted | Shown | Freed

text \<open>Where \<open>on_ready\<close> of a session stands.\<close>

datatype handing = Idle | Testing | Pushing

record 'r engine_session =
  es_item :: WorkItem
  es_sys :: "'r session_sys"
  es_seen :: nat
  es_phase :: done_phase
  es_handing :: handing

datatype engine_pc =
    AtTop | Waiting
  | Picked nat | Pricing nat | Refused nat u64 | Charged nat
  | AtAdmit | Trying | HasSlot | Drawn WorkItem | NoTokens u64
  | Admitted WorkItem | Counted WorkItem | Starting WorkItem
  | Pausing u64 | Calling nat
  | Stopping | Closing | ClosingCall nat | DrainWait int | Finished

record 'r engine =
  en_cfg :: RunConfig
  en_t0 :: int
  en_deadline :: int
  en_bucket :: TokenBucket
  en_sem :: InFlightSemaphore
  en_sched :: "'r Scheduler"
  en_registry :: MetricsRegistry
  en_live :: u64
  en_fail_count :: u64
  en_wall_timeout_count :: u64
  en_stop_pace :: bool
  en_ready :: "nat list"
  en_pc :: engine_pc
  en_sessions :: "'r engine_session list"
  en_errlog :: "string list"

definition DefaultJobId :: "string option \<Rightarrow> string" where
  "DefaultJobId name = (case name of None \<Rightarrow> ''local''
     | Some s \<Rightarrow> (let h = takeWhile (\<lambda>c. code_of c \<noteq> 0) (take 255 s) in if h = [] then ''local'' else h))"

definition the_job_id :: "string option \<Rightarrow> RunConfig \<Rightarrow> string" where
  "the_job_id hostname cfg = (if rc_job_id cfg = [] then DefaultJobId hostname else rc_job_id cfg)"

text \<open>A length of time in seconds as a count of nanoseconds; undefined where it does not fit.\<close>

definition ns_of_seconds :: "double \<Rightarrow> int res" where
  "ns_of_seconds = sleep_ns"

text \<open>The engine when the loop is first reached. \<open>t0\<close> is the clock; the bucket has read it before.\<close>

definition new_engine :: "'r rng_api \<Rightarrow> string option \<Rightarrow> RunConfig \<Rightarrow> int \<Rightarrow> 'r engine res" where
  "new_engine G hostname cfg t0 = res_bind (ns_of_seconds (rc_duration_s cfg)) (\<lambda>d. Inr
     \<lparr> en_cfg = cfg, en_t0 = t0, en_deadline = t0 + d,
       en_bucket = new_TokenBucket (rc_target_rate_bytes_per_s cfg) (ComputeBucketCapacity cfg) t0,
       en_sem = new_InFlightSemaphore (rc_max_inflight cfg), en_sched = new_Scheduler G cfg,
       en_registry = mr_SetConfigGauges (rc_target_rate_bytes_per_s cfg) (rc_max_inflight cfg)
         (mr_SetLabels hostname (rc_run_id cfg) (the_job_id hostname cfg) (rc_target cfg) (rc_endpoint cfg)
           new_MetricsRegistry),
       en_live = 0, en_fail_count = 0, en_wall_timeout_count = 0, en_stop_pace = False, en_ready = [],
       en_pc = AtTop, en_sessions = [], en_errlog = [] \<rparr>)"

section \<open>Sessions\<close>

definition es_of :: "'r engine \<Rightarrow> nat \<Rightarrow> 'r engine_session" where
  "es_of e i = en_sessions e ! i"

definition set_es :: "nat \<Rightarrow> 'r engine_session \<Rightarrow> 'r engine \<Rightarrow> 'r engine" where
  "set_es i x e = e \<lparr> en_sessions := (en_sessions e)[i := x] \<rparr>"

definition set_pc :: "engine_pc \<Rightarrow> 'r engine \<Rightarrow> 'r engine" where
  "set_pc p e = e \<lparr> en_pc := p \<rparr>"

definition es_log :: "'r engine_session \<Rightarrow> effect list" where
  "es_log x = fs_log (ss_fs (es_sys x))"

text \<open>No call is inside the session: all its effects are carried out.\<close>

definition quiet :: "'r engine_session \<Rightarrow> bool" where
  "quiet x \<longleftrightarrow> es_seen x = length (es_log x)"

definition with_fs :: "'r FileSession \<Rightarrow> hand \<Rightarrow> 'r engine_session \<Rightarrow> 'r engine_session" where
  "with_fs s h x = x \<lparr> es_sys := es_sys x \<lparr> ss_fs := s, ss_hand := h \<rparr> \<rparr>"

text \<open>A response of XrdCl with the arguments of its handler.\<close>

datatype response =
    ROpen xrd_status "nat option" string
  | RStat xrd_status u64
  | RRead xrd_status "u64 option"
  | RClose xrd_status

fun respond :: "'r rng_api \<Rightarrow> session_env \<Rightarrow> response \<Rightarrow> 'r session_sys \<Rightarrow> 'r session_sys option" where
  "respond G env (ROpen st hosts server) y =
     (if 0 < owed FnOpen (fs_log (ss_fs y)) then Some (y \<lparr> ss_fs := OnOpen env st hosts server (ss_fs y) \<rparr>) else None)"
| "respond G env (RStat st n) y =
     (if 0 < owed FnStat (fs_log (ss_fs y)) then Some (y \<lparr> ss_fs := OnStat G env st n (ss_fs y) \<rparr>) else None)"
| "respond G env (RRead st info) y =
     (if 0 < owed FnRead (fs_log (ss_fs y)) \<and> (case info of None \<Rightarrow> True | Some n \<Rightarrow> n \<le> fs_requested (ss_fs y))
      then let s = OnRead G env st info (ss_fs y)
           in Some (y \<lparr> ss_fs := s,
                ss_hand := (if readies (fs_log (ss_fs y)) < readies (fs_log s) then Queued else ss_hand y) \<rparr>)
      else None)"
| "respond G env (RClose st) y =
     (if 0 < owed FnClose (fs_log (ss_fs y)) then Some (y \<lparr> ss_fs := OnClose env st (ss_fs y) \<rparr>) else None)"

text \<open>\<^verbatim>\<open>FileSessionCloseNow\<close> and \<^verbatim>\<open>FileSessionIssueNext\<close> of a session the engine holds.\<close>

definition close_session :: "session_env \<Rightarrow> 'r engine_session \<Rightarrow> 'r engine_session" where
  "close_session env x = with_fs (CloseNow env (ss_fs (es_sys x))) NotReady x"

definition issue_session :: "'r rng_api \<Rightarrow> session_env \<Rightarrow> 'r engine_session \<Rightarrow> 'r engine_session" where
  "issue_session G env x = with_fs (IssueNextFromEngine G env (ss_fs (es_sys x))) NotReady x"

text \<open>\<^verbatim>\<open>StartFileSession\<close> with the operation's tokens prepaid.\<close>

definition start_session :: "'r rng_api \<Rightarrow> session_env \<Rightarrow> WorkItem \<Rightarrow> 'r engine_session" where
  "start_session G env item = \<lparr> es_item = item,
     es_sys = session_start G (wi_session item) True (wi_op_bytes item) env,
     es_seen = 0, es_phase = Running, es_handing = Idle \<rparr>"

section \<open>Callbacks\<close>

text \<open>\<^verbatim>\<open>session_done\<close>: the registry's part, with the error line of the first few failures.\<close>

definition base_name :: "string \<Rightarrow> string" where
  "base_name url = (if url = [] then ''(unknown)''
     else let file = (case str_rfind_char url (CHR ''/'') of None \<Rightarrow> url | Some p \<Rightarrow> drop (Suc p) url)
          in if file = [] then ''(unknown)'' else file)"

definition session_error_line :: "FileSessionResult \<Rightarrow> string" where
  "session_error_line r =
     ''session error: '' @ fr_error r
     @ '' data_server='' @ (if fr_data_server r = [] then ''(unknown)'' else fr_data_server r)
     @ '' file='' @ base_name (fr_url r)
     @ '' bytes_read='' @ nat_to_dec (unat (fr_bytes_read r)) @ '' ops='' @ nat_to_dec (unat (fr_ops r))
     @ '' open_ms='' @ fmt_f 0 (fr_open_ms r) @ '' total_s='' @ fmt_f 1 (fr_total_s r)"

definition report_done :: "FileSessionResult \<Rightarrow> 'r engine \<Rightarrow> 'r engine res" where
  "report_done r e =
     (if fr_ok r then
        res_bind (mr_ObserveSessionOk (fr_bytes_read r) (fr_ops r) (ddiv (fr_open_ms r) (Fin 1000))
            (ddiv (fr_ttfb_ms r) (Fin 1000)) (fr_read_s r) (d_of_u64 (of_nat (fr_open_hosts r)))
            (fr_data_server r) [] (en_registry e))
          (\<lambda>reg. Inr (e \<lparr> en_registry := reg \<rparr>))
      else
        let cls = ClassifyXRootDError (fr_status_code r) (fr_err_code r) (fr_error r);
            nth_fail = en_fail_count e + 1;
            nth_timeout = (if fr_timed_out r then en_wall_timeout_count e + 1 else 0)
        in Inr (e \<lparr> en_registry := mr_ObserveSessionFail cls (fr_data_server r) [] (en_registry e),
                   en_fail_count := nth_fail,
                   en_wall_timeout_count := (if fr_timed_out r then nth_timeout else en_wall_timeout_count e),
                   en_errlog := (if nth_fail \<le> 5 \<or> (fr_timed_out r \<and> nth_timeout \<le> 3)
                     then en_errlog e @ [session_error_line r] else en_errlog e) \<rparr>))"

text \<open>The next effect of the call that is inside session \<open>i\<close>; \<open>now\<close> is the time the bucket reads.\<close>

definition advance :: "nat \<Rightarrow> 'r engine \<Rightarrow> 'r engine" where
  "advance i e = set_es i (es_of e i \<lparr> es_seen := es_seen (es_of e i) + 1 \<rparr>) e"

definition set_phase :: "nat \<Rightarrow> done_phase \<Rightarrow> 'r engine \<Rightarrow> 'r engine" where
  "set_phase i p e = set_es i (es_of e i \<lparr> es_phase := p \<rparr>) e"

fun perform_done :: "nat \<Rightarrow> FileSessionResult \<Rightarrow> done_phase \<Rightarrow> 'r engine \<Rightarrow> 'r engine res" where
  "perform_done i r Running e = res_bind (report_done r e) (\<lambda>e. Inr (set_phase i Reported e))"
| "perform_done i r Reported e = Inr (set_phase i Uncounted (e \<lparr> en_live := en_live e - 1 \<rparr>))"
| "perform_done i r Uncounted e =
     Inr (set_phase i Shown (e \<lparr> en_registry := mr_SetInflight (en_live e) (en_registry e) \<rparr>))"
| "perform_done i r Shown e =
     Inr (advance i (set_phase i Freed (e \<lparr> en_sem := sem_Release (en_sem e) \<rparr>)))"
| "perform_done i r Freed e = Inr (advance i e)"

fun perform_effect :: "int \<Rightarrow> nat \<Rightarrow> effect \<Rightarrow> 'r engine \<Rightarrow> 'r engine res" where
  "perform_effect now i (RefundTokens n) e = Inr (advance i (e \<lparr> en_bucket := Refund (en_bucket e) now n \<rparr>))"
| "perform_effect now i (ReadOpDone op_s) e =
     res_bind (mr_ObserveReadOp op_s (en_registry e)) (\<lambda>reg. Inr (advance i (e \<lparr> en_registry := reg \<rparr>)))"
| "perform_effect now i Ready e =
     Inr (advance i (set_es i (es_of e i \<lparr> es_handing := Testing \<rparr>) e))"
| "perform_effect now i (Done r) e = perform_done i r (es_phase (es_of e i)) e"
| "perform_effect now i _ e = Inr (advance i e)"

definition perform :: "int \<Rightarrow> nat \<Rightarrow> 'r engine \<Rightarrow> 'r engine res option" where
  "perform now i e =
     (let x = es_of e i
      in if es_seen x < length (es_log x) then Some (perform_effect now i (es_log x ! es_seen x) e) else None)"

text \<open>The rest of \<open>on_ready\<close>. The final drain holds \<^verbatim>\<open>pace_mu\<close> throughout.\<close>

definition holds_pace_mu :: "engine_pc \<Rightarrow> bool" where
  "holds_pace_mu p = (case p of Closing \<Rightarrow> True | ClosingCall _ \<Rightarrow> True | _ \<Rightarrow> False)"

definition on_ready :: "session_env \<Rightarrow> nat \<Rightarrow> 'r engine \<Rightarrow> 'r engine option" where
  "on_ready env i e =
     (let x = es_of e i in case es_handing x of
        Idle \<Rightarrow> None
      | Testing \<Rightarrow>
          (if \<not> en_stop_pace e then Some (set_es i (x \<lparr> es_handing := Pushing \<rparr>) e)
           else if quiet x then Some (set_es i (close_session env (x \<lparr> es_handing := Idle \<rparr>)) e) else None)
      | Pushing \<Rightarrow>
          (if holds_pace_mu (en_pc e) then None
           else Some (set_es i (x \<lparr> es_handing := Idle \<rparr>) (e \<lparr> en_ready := en_ready e @ [i] \<rparr>))))"

section \<open>The main thread\<close>

text \<open>The locked region at the top of the loop, once there is work.\<close>

definition can_work :: "'r engine \<Rightarrow> bool" where
  "can_work e \<longleftrightarrow> en_ready e \<noteq> [] \<or> en_live e < ucast (rc_max_inflight (en_cfg e))"

definition pick :: "'r engine \<Rightarrow> 'r engine" where
  "pick e = (case en_ready e of [] \<Rightarrow> set_pc AtAdmit e | i # is \<Rightarrow> set_pc (Picked i) (e \<lparr> en_ready := is \<rparr>))"

definition drain_cap_s :: "RunConfig \<Rightarrow> double" where
  "drain_cap_s cfg = (if dlt (Fin 0) (rc_session_timeout_s cfg)
     then dmin kDrainWaitCapSec (dadd (rc_session_timeout_s cfg) kDrainTimeoutGraceSec) else kDrainWaitCapSec)"

definition pay_session :: "u64 \<Rightarrow> 'r engine_session \<Rightarrow> 'r engine_session" where
  "pay_session n x = x \<lparr> es_sys := es_sys x \<lparr> ss_hand := Paid n, ss_charged := ss_charged (es_sys x) + unat n \<rparr> \<rparr>"

definition drop_session :: "'r engine_session \<Rightarrow> 'r engine_session" where
  "drop_session x = x \<lparr> es_sys := es_sys x \<lparr> ss_hand := NotReady \<rparr> \<rparr>"

text \<open>A session from the ready list: drop it, close it, pay for it or put it back. The size of the next operation and the tokens
  for it are two calls in the code, taken here as one step: while the engine holds the session nothing reads for it.\<close>

definition price :: "session_env \<Rightarrow> int \<Rightarrow> nat \<Rightarrow> 'r engine \<Rightarrow> 'r engine" where
  "price env now i e =
     (let x = es_of e i; n = NextOpBytes (ss_fs (es_sys x))
      in if n = 0 then set_pc (Calling i) (set_es i (close_session env x) e)
         else let (granted, b) = TryAcquire (en_bucket e) now n; e = e \<lparr> en_bucket := b \<rparr>
              in if granted then set_pc (Charged i) (set_es i (pay_session n x) e)
                 else set_pc (Refused i n) e)"

text \<open>\<^verbatim>\<open>SecondsUntil\<close> and the conversion of the wait to a time; the wait itself ends at any time.\<close>

definition pause :: "int \<Rightarrow> u64 \<Rightarrow> 'r engine \<Rightarrow> 'r engine res" where
  "pause now n e =
     (let (wait_s, b) = SecondsUntil (en_bucket e) now n
      in res_bind (ns_of_seconds wait_s) (\<lambda>_. Inr (set_pc AtTop (e \<lparr> en_bucket := b \<rparr>))))"

fun main_step :: "'r rng_api \<Rightarrow> session_env \<Rightarrow> int \<Rightarrow> engine_pc \<Rightarrow> 'r engine \<Rightarrow> 'r engine res option" where
  "main_step G env now AtTop e = Some (Inr
     (if en_deadline e \<le> now then set_pc Stopping e
      else if can_work e then pick e else set_pc Waiting e))"
| "main_step G env now Waiting e = Some (Inr
     (if can_work e then pick e else if en_deadline e \<le> now then set_pc Stopping e else e))"
| "main_step G env now (Picked i) e = Some (Inr
     (if fs_completed (ss_fs (es_sys (es_of e i))) then set_pc AtTop (set_es i (drop_session (es_of e i)) e)
      else set_pc (Pricing i) e))"
| "main_step G env now (Pricing i) e = (if quiet (es_of e i) then Some (Inr (price env now i e)) else None)"
| "main_step G env now (Refused i n) e = Some (Inr (set_pc (Pausing n) (e \<lparr> en_ready := i # en_ready e \<rparr>)))"
| "main_step G env now (Charged i) e =
     (if quiet (es_of e i) then Some (Inr (set_pc (Calling i) (set_es i (issue_session G env (es_of e i)) e)))
      else None)"
| "main_step G env now AtAdmit e = Some (Inr
     (if ucast (rc_max_inflight (en_cfg e)) \<le> en_live e then set_pc AtTop e else set_pc Trying e))"
| "main_step G env now Trying e = Some (Inr
     (let (ok, sem) = sem_TryAcquire (en_sem e)
      in set_pc (if ok then HasSlot else AtTop) (e \<lparr> en_sem := sem \<rparr>)))"
| "main_step G env now HasSlot e = Some
     (res_bind (sched_Next G (en_sched e)) (\<lambda>(item, s). Inr (set_pc (Drawn item) (e \<lparr> en_sched := s \<rparr>))))"
| "main_step G env now (Drawn item) e = Some (Inr
     (let (granted, b) = TryAcquire (en_bucket e) now (wi_op_bytes item)
      in set_pc (if granted then Admitted item else NoTokens (wi_op_bytes item)) (e \<lparr> en_bucket := b \<rparr>)))"
| "main_step G env now (NoTokens n) e = Some (Inr (set_pc (Pausing n) (e \<lparr> en_sem := sem_Release (en_sem e) \<rparr>)))"
| "main_step G env now (Admitted item) e = Some (Inr (set_pc (Counted item) (e \<lparr> en_live := en_live e + 1 \<rparr>)))"
| "main_step G env now (Counted item) e = Some (Inr
     (set_pc (Starting item) (e \<lparr> en_registry := mr_SetInflight (en_live e) (en_registry e) \<rparr>)))"
| "main_step G env now (Starting item) e = Some (Inr
     (set_pc (Calling (length (en_sessions e)))
       (e \<lparr> en_sessions := en_sessions e @ [start_session G env item] \<rparr>)))"
| "main_step G env now (Pausing n) e = Some (pause now n e)"
| "main_step G env now (Calling i) e = (if quiet (es_of e i) then Some (Inr (set_pc AtTop e)) else None)"
| "main_step G env now Stopping e = Some (Inr (set_pc Closing (e \<lparr> en_stop_pace := True \<rparr>)))"
| "main_step G env now Closing e = (case en_ready e of
       [] \<Rightarrow> Some (res_bind (ns_of_seconds (drain_cap_s (en_cfg e))) (\<lambda>d. Inr (set_pc (DrainWait (now + d)) e)))
     | i # is \<Rightarrow> (if quiet (es_of e i)
         then Some (Inr (set_pc (ClosingCall i) (set_es i (close_session env (es_of e i)) (e \<lparr> en_ready := is \<rparr>))))
         else None))"
| "main_step G env now (ClosingCall i) e = (if quiet (es_of e i) then Some (Inr (set_pc Closing e)) else None)"
| "main_step G env now (DrainWait t) e =
     Some (Inr (if en_live e = 0 \<or> t \<le> now then set_pc Finished e else e))"
| "main_step G env now Finished e = None"

section \<open>Actions of all threads\<close>

text \<open>\<open>Tick\<close>: the snapshot timer, with what \<^verbatim>\<open>SampleProcess\<close> found if there is a sink; \<open>FoundSite\<close>: the site
  thread, with a server's answer; \<open>LogLine\<close>: a line of the XrdCl log.\<close>

datatype engine_action =
    Move int session_env
  | Respond nat response session_env
  | WallTimeout nat session_env
  | Perform nat int
  | OnReady nat session_env
  | Tick "(double \<times> u64) option"
  | FoundSite string string
  | LogLine string

fun engine_act :: "'r rng_api \<Rightarrow> engine_action \<Rightarrow> 'r engine \<Rightarrow> 'r engine res option" where
  "engine_act G (Move now env) e = main_step G env now (en_pc e) e"
| "engine_act G (Respond i r env) e =
     (if i < length (en_sessions e) \<and> quiet (es_of e i)
      then map_option (\<lambda>y. Inr (set_es i (es_of e i \<lparr> es_sys := y \<rparr>) e)) (respond G env r (es_sys (es_of e i)))
      else None)"
| "engine_act G (WallTimeout i env) e =
     (if i < length (en_sessions e) \<and> quiet (es_of e i)
      then let y = es_sys (es_of e i)
           in Some (Inr (set_es i (es_of e i \<lparr> es_sys := y \<lparr> ss_fs := RequestWallTimeout env (ss_fs y) \<rparr> \<rparr>) e))
      else None)"
| "engine_act G (Perform i now) e = (if i < length (en_sessions e) then perform now i e else None)"
| "engine_act G (OnReady i env) e =
     (if i < length (en_sessions e) then map_option Inr (on_ready env i e) else None)"
| "engine_act G (Tick sample) e =
     (let reg = mr_SetInflight (en_live e) (en_registry e)
      in Some (case sample of None \<Rightarrow> Inr (e \<lparr> en_registry := reg \<rparr>)
         | Some s \<Rightarrow> res_bind (mr_SampleProc s reg) (\<lambda>reg. Inr (e \<lparr> en_registry := reg \<rparr>))))"
| "engine_act G (FoundSite ds site) e = Some (Inr (e \<lparr> en_registry := mr_SetCmsSite ds site (en_registry e) \<rparr>))"
| "engine_act G (LogLine message) e = Some (Inr (e \<lparr> en_registry := SoftFaultLogOut_Write message (en_registry e) \<rparr>))"

text \<open>A run of the actions, all of them enabled and defined.\<close>

fun engine_run :: "'r rng_api \<Rightarrow> engine_action list \<Rightarrow> 'r engine \<Rightarrow> 'r engine option" where
  "engine_run G [] e = Some e"
| "engine_run G (a # as) e = (case engine_act G a e of Some (Inr e') \<Rightarrow> engine_run G as e' | _ \<Rightarrow> None)"

end
