(* ===== verification/EngineCalls.thy ===== *)
theory EngineCalls
  imports Engine SessionLedger SessionResults "HOL-Library.Sublist"
begin

text \<open>
  What one call into a session does, as far as the engine is concerned: it is a step of the session's own
  protocol, it only appends to the session's log, and it hands the session to the engine or takes it
  back. The engine's invariants use these facts and nothing else of the session.
\<close>

section \<open>Calls append to the log\<close>

named_theorems grows \<open>operations append to the log\<close>

lemma emit_grows [grows]: "prefix l (fs_log s) \<Longrightarrow> prefix l (fs_log (emit e s))"
  by (simp add: emit_def)

lemma frame_grows [grows]:
  "prefix l (fs_log s) \<Longrightarrow> prefix l (fs_log (CapturePartialCounters env s))"
  "prefix l (fs_log s) \<Longrightarrow> prefix l (fs_log (set_error a b c s))"
  "prefix l (fs_log s) \<Longrightarrow> prefix l (fs_log (read_account env got s))"
  by (simp_all add: CapturePartialCounters_def set_error_def read_account_def Let_def)

lemma small_grows [grows]:
  "prefix l (fs_log s) \<Longrightarrow> prefix l (fs_log (Complete s))"
  "prefix l (fs_log s) \<Longrightarrow> prefix l (fs_log (ReleaseIfIdle s))"
  "prefix l (fs_log s) \<Longrightarrow> prefix l (fs_log (ArmOpDeadline s))"
  "prefix l (fs_log s) \<Longrightarrow> prefix l (fs_log (RefundBytes n s))"
  "prefix l (fs_log s) \<Longrightarrow> prefix l (fs_log (read_notify env s))"
  "prefix l (fs_log s) \<Longrightarrow> prefix l (fs_log (enter h s))"
  by (simp_all add: Complete_def ReleaseIfIdle_def ArmOpDeadline_def RefundBytes_def read_notify_def
      enter_def emit_def Let_def)

lemma RefundPrepaid_grows [grows]: "prefix l (fs_log s) \<Longrightarrow> prefix l (fs_log (RefundPrepaid s))"
  by (simp add: RefundPrepaid_def grows)

lemma SubmitClose_grows [grows]: "prefix l (fs_log s) \<Longrightarrow> prefix l (fs_log (SubmitClose env s))"
  by (simp add: SubmitClose_def Let_def grows)

lemma Fail_grows [grows]: "prefix l (fs_log s) \<Longrightarrow> prefix l (fs_log (Fail env stage st s))"
  by (simp add: Fail_def Let_def grows)

lemma FinishOk_grows [grows]: "prefix l (fs_log s) \<Longrightarrow> prefix l (fs_log (FinishOk s))"
  by (simp add: FinishOk_def Let_def grows)

lemma issued_grows [grows]: "prefix l (fs_log s) \<Longrightarrow> prefix l (fs_log (issued G env s))"
  by (simp add: issued_def Let_def grows)

lemma IssueNext_grows [grows]: "prefix l (fs_log s) \<Longrightarrow> prefix l (fs_log (IssueNext G env s))"
proof (cases "fs_completed s")
  case False
  assume "prefix l (fs_log s)"
  then show ?thesis using False by (cases "fs_timed_out s \<or> fs_remaining s = 0")
    (simp_all add: IssueNext_close IssueNext_read Let_def grows)
qed (simp add: IssueNext_def)

lemma read_done_grows [grows]: "prefix l (fs_log s) \<Longrightarrow> prefix l (fs_log (read_done env info s))"
  by (simp add: read_done_def Let_def grows)

lemma call_grows [grows]:
  "prefix l (fs_log s) \<Longrightarrow> prefix l (fs_log (RequestWallTimeout env s))"
  "prefix l (fs_log s) \<Longrightarrow> prefix l (fs_log (IssueNextFromEngine G env s))"
  "prefix l (fs_log s) \<Longrightarrow> prefix l (fs_log (CloseNow env s))"
  by (simp_all add: RequestWallTimeout_def IssueNextFromEngine_def CloseNow_def grows)

lemma handler_grows [grows]:
  "prefix l (fs_log s) \<Longrightarrow> prefix l (fs_log (OnOpen env st hosts server s))"
  "prefix l (fs_log s) \<Longrightarrow> prefix l (fs_log (OnStat G env st n s))"
  "prefix l (fs_log s) \<Longrightarrow> prefix l (fs_log (OnRead G env st info s))"
  "prefix l (fs_log s) \<Longrightarrow> prefix l (fs_log (OnClose env st s))"
  by (simp_all add: OnOpen_def OnStat_def OnRead_def OnClose_def Let_def grows)

section \<open>Calls and the ready notification\<close>

lemma readies_calls:
  "readies (fs_log (RequestWallTimeout env s)) = readies (fs_log s)"
  "readies (fs_log (IssueNextFromEngine G env s)) = readies (fs_log s)"
  "readies (fs_log (CloseNow env s)) = readies (fs_log s)"
  "readies (fs_log (OnOpen env st hosts server s)) = readies (fs_log s)"
  "readies (fs_log (OnStat G env st n s)) = readies (fs_log s)"
  "readies (fs_log (OnClose env st s)) = readies (fs_log s)"
  by (simp_all add: RequestWallTimeout_def IssueNextFromEngine_def CloseNow_def OnOpen_def OnStat_def
      OnClose_def FinishOk_def Let_def fs_view)

lemma readies_OnRead:
  "readies (fs_log (OnRead G env st info s)) = readies (fs_log s)
   \<or> readies (fs_log (OnRead G env st info s)) = readies (fs_log s) + 1"
  by (simp add: OnRead_def Let_def fs_view)

section \<open>A call as one fact\<close>

text \<open>\<open>called G h x x'\<close>: a call has turned session \<open>x\<close> into \<open>x'\<close> and left it in hand \<open>h\<close>.\<close>

definition called :: "'r rng_api \<Rightarrow> 'r engine_session \<Rightarrow> 'r engine_session \<Rightarrow> bool" where
  "called G x x' \<longleftrightarrow> session_step G (es_sys x) (es_sys x') \<and> prefix (es_log x) (es_log x')
     \<and> es_item x' = es_item x \<and> es_seen x' = es_seen x \<and> es_phase x' = es_phase x"

lemma respond_called:
  assumes "respond G env r (es_sys x) = Some y"
  shows "called G x (x \<lparr> es_sys := y \<rparr>)"
proof -
  have s: "es_sys (x \<lparr> es_sys := y \<rparr>) = y" by simp
  show ?thesis
  proof (cases r)
    case (RRead st info)
    then have a: "0 < owed FnRead (fs_log (ss_fs (es_sys x)))" "\<forall>n. info = Some n \<longrightarrow> n \<le> fs_requested (ss_fs (es_sys x))"
      and y: "y = es_sys x \<lparr> ss_fs := OnRead G env st info (ss_fs (es_sys x)),
        ss_hand := (if readies (fs_log (ss_fs (es_sys x))) < readies (fs_log (OnRead G env st info (ss_fs (es_sys x))))
          then Queued else ss_hand (es_sys x)) \<rparr>"
      using assms by (auto simp: Let_def split: if_splits option.splits)
    show ?thesis unfolding called_def s es_log_def
      using session_step.cb_read [OF a refl, of G env st] by (simp add: y grows)
  qed (use assms in \<open>auto simp: called_def es_log_def grows split: if_splits intro!: session_step.intros\<close>)
qed

lemma respond_hand:
  assumes "respond G env r y = Some y'"
  shows "ss_hand y' = (if readies (fs_log (ss_fs y)) < readies (fs_log (ss_fs y')) then Queued else ss_hand y)
    \<and> readies (fs_log (ss_fs y)) \<le> readies (fs_log (ss_fs y'))
    \<and> readies (fs_log (ss_fs y')) \<le> readies (fs_log (ss_fs y)) + 1 \<and> ss_charged y' = ss_charged y
    \<and> (readies (fs_log (ss_fs y)) < readies (fs_log (ss_fs y')) \<longrightarrow> 0 < owed FnRead (fs_log (ss_fs y)))"
proof (cases r)
  case (RRead st info)
  then show ?thesis using assms readies_OnRead [of G env st info "ss_fs y"]
    by (auto simp: Let_def split: if_splits)
qed (use assms in \<open>auto simp: readies_calls split: if_splits\<close>)

lemma timeout_called: "called G x (x \<lparr> es_sys := es_sys x \<lparr> ss_fs := RequestWallTimeout env (ss_fs (es_sys x)) \<rparr> \<rparr>)"
  by (simp add: called_def es_log_def grows session_step.timeout)

lemma close_called:
  assumes "ss_hand (es_sys x) = Queued" shows "called G x (close_session env x)"
  using session_step.close [OF assms] by (simp add: called_def close_session_def with_fs_def es_log_def grows)

lemma issue_called:
  assumes "ss_hand (es_sys x) = Paid n" shows "called G x (issue_session G env x)"
  using session_step.issue [OF assms] by (simp add: called_def issue_session_def with_fs_def es_log_def grows)

lemma pay_called:
  assumes "ss_hand (es_sys x) = Queued" "NextOpBytes (ss_fs (es_sys x)) = n" "n \<noteq> 0"
  shows "called G x (pay_session n x)"
  using session_step.pay [OF assms] by (simp add: called_def pay_session_def es_log_def)

lemma drop_called:
  assumes "ss_hand (es_sys x) = Queued" "fs_completed (ss_fs (es_sys x))"
  shows "called G x (drop_session x)"
  using session_step.drop_done [OF assms] by (simp add: called_def drop_session_def es_log_def)

lemma called_log:
  assumes "called G x x'" "quiet x"
  shows "es_log x' = es_log x @ drop (es_seen x') (es_log x')" "take (es_seen x') (es_log x') = es_log x"
    "es_seen x' \<le> length (es_log x')"
proof -
  from assms have "prefix (es_log x) (es_log x')" "es_seen x' = length (es_log x)"
    by (simp_all add: called_def quiet_def)
  then show "es_log x' = es_log x @ drop (es_seen x') (es_log x')" "take (es_seen x') (es_log x') = es_log x"
    "es_seen x' \<le> length (es_log x')" by (auto simp: prefix_def)
qed

lemma called_keeps:
  assumes "called G x x'" "es_seen x \<le> length (es_log x)"
  shows "take (es_seen x') (es_log x') = take (es_seen x) (es_log x)" "es_seen x' \<le> length (es_log x')"
    "es_seen x' = es_seen x"
    "k < length (es_log x) \<Longrightarrow> es_log x' ! k = es_log x ! k" "length (es_log x) \<le> length (es_log x')"
  using assms by (auto simp: called_def prefix_def nth_append)

end
