(* ===== verification/EngineOwn.thy ===== *)
theory EngineOwn
  imports EngineCalls
begin

text \<open>
  Who holds a session. Between its read and its next one a paced session is in exactly one place: its
  notification is still to be carried out, or \<open>on_ready\<close> has it at the door, or it waits in the ready
  list, or the main thread has picked it; and the main thread issues a read only on a session it has
  just paid for. This is what the session's protocol asks of the engine, so every session in a run of
  the engine is a run of the session's protocol.
\<close>

section \<open>The invariant\<close>

text \<open>A work item as the scheduler of the configuration makes it.\<close>

definition item_ok :: "RunConfig \<Rightarrow> WorkItem \<Rightarrow> bool" where
  "item_ok cfg item \<longleftrightarrow> wi_op_bytes item = SessionOpBytes (wi_session item)
     \<and> fo_chunk_size (wi_session item) = rc_chunk_size cfg
     \<and> unat (fo_vector_chunks (wi_session item)) \<le> unat (max 1 (rc_vector_chunks cfg))"

definition es_inv :: "'r rng_api \<Rightarrow> RunConfig \<Rightarrow> 'r engine_session \<Rightarrow> bool" where
  "es_inv G cfg x \<longleftrightarrow> session_reach G (wi_session (es_item x)) True (wi_op_bytes (es_item x)) (es_sys x)
     \<and> item_ok cfg (es_item x) \<and> es_seen x \<le> length (es_log x)
     \<and> dones (take (es_seen x) (es_log x)) = (if es_phase x = Freed then 1 else 0)
     \<and> (es_phase x \<notin> {Running, Freed} \<longrightarrow> es_seen x < length (es_log x) \<and> is_Done (es_log x ! es_seen x))"

definition at_door :: "'r engine_session \<Rightarrow> nat" where
  "at_door x = readies (drop (es_seen x) (es_log x)) + (if es_handing x = Idle then 0 else 1)"

text \<open>The sessions a program counter has in hand, and the one it is inside of.\<close>

fun holds :: "engine_pc \<Rightarrow> nat \<Rightarrow> nat" where
  "holds (Picked i) j = (if i = j then 1 else 0)"
| "holds (Pricing i) j = (if i = j then 1 else 0)"
| "holds (Refused i n) j = (if i = j then 1 else 0)"
| "holds _ j = 0"

fun inside :: "engine_pc \<Rightarrow> nat \<Rightarrow> bool" where
  "inside (Calling i) j = (i = j)"
| "inside (ClosingCall i) j = (i = j)"
| "inside _ j = False"

fun pc_item :: "engine_pc \<Rightarrow> WorkItem option" where
  "pc_item (Drawn item) = Some item"
| "pc_item (Admitted item) = Some item"
| "pc_item (Counted item) = Some item"
| "pc_item (Starting item) = Some item"
| "pc_item _ = None"

definition own_es :: "'r rng_api \<Rightarrow> RunConfig \<Rightarrow> nat \<Rightarrow> bool \<Rightarrow> 'r engine_session \<Rightarrow> bool" where
  "own_es G cfg places charged x \<longleftrightarrow> es_inv G cfg x
     \<and> places + at_door x = (if ss_hand (es_sys x) = Queued then 1 else 0)
     \<and> (\<exists>n. ss_hand (es_sys x) = Paid n) = charged"

definition places :: "nat list \<Rightarrow> engine_pc \<Rightarrow> nat \<Rightarrow> nat" where
  "places ready p i = count_list ready i + holds p i"

definition own_at :: "'r rng_api \<Rightarrow> 'r engine \<Rightarrow> nat \<Rightarrow> bool" where
  "own_at G e i =
     (if i < length (en_sessions e)
      then own_es G (en_cfg e) (places (en_ready e) (en_pc e) i) (en_pc e = Charged i) (es_of e i)
      else places (en_ready e) (en_pc e) i = 0 \<and> en_pc e \<noteq> Charged i \<and> \<not> inside (en_pc e) i)"

definition own_inv :: "'r rng_api \<Rightarrow> 'r engine \<Rightarrow> bool" where
  "own_inv G e \<longleftrightarrow> (\<forall>i. own_at G e i)
     \<and> sc_cfg (en_sched e) = en_cfg e
     \<and> (\<forall>item. pc_item (en_pc e) = Some item \<longrightarrow> item_ok (en_cfg e) item)"

lemma engine_view [simp]:
  "en_sessions (set_es i x e) = (en_sessions e)[i := x]" "en_sessions (set_pc p e) = en_sessions e"
  "en_pc (set_es i x e) = en_pc e" "en_pc (set_pc p e) = p"
  "en_cfg (set_es i x e) = en_cfg e" "en_cfg (set_pc p e) = en_cfg e"
  "en_ready (set_es i x e) = en_ready e" "en_ready (set_pc p e) = en_ready e"
  "en_sched (set_es i x e) = en_sched e" "en_sched (set_pc p e) = en_sched e"
  "en_sem (set_es i x e) = en_sem e" "en_sem (set_pc p e) = en_sem e"
  "en_live (set_es i x e) = en_live e" "en_live (set_pc p e) = en_live e"
  "en_bucket (set_es i x e) = en_bucket e" "en_bucket (set_pc p e) = en_bucket e"
  "en_registry (set_es i x e) = en_registry e" "en_registry (set_pc p e) = en_registry e"
  "en_stop_pace (set_es i x e) = en_stop_pace e" "en_stop_pace (set_pc p e) = en_stop_pace e"
  "en_deadline (set_es i x e) = en_deadline e" "en_deadline (set_pc p e) = en_deadline e"
  "es_of (set_pc p e) i = es_of e i"
  by (simp_all add: set_es_def set_pc_def es_of_def)

lemma es_log_update [simp]:
  "es_log (x \<lparr> es_seen := k \<rparr>) = es_log x" "es_log (x \<lparr> es_phase := q \<rparr>) = es_log x"
  "es_log (x \<lparr> es_handing := h \<rparr>) = es_log x" "es_log (x \<lparr> es_item := m \<rparr>) = es_log x"
  "es_log (x \<lparr> es_handing := h, es_seen := k \<rparr>) = es_log x"
  "es_log (x \<lparr> es_phase := q, es_seen := k \<rparr>) = es_log x"
  by (simp_all add: es_log_def)

lemma es_of_set [simp]: "i < length (en_sessions e) \<Longrightarrow> es_of (set_es i x e) j = (if i = j then x else es_of e j)"
  by (simp add: es_of_def set_es_def nth_list_update)

section \<open>Sessions\<close>

lemma session_dones: "es_inv G cfg x \<Longrightarrow> dones (es_log x) = (if fs_completed (ss_fs (es_sys x)) then 1 else 0)"
  unfolding es_inv_def es_log_def using ctl_flags(1) [OF reach_ctl] by blast

lemma dones_split: "dones L = dones (take k L) + dones (drop k L)" "readies L = readies (take k L) + readies (drop k L)"
  "refunded L = refunded (take k L) + refunded (drop k L)" "results L = results (take k L) @ results (drop k L)"
  using measure_emit(7,13,4,16) [of "take k L" "drop k L"] by simp_all

lemma drop_step: "k < length L \<Longrightarrow> drop k L = L ! k # drop (Suc k) L"
  by (simp add: Cons_nth_drop_Suc)

lemma take_step: "k < length L \<Longrightarrow> take (Suc k) L = take k L @ [L ! k]"
  by (rule take_Suc_conv_app_nth)

lemma called_inv:
  assumes "es_inv G cfg x" "called G x x'" shows "es_inv G cfg x'"
proof -
  have s: "es_seen x \<le> length (es_log x)" using assms(1) by (simp add: es_inv_def)
  note k = called_keeps [OF assms(2) s]
  have "session_reach G (wi_session (es_item x')) True (wi_op_bytes (es_item x')) (es_sys x')"
    using session_reach.step [of G "wi_session (es_item x)" True "wi_op_bytes (es_item x)" "es_sys x" "es_sys x'"] assms
    by (simp add: es_inv_def called_def)
  moreover have "es_item x' = es_item x" "es_phase x' = es_phase x" using assms(2) by (simp_all add: called_def)
  ultimately show ?thesis using assms(1) k by (auto simp: es_inv_def)
qed

lemma called_door:
  assumes "es_inv G cfg x" "called G x x'"
  shows "at_door x' + readies (es_log x) + (if es_handing x = Idle then 0 else 1)
    = at_door x + readies (es_log x') + (if es_handing x' = Idle then 0 else 1)"
proof -
  have s: "es_seen x \<le> length (es_log x)" using assms(1) by (simp add: es_inv_def)
  note k = called_keeps(1,3) [OF assms(2) s]
  show ?thesis using dones_split(2) [of "es_log x" "es_seen x"] dones_split(2) [of "es_log x'" "es_seen x'"] k
    by (simp add: at_door_def)
qed

text \<open>The calls of the threads around the engine.\<close>

lemma respond_own:
  assumes "own_es G cfg c p x" "respond G env r (es_sys x) = Some y"
  shows "own_es G cfg c p (x \<lparr> es_sys := y \<rparr>)"
proof -
  let ?x = "x \<lparr> es_sys := y \<rparr>"
  have i: "es_inv G cfg x" using assms(1) by (simp add: own_es_def)
  have r: "session_reach G (wi_session (es_item x)) True (wi_op_bytes (es_item x)) (es_sys x)"
    using i by (simp add: es_inv_def)
  have c: "called G x ?x" by (rule respond_called [OF assms(2)])
  note h = respond_hand [OF assms(2)]
  have d: "at_door ?x + readies (es_log x) = at_door x + readies (es_log ?x)"
    using called_door [OF i c] by simp
  have hand: "ss_hand (es_sys x) = NotReady" if "0 < owed FnRead (fs_log (ss_fs (es_sys x)))"
    using that ctl_owed [OF reach_ctl [OF r]] by (cases "ss_hand (es_sys x)") (simp_all add: in_hand_def)
  show ?thesis
  proof (cases "readies (fs_log (ss_fs (es_sys x))) < readies (fs_log (ss_fs y))")
    case True
    then have "ss_hand (es_sys x) = NotReady" "ss_hand y = Queued" "readies (es_log ?x) = readies (es_log x) + 1"
      using h hand by (auto simp: es_log_def)
    then show ?thesis using assms(1) d called_inv [OF i c] by (simp add: own_es_def)
  next
    case False
    then have "ss_hand y = ss_hand (es_sys x)" "readies (es_log ?x) = readies (es_log x)"
      using h by (auto simp: es_log_def)
    then show ?thesis using assms(1) d called_inv [OF i c] by (simp add: own_es_def)
  qed
qed

lemma timeout_own:
  assumes "own_es G cfg c p x"
  shows "own_es G cfg c p (x \<lparr> es_sys := es_sys x \<lparr> ss_fs := RequestWallTimeout env (ss_fs (es_sys x)) \<rparr> \<rparr>)"
proof -
  let ?x = "x \<lparr> es_sys := es_sys x \<lparr> ss_fs := RequestWallTimeout env (ss_fs (es_sys x)) \<rparr> \<rparr>"
  have i: "es_inv G cfg x" using assms(1) by (simp add: own_es_def)
  have "at_door ?x = at_door x"
    using called_door [OF i timeout_called [of G x env]] by (simp add: es_log_def readies_calls)
  then show ?thesis using assms called_inv [OF i timeout_called [of G x env]] by (simp add: own_es_def)
qed

text \<open>The calls of the engine: they take the session out of its hands, or leave it paid for.\<close>

lemma close_own:
  assumes "own_es G cfg (Suc c) p x" shows "own_es G cfg c False (close_session env x)" "c = 0" "at_door x = 0"
proof -
  have q: "ss_hand (es_sys x) = Queued" and i: "es_inv G cfg x" and d: "Suc c + at_door x = 1"
    using assms by (auto simp: own_es_def split: if_splits)
  then show c: "c = 0" "at_door x = 0" by simp_all
  have "at_door (close_session env x) = at_door x"
    using called_door [OF i close_called [OF q, of G env]]
    by (simp add: close_session_def with_fs_def es_log_def readies_calls)
  then show "own_es G cfg c False (close_session env x)" using c called_inv [OF i close_called [OF q, of G env]]
    by (simp add: own_es_def) (simp add: close_session_def with_fs_def)
qed

lemma close_door_own:
  assumes "own_es G cfg c p x" "es_handing x \<noteq> Idle"
  shows "own_es G cfg c False (close_session env (x \<lparr> es_handing := Idle \<rparr>))" "\<not> p"
proof -
  let ?y = "x \<lparr> es_handing := Idle \<rparr>"
  have d: "at_door x = at_door ?y + 1" using assms(2) by (simp add: at_door_def es_log_def)
  have i: "es_inv G cfg ?y" using assms(1) by (simp add: own_es_def es_inv_def es_log_def)
  have "own_es G cfg (Suc c) p ?y" using assms(1) d i by (simp add: own_es_def)
  from close_own(1) [OF this] show "own_es G cfg c False (close_session env ?y)" .
  show "\<not> p" using assms(1) d by (auto simp: own_es_def split: if_splits)
qed

lemma issue_own:
  assumes "own_es G cfg c True x" shows "own_es G cfg c False (issue_session G env x)"
proof -
  obtain n where q: "ss_hand (es_sys x) = Paid n" and i: "es_inv G cfg x"
    using assms by (auto simp: own_es_def)
  have "at_door (issue_session G env x) = at_door x"
    using called_door [OF i issue_called [OF q, of G env]]
    by (simp add: issue_session_def with_fs_def es_log_def readies_calls)
  then show ?thesis using assms q called_inv [OF i issue_called [OF q, of G env]]
    by (simp add: own_es_def) (simp add: issue_session_def with_fs_def)
qed

lemma pay_own:
  assumes "own_es G cfg (Suc c) p x" "n = NextOpBytes (ss_fs (es_sys x))" "n \<noteq> 0"
  shows "own_es G cfg c True (pay_session n x)"
proof -
  have q: "ss_hand (es_sys x) = Queued" and i: "es_inv G cfg x" and d: "c = 0" "at_door x = 0"
    using assms(1) by (auto simp: own_es_def split: if_splits)
  note c = pay_called [OF q assms(2) [symmetric] assms(3), of G]
  have "at_door (pay_session n x) = at_door x"
    using called_door [OF i c] by (simp add: pay_session_def es_log_def)
  then show ?thesis using d called_inv [OF i c] by (simp add: own_es_def) (simp add: pay_session_def)
qed

lemma drop_own:
  assumes "own_es G cfg (Suc c) p x" "fs_completed (ss_fs (es_sys x))"
  shows "own_es G cfg c False (drop_session x)"
proof -
  have q: "ss_hand (es_sys x) = Queued" and i: "es_inv G cfg x" and d: "c = 0" "at_door x = 0"
    using assms(1) by (auto simp: own_es_def split: if_splits)
  note c = drop_called [OF q assms(2), of G]
  have "at_door (drop_session x) = at_door x"
    using called_door [OF i c] by (simp add: drop_session_def es_log_def)
  then show ?thesis using d called_inv [OF i c] by (simp add: own_es_def) (simp add: drop_session_def)
qed

lemma start_own:
  assumes "item_ok cfg item" shows "own_es G cfg 0 False (start_session G env item)"
  using assms session_reach.start [of G "wi_session item" True "wi_op_bytes item" env]
  by (simp add: own_es_def es_inv_def at_door_def start_session_def es_log_def session_start_def Let_def fs_view
      fs_Start_def new_FileSession_def)

section \<open>Effects\<close>

text \<open>Carrying out an effect: the session's part of it.\<close>

lemma seen_own:
  assumes "own_es G cfg c p x" "es_seen x < length (es_log x)" "\<not> is_Done (es_log x ! es_seen x)"
    "es_log x ! es_seen x \<noteq> Ready"
  shows "own_es G cfg c p (x \<lparr> es_seen := es_seen x + 1 \<rparr>)"
proof -
  let ?x = "x \<lparr> es_seen := es_seen x + 1 \<rparr>"
  have "at_door ?x = at_door x" using assms(4) by (simp add: at_door_def drop_step [OF assms(2)] measure_emit)
  moreover have "es_inv G cfg ?x" using assms(1,2,3)
    by (auto simp: own_es_def es_inv_def take_step [OF assms(2)] measure_emit)
  ultimately show ?thesis using assms(1) by (simp add: own_es_def)
qed

lemma ready_own:
  assumes "own_es G cfg c p x" "es_seen x < length (es_log x)" "es_log x ! es_seen x = Ready"
  shows "own_es G cfg c p (x \<lparr> es_handing := Testing, es_seen := es_seen x + 1 \<rparr>)" "es_handing x = Idle"
proof -
  let ?x = "x \<lparr> es_handing := Testing, es_seen := es_seen x + 1 \<rparr>"
  have d: "at_door x = 1 + readies (drop (Suc (es_seen x)) (es_log x)) + (if es_handing x = Idle then 0 else 1)"
    using assms(3) by (simp add: at_door_def drop_step [OF assms(2)] measure_emit)
  then show h: "es_handing x = Idle" using assms(1) by (auto simp: own_es_def split: if_splits)
  then have "at_door ?x = at_door x" using d by (simp add: at_door_def)
  moreover have "es_inv G cfg ?x" using assms
    by (auto simp: own_es_def es_inv_def take_step [OF assms(2)] measure_emit)
  ultimately show "own_es G cfg c p ?x" using assms(1) by (simp add: own_es_def)
qed

lemma phase_own:
  assumes "own_es G cfg c p x" "es_seen x < length (es_log x)" "is_Done (es_log x ! es_seen x)"
  shows "es_phase x \<noteq> Freed" "q \<noteq> Freed \<Longrightarrow> own_es G cfg c p (x \<lparr> es_phase := q \<rparr>)"
    "own_es G cfg c p (x \<lparr> es_phase := Freed, es_seen := es_seen x + 1 \<rparr>)"
proof -
  have i: "es_inv G cfg x" using assms(1) by (simp add: own_es_def)
  have d: "dones (es_log x) \<le> 1" using session_dones [OF i] by simp
  have s: "dones (es_log x) = dones (take (es_seen x) (es_log x)) + 1 + dones (drop (Suc (es_seen x)) (es_log x))"
    using dones_split(1) [of "es_log x" "es_seen x"] assms(3) by (simp add: drop_step [OF assms(2)] measure_emit)
  show f: "es_phase x \<noteq> Freed" using d s i by (auto simp: es_inv_def)
  have "es_inv G cfg (x \<lparr> es_phase := q \<rparr>)" if "q \<noteq> Freed"
    using i f that assms(2,3) by (simp add: es_inv_def)
  then show "q \<noteq> Freed \<Longrightarrow> own_es G cfg c p (x \<lparr> es_phase := q \<rparr>)"
    using assms(1) by (simp add: own_es_def at_door_def)
  have "es_inv G cfg (x \<lparr> es_phase := Freed, es_seen := es_seen x + 1 \<rparr>)"
    using i f assms(2,3) by (simp add: es_inv_def take_step [OF assms(2)] measure_emit)
  moreover have "\<not> is_Done Ready" by simp
  then have "es_log x ! es_seen x \<noteq> Ready" using assms(3) by metis
  then have "at_door (x \<lparr> es_phase := Freed, es_seen := es_seen x + 1 \<rparr>) = at_door x"
    by (simp add: at_door_def drop_step [OF assms(2)] measure_emit)
  ultimately show "own_es G cfg c p (x \<lparr> es_phase := Freed, es_seen := es_seen x + 1 \<rparr>)"
    using assms(1) by (simp add: own_es_def)
qed

section \<open>Steps of the engine\<close>

lemma own_item: "own_inv G e \<Longrightarrow> i < length (en_sessions e) \<Longrightarrow>
    own_es G (en_cfg e) (places (en_ready e) (en_pc e) i) (en_pc e = Charged i) (es_of e i)"
  unfolding own_inv_def own_at_def by presburger

lemma own_range:
  assumes "own_inv G e"
  shows "0 < places (en_ready e) (en_pc e) i \<Longrightarrow> i < length (en_sessions e)"
    "en_pc e = Charged i \<Longrightarrow> i < length (en_sessions e)" "inside (en_pc e) i \<Longrightarrow> i < length (en_sessions e)"
proof -
  have "own_at G e i" using assms by (simp add: own_inv_def)
  then show "0 < places (en_ready e) (en_pc e) i \<Longrightarrow> i < length (en_sessions e)"
    "en_pc e = Charged i \<Longrightarrow> i < length (en_sessions e)" "inside (en_pc e) i \<Longrightarrow> i < length (en_sessions e)"
    by (simp_all add: own_at_def split: if_splits)
qed

lemma own_cfg: "own_inv G e \<Longrightarrow> sc_cfg (en_sched e) = en_cfg e"
  "own_inv G e \<Longrightarrow> pc_item (en_pc e) = Some item \<Longrightarrow> item_ok (en_cfg e) item"
  by (simp_all add: own_inv_def)

text \<open>A step changes at most one session; the places of the others stay.\<close>

lemma own_update:
  assumes "own_inv G e" "j < length (en_sessions e)" "en_sessions e' = (en_sessions e)[j := x']"
    "own_es G (en_cfg e) (places (en_ready e') (en_pc e') j) (en_pc e' = Charged j) x'"
    "\<And>i. i \<noteq> j \<Longrightarrow> places (en_ready e') (en_pc e') i = places (en_ready e) (en_pc e) i"
    "\<And>i. i \<noteq> j \<Longrightarrow> (en_pc e' = Charged i) = (en_pc e = Charged i)"
    "\<And>i. inside (en_pc e') i \<Longrightarrow> i < length (en_sessions e)"
    "en_cfg e' = en_cfg e" "en_sched e' = en_sched e"
    "\<And>item. pc_item (en_pc e') = Some item \<Longrightarrow> item_ok (en_cfg e) item"
  shows "own_inv G e'"
proof -
  have "own_at G e' i" for i
  proof (cases "i = j")
    case True
    then show ?thesis using assms(2,4) by (simp add: own_at_def assms(3,8) es_of_def)
  next
    case False
    then have "es_of e' i = es_of e i" by (simp add: es_of_def assms(3))
    moreover have "own_at G e i" using assms(1) by (simp add: own_inv_def)
    ultimately show ?thesis using assms(5-7) [of i] False
      by (cases "i < length (en_sessions e)") (auto simp: own_at_def assms(3,8))
  qed
  then show ?thesis using assms(9,10) own_cfg(1) [OF assms(1)] by (simp add: own_inv_def assms(8))
qed

lemma own_frame:
  assumes "own_inv G e" "en_sessions e' = en_sessions e" "en_cfg e' = en_cfg e" "sc_cfg (en_sched e') = sc_cfg (en_sched e)"
    "\<And>i. places (en_ready e') (en_pc e') i = places (en_ready e) (en_pc e) i"
    "\<And>i. (en_pc e' = Charged i) = (en_pc e = Charged i)"
    "\<And>i. inside (en_pc e') i \<Longrightarrow> i < length (en_sessions e)"
    "\<And>item. pc_item (en_pc e') = Some item \<Longrightarrow> item_ok (en_cfg e) item"
  shows "own_inv G e'"
proof -
  have "own_at G e' i" for i
  proof -
    have "own_at G e i" "es_of e' i = es_of e i" using assms(1) by (simp_all add: own_inv_def es_of_def assms(2))
    then show ?thesis using assms(7) [of i]
      by (cases "i < length (en_sessions e)") (auto simp: own_at_def assms(2,3,5,6))
  qed
  then show ?thesis using assms(4,8) own_cfg(1) [OF assms(1)] by (simp add: own_inv_def assms(3))
qed

text \<open>Only the shared counters change.\<close>

lemma own_same:
  assumes "own_inv G e" "en_sessions e' = en_sessions e" "en_cfg e' = en_cfg e" "en_sched e' = en_sched e"
    "en_ready e' = en_ready e" "en_pc e' = en_pc e"
  shows "own_inv G e'"
  using own_range(3) [OF assms(1)] own_cfg(2) [OF assms(1)]
  by (intro own_frame [OF assms(1)]) (simp_all add: assms)

lemma own_es_update:
  assumes "own_inv G e" "j < length (en_sessions e)"
    "own_es G (en_cfg e) (places (en_ready e) (en_pc e) j) (en_pc e = Charged j) x'"
  shows "own_inv G (set_es j x' e)"
  using own_range(3) [OF assms(1)] own_cfg(2) [OF assms(1)] assms(3)
  by (intro own_update [OF assms(1,2), of _ x']) (simp_all add: set_es_def)

lemma perform_own:
  assumes "own_inv G e" "i < length (en_sessions e)" "perform now i e = Some (Inr e')"
  shows "own_inv G e'"
proof -
  let ?x = "es_of e i"
  have o: "own_es G (en_cfg e) (places (en_ready e) (en_pc e) i) (en_pc e = Charged i) ?x"
    by (rule own_item [OF assms(1,2)])
  have l: "es_seen ?x < length (es_log ?x)" and p: "perform_effect now i (es_log ?x ! es_seen ?x) e = Inr e'"
    using assms(3) by (auto simp: perform_def Let_def split: if_splits)
  have adv: "own_inv G (advance i e'')" if "en_sessions e'' = en_sessions e" "en_cfg e'' = en_cfg e"
      "en_sched e'' = en_sched e" "en_ready e'' = en_ready e" "en_pc e'' = en_pc e"
      "\<not> is_Done (es_log ?x ! es_seen ?x)" "es_log ?x ! es_seen ?x \<noteq> Ready" for e''
  proof -
    have w: "own_inv G e''" by (rule own_same [OF assms(1) that(1-5)])
    have "es_of e'' i = ?x" by (simp add: es_of_def that(1))
    then show ?thesis using seen_own [OF o l that(6,7)] assms(2) unfolding advance_def
      by (intro own_es_update [OF w]) (simp_all add: that)
  qed
  show ?thesis
  proof (cases "es_log ?x ! es_seen ?x")
    case (Done r)
    then have d: "is_Done (es_log ?x ! es_seen ?x)" by simp
    note ph = phase_own [OF o l d]
    have upd: "own_inv G (set_phase i q e'')" if "en_sessions e'' = en_sessions e" "en_cfg e'' = en_cfg e"
      "en_sched e'' = en_sched e" "en_ready e'' = en_ready e" "en_pc e'' = en_pc e" "q \<noteq> Freed" for q e''
    proof -
      have w: "own_inv G e''" by (rule own_same [OF assms(1) that(1-5)])
      have "es_of e'' i = ?x" by (simp add: es_of_def that(1))
      then show ?thesis using ph(2) [OF that(6)] assms(2) unfolding set_phase_def
        by (intro own_es_update [OF w]) (simp_all add: that)
    qed
    show ?thesis
    proof (cases "es_phase ?x")
      case Running
      then obtain e1 where e1: "report_done r e = Inr e1" "e' = set_phase i Reported e1"
        using p Done by (auto simp: cxx_res)
      then show ?thesis
        by (auto simp: report_done_def Let_def cxx_res split: if_splits intro!: upd)
    next
      case Shown
      then have "e' = set_es i (?x \<lparr> es_phase := Freed, es_seen := es_seen ?x + 1 \<rparr>) (e \<lparr> en_sem := sem_Release (en_sem e) \<rparr>)"
        using p Done assms(2) by (auto simp: advance_def set_phase_def set_es_def es_of_def)
      moreover have "own_inv G (e \<lparr> en_sem := sem_Release (en_sem e) \<rparr>)" by (rule own_same [OF assms(1)]) simp_all
      ultimately show ?thesis using ph(3) assms(2) by (simp add: own_es_update)
    next
      case Freed
      then show ?thesis using ph(1) by simp
    qed (use p Done in \<open>auto intro: upd\<close>)
  next
    case Ready
    have "e' = set_es i (?x \<lparr> es_handing := Testing, es_seen := es_seen ?x + 1 \<rparr>) e"
      using p Ready assms(2) by (auto simp: advance_def set_es_def es_of_def)
    then show ?thesis using own_es_update [OF assms(1,2) ready_own(1) [OF o l Ready]] by simp
  qed (use p in \<open>auto simp: cxx_res intro!: adv\<close>)
qed

lemma door_own:
  assumes "own_es G cfg c p x" "es_handing x \<noteq> Idle"
  shows "h \<noteq> Idle \<Longrightarrow> own_es G cfg c p (x \<lparr> es_handing := h \<rparr>)"
    "own_es G cfg (Suc c) p (x \<lparr> es_handing := Idle \<rparr>)"
  using assms by (simp_all add: own_es_def es_inv_def at_door_def)

lemma count_list_snoc [simp]:
  "count_list (xs @ [j]) i = count_list xs i + (if i = j then 1 else 0)"
  by simp

lemma on_ready_own:
  assumes "own_inv G e" "i < length (en_sessions e)" "on_ready env i e = Some e'"
  shows "own_inv G e'"
proof -
  let ?x = "es_of e i"
  note o = own_item [OF assms(1,2)]
  show ?thesis
  proof (cases "es_handing ?x")
    case Idle
    then show ?thesis using assms(3) by (simp add: on_ready_def)
  next
    case Testing
    then have n: "es_handing ?x \<noteq> Idle" by simp
    show ?thesis
    proof (cases "en_stop_pace e")
      case True
      note c = close_door_own [OF o n]
      have "e' = set_es i (close_session env (?x \<lparr> es_handing := Idle \<rparr>)) e"
        using assms(3) Testing True by (simp add: on_ready_def Let_def split: if_splits)
      then show ?thesis using own_es_update [OF assms(1,2)] c by simp
    next
      case False
      then have "e' = set_es i (?x \<lparr> es_handing := Pushing \<rparr>) e"
        using assms(3) Testing by (simp add: on_ready_def Let_def)
      then show ?thesis using own_es_update [OF assms(1,2) door_own(1) [OF o n]] by simp
    qed
  next
    case Pushing
    then have n: "es_handing ?x \<noteq> Idle" by simp
    have e: "e' = set_es i (?x \<lparr> es_handing := Idle \<rparr>) (e \<lparr> en_ready := en_ready e @ [i] \<rparr>)"
      using assms(3) Pushing by (simp add: on_ready_def Let_def split: if_splits)
    show ?thesis using door_own(2) [OF o n] own_range(3) [OF assms(1)] own_cfg(2) [OF assms(1)]
      by (intro own_update [OF assms(1,2), of _ "?x \<lparr> es_handing := Idle \<rparr>"])
        (simp_all add: e set_es_def places_def)
  qed
qed

lemma max_1_count: "unat (if uv then max 1 (v :: u16) else 0) \<le> unat (max 1 v)"
  by simp

lemma sched_item_ok:
  assumes "sched_Next G s = Inr (item, s')" shows "item_ok (sc_cfg s) item" "sc_cfg s' = sc_cfg s"
proof -
  let ?cfg = "sc_cfg s"
  note f = sched_Next_facts [OF assms]
  then show "sc_cfg s' = sc_cfg s" by blast
  obtain v where v: "wi_op_bytes item = ComputeOpBytes ?cfg v"
    "fo_vector_chunks (wi_session item) = (if v then max 1 (rc_vector_chunks ?cfg) else 0)"
    "fo_chunk_size (wi_session item) = rc_chunk_size ?cfg" using f by blast
  have "0 < max 1 (rc_vector_chunks ?cfg)" using vector_count_bounds(1) [of "rc_vector_chunks ?cfg"]
    by (simp add: word_less_nat_alt)
  then show "item_ok ?cfg item" by (auto simp: item_ok_def v SessionOpBytes_def ComputeOpBytes_def chunk_bytes_def Let_def)
qed

text \<open>A session in the main thread's hands.\<close>

lemma picked_own:
  assumes "own_inv G e" "holds (en_pc e) i = 1"
  shows "i < length (en_sessions e)" "\<exists>c. places (en_ready e) (en_pc e) i = Suc c \<and> c = count_list (en_ready e) i
      \<and> own_es G (en_cfg e) (Suc c) (en_pc e = Charged i) (es_of e i)"
proof -
  have "0 < places (en_ready e) (en_pc e) i" using assms(2) by (simp add: places_def)
  then show i: "i < length (en_sessions e)" by (rule own_range(1) [OF assms(1)])
  show "\<exists>c. places (en_ready e) (en_pc e) i = Suc c \<and> c = count_list (en_ready e) i
      \<and> own_es G (en_cfg e) (Suc c) (en_pc e = Charged i) (es_of e i)"
    using own_item [OF assms(1) i] assms(2) by (simp add: places_def)
qed

lemma holds_other: "holds p i = 1 \<Longrightarrow> j \<noteq> i \<Longrightarrow> holds p j = 0"
  by (cases p) (auto split: if_splits)

text \<open>The main thread lets go of the session it holds.\<close>

lemma let_go_own:
  assumes "own_inv G e" "holds (en_pc e) i = 1" "own_es G (en_cfg e) (count_list (en_ready e) i) (p = Charged i) x"
    "\<And>j. holds p j = 0" "\<And>j. p = Charged j \<Longrightarrow> j = i" "\<And>j. inside p j \<Longrightarrow> j = i" "pc_item p = None"
    "e' = set_pc p (set_es i x e1)" "en_sessions e1 = en_sessions e" "en_ready e1 = en_ready e" "en_cfg e1 = en_cfg e"
    "en_sched e1 = en_sched e"
  shows "own_inv G e'"
proof -
  have n: "en_pc e \<noteq> Charged j" for j using assms(2) by (cases "en_pc e") auto
  note i = picked_own(1) [OF assms(1,2)]
  show ?thesis
  proof (rule own_update [OF assms(1) i, of e' x])
    show "en_sessions e' = (en_sessions e)[i := x]" "en_cfg e' = en_cfg e" "en_sched e' = en_sched e"
      by (simp_all add: assms(8-12))
    show "own_es G (en_cfg e) (places (en_ready e') (en_pc e') i) (en_pc e' = Charged i) x"
      using assms(3) by (simp add: assms(4,8,10) places_def)
    show "places (en_ready e') (en_pc e') j = places (en_ready e) (en_pc e) j" if "j \<noteq> i" for j
      using holds_other [OF assms(2) that] by (simp add: assms(4,8,10) places_def)
    show "(en_pc e' = Charged j) = (en_pc e = Charged j)" if "j \<noteq> i" for j
      using n [of j] assms(5) [of j] that by (auto simp: assms(8))
    show "j < length (en_sessions e)" if "inside (en_pc e') j" for j
      using that assms(6) [of j] i by (simp add: assms(8))
    show "item_ok (en_cfg e) item" if "pc_item (en_pc e') = Some item" for item
      using that assms(7) by (simp add: assms(8))
  qed
qed

lemma pick_own:
  assumes "own_inv G e" "en_pc e = AtTop \<or> en_pc e = Waiting" shows "own_inv G (pick e)"
  using assms(2)
  by (intro own_frame [OF assms(1)]) (auto simp: pick_def places_def split: list.splits)

lemma price_cases:
  fixes e :: "'r engine" and i :: nat
  defines "n \<equiv> NextOpBytes (ss_fs (es_sys (es_of e i)))"
  obtains (close) "n = 0" "price env now i e = set_pc (Calling i) (set_es i (close_session env (es_of e i)) e)"
  | (pay) b where "n \<noteq> 0" "TryAcquire (en_bucket e) now n = (True, b)"
      "price env now i e = set_pc (Charged i) (set_es i (pay_session n (es_of e i)) (e \<lparr> en_bucket := b \<rparr>))"
  | (refuse) b where "n \<noteq> 0" "TryAcquire (en_bucket e) now n = (False, b)"
      "price env now i e = set_pc (Refused i n) (e \<lparr> en_bucket := b \<rparr>)"
proof -
  obtain granted b where t: "TryAcquire (en_bucket e) now n = (granted, b)" by (cases "TryAcquire (en_bucket e) now n")
  show thesis
  proof (cases "n = 0")
    case True
    then show ?thesis using close by (simp add: price_def n_def)
  next
    case False
    then show ?thesis using t pay [of b] refuse [of b] by (cases granted) (simp_all add: price_def n_def Let_def)
  qed
qed

lemma price_own:
  assumes "own_inv G e" "en_pc e = Pricing i" shows "own_inv G (price env now i e)"
proof -
  let ?x = "es_of e i"
  have h: "holds (en_pc e) i = 1" by (simp add: assms(2))
  have o: "own_es G (en_cfg e) (Suc (count_list (en_ready e) i)) False ?x"
    using picked_own(2) [OF assms(1) h] by (simp add: assms(2))
  show ?thesis
  proof (cases rule: price_cases [where e = e and i = i and env = env and now = now])
    case close
    then show ?thesis using close_own(1) [OF o]
      by (intro let_go_own [OF assms(1) h, where p = "Calling i" and x = "close_session env ?x" and ?e1.0 = e]) simp_all
  next
    case (pay b)
    then show ?thesis using pay_own [OF o refl]
      by (intro let_go_own [OF assms(1) h, where p = "Charged i" and ?e1.0 = "e \<lparr> en_bucket := b \<rparr>"
          and x = "pay_session (NextOpBytes (ss_fs (es_sys ?x))) ?x"]) simp_all
  next
    case (refuse b)
    then show ?thesis using assms(2) by (intro own_frame [OF assms(1)]) (simp_all add: places_def)
  qed
qed

text \<open>The step that makes a new session, and the one that issues a read.\<close>

lemma start_step_own:
  assumes "own_inv G e" "en_pc e = Starting item"
  shows "own_inv G (set_pc (Calling (length (en_sessions e)))
    (e \<lparr> en_sessions := en_sessions e @ [start_session G env item] \<rparr>))" (is "own_inv G ?e")
proof -
  let ?n = "length (en_sessions e)"
  have m: "item_ok (en_cfg e) item" using own_cfg(2) [OF assms(1)] assms(2) by simp
  have at: "own_at G e i" for i using assms(1) by (simp add: own_inv_def)
  have "own_at G ?e i" for i
  proof (cases "i = ?n")
    case True
    then have "count_list (en_ready e) i = 0" using at [of i] assms(2) by (simp add: own_at_def places_def)
    then show ?thesis using True start_own [OF m, of G env] by (simp add: own_at_def places_def es_of_def)
  next
    case False
    then have "i < length (en_sessions e) \<Longrightarrow> es_of ?e i = es_of e i" by (simp add: es_of_def nth_append)
    then show ?thesis using at [of i] False assms(2)
      by (cases "i < length (en_sessions e)") (simp_all add: own_at_def places_def)
  qed
  then show ?thesis using own_cfg(1) [OF assms(1)] by (simp add: own_inv_def)
qed

lemma issue_step_own:
  assumes "own_inv G e" "en_pc e = Charged i"
  shows "own_inv G (set_pc (Calling i) (set_es i (issue_session G env (es_of e i)) e))"
proof -
  have i: "i < length (en_sessions e)" by (rule own_range(2) [OF assms])
  have "own_es G (en_cfg e) (count_list (en_ready e) i) True (es_of e i)"
    using own_item [OF assms(1) i] assms(2) by (simp add: places_def)
  from issue_own [OF this, of env] show ?thesis using assms(2) i
    by (intro own_update [OF assms(1) i, of _ "issue_session G env (es_of e i)"])
      (simp_all add: set_es_def places_def)
qed

lemma closing_step_own:
  assumes "own_inv G e" "en_pc e = Closing" "en_ready e = i # is"
  shows "own_inv G (set_pc (ClosingCall i) (set_es i (close_session env (es_of e i)) (e \<lparr> en_ready := is \<rparr>)))"
proof -
  have p: "places (en_ready e) (en_pc e) i = Suc (count_list is i)" by (simp add: places_def assms(2,3))
  then have i: "i < length (en_sessions e)" using own_range(1) [OF assms(1), of i] by simp
  have "own_es G (en_cfg e) (Suc (count_list is i)) False (es_of e i)"
    using own_item [OF assms(1) i] by (simp add: p) (simp add: assms(2))
  from close_own(1) [OF this, of env] show ?thesis using assms(2,3) i
    by (intro own_update [OF assms(1) i, of _ "close_session env (es_of e i)"])
      (simp_all add: set_es_def places_def)
qed

lemma main_step_own:
  assumes "own_inv G e" "main_step G env now (en_pc e) e = Some (Inr e')"
  shows "own_inv G e'"
proof (cases "en_pc e")
  case AtTop
  have "own_inv G (set_pc p e)" if "p = Stopping \<or> p = Waiting" for p
    using that AtTop by (intro own_frame [OF assms(1)]) (auto simp: places_def)
  then show ?thesis using assms pick_own [OF assms(1)] AtTop by (auto split: if_splits)
next
  case Waiting
  have "own_inv G (set_pc Stopping e)"
    using Waiting by (intro own_frame [OF assms(1)]) (auto simp: places_def)
  then show ?thesis using assms pick_own [OF assms(1)] Waiting by (auto split: if_splits)
next
  case (Picked i)
  let ?x = "es_of e i"
  have h: "holds (en_pc e) i = 1" by (simp add: Picked)
  show ?thesis
  proof (cases "fs_completed (ss_fs (es_sys ?x))")
    case True
    have o: "own_es G (en_cfg e) (Suc (count_list (en_ready e) i)) False ?x"
      using picked_own(2) [OF assms(1) h] by (simp add: Picked)
    have "e' = set_pc AtTop (set_es i (drop_session ?x) e)" using assms(2) True by (simp add: Picked)
    then show ?thesis using drop_own [OF o True]
      by (intro let_go_own [OF assms(1) h, where p = AtTop and x = "drop_session ?x" and ?e1.0 = e]) simp_all
  next
    case False
    then have "e' = set_pc (Pricing i) e" using assms(2) by (simp add: Picked)
    then show ?thesis using Picked by (intro own_frame [OF assms(1)]) (simp_all add: places_def)
  qed
next
  case (Pricing i)
  then show ?thesis using assms price_own [OF assms(1) Pricing] by (auto split: if_splits)
next
  case (Refused i n)
  then show ?thesis using assms by (intro own_frame [OF assms(1)]) (auto simp: places_def)
next
  case (Charged i)
  then show ?thesis using assms issue_step_own [OF assms(1) Charged] by (auto split: if_splits)
next
  case HasSlot
  then obtain item s where s: "sched_Next G (en_sched e) = Inr (item, s)" "e' = set_pc (Drawn item) (e \<lparr> en_sched := s \<rparr>)"
    using assms(2) by (auto simp: cxx_res)
  then show ?thesis using sched_item_ok [OF s(1)] own_cfg(1) [OF assms(1)] HasSlot
    by (intro own_frame [OF assms(1)]) (auto simp: places_def)
next
  case (Drawn item)
  then show ?thesis using assms own_cfg(2) [OF assms(1)]
    by (intro own_frame [OF assms(1)]) (auto simp: places_def case_prod_beta split: if_splits)
next
  case (Admitted item)
  then show ?thesis using assms own_cfg(2) [OF assms(1)]
    by (intro own_frame [OF assms(1)]) (auto simp: places_def)
next
  case (Counted item)
  then show ?thesis using assms own_cfg(2) [OF assms(1)]
    by (intro own_frame [OF assms(1)]) (auto simp: places_def)
next
  case (Starting item)
  then show ?thesis using assms(2) start_step_own [OF assms(1) Starting] by auto
next
  case (Pausing n)
  then show ?thesis using assms
    by (intro own_frame [OF assms(1)]) (auto simp: places_def pause_def case_prod_beta cxx_res)
next
  case (Calling i)
  then show ?thesis using assms
    by (intro own_frame [OF assms(1)]) (auto simp: places_def split: if_splits)
next
  case Closing
  then show ?thesis
  proof (cases "en_ready e")
    case Nil
    then show ?thesis using assms Closing
      by (intro own_frame [OF assms(1)]) (auto simp: places_def cxx_res)
  next
    case (Cons i "is")
    then show ?thesis using assms Closing closing_step_own [OF assms(1) Closing Cons]
      by (auto split: if_splits)
  qed
next
  case (ClosingCall i)
  then show ?thesis using assms
    by (intro own_frame [OF assms(1)]) (auto simp: places_def split: if_splits)
next
  case (DrainWait t)
  then show ?thesis using assms
    by (intro own_frame [OF assms(1)]) (auto simp: places_def split: if_splits)
next
  case AtAdmit
  then show ?thesis using assms
    by (intro own_frame [OF assms(1)]) (auto simp: places_def case_prod_beta split: if_splits)
next
  case Trying
  then show ?thesis using assms
    by (intro own_frame [OF assms(1)]) (auto simp: places_def case_prod_beta split: if_splits)
next
  case (NoTokens n)
  then show ?thesis using assms
    by (intro own_frame [OF assms(1)]) (auto simp: places_def case_prod_beta split: if_splits)
next
  case Stopping
  then show ?thesis using assms
    by (intro own_frame [OF assms(1)]) (auto simp: places_def case_prod_beta split: if_splits)
next
  case Finished
  then show ?thesis using assms by simp
qed

lemma engine_act_own:
  assumes "own_inv G e" "engine_act G a e = Some (Inr e')" shows "own_inv G e'"
proof (cases a)
  case (Move now env)
  then show ?thesis using assms main_step_own by simp
next
  case (Respond i r env)
  then obtain y where y: "i < length (en_sessions e)" "respond G env r (es_sys (es_of e i)) = Some y"
    "e' = set_es i (es_of e i \<lparr> es_sys := y \<rparr>) e" using assms(2) by (auto split: if_splits)
  show ?thesis unfolding y(3)
    by (rule own_es_update [OF assms(1) y(1) respond_own [OF own_item [OF assms(1) y(1)] y(2)]])
next
  case (WallTimeout i env)
  then have y: "i < length (en_sessions e)"
    "e' = set_es i (es_of e i \<lparr> es_sys := es_sys (es_of e i)
       \<lparr> ss_fs := RequestWallTimeout env (ss_fs (es_sys (es_of e i))) \<rparr> \<rparr>) e"
    using assms(2) by (auto simp: Let_def split: if_splits)
  show ?thesis unfolding y(2)
    by (rule own_es_update [OF assms(1) y(1) timeout_own [OF own_item [OF assms(1) y(1)]]])
next
  case (Perform i now)
  then show ?thesis using assms perform_own [OF assms(1)] by (auto split: if_splits)
next
  case (OnReady i env)
  then show ?thesis using assms on_ready_own [OF assms(1)] by (auto split: if_splits)
qed (use assms in \<open>auto simp: Let_def cxx_res split: option.splits intro!: own_same [OF assms(1)]\<close>)

lemma new_engine_own: "new_engine G hostname cfg t0 = Inr e \<Longrightarrow> own_inv G e"
  by (auto simp: new_engine_def cxx_res own_inv_def own_at_def places_def new_Scheduler_def)

end
