(* ===== verification/EngineSlots.thy ===== *)
theory EngineSlots
  imports EngineOwn
begin

text \<open>
  Slots and counters. The semaphore counts the sessions whose completion callback has not given its slot
  back, and the slot the main thread has taken for the session it is about to start; \<^verbatim>\<open>live\<close> counts the
  sessions whose callback has not taken them off, and the one being started.
\<close>

section \<open>Sums over the sessions\<close>

definition tally :: "('r engine_session \<Rightarrow> 'a::ab_group_add) \<Rightarrow> 'r engine \<Rightarrow> 'a" where
  "tally f e = sum_list (map f (en_sessions e))"

lemma sum_list_set: "i < length xs \<Longrightarrow> sum_list (xs[i := x]) = sum_list xs - xs ! i + (x :: 'a::ab_group_add)"
  by (induction xs arbitrary: i) (auto split: nat.split simp: algebra_simps)

lemma tally_set: "i < length (en_sessions e) \<Longrightarrow> tally f (set_es i x e) = tally f e - f (es_of e i) + f x"
  by (simp add: tally_def es_of_def map_update sum_list_set)

lemma tally_same: "en_sessions e' = en_sessions e \<Longrightarrow> tally f e' = tally f e"
  by (simp add: tally_def)

lemma tally_snoc: "en_sessions e' = en_sessions e @ [x] \<Longrightarrow> tally f e' = tally f e + f x"
  by (simp add: tally_def)

lemma tally_frame: "en_sessions e' = (en_sessions e)[i := x] \<Longrightarrow> f x = f (es_of e i) \<Longrightarrow> tally f e' = tally f e"
  by (cases "i < length (en_sessions e)")
    (simp_all add: tally_def es_of_def map_update sum_list_set list_update_beyond)

section \<open>The invariant\<close>

definition occupies :: "'r engine_session \<Rightarrow> int" where
  "occupies x = (if es_phase x = Freed then 0 else 1)"

definition lives :: "'r engine_session \<Rightarrow> int" where
  "lives x = (if es_phase x = Running \<or> es_phase x = Reported then 1 else 0)"

fun pc_slot :: "engine_pc \<Rightarrow> int" where
  "pc_slot HasSlot = 1"
| "pc_slot (Drawn item) = 1"
| "pc_slot (NoTokens n) = 1"
| "pc_slot (Admitted item) = 1"
| "pc_slot (Counted item) = 1"
| "pc_slot (Starting item) = 1"
| "pc_slot _ = 0"

fun pc_live :: "engine_pc \<Rightarrow> int" where
  "pc_live (Counted item) = 1"
| "pc_live (Starting item) = 1"
| "pc_live _ = 0"

definition slots_inv :: "'r engine \<Rightarrow> bool" where
  "slots_inv e \<longleftrightarrow> sem_ok (en_sem e)
     \<and> sem_max (en_sem e) = (if rc_max_inflight (en_cfg e) = 0 then 1 else rc_max_inflight (en_cfg e))
     \<and> uint (sem_current (en_sem e)) = tally occupies e + pc_slot (en_pc e)
     \<and> uint (en_live e) = tally lives e + pc_live (en_pc e)"

lemma slots_frame:
  assumes "slots_inv e" "en_sem e' = en_sem e" "en_live e' = en_live e" "en_cfg e' = en_cfg e"
    "tally occupies e' = tally occupies e" "tally lives e' = tally lives e"
    "pc_slot (en_pc e') = pc_slot (en_pc e)" "pc_live (en_pc e') = pc_live (en_pc e)"
  shows "slots_inv e'"
  using assms(1) unfolding slots_inv_def assms(2-8) .

text \<open>A step that leaves the counters alone and changes one session, not its phase.\<close>

lemma slots_call:
  assumes "slots_inv e" "en_sessions e' = (en_sessions e)[i := x]" "es_phase x = es_phase (es_of e i)"
    "en_sem e' = en_sem e" "en_live e' = en_live e" "en_cfg e' = en_cfg e"
    "pc_slot (en_pc e') = pc_slot (en_pc e)" "pc_live (en_pc e') = pc_live (en_pc e)"
  shows "slots_inv e'"
  using assms(3)
  by (intro slots_frame [OF assms(1,4-6) tally_frame [OF assms(2)] tally_frame [OF assms(2)] assms(7,8)])
    (simp_all add: occupies_def lives_def)

lemma slots_same:
  assumes "slots_inv e" "en_sessions e' = en_sessions e" "en_sem e' = en_sem e" "en_live e' = en_live e"
    "en_cfg e' = en_cfg e" "pc_slot (en_pc e') = pc_slot (en_pc e)" "pc_live (en_pc e') = pc_live (en_pc e)"
  shows "slots_inv e'"
  using assms(2) by (intro slots_frame [OF assms(1,3-5) _ _ assms(6,7)]) (simp_all add: tally_def)

lemma counts_nonneg: "0 \<le> tally occupies e" "0 \<le> tally lives e" "tally lives e \<le> tally occupies e"
proof -
  show "0 \<le> tally occupies e" "0 \<le> tally lives e" unfolding tally_def
    by (rule sum_list_nonneg; auto simp: occupies_def lives_def)+
  show "tally lives e \<le> tally occupies e" unfolding tally_def
    by (rule sum_list_mono) (auto simp: occupies_def lives_def)
qed

lemma phase_calls [simp]:
  "es_phase (close_session env x) = es_phase x" "es_phase (issue_session G env x) = es_phase x"
  "es_phase (pay_session n x) = es_phase x" "es_phase (drop_session x) = es_phase x"
  by (simp_all add: close_session_def issue_session_def pay_session_def drop_session_def with_fs_def)

text \<open>A unit taken from a positive counter.\<close>

lemma occupied: "i < length (en_sessions e) \<Longrightarrow> occupies (es_of e i) \<le> tally occupies e"
proof -
  assume i: "i < length (en_sessions e)"
  let ?x = "es_of e i \<lparr> es_phase := Freed \<rparr>"
  have "occupies ?x = 0" by (simp add: occupies_def)
  then have "tally occupies (set_es i ?x e) = tally occupies e - occupies (es_of e i)" using tally_set [OF i, of occupies ?x] by simp
  then show ?thesis using counts_nonneg(1) [of "set_es i ?x e"] by simp
qed

lemma living: "i < length (en_sessions e) \<Longrightarrow> lives (es_of e i) \<le> tally lives e"
proof -
  assume i: "i < length (en_sessions e)"
  let ?x = "es_of e i \<lparr> es_phase := Freed \<rparr>"
  have "lives ?x = 0" by (simp add: lives_def)
  then have "tally lives (set_es i ?x e) = tally lives e - lives (es_of e i)" using tally_set [OF i, of lives ?x] by simp
  then show ?thesis using counts_nonneg(2) [of "set_es i ?x e"] by simp
qed

lemma uint_dec_u64: "0 < uint (a :: u64) \<Longrightarrow> uint (a - 1) = uint a - 1"
  using uint_lt2p [of a] by (simp add: uint_word_ariths)

lemma uint_inc_u64: "uint (a :: u64) < 2 ^ 32 \<Longrightarrow> uint (a + 1) = uint a + 1"
  by (simp add: uint_word_ariths)

lemma sem_Release_uint:
  assumes "sem_ok s" "0 < uint (sem_current s)"
  shows "sem_ok (sem_Release s)" "sem_max (sem_Release s) = sem_max s"
    "uint (sem_current (sem_Release s)) = uint (sem_current s) - 1"
  using assms sem_step_ok [of s SemRelease] sem_step_balance [of s SemRelease] sem_step_max [of s SemRelease]
  by (auto simp: word_gt_0)

lemma sem_TryAcquire_uint:
  assumes "sem_ok s" "sem_TryAcquire s = (ok, s')"
  shows "sem_ok s'" "sem_max s' = sem_max s" "uint (sem_current s') = uint (sem_current s) + (if ok then 1 else 0)"
  using assms sem_step_ok [of s SemTry] sem_step_balance [of s SemTry] sem_step_max [of s SemTry] by auto

section \<open>Steps\<close>

lemma report_frame:
  assumes "report_done r e = Inr e'"
  shows "en_sessions e' = en_sessions e" "en_sem e' = en_sem e" "en_live e' = en_live e" "en_cfg e' = en_cfg e"
    "en_pc e' = en_pc e" "en_bucket e' = en_bucket e" "en_ready e' = en_ready e" "en_t0 e' = en_t0 e"
  using assms by (auto simp: report_done_def Let_def cxx_res split: if_splits)

lemma perform_slots:
  assumes "slots_inv e" "own_inv G e" "i < length (en_sessions e)" "perform now i e = Some (Inr e')"
  shows "slots_inv e'"
proof -
  let ?x = "es_of e i"
  have p: "perform_effect now i (es_log ?x ! es_seen ?x) e = Inr e'" and l: "es_seen ?x < length (es_log ?x)"
    using assms(4) by (auto simp: perform_def Let_def split: if_splits)
  have adv: "slots_inv (advance i e'')" if "en_sessions e'' = (en_sessions e)[i := x]" "es_phase x = es_phase ?x"
    "en_sem e'' = en_sem e" "en_live e'' = en_live e" "en_cfg e'' = en_cfg e" "en_pc e'' = en_pc e" for e'' x
    using assms(3) that
    by (intro slots_call [OF assms(1), where i = i and x = "x \<lparr> es_seen := es_seen x + 1 \<rparr>"])
      (simp_all add: advance_def set_es_def es_of_def)
  have adv0: "slots_inv (advance i e'')" if "en_sessions e'' = en_sessions e"
    "en_sem e'' = en_sem e" "en_live e'' = en_live e" "en_cfg e'' = en_cfg e" "en_pc e'' = en_pc e" for e''
    using that assms(3) by (intro adv [of _ ?x]) (simp_all add: es_of_def)
  have n: "occupies ?x \<le> tally occupies e" "lives ?x \<le> tally lives e"
    using occupied [OF assms(3)] living [OF assms(3)] .
  have pos: "0 \<le> pc_slot (en_pc e)" "0 \<le> pc_live (en_pc e)" by (cases "en_pc e"; simp)+
  note s = assms(1) [unfolded slots_inv_def]
  show ?thesis
  proof (cases "es_log ?x ! es_seen ?x")
    case (Done r)
    show ?thesis
    proof (cases "es_phase ?x")
      case Running
      then obtain e1 where e1: "report_done r e = Inr e1" "e' = set_phase i Reported e1"
        using p Done by (auto simp: cxx_res)
      note f = report_frame [OF e1(1)]
      have x: "es_of e1 i = ?x" by (simp add: es_of_def f)
      have t: "tally g e' = tally g e" if "g (?x \<lparr> es_phase := Reported \<rparr>) = g ?x" for g :: "'a engine_session \<Rightarrow> int"
        using tally_set [of i e1 g "?x \<lparr> es_phase := Reported \<rparr>"] tally_same [OF f(1), of g] assms(3) that
        by (simp add: e1(2) set_phase_def x f(1))
      show ?thesis
        by (rule slots_frame [OF assms(1)]) (simp_all add: t Running occupies_def lives_def, simp_all add: e1(2) set_phase_def f)
    next
      case Reported
      then have e': "e' = set_phase i Uncounted (e \<lparr> en_live := en_live e - 1 \<rparr>)" using p Done by simp
      have "lives ?x = 1" "occupies ?x = 1" using Reported by (simp_all add: lives_def occupies_def)
      moreover have "en_sessions (e \<lparr> en_live := en_live e - 1 \<rparr>) = en_sessions e"
        "es_of (e \<lparr> en_live := en_live e - 1 \<rparr>) i = ?x" by (simp_all add: es_of_def)
      ultimately have "tally occupies e' = tally occupies e" "tally lives e' = tally lives e - 1"
        using assms(3) tally_same [of "e \<lparr> en_live := en_live e - 1 \<rparr>" e] unfolding e' set_phase_def
        by (simp_all add: tally_set occupies_def lives_def)
      moreover have "uint (en_live e - 1) = uint (en_live e) - 1"
        using s n(2) pos(2) \<open>lives ?x = 1\<close> by (intro uint_dec_u64) linarith
      ultimately show ?thesis using s by (simp add: slots_inv_def e' set_phase_def)
    next
      case Uncounted
      then have e': "e' = set_phase i Shown (e \<lparr> en_registry := mr_SetInflight (en_live e) (en_registry e) \<rparr>)"
        using p Done by simp
      have "es_of (e \<lparr> en_registry := mr_SetInflight (en_live e) (en_registry e) \<rparr>) i = ?x"
        by (simp add: es_of_def)
      then have "tally occupies e' = tally occupies e" "tally lives e' = tally lives e"
        using assms(3) Uncounted tally_same [of "e \<lparr> en_registry := mr_SetInflight (en_live e) (en_registry e) \<rparr>" e]
        unfolding e' set_phase_def by (simp_all add: tally_set occupies_def lives_def)
      then show ?thesis using s by (simp add: slots_inv_def e' set_phase_def)
    next
      case Shown
      have e': "e' = set_es i (?x \<lparr> es_phase := Freed, es_seen := es_seen ?x + 1 \<rparr>) (e \<lparr> en_sem := sem_Release (en_sem e) \<rparr>)"
        using p Done Shown assms(3) by (auto simp: advance_def set_phase_def set_es_def es_of_def)
      have "es_of (e \<lparr> en_sem := sem_Release (en_sem e) \<rparr>) i = ?x" by (simp add: es_of_def)
      then have "tally occupies e' = tally occupies e - 1" "tally lives e' = tally lives e"
        using assms(3) Shown tally_same [of "e \<lparr> en_sem := sem_Release (en_sem e) \<rparr>" e]
        unfolding e' by (simp_all add: tally_set occupies_def lives_def)
      moreover have "0 < uint (sem_current (en_sem e))"
        using s n(1) pos(1) Shown by (simp add: occupies_def)
      ultimately show ?thesis using s sem_Release_uint [of "en_sem e"] by (simp add: slots_inv_def e')
    next
      case Freed
      then show ?thesis using p Done adv0 [of e] by simp
    qed
  next
    case Ready
    then have "e' = advance i (set_es i (?x \<lparr> es_handing := Testing \<rparr>) e)" using p by simp
    then show ?thesis using adv [of _ "?x \<lparr> es_handing := Testing \<rparr>"] by (simp add: set_es_def)
  qed (use p adv0 in \<open>auto simp: cxx_res\<close>)
qed

lemma on_ready_slots:
  assumes "slots_inv e" "on_ready env i e = Some e'" shows "slots_inv e'"
proof (cases "es_handing (es_of e i)")
  case Testing
  then obtain x where "e' = set_es i x e" "es_phase x = es_phase (es_of e i)"
    using assms(2) by (auto simp: on_ready_def Let_def split: if_splits)
  then show ?thesis by (intro slots_call [OF assms(1), where i = i and x = x]) (simp_all add: set_es_def)
next
  case Pushing
  then obtain x where "e' = set_es i x (e \<lparr> en_ready := en_ready e @ [i] \<rparr>)" "es_phase x = es_phase (es_of e i)"
    using assms(2) by (auto simp: on_ready_def Let_def split: if_splits)
  then show ?thesis by (intro slots_call [OF assms(1), where i = i and x = x]) (simp_all add: set_es_def)
qed (use assms(2) in \<open>simp add: on_ready_def\<close>)

lemma price_slots:
  assumes "slots_inv e" "en_pc e = Pricing i" shows "slots_inv (price env now i e)"
proof (cases rule: price_cases [where e = e and i = i and env = env and now = now])
  case close
  show ?thesis unfolding close(2) using assms(2)
    by (intro slots_call [OF assms(1), where i = i and x = "close_session env (es_of e i)"]) (simp_all add: set_es_def)
next
  case (pay b)
  show ?thesis unfolding pay(3) using assms(2)
    by (intro slots_call [OF assms(1), where i = i and x = "pay_session (NextOpBytes (ss_fs (es_sys (es_of e i)))) (es_of e i)"])
      (simp_all add: set_es_def)
next
  case (refuse b)
  show ?thesis unfolding refuse(3) using assms(2) by (intro slots_same [OF assms(1)]) simp_all
qed

lemma pick_slots: "slots_inv e \<Longrightarrow> en_pc e = AtTop \<or> en_pc e = Waiting \<Longrightarrow> slots_inv (pick e)"
  by (rule slots_same [of e]) (auto simp: pick_def split: list.splits)

lemma slots_pc:
  assumes "slots_inv e" "pc_slot p = pc_slot (en_pc e)" "pc_live p = pc_live (en_pc e)"
  shows "slots_inv (set_pc p e)"
  using assms(2,3) by (intro slots_same [OF assms(1)]) simp_all

lemma main_step_slots:
  assumes "slots_inv e" "main_step G env now (en_pc e) e = Some (Inr e')"
  shows "slots_inv e'"
proof (cases "en_pc e")
  case AtTop
  then show ?thesis using assms pick_slots [OF assms(1)] slots_pc [OF assms(1)] by (auto split: if_splits)
next
  case Waiting
  then show ?thesis using assms pick_slots [OF assms(1)] slots_pc [OF assms(1)] by (auto split: if_splits)
next
  case (Picked i)
  have "slots_inv (set_pc AtTop (set_es i (drop_session (es_of e i)) e))" using Picked
    by (intro slots_call [OF assms(1), where i = i and x = "drop_session (es_of e i)"]) (simp_all add: set_es_def)
  then show ?thesis using assms(2) Picked slots_pc [OF assms(1)] by (auto split: if_splits)
next
  case (Pricing i)
  then show ?thesis using assms(2) price_slots [OF assms(1) Pricing] by (auto split: if_splits)
next
  case (Refused i n)
  then show ?thesis using assms(2) by (intro slots_same [OF assms(1)]) auto
next
  case (Charged i)
  have "slots_inv (set_pc (Calling i) (set_es i (issue_session G env (es_of e i)) e))" using Charged
    by (intro slots_call [OF assms(1), where i = i and x = "issue_session G env (es_of e i)"]) (simp_all add: set_es_def)
  then show ?thesis using assms(2) Charged by (auto split: if_splits)
next
  case AtAdmit
  then show ?thesis using assms(2) slots_pc [OF assms(1)] by (auto split: if_splits)
next
  case Trying
  obtain ok sem where t: "sem_TryAcquire (en_sem e) = (ok, sem)" by (cases "sem_TryAcquire (en_sem e)")
  then have e': "e' = set_pc (if ok then HasSlot else AtTop) (e \<lparr> en_sem := sem \<rparr>)" using assms(2) Trying by simp
  have c: "tally f e' = tally f e" for f :: "'a engine_session \<Rightarrow> int" by (rule tally_same) (simp add: e')
  show ?thesis using assms(1) sem_TryAcquire_uint [OF _ t] Trying
    unfolding slots_inv_def c by (cases ok) (simp_all add: e')
next
  case (Drawn item)
  then show ?thesis using assms(2) by (intro slots_same [OF assms(1)]) (auto simp: case_prod_beta split: if_splits)
next
  case (NoTokens n)
  then have e': "e' = set_pc (Pausing n) (e \<lparr> en_sem := sem_Release (en_sem e) \<rparr>)" using assms(2) by simp
  have c: "tally f e' = tally f e" for f :: "'a engine_session \<Rightarrow> int" by (rule tally_same) (simp add: e')
  have "0 < uint (sem_current (en_sem e))"
    using assms(1) counts_nonneg(1) [of e] NoTokens by (simp add: slots_inv_def)
  then show ?thesis using assms(1) sem_Release_uint [of "en_sem e"] NoTokens
    unfolding slots_inv_def c by (simp add: e')
next
  case (Admitted item)
  then have e': "e' = set_pc (Counted item) (e \<lparr> en_live := en_live e + 1 \<rparr>)" using assms(2) by simp
  have c: "tally f e' = tally f e" for f :: "'a engine_session \<Rightarrow> int" by (rule tally_same) (simp add: e')
  have "uint (en_live e) < 2 ^ 32"
    using assms(1) counts_nonneg(3) [of e] uint_lt2p [of "sem_current (en_sem e)"] Admitted by (simp add: slots_inv_def)
  then show ?thesis using assms(1) Admitted uint_inc_u64 [of "en_live e"]
    unfolding slots_inv_def c by (simp add: e')
next
  case (Counted item)
  then show ?thesis using assms(2) by (intro slots_same [OF assms(1)]) auto
next
  case (Starting item)
  then have e': "e' = set_pc (Calling (length (en_sessions e)))
     (e \<lparr> en_sessions := en_sessions e @ [start_session G env item] \<rparr>)" using assms(2) by simp
  have "tally f e' = tally f e + f (start_session G env item)" for f :: "'a engine_session \<Rightarrow> int"
    by (rule tally_snoc) (simp add: e')
  then show ?thesis using assms(1) Starting
    unfolding slots_inv_def by (simp add: e' occupies_def lives_def start_session_def)
next
  case Closing
  show ?thesis
  proof (cases "en_ready e")
    case (Cons i "is")
    have "slots_inv (set_pc (ClosingCall i) (set_es i (close_session env (es_of e i)) (e \<lparr> en_ready := is \<rparr>)))"
      using Closing by (intro slots_call [OF assms(1), where i = i and x = "close_session env (es_of e i)"])
        (simp_all add: set_es_def)
    then show ?thesis using assms(2) Closing Cons by (auto split: if_splits)
  qed (use assms(2) Closing slots_pc [OF assms(1)] in \<open>auto simp: cxx_res\<close>)
next
  case (Pausing n)
  then show ?thesis using assms(2)
    by (intro slots_same [OF assms(1)]) (auto simp: pause_def case_prod_beta cxx_res)
next
  case HasSlot
  then show ?thesis using assms(2) by (intro slots_same [OF assms(1)]) (auto simp: cxx_res)
next
  case Stopping
  then show ?thesis using assms(2) by (intro slots_same [OF assms(1)]) auto
qed (use assms slots_pc [OF assms(1)] in \<open>auto split: if_splits\<close>)

lemma engine_act_slots:
  assumes "slots_inv e" "own_inv G e" "engine_act G a e = Some (Inr e')" shows "slots_inv e'"
proof (cases a)
  case (Move now env)
  then show ?thesis using assms main_step_slots by simp
next
  case (Respond i r env)
  then obtain y where y: "e' = set_es i (es_of e i \<lparr> es_sys := y \<rparr>) e" using assms(3) by (auto split: if_splits)
  show ?thesis by (rule slots_call [OF assms(1), where i = i and x = "es_of e i \<lparr> es_sys := y \<rparr>"])
      (simp_all add: y set_es_def)
next
  case (WallTimeout i env)
  then obtain y where y: "e' = set_es i (es_of e i \<lparr> es_sys := y \<rparr>) e" using assms(3)
    by (auto simp: Let_def split: if_splits)
  show ?thesis by (rule slots_call [OF assms(1), where i = i and x = "es_of e i \<lparr> es_sys := y \<rparr>"])
      (simp_all add: y set_es_def)
next
  case (Perform i now)
  then show ?thesis using assms perform_slots [OF assms(1,2)] by (auto split: if_splits)
next
  case (OnReady i env)
  then show ?thesis using assms on_ready_slots [OF assms(1)] by (auto split: if_splits)
qed (use assms in \<open>auto simp: Let_def cxx_res split: option.splits intro!: slots_same [OF assms(1)]\<close>)

lemma new_engine_slots: "new_engine G hostname cfg t0 = Inr e \<Longrightarrow> slots_inv e"
  by (auto simp: new_engine_def cxx_res slots_inv_def tally_def new_InFlightSemaphore_def sem_ok_def word_gt_0)

end
