(* ===== verification/EngineLedger.thy ===== *)
theory EngineLedger
  imports EngineSlots
begin

text \<open>
  The tokens of a run. What the bucket holds, plus what the sessions have been charged, less what their
  refunds have put back, plus what the main thread has paid for a session it is about to start, grows
  only with the elapsed time. With the sessions' own accounts this bounds the bytes a run reads.
\<close>

definition charged :: "'r engine_session \<Rightarrow> rat" where
  "charged x = of_nat (ss_charged (es_sys x))"

definition given_back :: "'r engine_session \<Rightarrow> rat" where
  "given_back x = of_nat (refunded (take (es_seen x) (es_log x)))"

fun pending :: "engine_pc \<Rightarrow> rat" where
  "pending (Admitted item) = of_nat (unat (wi_op_bytes item))"
| "pending (Counted item) = of_nat (unat (wi_op_bytes item))"
| "pending (Starting item) = of_nat (unat (wi_op_bytes item))"
| "pending _ = 0"

text \<open>What the bucket is owed: tokens out in the engine and its sessions.\<close>

definition outstanding :: "'r engine \<Rightarrow> rat" where
  "outstanding e = tally charged e - tally given_back e + pending (en_pc e)"

definition allowance :: "u64 \<Rightarrow> u64 \<Rightarrow> int \<Rightarrow> nat \<Rightarrow> int \<Rightarrow> rat" where
  "allowance r c t0 k t = of_nat (unat c) + worth r (t - t0) * (1 + 1 / 2 ^ 49) + of_nat k * (of_nat (unat c) / 2 ^ 51)"

definition money_inv :: "u64 \<Rightarrow> u64 \<Rightarrow> int \<Rightarrow> int \<Rightarrow> nat \<Rightarrow> 'r engine \<Rightarrow> bool" where
  "money_inv r c t0 t1 k e \<longleftrightarrow> tb_inv r c t1 (en_bucket e) \<and> r \<noteq> 0 \<and> unat c \<le> 2 ^ 53
     \<and> tokens_of (en_bucket e) + outstanding e \<le> allowance r c t0 k (tb_last (en_bucket e))"

lemma allowance_step:
  "allowance r c t0 (Suc k) t' = allowance r c t0 k t + (worth r t' - worth r t) * (1 + 1 / 2 ^ 49) + of_nat (unat c) / 2 ^ 51"
proof -
  have "worth r (t' - t0) = worth r (t - t0) + (worth r t' - worth r t)" unfolding worth_diff [symmetric] by simp
  then have "worth r (t' - t0) * (1 + 1 / 2 ^ 49) = worth r (t - t0) * (1 + 1 / 2 ^ 49)
      + (worth r t' - worth r t) * (1 + 1 / 2 ^ 49)" by (simp only: distrib_right)
  moreover have "of_nat (Suc k) * (of_nat (unat c) / 2 ^ 51 :: rat) = of_nat k * (of_nat (unat c) / 2 ^ 51) + of_nat (unat c) / 2 ^ 51"
    by (simp only: of_nat_Suc distrib_right mult_1_left add.commute)
  ultimately show ?thesis unfolding allowance_def by linarith
qed

lemma allowance_mono: "allowance r c t0 k t \<le> allowance r c t0 (Suc k) t"
  by (simp add: allowance_step [of r c t0 k t t])

section \<open>Frames\<close>

lemma money_frame:
  assumes "money_inv r c t0 t1 k e" "en_bucket e' = en_bucket e" "outstanding e' \<le> outstanding e"
  shows "money_inv r c t0 t1 (Suc k) e'"
proof -
  have "tokens_of (en_bucket e) + outstanding e' \<le> allowance r c t0 k (tb_last (en_bucket e))"
    using assms(1,3) unfolding money_inv_def by linarith
  then show ?thesis using assms(1) allowance_mono [of r c t0 k "tb_last (en_bucket e)"]
    unfolding money_inv_def assms(2) by linarith
qed

text \<open>One call of the bucket.\<close>

lemma money_call:
  assumes "money_inv r c t0 t1 k e" "en_bucket e' = tb_step (en_bucket e) x" "tb_call_ok t1 x"
    "outstanding e' \<le> outstanding e + tb_granted (en_bucket e) x - tb_given (en_bucket e) x"
  shows "money_inv r c t0 t1 (Suc k) e'"
proof -
  have i: "tb_inv r c t1 (en_bucket e) \<and> r \<noteq> 0 \<and> unat c \<le> 2 ^ 53" using assms(1) by (simp add: money_inv_def)
  from tb.inv_step [OF i assms(3)]
  have i': "tb_inv r c t1 (en_bucket e') \<and> r \<noteq> 0 \<and> unat c \<le> 2 ^ 53" by (simp add: assms(2))
  have l: "tokens_of (en_bucket e') \<le> tokens_of (en_bucket e) + tb_gain r c (en_bucket e) x"
    using tb.level_step [OF i assms(3)] by (simp add: assms(2))
  have s: "allowance r c t0 (Suc k) (tb_last (en_bucket e')) = allowance r c t0 k (tb_last (en_bucket e))
      + (worth r (tb_last (en_bucket e')) - worth r (tb_last (en_bucket e))) * (1 + 1 / 2 ^ 49) + of_nat (unat c) / 2 ^ 51"
    by (rule allowance_step)
  have "tokens_of (en_bucket e) + outstanding e \<le> allowance r c t0 k (tb_last (en_bucket e))"
    using assms(1) by (simp add: money_inv_def)
  then have "tokens_of (en_bucket e') + outstanding e' \<le> allowance r c t0 (Suc k) (tb_last (en_bucket e'))"
    using l assms(4) unfolding s tb_gain_def assms(2) [symmetric] by linarith
  then show ?thesis using i' by (simp add: money_inv_def)
qed

text \<open>A look at the bucket that only refills it.\<close>

lemma money_refill:
  assumes "money_inv r c t0 t1 k e" "en_bucket e' = RefillUnlocked (en_bucket e) now" "clock_ok now" "now \<le> t1"
    "outstanding e' \<le> outstanding e"
  shows "money_inv r c t0 t1 (Suc k) e'"
proof -
  let ?b = "en_bucket e"
  have i: "tb_inv r c t1 ?b" "r \<noteq> 0" "unat c \<le> 2 ^ 53" and lv: "tokens_of ?b + outstanding e \<le> allowance r c t0 k (tb_last ?b)"
    using assms(1) by (simp_all add: money_inv_def)
  then have b: "bucket_ok ?b" "tb_rate_bytes_per_s ?b = r" "tb_capacity ?b = c" "tb_last ?b \<le> t1" by (simp_all add: tb_inv_def)
  have c: "cap_of ?b = of_nat (unat c)" using cap_of_exact [of ?b] i(3) b(3) by simp
  have "1 \<le> unat c" using b by (simp add: bucket_ok_def word_less_nat_alt)
  then have c1: "1 \<le> cap_of ?b" by (simp add: c)
  have "tokens_of (en_bucket e') \<le> tokens_of ?b
      + (worth r (tb_last (en_bucket e')) - worth r (tb_last ?b)) * (1 + 1 / 2 ^ 49) + of_nat (unat c) / 2 ^ 52"
    using Refill_level [OF b(1) assms(3) _ c1] i(2) b(2) by (simp add: assms(2) c)
  moreover have "(of_nat (unat c) :: rat) / 2 ^ 52 \<le> of_nat (unat c) / 2 ^ 51" by (simp add: divide_left_mono)
  ultimately have "tokens_of (en_bucket e') + outstanding e' \<le> allowance r c t0 (Suc k) (tb_last (en_bucket e'))"
    using lv assms(5) unfolding allowance_step [of r c t0 k "tb_last (en_bucket e')" "tb_last ?b"] by linarith
  moreover have "tb_inv r c t1 (en_bucket e')"
    using RefillUnlocked_ok [OF b(1) assms(3)] RefillUnlocked_last [OF b(1) assms(3)] b i(2) assms(4)
    by (simp add: tb_inv_def assms(2))
  ultimately show ?thesis using i by (simp add: money_inv_def)
qed

section \<open>What a call does to the accounts\<close>

lemma called_given:
  assumes "es_inv G cfg x" "called G x x'" shows "given_back x' = given_back x"
proof -
  have "es_seen x \<le> length (es_log x)" using assms(1) by (simp add: es_inv_def)
  from called_keeps(1) [OF assms(2) this] show ?thesis by (simp add: given_back_def)
qed

lemma charged_calls [simp]:
  "charged (close_session env x) = charged x" "charged (issue_session G env x) = charged x"
  "charged (drop_session x) = charged x" "charged (pay_session n x) = charged x + of_nat (unat n)"
  "charged (x \<lparr> es_handing := h \<rparr>) = charged x" "charged (x \<lparr> es_seen := m \<rparr>) = charged x"
  "charged (x \<lparr> es_phase := q \<rparr>) = charged x" "charged (x \<lparr> es_phase := q, es_seen := m \<rparr>) = charged x"
  "given_back (x \<lparr> es_handing := h \<rparr>) = given_back x" "given_back (x \<lparr> es_phase := q \<rparr>) = given_back x"
  by (simp_all add: charged_def given_back_def close_session_def issue_session_def drop_session_def pay_session_def with_fs_def)

text \<open>Changing one session.\<close>

lemma outstanding_set:
  assumes "i < length (en_sessions e)"
  shows "outstanding (set_es i x e) = outstanding e + (charged x - charged (es_of e i)) - (given_back x - given_back (es_of e i))"
  by (simp add: outstanding_def tally_set [OF assms])

lemma outstanding_pc: "outstanding (set_pc p e) = outstanding e - pending (en_pc e) + pending p"
  by (simp add: outstanding_def tally_same [of "set_pc p e" e])

lemma outstanding_same: "en_sessions e' = en_sessions e \<Longrightarrow> en_pc e' = en_pc e \<Longrightarrow> outstanding e' = outstanding e"
  by (simp add: outstanding_def tally_same [of e' e])

lemma seen_given:
  assumes "es_seen x < length (es_log x)"
  shows "given_back (x \<lparr> es_seen := es_seen x + 1 \<rparr>) = given_back x + of_nat (refund_of (es_log x ! es_seen x))"
  by (simp add: given_back_def take_step [OF assms] measure_emit)

text \<open>The next session a call changes: the charge stays, the refunds carried out stay.\<close>

lemma outstanding_call:
  assumes "own_inv G e" "i < length (en_sessions e)" "called G (es_of e i) x" "charged x = charged (es_of e i)"
  shows "outstanding (set_es i x e) = outstanding e"
proof -
  have "es_inv G (en_cfg e) (es_of e i)" using own_item [OF assms(1,2)] by (simp add: own_es_def)
  then have "given_back x = given_back (es_of e i)" by (rule called_given [OF _ assms(3)])
  then show ?thesis by (simp add: outstanding_set [OF assms(2)] assms(4))
qed

section \<open>Steps\<close>

lemma advance_out:
  assumes "i < length (en_sessions e)" "es_seen (es_of e i) < length (es_log (es_of e i))"
  shows "outstanding (advance i e) = outstanding e - of_nat (refund_of (es_log (es_of e i) ! es_seen (es_of e i)))"
  using seen_given [OF assms(2)] by (simp add: advance_def outstanding_set [OF assms(1)])

lemma perform_money:
  assumes "money_inv r c t0 t1 k e" "i < length (en_sessions e)" "perform now i e = Some (Inr e')"
    "clock_ok now" "now \<le> t1"
  shows "money_inv r c t0 t1 (Suc k) e'"
proof -
  let ?x = "es_of e i"
  have p: "perform_effect now i (es_log ?x ! es_seen ?x) e = Inr e'" and l: "es_seen ?x < length (es_log ?x)"
    using assms(3) by (auto simp: perform_def Let_def split: if_splits)
  have adv: "outstanding (advance i e1) = outstanding e - of_nat (refund_of (es_log ?x ! es_seen ?x))
      \<and> en_bucket (advance i e1) = en_bucket e1"
    if "en_sessions e1 = en_sessions e" "en_pc e1 = en_pc e" for e1
  proof -
    have "es_of e1 i = ?x" by (simp add: es_of_def that)
    then show ?thesis using advance_out [of i e1] l assms(2) outstanding_same [OF that] that(1)
      by (simp add: advance_def)
  qed
  have ph: "outstanding (set_phase i q e1) = outstanding e \<and> en_bucket (set_phase i q e1) = en_bucket e1"
    if "en_sessions e1 = en_sessions e" "en_pc e1 = en_pc e" for e1 q
  proof -
    have "es_of e1 i = ?x" by (simp add: es_of_def that)
    then show ?thesis using outstanding_set [of i e1 "?x \<lparr> es_phase := q \<rparr>"] assms(2) outstanding_same [OF that] that(1)
      by (simp add: set_phase_def)
  qed
  show ?thesis
  proof (cases "es_log ?x ! es_seen ?x")
    case (RefundTokens n)
    then have e': "e' = advance i (e \<lparr> en_bucket := Refund (en_bucket e) now n \<rparr>)" using p by simp
    show ?thesis
    proof (rule money_call [OF assms(1), where x = "(now, Give n)"])
      show "en_bucket e' = tb_step (en_bucket e) (now, Give n)" by (simp add: e' advance_def)
      show "outstanding e' \<le> outstanding e + tb_granted (en_bucket e) (now, Give n) - tb_given (en_bucket e) (now, Give n)"
        using adv [of "e \<lparr> en_bucket := Refund (en_bucket e) now n \<rparr>"] RefundTokens by (simp add: e')
    qed (simp add: assms(4,5))
  next
    case (Done res)
    show ?thesis
    proof (cases "es_phase ?x")
      case Running
      then obtain e1 where e1: "report_done res e = Inr e1" "e' = set_phase i Reported e1"
        using p Done by (auto simp: cxx_res)
      note f = report_frame [OF e1(1)]
      show ?thesis using ph [OF f(1,5)] f(6) by (intro money_frame [OF assms(1)]) (simp_all add: e1(2))
    next
      case Shown
      have e': "e' = set_es i (?x \<lparr> es_phase := Freed, es_seen := es_seen ?x + 1 \<rparr>) (e \<lparr> en_sem := sem_Release (en_sem e) \<rparr>)"
        using p Done Shown assms(2) by (auto simp: advance_def set_phase_def set_es_def es_of_def)
      have x: "es_of (e \<lparr> en_sem := sem_Release (en_sem e) \<rparr>) i = ?x" by (simp add: es_of_def)
      have "given_back (?x \<lparr> es_phase := Freed, es_seen := es_seen ?x + 1 \<rparr>) = given_back ?x"
        using seen_given [OF l] Done by (simp add: given_back_def)
      then have "outstanding e' = outstanding e" unfolding e'
        using assms(2) outstanding_set [of i "e \<lparr> en_sem := sem_Release (en_sem e) \<rparr>"
            "?x \<lparr> es_phase := Freed, es_seen := es_seen ?x + 1 \<rparr>"]
          outstanding_same [of "e \<lparr> en_sem := sem_Release (en_sem e) \<rparr>" e] x by simp
      then show ?thesis by (intro money_frame [OF assms(1)]) (simp_all add: e')
    next
      case Reported
      then have e': "e' = set_phase i Uncounted (e \<lparr> en_live := en_live e - 1 \<rparr>)" using p Done by simp
      show ?thesis using ph [of "e \<lparr> en_live := en_live e - 1 \<rparr>"] by (intro money_frame [OF assms(1)]) (simp_all add: e')
    next
      case Uncounted
      then have e': "e' = set_phase i Shown (e \<lparr> en_registry := mr_SetInflight (en_live e) (en_registry e) \<rparr>)"
        using p Done by simp
      show ?thesis using ph [of "e \<lparr> en_registry := mr_SetInflight (en_live e) (en_registry e) \<rparr>"]
        by (intro money_frame [OF assms(1)]) (simp_all add: e')
    next
      case Freed
      then have e': "e' = advance i e" using p Done by simp
      show ?thesis using adv [of e] Done by (intro money_frame [OF assms(1)]) (simp_all add: e')
    qed
  next
    case Ready
    then have e': "e' = set_es i (?x \<lparr> es_handing := Testing, es_seen := es_seen ?x + 1 \<rparr>) e"
      using p assms(2) by (auto simp: advance_def set_es_def es_of_def)
    have "given_back (?x \<lparr> es_handing := Testing, es_seen := es_seen ?x + 1 \<rparr>) = given_back ?x"
      using seen_given [OF l] Ready by (simp add: given_back_def)
    then have "outstanding e' = outstanding e" unfolding e' using outstanding_set [OF assms(2)] by (simp add: charged_def)
    then show ?thesis by (intro money_frame [OF assms(1)]) (simp_all add: e')
  next
    case (ReadOpDone x)
    then obtain reg where e': "e' = advance i (e \<lparr> en_registry := reg \<rparr>)" using p by (auto simp: cxx_res)
    show ?thesis using adv [of "e \<lparr> en_registry := reg \<rparr>"] ReadOpDone by (intro money_frame [OF assms(1)]) (simp_all add: e')
  qed (use p adv [of e] in \<open>auto intro: money_frame [OF assms(1)]\<close>)
qed

text \<open>Steps that leave the bucket alone.\<close>

lemma money_pc:
  assumes "money_inv r c t0 t1 k e" "en_sessions e' = en_sessions e" "en_bucket e' = en_bucket e"
    "pending (en_pc e') = pending (en_pc e)"
  shows "money_inv r c t0 t1 (Suc k) e'"
  using assms(2,4) by (intro money_frame [OF assms(1,3)]) (simp add: outstanding_def tally_same [of e' e])

lemma money_session:
  assumes "money_inv r c t0 t1 k e" "own_inv G e" "i < length (en_sessions e)" "called G (es_of e i) x"
    "charged x = charged (es_of e i)" "en_sessions e' = (en_sessions e)[i := x]" "en_bucket e' = en_bucket e"
    "pending (en_pc e') = pending (en_pc e)"
  shows "money_inv r c t0 t1 (Suc k) e'"
proof -
  have "tally f e' = tally f (set_es i x e)" for f :: "'a engine_session \<Rightarrow> rat"
    by (simp add: tally_def assms(6) set_es_def)
  then have "outstanding e' = outstanding (set_es i x e)" by (simp add: outstanding_def assms(8))
  then show ?thesis using outstanding_call [OF assms(2-5)] by (intro money_frame [OF assms(1,7)]) simp
qed

lemma money_door:
  assumes "money_inv r c t0 t1 k e" "i < length (en_sessions e)" "en_sessions e' = (en_sessions e)[i := es_of e i \<lparr> es_handing := h \<rparr>]"
    "en_bucket e' = en_bucket e" "en_pc e' = en_pc e"
  shows "money_inv r c t0 t1 (Suc k) e'"
proof -
  have "tally f e' = tally f (set_es i (es_of e i \<lparr> es_handing := h \<rparr>) e)" for f :: "'a engine_session \<Rightarrow> rat"
    by (simp add: tally_def assms(3) set_es_def)
  then have "outstanding e' = outstanding e" by (simp add: outstanding_def assms(5) tally_set [OF assms(2)])
  then show ?thesis by (intro money_frame [OF assms(1,4)]) simp
qed

lemma held_hand:
  assumes "own_inv G e" "holds (en_pc e) i = 1"
  shows "i < length (en_sessions e)" "ss_hand (es_sys (es_of e i)) = Queued"
  using picked_own [OF assms] by (auto simp: own_es_def split: if_splits)

lemma TryAcquire_money:
  assumes "money_inv r c t0 t1 k e" "TryAcquire (en_bucket e) now n = (granted, b)" "clock_ok now" "now \<le> t1"
    "en_bucket e' = b" "outstanding e' = outstanding e + (if granted then of_nat (unat n) else 0)"
  shows "money_inv r c t0 t1 (Suc k) e'"
  using assms(2-6) by (intro money_call [OF assms(1), where x = "(now, Take n)"]) simp_all

lemma price_money:
  assumes "money_inv r c t0 t1 k e" "own_inv G e" "en_pc e = Pricing i" "clock_ok now" "now \<le> t1"
  shows "money_inv r c t0 t1 (Suc k) (price env now i e)"
proof -
  let ?x = "es_of e i"
  let ?n = "NextOpBytes (ss_fs (es_sys ?x))"
  have h: "holds (en_pc e) i = 1" by (simp add: assms(3))
  note i = held_hand [OF assms(2) h]
  show ?thesis
  proof (cases rule: price_cases [where e = e and i = i and env = env and now = now])
    case close
    show ?thesis unfolding close(2) using assms(3)
      by (intro money_session [OF assms(1,2) i(1) close_called [OF i(2), of G env]]) (simp_all add: set_es_def)
  next
    case (pay b)
    let ?e = "e \<lparr> en_bucket := b \<rparr>"
    have e: "en_sessions ?e = en_sessions e" "en_pc ?e = en_pc e" "es_of ?e i = ?x" by (simp_all add: es_of_def)
    have c: "called G ?x (pay_session ?n ?x)" by (rule pay_called [OF i(2) refl pay(1)])
    have "es_inv G (en_cfg e) ?x" using own_item [OF assms(2) i(1)] by (simp add: own_es_def)
    then have "given_back (pay_session ?n ?x) = given_back ?x" by (rule called_given [OF _ c])
    then have "outstanding (set_es i (pay_session ?n ?x) ?e) = outstanding e + of_nat (unat ?n)"
      using outstanding_set [of i ?e "pay_session ?n ?x"] i(1) outstanding_same [OF e(1,2)] e by simp
    then have "outstanding (price env now i e) = outstanding e + of_nat (unat ?n)"
      using assms(3) by (simp add: pay(3) outstanding_pc)
    then show ?thesis by (intro TryAcquire_money [OF assms(1) pay(2) assms(4,5)]) (simp_all add: pay(3))
  next
    case (refuse b)
    have "outstanding (price env now i e) = outstanding e"
      using assms(3) outstanding_same [of "e \<lparr> en_bucket := b \<rparr>" e] by (simp add: refuse(3) outstanding_pc)
    then show ?thesis by (intro TryAcquire_money [OF assms(1) refuse(2) assms(4,5)]) (simp_all add: refuse(3))
  qed
qed

lemma pause_money:
  assumes "money_inv r c t0 t1 k e" "en_pc e = Pausing n" "pause now n e = Inr e'" "clock_ok now" "now \<le> t1"
  shows "money_inv r c t0 t1 (Suc k) e'"
proof -
  have e': "e' = set_pc AtTop (e \<lparr> en_bucket := snd (SecondsUntil (en_bucket e) now n) \<rparr>)"
    using assms(3) by (auto simp: pause_def case_prod_beta cxx_res)
  have o: "outstanding e' = outstanding e"
    using assms(2) outstanding_same [of "e \<lparr> en_bucket := snd (SecondsUntil (en_bucket e) now n) \<rparr>" e]
    by (simp add: e' outstanding_pc)
  have "snd (SecondsUntil (en_bucket e) now n) = en_bucket e \<or> snd (SecondsUntil (en_bucket e) now n) = RefillUnlocked (en_bucket e) now"
    by (simp add: SecondsUntil_def Let_def)
  then show ?thesis
  proof
    assume "snd (SecondsUntil (en_bucket e) now n) = en_bucket e"
    then show ?thesis using o by (intro money_frame [OF assms(1)]) (simp_all add: e')
  next
    assume "snd (SecondsUntil (en_bucket e) now n) = RefillUnlocked (en_bucket e) now"
    then show ?thesis using o by (intro money_refill [OF assms(1) _ assms(4,5)]) (simp_all add: e')
  qed
qed

lemma main_step_money:
  assumes "money_inv r c t0 t1 k e" "own_inv G e" "main_step G env now (en_pc e) e = Some (Inr e')"
    "clock_ok now" "now \<le> t1"
  shows "money_inv r c t0 t1 (Suc k) e'"
proof (cases "en_pc e")
  case AtTop
  then show ?thesis using assms(3)
    by (intro money_pc [OF assms(1)]) (auto simp: pick_def split: if_splits list.splits)
next
  case Waiting
  then show ?thesis using assms(3)
    by (intro money_pc [OF assms(1)]) (auto simp: pick_def split: if_splits list.splits)
next
  case (Picked i)
  let ?x = "es_of e i"
  have h: "holds (en_pc e) i = 1" by (simp add: Picked)
  note i = held_hand [OF assms(2) h]
  show ?thesis
  proof (cases "fs_completed (ss_fs (es_sys ?x))")
    case True
    then have e': "e' = set_pc AtTop (set_es i (drop_session ?x) e)" using assms(3) Picked by simp
    show ?thesis using Picked
      by (intro money_session [OF assms(1,2) i(1) drop_called [OF i(2) True]]) (simp_all add: e' set_es_def)
  next
    case False
    then show ?thesis using assms(3) Picked by (intro money_pc [OF assms(1)]) auto
  qed
next
  case (Pricing i)
  then show ?thesis using assms(3) price_money [OF assms(1,2) Pricing assms(4,5)] by (auto split: if_splits)
next
  case (Charged i)
  let ?x = "es_of e i"
  have i: "i < length (en_sessions e)" by (rule own_range(2) [OF assms(2) Charged])
  obtain n where n: "ss_hand (es_sys ?x) = Paid n" using own_item [OF assms(2) i] Charged by (auto simp: own_es_def)
  have e': "e' = set_pc (Calling i) (set_es i (issue_session G env ?x) e)"
    using assms(3) Charged by (auto split: if_splits)
  show ?thesis using Charged
    by (intro money_session [OF assms(1,2) i issue_called [OF n, of G env]]) (simp_all add: e' set_es_def)
next
  case (Drawn item)
  obtain granted b where t: "TryAcquire (en_bucket e) now (wi_op_bytes item) = (granted, b)"
    by (cases "TryAcquire (en_bucket e) now (wi_op_bytes item)")
  then have e': "e' = set_pc (if granted then Admitted item else NoTokens (wi_op_bytes item)) (e \<lparr> en_bucket := b \<rparr>)"
    using assms(3) Drawn by simp
  have "outstanding e' = outstanding e + (if granted then of_nat (unat (wi_op_bytes item)) else 0)"
    using Drawn outstanding_same [of "e \<lparr> en_bucket := b \<rparr>" e] by (simp add: e' outstanding_pc)
  then show ?thesis by (intro TryAcquire_money [OF assms(1) t assms(4,5)]) (simp_all add: e')
next
  case (Starting item)
  then have e': "e' = set_pc (Calling (length (en_sessions e)))
     (e \<lparr> en_sessions := en_sessions e @ [start_session G env item] \<rparr>)" using assms(3) by simp
  have "tally f e' = tally f e + f (start_session G env item)" for f :: "'a engine_session \<Rightarrow> rat"
    by (rule tally_snoc) (simp add: e')
  moreover have "charged (start_session G env item) = of_nat (unat (wi_op_bytes item))"
    "given_back (start_session G env item) = 0"
    by (simp_all add: charged_def given_back_def start_session_def session_start_def Let_def measure_emit)
  ultimately have "outstanding e' = outstanding e" using Starting by (simp add: outstanding_def e')
  then show ?thesis by (intro money_frame [OF assms(1)]) (simp_all add: e')
next
  case (Pausing n)
  then show ?thesis using assms(3) pause_money [OF assms(1) Pausing _ assms(4,5)] by simp
next
  case Closing
  show ?thesis
  proof (cases "en_ready e")
    case Nil
    then show ?thesis using assms(3) Closing by (intro money_pc [OF assms(1)]) (auto simp: cxx_res)
  next
    case (Cons i "is")
    let ?x = "es_of e i"
    have p: "places (en_ready e) (en_pc e) i = Suc (count_list is i)" by (simp add: places_def Closing Cons)
    then have i: "i < length (en_sessions e)" using own_range(1) [OF assms(2), of i] by simp
    have q: "ss_hand (es_sys ?x) = Queued" using own_item [OF assms(2) i] p by (auto simp: own_es_def split: if_splits)
    have e': "e' = set_pc (ClosingCall i) (set_es i (close_session env ?x) (e \<lparr> en_ready := is \<rparr>))"
      using assms(3) Closing Cons by (auto split: if_splits)
    show ?thesis using Closing
      by (intro money_session [OF assms(1,2) i close_called [OF q, of G env]]) (simp_all add: e' set_es_def)
  qed
next
  case AtAdmit
  then show ?thesis using assms(3) by (intro money_pc [OF assms(1)]) (auto split: if_splits)
next
  case Trying
  then show ?thesis using assms(3) by (intro money_pc [OF assms(1)]) (auto simp: case_prod_beta split: if_splits)
next
  case HasSlot
  then show ?thesis using assms(3) by (intro money_pc [OF assms(1)]) (auto simp: cxx_res)
next
  case (Calling i)
  then show ?thesis using assms(3) by (intro money_pc [OF assms(1)]) (auto split: if_splits)
next
  case (ClosingCall i)
  then show ?thesis using assms(3) by (intro money_pc [OF assms(1)]) (auto split: if_splits)
next
  case (DrainWait t)
  then show ?thesis using assms(3) by (intro money_pc [OF assms(1)]) (auto split: if_splits)
next
  case (Refused i n)
  then show ?thesis using assms(3) by (intro money_pc [OF assms(1)]) auto
next
  case (NoTokens n)
  then show ?thesis using assms(3) by (intro money_pc [OF assms(1)]) auto
next
  case (Admitted item)
  then show ?thesis using assms(3) by (intro money_pc [OF assms(1)]) auto
next
  case (Counted item)
  then show ?thesis using assms(3) by (intro money_pc [OF assms(1)]) auto
next
  case Stopping
  then show ?thesis using assms(3) by (intro money_pc [OF assms(1)]) auto
qed (use assms(3) in simp)

text \<open>The clock readings of an action.\<close>

fun act_time :: "int \<Rightarrow> engine_action \<Rightarrow> bool" where
  "act_time t1 (Move now env) \<longleftrightarrow> clock_ok now \<and> now \<le> t1"
| "act_time t1 (Perform i now) \<longleftrightarrow> clock_ok now \<and> now \<le> t1"
| "act_time t1 _ \<longleftrightarrow> True"

lemma respond_charged: "respond G env r y = Some y' \<Longrightarrow> ss_charged y' = ss_charged y"
  using respond_hand by blast

lemma on_ready_money:
  assumes "money_inv r c t0 t1 k e" "own_inv G e" "i < length (en_sessions e)" "on_ready env i e = Some e'"
  shows "money_inv r c t0 t1 (Suc k) e'"
proof (cases "es_handing (es_of e i)")
  case Testing
  let ?x = "es_of e i \<lparr> es_handing := Idle \<rparr>"
  show ?thesis
  proof (cases "en_stop_pace e")
    case True
    have e': "e' = set_es i (close_session env ?x) e"
      using assms(4) Testing True by (simp add: on_ready_def Let_def split: if_splits)
    have d: "own_inv G (set_es i (es_of e i \<lparr> es_handing := Pushing \<rparr>) e)"
      using own_es_update [OF assms(2,3) door_own(1) [OF own_item [OF assms(2,3)]]] Testing by simp
    have q: "ss_hand (es_sys ?x) = Queued" using own_item [OF assms(2,3)] Testing
      by (auto simp: own_es_def at_door_def split: if_splits)
    have i: "es_inv G (en_cfg e) ?x" using own_item [OF assms(2,3)] by (simp add: own_es_def es_inv_def)
    have "given_back (close_session env ?x) = given_back ?x" by (rule called_given [OF i close_called [OF q]])
    then have "outstanding e' = outstanding e" by (simp add: e' outstanding_set [OF assms(3)])
    then show ?thesis by (intro money_frame [OF assms(1)]) (simp_all add: e')
  next
    case False
    then have "e' = set_es i (es_of e i \<lparr> es_handing := Pushing \<rparr>) e"
      using assms(4) Testing by (simp add: on_ready_def Let_def)
    then show ?thesis by (intro money_door [OF assms(1,3)]) (simp_all add: set_es_def)
  qed
next
  case Pushing
  then have "e' = set_es i (es_of e i \<lparr> es_handing := Idle \<rparr>) (e \<lparr> en_ready := en_ready e @ [i] \<rparr>)"
    using assms(4) by (simp add: on_ready_def Let_def split: if_splits)
  then show ?thesis by (intro money_door [OF assms(1,3)]) (simp_all add: set_es_def)
qed (use assms(4) in \<open>simp add: on_ready_def\<close>)

lemma engine_act_money:
  assumes "money_inv r c t0 t1 k e" "own_inv G e" "engine_act G a e = Some (Inr e')" "act_time t1 a"
  shows "money_inv r c t0 t1 (Suc k) e'"
proof (cases a)
  case (Move now env)
  then show ?thesis using assms(3,4) main_step_money [OF assms(1,2)] by simp
next
  case (Respond i rs env)
  then obtain y where y: "i < length (en_sessions e)" "respond G env rs (es_sys (es_of e i)) = Some y"
    "e' = set_es i (es_of e i \<lparr> es_sys := y \<rparr>) e" using assms(3) by (auto split: if_splits)
  show ?thesis
    by (rule money_session [OF assms(1,2) y(1) respond_called [OF y(2)]])
      (simp_all add: y(3) set_es_def charged_def respond_charged [OF y(2)])
next
  case (WallTimeout i env)
  then have y: "i < length (en_sessions e)"
    "e' = set_es i (es_of e i \<lparr> es_sys := es_sys (es_of e i)
       \<lparr> ss_fs := RequestWallTimeout env (ss_fs (es_sys (es_of e i))) \<rparr> \<rparr>) e"
    using assms(3) by (auto simp: Let_def split: if_splits)
  show ?thesis
    by (rule money_session [OF assms(1,2) y(1) timeout_called]) (simp_all add: y(2) set_es_def charged_def)
next
  case (Perform i now)
  then show ?thesis using assms perform_money [OF assms(1)] by (auto split: if_splits)
next
  case (OnReady i env)
  then show ?thesis using assms on_ready_money [OF assms(1,2)] by (auto split: if_splits)
qed (use assms in \<open>auto simp: Let_def cxx_res split: option.splits intro!: money_pc [OF assms(1)]\<close>)

lemma new_engine_money:
  assumes "new_engine G hostname cfg t0 = Inr e" "0 < rc_target_rate_bytes_per_s cfg" "clock_ok t0" "t0 \<le> t1"
  shows "money_inv (rc_target_rate_bytes_per_s cfg) (ComputeBucketCapacity cfg) t0 t1 0 e"
proof -
  let ?r = "rc_target_rate_bytes_per_s cfg" and ?c = "ComputeBucketCapacity cfg"
  let ?b = "new_TokenBucket ?r ?c t0"
  have e: "en_bucket e = ?b" "en_sessions e = []" "en_pc e = AtTop" using assms(1) by (auto simp: new_engine_def cxx_res)
  obtain v where v: "?c = ComputeOpBytes cfg v" 
  proof
    show "?c = ComputeOpBytes cfg (rc_pattern cfg = Vector \<or> rc_pattern cfg = Mixed)"
      using assms(2) by (auto simp: ComputeBucketCapacity_def Let_def)
  qed
  then have c: "1 \<le> unat ?c" "unat ?c < 2 ^ 48" using ComputeOpBytes_bounds [of cfg v] by simp_all
  then have "0 < ?c" by (simp add: word_less_nat_alt)
  then have b: "tb_capacity ?b = ?c" "tb_last ?b = t0" "tb_rate_bytes_per_s ?b = ?r"
    by (simp_all add: new_TokenBucket_def Let_def)
  have ok: "bucket_ok ?b" using assms(3) by (rule new_bucket_ok)
  have "tokens_of ?b \<le> of_nat (unat ?c)" using ok cap_of_exact [of ?b] c(2) by (simp add: bucket_ok_def b)
  moreover have "worth ?r (t0 - t0) = 0" by (simp add: worth_def)
  ultimately show ?thesis using ok b c(2) assms(2,4)
    by (simp add: money_inv_def e tb_inv_def outstanding_def tally_def allowance_def word_gt_0)
qed

end
