(* ===== verification/EngineBooks.thy ===== *)
theory EngineBooks
  imports EngineSlots
begin

text \<open>
  What the registry of a run says of its sessions: each session whose completion callback has reported is
  counted once, with the bytes it read if it succeeded.
\<close>

section \<open>Calls of the registry that move no total\<close>

lemma totals_frame:
  "mr_bytes_read_total r' = mr_bytes_read_total r \<Longrightarrow> mr_sessions_ok r' = mr_sessions_ok r \<Longrightarrow>
    mr_sessions_fail r' = mr_sessions_fail r \<Longrightarrow> totals r' = totals r"
  by (simp add: totals_def)

lemma totals_calls [simp]:
  "totals (mr_SetInflight n r) = totals r" "totals (SoftFaultLogOut_Write msg r) = totals r"
  "totals (mr_SetCmsSite ds site r) = totals r" "totals (mr_SetConfigGauges rate m r) = totals r"
  "totals (mr_SetLabels h a b c d r) = totals r"
  by (auto simp: totals_def mr_SetInflight_def SoftFaultLogOut_Write_def mr_ObserveSoftFault_def mr_SetCmsSite_def
      mr_SetConfigGauges_def mr_SetLabels_def split: option.split)

lemma totals_ReadOp: "mr_ObserveReadOp s r = Inr r' \<Longrightarrow> totals r' = totals r"
  by (auto simp: mr_ObserveReadOp_def cxx_res totals_def)

lemma totals_Sample: "mr_SampleProc s r = Inr r' \<Longrightarrow> totals r' = totals r"
  by (cases s) (auto simp: mr_SampleProc_def cxx_res totals_def)

lemma totals_Ok: "mr_ObserveSessionOk bytes ops a b c d ds site r = Inr r' \<Longrightarrow> totals r' = totals r + (bytes, 1, 0)"
  by (auto simp: mr_ObserveSessionOk_def Let_def cxx_res totals_def)

lemma totals_Fail: "totals (mr_ObserveSessionFail cls ds site r) = totals r + (0, 0, 1)"
  by (simp add: mr_ObserveSessionFail_def totals_def)

section \<open>What a session has reported\<close>

definition outcome :: "FileSessionResult \<Rightarrow> u64 \<times> u64 \<times> u64" where
  "outcome r = (if fr_ok r then (fr_bytes_read r, 1, 0) else (0, 0, 1))"

definition reported :: "'r engine_session \<Rightarrow> u64 \<times> u64 \<times> u64" where
  "reported x = (if es_phase x = Running then 0 else sum_list (map outcome (results (es_log x))))"

definition books_inv :: "'r engine \<Rightarrow> bool" where
  "books_inv e \<longleftrightarrow> totals (en_registry e) = tally reported e"

lemma report_totals:
  assumes "report_done r e = Inr e'" shows "totals (en_registry e') = totals (en_registry e) + outcome r"
  using assms by (auto simp: report_done_def Let_def outcome_def totals_Fail cxx_res dest!: totals_Ok split: if_splits)

lemma length_results: "length (results L) = dones L"
proof (induction L)
  case (Cons e L)
  then show ?case by (cases e) (simp_all add: measure_emit)
qed (simp add: measure_emit)

lemma phase_done:
  assumes "es_inv G cfg x" "es_phase x \<noteq> Running"
  shows "dones (es_log x) = 1" "fs_completed (ss_fs (es_sys x))"
proof -
  have le: "dones (es_log x) \<le> 1" using session_dones [OF assms(1)] by simp
  have "1 \<le> dones (es_log x)"
  proof (cases "es_phase x = Freed")
    case True
    then show ?thesis using assms(1) dones_split(1) [of "es_log x" "es_seen x"] by (simp add: es_inv_def)
  next
    case False
    then have l: "es_seen x < length (es_log x)" "is_Done (es_log x ! es_seen x)"
      using assms by (auto simp: es_inv_def)
    have "dones (es_log x) = dones (take (es_seen x) (es_log x)) + (1 + dones (drop (Suc (es_seen x)) (es_log x)))"
      using dones_split(1) [of "es_log x" "es_seen x"] l(2) by (simp add: drop_step [OF l(1)] measure_emit)
    then show ?thesis by simp
  qed
  with le show "dones (es_log x) = 1" by simp
  then show "fs_completed (ss_fs (es_sys x))" using session_dones [OF assms(1)]
    by (cases "fs_completed (ss_fs (es_sys x))") simp_all
qed

lemma called_results:
  assumes "es_inv G cfg x" "called G x x'" "es_phase x \<noteq> Running"
  shows "results (es_log x') = results (es_log x)"
proof -
  obtain l where l: "es_log x' = es_log x @ l" using assms(2) by (auto simp: called_def prefix_def)
  have "es_phase x' \<noteq> Running" using assms(2,3) by (simp add: called_def)
  then have "dones (es_log x') = 1" using phase_done(1) [OF called_inv [OF assms(1,2)]] by simp
  then have "dones l = 0" using phase_done(1) [OF assms(1,3)] by (simp add: l measure_emit)
  then have "results l = []" using length_results [of l] by simp
  then show ?thesis by (simp add: l measure_emit)
qed

lemma called_reported: "es_inv G cfg x \<Longrightarrow> called G x x' \<Longrightarrow> reported x' = reported x"
  using called_results [of G cfg x x'] by (auto simp: reported_def called_def)

lemma done_results:
  assumes "es_inv G cfg x" "es_seen x < length (es_log x)" "es_log x ! es_seen x = Done r"
  shows "results (es_log x) = [r]"
proof -
  have "results (es_log x) = results (take (es_seen x) (es_log x)) @ r # results (drop (Suc (es_seen x)) (es_log x))"
    using dones_split(4) [of "es_log x" "es_seen x"]
    by (simp add: drop_step [OF assms(2)] assms(3) measure_emit)
  moreover have "length (results (es_log x)) \<le> 1" using session_dones [OF assms(1)] by (simp add: length_results)
  ultimately show ?thesis by simp
qed

lemma own_es_inv: "own_inv G e \<Longrightarrow> i < length (en_sessions e) \<Longrightarrow> es_inv G (en_cfg e) (es_of e i)"
  using own_item [of G e i] by (simp add: own_es_def)

section \<open>Steps\<close>

lemma books_frame:
  assumes "books_inv e" "en_sessions e' = en_sessions e" "totals (en_registry e') = totals (en_registry e)"
  shows "books_inv e'"
  using assms by (simp add: books_inv_def tally_same [OF assms(2)])

lemma books_session:
  assumes "books_inv e" "en_sessions e' = (en_sessions e)[i := x]" "reported x = reported (es_of e i)"
    "totals (en_registry e') = totals (en_registry e)"
  shows "books_inv e'"
  using assms by (simp add: books_inv_def tally_frame [OF assms(2,3)])

lemma books_call:
  assumes "books_inv e" "own_inv G e" "i < length (en_sessions e)" "called G (es_of e i) x"
    "en_sessions e' = (en_sessions e)[i := x]" "totals (en_registry e') = totals (en_registry e)"
  shows "books_inv e'"
  by (rule books_session [OF assms(1,5) called_reported [OF own_es_inv [OF assms(2,3)] assms(4)] assms(6)])

lemma reported_update [simp]:
  "reported (x \<lparr> es_handing := h \<rparr>) = reported x" "reported (x \<lparr> es_seen := k \<rparr>) = reported x"
  "reported (x \<lparr> es_handing := h, es_seen := k \<rparr>) = reported x"
  by (simp_all add: reported_def)

lemma reported_phase: "es_phase x \<noteq> Running \<Longrightarrow> q \<noteq> Running \<Longrightarrow> reported (x \<lparr> es_phase := q \<rparr>) = reported x"
  by (simp add: reported_def)

lemma perform_books:
  assumes "books_inv e" "own_inv G e" "i < length (en_sessions e)" "perform now i e = Some (Inr e')"
  shows "books_inv e'"
proof -
  let ?x = "es_of e i"
  have p: "perform_effect now i (es_log ?x ! es_seen ?x) e = Inr e'" and l: "es_seen ?x < length (es_log ?x)"
    using assms(4) by (auto simp: perform_def Let_def split: if_splits)
  note v = own_es_inv [OF assms(2,3)]
  have adv: "books_inv (advance i e1)" if "en_sessions e1 = en_sessions e" "totals (en_registry e1) = totals (en_registry e)" for e1
    using that by (intro books_session [OF assms(1), where i = i and x = "?x \<lparr> es_seen := es_seen ?x + 1 \<rparr>"])
      (simp_all add: advance_def set_es_def es_of_def)
  have ph: "books_inv (set_phase i q e1)" if "en_sessions e1 = en_sessions e" "totals (en_registry e1) = totals (en_registry e)"
      "es_phase ?x \<noteq> Running" "q \<noteq> Running" for e1 q
    using that by (intro books_session [OF assms(1), where i = i and x = "?x \<lparr> es_phase := q \<rparr>"])
      (simp_all add: set_phase_def set_es_def es_of_def reported_phase)
  show ?thesis
  proof (cases "es_log ?x ! es_seen ?x")
    case (Done r)
    show ?thesis
    proof (cases "es_phase ?x")
      case Running
      then obtain e1 where e1: "report_done r e = Inr e1" "e' = set_phase i Reported e1"
        using p Done by (auto simp: cxx_res)
      note f = report_frame [OF e1(1)]
      have x: "es_of e1 i = ?x" by (simp add: es_of_def f)
      have "reported (?x \<lparr> es_phase := Reported \<rparr>) = outcome r" "reported ?x = 0"
        using done_results [OF v l Done] Running by (simp_all add: reported_def)
      then have "tally reported e' = tally reported e + outcome r"
        using tally_set [of i e1 reported "?x \<lparr> es_phase := Reported \<rparr>"] tally_same [OF f(1), of reported] assms(3)
        by (simp add: e1(2) set_phase_def x f(1))
      moreover have "totals (en_registry e') = totals (en_registry e) + outcome r"
        using report_totals [OF e1(1)] by (simp add: e1(2) set_phase_def)
      ultimately show ?thesis using assms(1) by (simp add: books_inv_def)
    next
      case Shown
      have e': "e' = set_es i (?x \<lparr> es_phase := Freed, es_seen := es_seen ?x + 1 \<rparr>) (e \<lparr> en_sem := sem_Release (en_sem e) \<rparr>)"
        using p Done Shown assms(3) by (auto simp: advance_def set_phase_def set_es_def es_of_def)
      show ?thesis using Shown
        by (intro books_session [OF assms(1), where i = i and x = "?x \<lparr> es_phase := Freed, es_seen := es_seen ?x + 1 \<rparr>"])
          (simp_all add: e' set_es_def reported_def)
    qed (use p Done adv [of e] ph in auto)
  next
    case Ready
    then have e': "e' = set_es i (?x \<lparr> es_handing := Testing, es_seen := es_seen ?x + 1 \<rparr>) e"
      using p assms(3) by (auto simp: advance_def set_es_def es_of_def)
    show ?thesis
      by (rule books_session [OF assms(1), where i = i and x = "?x \<lparr> es_handing := Testing, es_seen := es_seen ?x + 1 \<rparr>"])
        (simp_all add: e' set_es_def)
  next
    case (ReadOpDone s)
    then obtain reg where e': "e' = advance i (e \<lparr> en_registry := reg \<rparr>)" "mr_ObserveReadOp s (en_registry e) = Inr reg"
      using p by (auto simp: cxx_res)
    show ?thesis unfolding e'(1) by (rule adv) (simp_all add: totals_ReadOp [OF e'(2)])
  qed (use p adv in auto)
qed

lemma on_ready_books:
  assumes "books_inv e" "own_inv G e" "i < length (en_sessions e)" "on_ready env i e = Some e'"
  shows "books_inv e'"
proof (cases "es_handing (es_of e i)")
  case Testing
  let ?x = "es_of e i \<lparr> es_handing := Idle \<rparr>"
  show ?thesis
  proof (cases "en_stop_pace e")
    case True
    have e': "e' = set_es i (close_session env ?x) e"
      using assms(4) Testing True by (simp add: on_ready_def Let_def split: if_splits)
    have q: "ss_hand (es_sys ?x) = Queued" using own_item [OF assms(2,3)] Testing
      by (auto simp: own_es_def at_door_def split: if_splits)
    have i: "es_inv G (en_cfg e) ?x" using own_es_inv [OF assms(2,3)] by (simp add: es_inv_def)
    have "reported (close_session env ?x) = reported ?x" by (rule called_reported [OF i close_called [OF q]])
    then show ?thesis
      by (intro books_session [OF assms(1), where i = i and x = "close_session env ?x"]) (simp_all add: e' set_es_def)
  next
    case False
    then have "e' = set_es i (es_of e i \<lparr> es_handing := Pushing \<rparr>) e"
      using assms(4) Testing by (simp add: on_ready_def Let_def)
    then show ?thesis
      by (intro books_session [OF assms(1), where i = i and x = "es_of e i \<lparr> es_handing := Pushing \<rparr>"])
        (simp_all add: set_es_def)
  qed
next
  case Pushing
  then have "e' = set_es i (es_of e i \<lparr> es_handing := Idle \<rparr>) (e \<lparr> en_ready := en_ready e @ [i] \<rparr>)"
    using assms(4) by (simp add: on_ready_def Let_def split: if_splits)
  then show ?thesis
    by (intro books_session [OF assms(1), where i = i and x = "es_of e i \<lparr> es_handing := Idle \<rparr>"])
      (simp_all add: set_es_def)
qed (use assms(4) in \<open>simp add: on_ready_def\<close>)

text \<open>The session a step of the main thread calls into, if it calls into one.\<close>

lemma main_step_called:
  assumes "own_inv G e" "main_step G env now (en_pc e) e = Some (Inr e')"
  shows "en_sessions e' = en_sessions e
    \<or> (\<exists>i x. i < length (en_sessions e) \<and> called G (es_of e i) x \<and> en_sessions e' = (en_sessions e)[i := x])
    \<or> (\<exists>item. en_pc e = Starting item \<and> en_sessions e' = en_sessions e @ [start_session G env item])"
    (is "?same \<or> ?call \<or> ?new")
proof (cases "en_pc e")
  case (Picked i)
  have h: "holds (en_pc e) i = 1" by (simp add: Picked)
  note i = picked_own(1) [OF assms(1) h]
  have q: "ss_hand (es_sys (es_of e i)) = Queued" using picked_own(2) [OF assms(1) h]
    by (auto simp: own_es_def split: if_splits)
  show ?thesis
  proof (cases "fs_completed (ss_fs (es_sys (es_of e i)))")
    case True
    then have "e' = set_pc AtTop (set_es i (drop_session (es_of e i)) e)" using assms(2) Picked by simp
    then have ?call using i drop_called [OF q True, of G]
      by (intro exI [of _ i] exI [of _ "drop_session (es_of e i)"]) (simp add: set_es_def)
    then show ?thesis by blast
  next
    case False
    then show ?thesis using assms(2) Picked by auto
  qed
next
  case (Pricing i)
  have h: "holds (en_pc e) i = 1" by (simp add: Pricing)
  note i = picked_own(1) [OF assms(1) h]
  have q: "ss_hand (es_sys (es_of e i)) = Queued" using picked_own(2) [OF assms(1) h]
    by (auto simp: own_es_def split: if_splits)
  have e': "e' = price env now i e" using assms(2) Pricing by (auto split: if_splits)
  show ?thesis
  proof (cases rule: price_cases [where e = e and i = i and env = env and now = now])
    case close
    then have ?call using i close_called [OF q, of G env] e'
      by (intro exI [of _ i] exI [of _ "close_session env (es_of e i)"]) (simp add: set_es_def)
    then show ?thesis by blast
  next
    case (pay b)
    then have ?call using i pay_called [OF q refl pay(1), of G] e'
      by (intro exI [of _ i] exI [of _ "pay_session (NextOpBytes (ss_fs (es_sys (es_of e i)))) (es_of e i)"])
        (simp add: set_es_def)
    then show ?thesis by blast
  next
    case (refuse b)
    then show ?thesis using e' by simp
  qed
next
  case (Charged i)
  have i: "i < length (en_sessions e)" by (rule own_range(2) [OF assms(1) Charged])
  obtain n where n: "ss_hand (es_sys (es_of e i)) = Paid n" using own_item [OF assms(1) i] Charged by (auto simp: own_es_def)
  have "e' = set_pc (Calling i) (set_es i (issue_session G env (es_of e i)) e)"
    using assms(2) Charged by (auto split: if_splits)
  then have ?call using i issue_called [OF n, of G env]
    by (intro exI [of _ i] exI [of _ "issue_session G env (es_of e i)"]) (simp add: set_es_def)
  then show ?thesis by blast
next
  case Closing
  show ?thesis
  proof (cases "en_ready e")
    case Nil
    then show ?thesis using assms(2) Closing by (auto simp: cxx_res)
  next
    case (Cons i "is")
    have p: "places (en_ready e) (en_pc e) i = Suc (count_list is i)" by (simp add: places_def Closing Cons)
    then have i: "i < length (en_sessions e)" using own_range(1) [OF assms(1), of i] by simp
    have q: "ss_hand (es_sys (es_of e i)) = Queued" using own_item [OF assms(1) i] p by (auto simp: own_es_def split: if_splits)
    have "e' = set_pc (ClosingCall i) (set_es i (close_session env (es_of e i)) (e \<lparr> en_ready := is \<rparr>))"
      using assms(2) Closing Cons by (auto split: if_splits)
    then have ?call using i close_called [OF q, of G env]
      by (intro exI [of _ i] exI [of _ "close_session env (es_of e i)"]) (simp add: set_es_def)
    then show ?thesis by blast
  qed
next
  case (Pausing n)
  then show ?thesis using assms(2) by (auto simp: pause_def case_prod_beta cxx_res)
qed (use assms(2) in \<open>auto simp: case_prod_beta cxx_res pick_def split: if_splits list.splits\<close>)

lemma main_step_totals:
  assumes "main_step G env now p e = Some (Inr e')"
  shows "totals (en_registry e') = totals (en_registry e)"
  using assms
  by (cases p) (auto simp: case_prod_beta cxx_res pick_def price_def pause_def Let_def split: if_splits list.splits)

lemma engine_act_books:
  assumes "books_inv e" "own_inv G e" "engine_act G a e = Some (Inr e')" shows "books_inv e'"
proof (cases a)
  case (Move now env)
  then have m: "main_step G env now (en_pc e) e = Some (Inr e')" using assms(3) by simp
  note t = main_step_totals [OF m]
  consider "en_sessions e' = en_sessions e"
    | i x where "i < length (en_sessions e)" "called G (es_of e i) x" "en_sessions e' = (en_sessions e)[i := x]"
    | item where "en_sessions e' = en_sessions e @ [start_session G env item]"
    using main_step_called [OF assms(2) m] by blast
  then show ?thesis
  proof cases
    case 1
    then show ?thesis by (rule books_frame [OF assms(1) _ t])
  next
    case 2
    then show ?thesis by (rule books_call [OF assms(1,2) _ _ _ t])
  next
    case 3
    then show ?thesis using assms(1) t tally_snoc [OF 3, of reported]
      by (simp add: books_inv_def reported_def start_session_def)
  qed
next
  case (Respond i r env)
  then obtain y where y: "i < length (en_sessions e)" "respond G env r (es_sys (es_of e i)) = Some y"
    "e' = set_es i (es_of e i \<lparr> es_sys := y \<rparr>) e" using assms(3) by (auto split: if_splits)
  show ?thesis by (rule books_call [OF assms(1,2) y(1) respond_called [OF y(2)]]) (simp_all add: y(3) set_es_def)
next
  case (WallTimeout i env)
  then have y: "i < length (en_sessions e)"
    "e' = set_es i (es_of e i \<lparr> es_sys := es_sys (es_of e i)
       \<lparr> ss_fs := RequestWallTimeout env (ss_fs (es_sys (es_of e i))) \<rparr> \<rparr>) e"
    using assms(3) by (auto simp: Let_def split: if_splits)
  show ?thesis by (rule books_call [OF assms(1,2) y(1) timeout_called]) (simp_all add: y(2) set_es_def)
next
  case (Perform i now)
  then show ?thesis using assms perform_books [OF assms(1,2)] by (auto split: if_splits)
next
  case (OnReady i env)
  then show ?thesis using assms on_ready_books [OF assms(1,2)] by (auto split: if_splits)
qed (use assms in \<open>auto simp: Let_def cxx_res split: option.splits intro!: books_frame [OF assms(1)] dest!: totals_Sample\<close>)

lemma new_engine_books: "new_engine G hostname cfg t0 = Inr e \<Longrightarrow> books_inv e"
  by (auto simp: new_engine_def cxx_res books_inv_def tally_def)

end
