(* ===== verification/Printf.thy ===== *)
theory Printf
  imports Units
begin

text \<open>
  The conversions of \<^verbatim>\<open>printf\<close> the printing code shares, beside \<^verbatim>\<open>%.kf\<close> of \<open>Units\<close>: \<^verbatim>\<open>%-ns\<close>, \<^verbatim>\<open>%u\<close> of the
  fixed-width integers and \<^verbatim>\<open>%.pg\<close>.
\<close>

definition newline :: string where
  "newline = [CHR 10]"

definition pad_right :: "nat \<Rightarrow> string \<Rightarrow> string" where
  "pad_right n s = s @ replicate (n - length s) (CHR '' '')"

definition u64_dec :: "u64 \<Rightarrow> string" where
  "u64_dec w = nat_to_dec (unat w)"

text \<open>A signed integer.\<close>

definition int_dec :: "int \<Rightarrow> string" where
  "int_dec i = (if i < 0 then CHR ''-'' # int_to_dec (- i) else int_to_dec i)"

text \<open>The decimal exponent of a rational that is not 0: \<open>10 ^ e \<le> |x| < 10 ^ (e + 1)\<close>.\<close>

definition dec_exp :: "rat \<Rightarrow> int" where
  "dec_exp x = (if 1 \<le> \<bar>x\<bar> then int (length (int_to_dec \<lfloor>\<bar>x\<bar>\<rfloor>)) - 1
     else - int (length (int_to_dec (\<lceil>1 / \<bar>x\<bar>\<rceil> - 1))))"

definition drop_zeros :: "string \<Rightarrow> string" where
  "drop_zeros s = rev (dropWhile (\<lambda>c. c = CHR ''0'') (rev s))"

text \<open>\<^verbatim>\<open>%.pg\<close>: \<open>p\<close> significant digits of the exact value, trailing zeros dropped, in positional notation where the
  exponent \<open>e\<close> after rounding is between -4 and \<open>p - 1\<close>, else as \<open>d.ddde+XX\<close>. A zero prints as 0: its sign is
  not part of the model of a double.\<close>

definition g_digits :: "nat \<Rightarrow> rat \<Rightarrow> string \<times> int" where
  "g_digits p x =
     (let e = dec_exp x; m = rne (\<bar>x\<bar> * 10 powi (int p - 1 - e))
      in if m = 10 ^ p then (int_to_dec (10 ^ (p - 1)), e + 1) else (int_to_dec m, e))"

definition with_fraction :: "string \<Rightarrow> string \<Rightarrow> string" where
  "with_fraction whole part = (let f = drop_zeros part in if f = [] then whole else whole @ ''.'' @ f)"

definition fmt_g_rat :: "nat \<Rightarrow> rat \<Rightarrow> string" where
  "fmt_g_rat p x =
     (if x = 0 then ''0''
      else (if x < 0 then ''-'' else []) @
        (let (ds, e) = g_digits p x in
         if -4 \<le> e \<and> e < int p then
           (if 0 \<le> e then with_fraction (take (nat e + 1) ds) (drop (nat e + 1) ds)
            else with_fraction ''0'' (replicate (nat (- e) - 1) (CHR ''0'') @ ds))
         else with_fraction (take 1 ds) (drop 1 ds) @ ''e'' @ (if e < 0 then ''-'' else ''+'')
              @ zero_pad 2 (int_to_dec \<bar>e\<bar>)))"

fun fmt_g :: "nat \<Rightarrow> double \<Rightarrow> string" where
  "fmt_g p (Fin x) = fmt_g_rat p x"
| "fmt_g p PInf = ''inf''"
| "fmt_g p NInf = ''-inf''"
| "fmt_g p NaN = ''nan''"

lemma fmt_g_samples:
  "fmt_g 9 (Fin (1 / 4)) = ''0.25''" "fmt_g 9 (Fin 30) = ''30''" "fmt_g 9 (Fin (2 ^ 40)) = ''1.09951163e+12''"
  "fmt_g 9 (lit (1 / 1000)) = ''0.001''" "fmt_g 6 (Fin (1 / 2 ^ 20)) = ''9.53674e-07''"
  by code_simp+

end
