(* ===== verification/FileSink.thy ===== *)
theory FileSink
  imports Registry Json Workload Printf
begin

text \<open>
  \<^verbatim>\<open>src/file_sink.cc\<close>: the snapshots of a run as lines of \<^verbatim>\<open>metrics.jsonl\<close>, its final snapshot as
  \<^verbatim>\<open>result.json\<close>, the resolved workload and its hash. The files are a map from paths to contents; which
  directories can be created and which files open for writing is the environment's. A file that opens
  accepts all that is written.
\<close>

section \<open>State\<close>

type_synonym disk = "string \<rightharpoonup> string"

record file_env =
  fe_mkdir_error :: "string \<Rightarrow> string option"
  fe_writable :: "string \<Rightarrow> bool"

record RunInfoMeta =
  rm_version :: string
  rm_arch :: string
  rm_xrdcl_version :: string
  rm_seed :: u64
  rm_pattern :: string
  rm_schema_version :: int
  rm_auth_mode :: string
  rm_workload_hash :: string
  rm_workload_resolved_json :: string

text \<open>An \<^verbatim>\<open>ofstream\<close>: not opened, open, or failed.\<close>

datatype stream = Unopened | Opened | Failed

record FileSink =
  fk_results_dir :: string
  fk_run_id :: string
  fk_run_dir :: string
  fk_meta :: RunInfoMeta
  fk_jsonl :: stream

definition new_FileSink :: "string \<Rightarrow> string \<Rightarrow> RunInfoMeta \<Rightarrow> FileSink" where
  "new_FileSink results_dir run_id meta = \<lparr> fk_results_dir = results_dir, fk_run_id = run_id,
     fk_run_dir = path_append results_dir run_id, fk_meta = meta, fk_jsonl = Unopened \<rparr>"

text \<open>\<^verbatim>\<open>ofstream out(path); if (!out) throw ...\<close>: opening truncates.\<close>

definition open_out :: "file_env \<Rightarrow> string \<Rightarrow> string \<Rightarrow> disk \<Rightarrow> unit res \<times> disk" where
  "open_out F complaint path d =
     (if fe_writable F path then (Inr (), d(path \<mapsto> [])) else (Inl (Runtime_error (complaint @ path)), d))"

definition append_to :: "string \<Rightarrow> string \<Rightarrow> disk \<Rightarrow> disk" where
  "append_to path text d = d(path \<mapsto> (case d path of None \<Rightarrow> [] | Some old \<Rightarrow> old) @ text)"

text \<open>Steps that may throw after they have written.\<close>

definition dk_bind :: "'a res \<times> disk \<Rightarrow> ('a \<Rightarrow> disk \<Rightarrow> 'b res \<times> disk) \<Rightarrow> 'b res \<times> disk" where
  "dk_bind m f = (case m of (Inl e, d) \<Rightarrow> (Inl e, d) | (Inr x, d) \<Rightarrow> f x d)"

lemma dk_bind_simps [simp]: "dk_bind (Inl e, d) f = (Inl e, d)" "dk_bind (Inr x, d) f = f x d"
  by (simp_all add: dk_bind_def)

section \<open>Starting\<close>

definition write_resolved :: "file_env \<Rightarrow> FileSink \<Rightarrow> disk \<Rightarrow> unit res \<times> disk" where
  "write_resolved F k d =
     (let text = rm_workload_resolved_json (fk_meta k); path = path_append (fk_run_dir k) ''workload_resolved.json''
      in if text = [] then (Inr (), d)
         else dk_bind (open_out F ''cannot write '' path d) (\<lambda>_ d.
           (Inr (), append_to path (text @ (if last text \<noteq> CHR 10 then newline else [])) d)))"

definition write_hash :: "file_env \<Rightarrow> FileSink \<Rightarrow> disk \<Rightarrow> unit res \<times> disk" where
  "write_hash F k d =
     (let path = path_append (fk_run_dir k) ''workload.hash''
      in if rm_workload_hash (fk_meta k) = [] then (Inr (), d)
         else dk_bind (open_out F ''cannot write '' path d) (\<lambda>_ d.
           (Inr (), append_to path (rm_workload_hash (fk_meta k) @ newline) d)))"

definition jsonl_path :: "FileSink \<Rightarrow> string" where
  "jsonl_path k = path_append (fk_run_dir k) ''metrics.jsonl''"

definition FileSink_Start :: "file_env \<Rightarrow> FileSink \<Rightarrow> disk \<Rightarrow> FileSink res \<times> disk" where
  "FileSink_Start F k d =
     (case fe_mkdir_error F (fk_run_dir k) of
        Some message \<Rightarrow> (Inl (Runtime_error (''cannot create results dir '' @ fk_run_dir k @ '': '' @ message)), d)
      | None \<Rightarrow>
          dk_bind (write_resolved F k d) (\<lambda>_ d.
          dk_bind (write_hash F k d) (\<lambda>_ d.
          dk_bind (open_out F ''cannot open '' (jsonl_path k) d) (\<lambda>_ d.
            (Inr (k \<lparr> fk_jsonl := Opened \<rparr>), d)))))"

section \<open>Documents\<close>

definition HistogramToJson :: "'j json_api \<Rightarrow> HistogramSnapshot \<Rightarrow> 'j" where
  "HistogramToJson J h = js_object J
     [(''bounds'', js_array J (map (js_float J) (hs_bounds h))),
      (''counts'', js_array J (map (js_unsigned J) (hs_counts h))),
      (''count'', js_unsigned J (hs_count h)),
      (''sum'', js_float J (hs_sum h))]"

definition LatencyPercentiles :: "'j json_api \<Rightarrow> HistogramSnapshot \<Rightarrow> 'j" where
  "LatencyPercentiles J h = js_object J
     [(''p50'', js_float J (HistogramPercentile h (lit (50 / 100)))),
      (''p95'', js_float J (HistogramPercentile h (lit (95 / 100)))),
      (''p99'', js_float J (HistogramPercentile h (lit (99 / 100)))),
      (''count'', js_unsigned J (hs_count h)),
      (''sum'', js_float J (hs_sum h))]"

text \<open>A \<^verbatim>\<open>std::map<std::string, uint64_t>\<close>.\<close>

definition counts_json :: "'j json_api \<Rightarrow> u64 omap \<Rightarrow> 'j" where
  "counts_json J m = js_object J (map (\<lambda>(k, n). (k, js_unsigned J n)) m)"

definition endpoint_json :: "'j json_api \<Rightarrow> EndpointStats \<Rightarrow> 'j" where
  "endpoint_json J ep = js_object J
     ([(''bytes_read'', js_unsigned J (ep_bytes_read ep)),
       (''sessions_ok'', js_unsigned J (ep_sessions_ok ep)),
       (''sessions_fail'', js_unsigned J (ep_sessions_fail ep)),
       (''errors'', counts_json J (ep_errors_by_class ep))]
      @ (if ep_cms_site ep \<noteq> [] then [(''cms_site'', js_string J (ep_cms_site ep))] else []))"

definition site_json :: "'j json_api \<Rightarrow> SiteStats \<Rightarrow> 'j" where
  "site_json J site = js_object J
     [(''bytes_read'', js_unsigned J (st_bytes_read site)),
      (''sessions_ok'', js_unsigned J (st_sessions_ok site)),
      (''sessions_fail'', js_unsigned J (st_sessions_fail site)),
      (''errors'', counts_json J (st_errors_by_class site))]"

definition by_data_server_json :: "'j json_api \<Rightarrow> EndpointStats omap \<Rightarrow> 'j" where
  "by_data_server_json J m =
     js_object J (foldl (\<lambda>obj (_, ep). om_put (ep_data_server ep) (endpoint_json J ep) obj) om_empty m)"

definition by_cms_site_json :: "'j json_api \<Rightarrow> SiteStats omap \<Rightarrow> 'j" where
  "by_cms_site_json J m =
     js_object J (foldl (\<lambda>obj (_, site). om_put (st_cms_site site) (site_json J site) obj) om_empty m)"

definition attribution_fields :: "'j json_api \<Rightarrow> MetricsSnapshot \<Rightarrow> (string \<times> 'j) list" where
  "attribution_fields J s =
     (if ms_by_data_server s \<noteq> [] then [(''by_data_server'', by_data_server_json J (ms_by_data_server s))] else [])
     @ (if ms_by_cms_site s \<noteq> [] then [(''by_cms_site'', by_cms_site_json J (ms_by_cms_site s))] else [])"

definition SnapshotToJsonl :: "'j json_api \<Rightarrow> MetricsSnapshot \<Rightarrow> 'j" where
  "SnapshotToJsonl J s = js_object J
     ([(''run_id'', js_string J (ms_run_id s)),
       (''job_id'', js_string J (ms_job_id s)),
       (''target'', js_string J (ms_target s)),
       (''endpoint'', js_string J (ms_endpoint s)),
       (''wall_s'', js_float J (ms_wall_s s)),
       (''xrdhover_bytes_read_total'', js_unsigned J (ms_bytes_read_total s)),
       (''xrdhover_sessions_total'', js_object J
          [(''ok'', js_unsigned J (ms_sessions_ok s)), (''fail'', js_unsigned J (ms_sessions_fail s))]),
       (''xrdhover_read_ops_total'', js_unsigned J (ms_read_ops_total s)),
       (''xrdhover_target_rate_bytes'', js_float J (ms_target_rate_bytes s)),
       (''xrdhover_achieved_rate_bytes'', js_float J (ms_achieved_rate_bytes s)),
       (''xrdhover_open_seconds'', HistogramToJson J (ms_open_seconds s)),
       (''xrdhover_ttfb_seconds'', HistogramToJson J (ms_ttfb_seconds s)),
       (''xrdhover_read_seconds'', HistogramToJson J (ms_read_seconds s)),
       (''xrdhover_read_op_seconds'', HistogramToJson J (ms_read_op_seconds s)),
       (''xrdhover_redirects_per_open'', HistogramToJson J (ms_redirects_per_open s)),
       (''xrdhover_errors_total'', counts_json J (ms_errors_by_class s)),
       (''xrdhover_soft_faults_total'', counts_json J (ms_soft_faults_by_kind s)),
       (''xrdhover_inflight_reads'', js_unsigned J (ms_inflight_reads s)),
       (''xrdhover_max_inflight'', js_unsigned J (ucast (ms_max_inflight s))),
       (''xrdhover_cpu_seconds_total'', js_float J (ms_cpu_seconds_total s)),
       (''xrdhover_process_resident_memory_bytes'', js_unsigned J (ms_process_resident_memory_bytes s))]
      @ attribution_fields J s)"

definition run_info_json :: "'j json_api \<Rightarrow> RunInfoMeta \<Rightarrow> 'j" where
  "run_info_json J m = js_object J
     ([(''version'', js_string J (rm_version m)),
       (''arch'', js_string J (rm_arch m)),
       (''xrdcl_version'', js_string J (rm_xrdcl_version m)),
       (''seed'', js_unsigned J (rm_seed m)),
       (''pattern'', js_string J (rm_pattern m))]
      @ (if 0 < rm_schema_version m then [(''schema_version'', js_integer J (rm_schema_version m))] else [])
      @ (if rm_auth_mode m \<noteq> [] then [(''auth_mode'', js_string J (rm_auth_mode m))] else []))"

definition latency_json :: "'j json_api \<Rightarrow> MetricsSnapshot \<Rightarrow> 'j" where
  "latency_json J s = js_object J
     [(''open_seconds'', LatencyPercentiles J (ms_open_seconds s)),
      (''ttfb_seconds'', LatencyPercentiles J (ms_ttfb_seconds s)),
      (''read_seconds'', LatencyPercentiles J (ms_read_seconds s)),
      (''read_op_seconds'', LatencyPercentiles J (ms_read_op_seconds s)),
      (''redirects_per_open'', LatencyPercentiles J (ms_redirects_per_open s))]"

text \<open>A quotient of the totals, 0 without a positive divisor.\<close>

definition per :: "u64 \<Rightarrow> double \<Rightarrow> double" where
  "per n x = (if dlt (Fin 0) x then ddiv (d_of_u64 n) x else Fin 0)"

definition ResultToJson :: "'j json_api \<Rightarrow> RunInfoMeta \<Rightarrow> MetricsSnapshot \<Rightarrow> double \<Rightarrow> 'j" where
  "ResultToJson J meta s cpu_seconds_at_start =
     (let elapsed = ms_wall_s s;
          achieved = per (ms_bytes_read_total s) elapsed;
          bytes_per_cpu = per (ms_bytes_read_total s) (dsub (ms_cpu_seconds_total s) cpu_seconds_at_start)
      in js_object J
     ([(''run_id'', js_string J (ms_run_id s)),
       (''job_id'', js_string J (ms_job_id s)),
       (''target'', js_string J (ms_target s)),
       (''endpoint'', js_string J (ms_endpoint s)),
       (''elapsed_s'', js_float J elapsed),
       (''target_rate_bytes_per_s'', js_float J (ms_target_rate_bytes s)),
       (''achieved_bytes_per_s'', js_float J achieved),
       (''target_rate_bits_per_s'', js_float J (dmul (ms_target_rate_bytes s) (Fin 8))),
       (''achieved_bits_per_s'', js_float J (dmul achieved (Fin 8))),
       (''bytes_read'', js_unsigned J (ms_bytes_read_total s)),
       (''sessions_ok'', js_unsigned J (ms_sessions_ok s)),
       (''sessions_fail'', js_unsigned J (ms_sessions_fail s)),
       (''ops'', js_unsigned J (ms_read_ops_total s)),
       (''max_inflight'', js_unsigned J (ucast (ms_max_inflight s))),
       (''errors'', counts_json J (ms_errors_by_class s)),
       (''soft_faults'', counts_json J (ms_soft_faults_by_kind s)),
       (''latency'', latency_json J s),
       (''xrdhover_cpu_seconds_total'', js_float J (ms_cpu_seconds_total s)),
       (''xrdhover_process_resident_memory_bytes'', js_unsigned J (ms_process_resident_memory_bytes s)),
       (''xrdhover_bytes_per_cpu_second'', js_float J bytes_per_cpu),
       (''run_info'', run_info_json J meta)]
      @ (if rm_workload_hash meta \<noteq> [] then [(''workload_hash'', js_string J (rm_workload_hash meta))] else [])
      @ attribution_fields J s))"

section \<open>Writing\<close>

definition WriteSnapshot :: "'j json_api \<Rightarrow> MetricsSnapshot \<Rightarrow> FileSink \<Rightarrow> disk \<Rightarrow> FileSink res \<times> disk" where
  "WriteSnapshot J s k d =
     (if fk_jsonl k = Failed then (Inr k, d)
      else case js_dump J (SnapshotToJsonl J s) of
        Inl e \<Rightarrow> (Inl e, d)
      | Inr text \<Rightarrow> (if fk_jsonl k = Opened then (Inr k, append_to (jsonl_path k) (text @ newline) d)
                    else (Inr (k \<lparr> fk_jsonl := Failed \<rparr>), d)))"

text \<open>\<^verbatim>\<open>result.json\<close> is opened, and so emptied, before the document is turned into text.\<close>

definition WriteResult ::
  "'j json_api \<Rightarrow> file_env \<Rightarrow> MetricsSnapshot \<Rightarrow> double \<Rightarrow> FileSink \<Rightarrow> disk \<Rightarrow> unit res \<times> disk" where
  "WriteResult J F s cpu_seconds_at_start k d =
     (let path = path_append (fk_run_dir k) ''result.json''
      in dk_bind (open_out F ''cannot write '' path d) (\<lambda>_ d.
           case js_dump2 J (ResultToJson J (fk_meta k) s cpu_seconds_at_start) of
             Inl e \<Rightarrow> (Inl e, d)
           | Inr text \<Rightarrow> (Inr (), append_to path (text @ newline) d)))"

section \<open>Facts\<close>

lemma WriteResult_file:
  assumes "WriteResult J F s cpu k d = (Inr (), d')"
  obtains t where "js_dump2 J (ResultToJson J (fk_meta k) s cpu) = Inr t"
    "d' (path_append (fk_run_dir k) ''result.json'') = Some (t @ newline)"
  using assms that by (auto simp: WriteResult_def open_out_def append_to_def Let_def split: if_splits sum.splits)

end
