(* ===== verification/Report.thy ===== *)
theory Report
  imports FileSink
begin

text \<open>
  \<^verbatim>\<open>src/report_command.cc\<close>: finding a run's \<^verbatim>\<open>result.json\<close>, adding up the result files, printing the
  report. The file system is three functions: the content of a file that opens, and the two predicates of
  \<^verbatim>\<open>std::filesystem\<close>.
\<close>

section \<open>Data\<close>

record ReportOptions =
  ro_path :: string
  ro_results_dir :: string
  ro_run_id :: string
  ro_json :: bool

record AttributionBucket =
  ab_bytes_read :: u64
  ab_sessions_ok :: u64
  ab_sessions_fail :: u64
  ab_errors :: "u64 omap"
  ab_cms_site :: string

record ReportSummary =
  rp_run_id :: string
  rp_job_ids :: "string list"
  rp_sources :: "string list"
  rp_endpoint :: string
  rp_target :: string
  rp_elapsed_s :: double
  rp_bytes_read :: u64
  rp_sessions_ok :: u64
  rp_sessions_fail :: u64
  rp_ops :: u64
  rp_errors :: "u64 omap"
  rp_soft_faults :: "u64 omap"
  rp_by_data_server :: "AttributionBucket omap"
  rp_by_cms_site :: "AttributionBucket omap"

record report_fs =
  rf_read :: "string \<Rightarrow> string option"
  rf_regular :: "string \<Rightarrow> bool"
  rf_directory :: "string \<Rightarrow> bool"

definition new_AttributionBucket :: AttributionBucket where
  "new_AttributionBucket = \<lparr> ab_bytes_read = 0, ab_sessions_ok = 0, ab_sessions_fail = 0,
     ab_errors = om_empty, ab_cms_site = [] \<rparr>"

definition new_ReportSummary :: ReportSummary where
  "new_ReportSummary = \<lparr> rp_run_id = [], rp_job_ids = [], rp_sources = [], rp_endpoint = [], rp_target = [],
     rp_elapsed_s = Fin 0, rp_bytes_read = 0, rp_sessions_ok = 0, rp_sessions_fail = 0, rp_ops = 0,
     rp_errors = om_empty, rp_soft_faults = om_empty, rp_by_data_server = om_empty, rp_by_cms_site = om_empty \<rparr>"

section \<open>Reading fields\<close>

definition JsonU64 :: "'j json_api \<Rightarrow> 'j \<Rightarrow> string \<Rightarrow> u64 res" where
  "JsonU64 J j key =
     (case js_field J j key of
        None \<Rightarrow> Inr 0
      | Some v \<Rightarrow>
          if js_is_null J v then Inr 0
          else if js_is_number_unsigned J v then Inr (js_get_u64 J v)
          else if js_is_number_integer J v
          then Inr (if js_get_int64 J v < 0 then 0 else word_of_int (js_get_int64 J v))
          else if js_is_number_float J v then cast_u64 (js_get_double J v)
          else Inr 0)"

definition JsonDouble :: "'j json_api \<Rightarrow> 'j \<Rightarrow> string \<Rightarrow> double" where
  "JsonDouble J j key =
     (case js_field J j key of
        None \<Rightarrow> Fin 0
      | Some v \<Rightarrow> if js_is_null J v then Fin 0 else if js_is_number J v then js_get_double J v else Fin 0)"

definition JsonString :: "'j json_api \<Rightarrow> 'j \<Rightarrow> string \<Rightarrow> string" where
  "JsonString J j key =
     (case js_field J j key of
        None \<Rightarrow> []
      | Some v \<Rightarrow> if js_is_string J v then js_get_string J v else [])"

section \<open>Adding up\<close>

fun MergeCounts :: "'j json_api \<Rightarrow> u64 omap \<Rightarrow> (string \<times> 'j) list \<Rightarrow> u64 omap res" where
  "MergeCounts J dst [] = Inr dst"
| "MergeCounts J dst ((k, v) # kvs) =
     (if js_is_number J v
      then res_bind (cast_u64 (js_get_double J v)) (\<lambda>n. MergeCounts J (om_count k n dst) kvs)
      else MergeCounts J dst kvs)"

definition MergeCountMap :: "'j json_api \<Rightarrow> u64 omap \<Rightarrow> 'j \<Rightarrow> u64 omap res" where
  "MergeCountMap J dst obj = (if js_is_object J obj then MergeCounts J dst (js_items J obj) else Inr dst)"

text \<open>\<^verbatim>\<open>if (j.contains(key)) MergeCountMap(dst, j[key])\<close>.\<close>

definition merge_field :: "'j json_api \<Rightarrow> 'j \<Rightarrow> string \<Rightarrow> u64 omap \<Rightarrow> u64 omap res" where
  "merge_field J j key dst = (case js_field J j key of None \<Rightarrow> Inr dst | Some obj \<Rightarrow> MergeCountMap J dst obj)"

definition MergeBucket :: "'j json_api \<Rightarrow> 'j \<Rightarrow> AttributionBucket \<Rightarrow> AttributionBucket res" where
  "MergeBucket J entry dst =
     res_bind (JsonU64 J entry ''bytes_read'') (\<lambda>bytes.
     res_bind (JsonU64 J entry ''sessions_ok'') (\<lambda>good.
     res_bind (JsonU64 J entry ''sessions_fail'') (\<lambda>bad.
     res_bind (merge_field J entry ''errors'' (ab_errors dst)) (\<lambda>errors. Inr
       (dst \<lparr> ab_bytes_read := ab_bytes_read dst + bytes, ab_sessions_ok := ab_sessions_ok dst + good,
              ab_sessions_fail := ab_sessions_fail dst + bad, ab_errors := errors,
              ab_cms_site := (if ab_cms_site dst = [] then JsonString J entry ''cms_site'' else ab_cms_site dst) \<rparr>)))))"

fun MergeBuckets :: "'j json_api \<Rightarrow> AttributionBucket omap \<Rightarrow> (string \<times> 'j) list \<Rightarrow> AttributionBucket omap res" where
  "MergeBuckets J dst [] = Inr dst"
| "MergeBuckets J dst ((k, entry) # kvs) =
     res_bind (MergeBucket J entry (case om_get dst k of None \<Rightarrow> new_AttributionBucket | Some b \<Rightarrow> b))
       (\<lambda>b. MergeBuckets J (om_put k b dst) kvs)"

definition merge_table :: "'j json_api \<Rightarrow> 'j \<Rightarrow> string \<Rightarrow> AttributionBucket omap \<Rightarrow> AttributionBucket omap res" where
  "merge_table J j key dst =
     (case js_field J j key of
        None \<Rightarrow> Inr dst
      | Some obj \<Rightarrow> if js_is_object J obj then MergeBuckets J dst (js_items J obj) else Inr dst)"

text \<open>The four \<^verbatim>\<open>std::set<std::string>\<close> beside the sums.\<close>

record seen_names =
  sn_run_ids :: "unit omap"
  sn_job_ids :: "unit omap"
  sn_endpoints :: "unit omap"
  sn_targets :: "unit omap"

definition note_name :: "string \<Rightarrow> unit omap \<Rightarrow> unit omap" where
  "note_name s names = (if s = [] then names else om_put s () names)"

definition AddResult :: "'j json_api \<Rightarrow> 'j \<Rightarrow> ReportSummary \<times> seen_names \<Rightarrow> (ReportSummary \<times> seen_names) res" where
  "AddResult J j = (\<lambda>(out, seen).
     let seen = \<lparr> sn_run_ids = note_name (JsonString J j ''run_id'') (sn_run_ids seen),
                  sn_job_ids = note_name (JsonString J j ''job_id'') (sn_job_ids seen),
                  sn_endpoints = note_name (JsonString J j ''endpoint'') (sn_endpoints seen),
                  sn_targets = note_name (JsonString J j ''target'') (sn_targets seen) \<rparr>
     in res_bind (JsonU64 J j ''bytes_read'') (\<lambda>bytes.
        res_bind (JsonU64 J j ''sessions_ok'') (\<lambda>good.
        res_bind (JsonU64 J j ''sessions_fail'') (\<lambda>bad.
        res_bind (JsonU64 J j ''ops'') (\<lambda>ops.
        res_bind (merge_field J j ''errors'' (rp_errors out)) (\<lambda>errors.
        res_bind (merge_field J j ''soft_faults'' (rp_soft_faults out)) (\<lambda>soft_faults.
        res_bind (merge_table J j ''by_data_server'' (rp_by_data_server out)) (\<lambda>by_ds.
        res_bind (merge_table J j ''by_cms_site'' (rp_by_cms_site out)) (\<lambda>by_site. Inr
          (out \<lparr> rp_bytes_read := rp_bytes_read out + bytes, rp_sessions_ok := rp_sessions_ok out + good,
                 rp_sessions_fail := rp_sessions_fail out + bad, rp_ops := rp_ops out + ops,
                 rp_elapsed_s := dmax (rp_elapsed_s out) (JsonDouble J j ''elapsed_s''),
                 rp_errors := errors, rp_soft_faults := soft_faults,
                 rp_by_data_server := by_ds, rp_by_cms_site := by_site \<rparr>, seen))))))))))"

definition LoadResult :: "'j json_api \<Rightarrow> report_fs \<Rightarrow> string \<Rightarrow> 'j res" where
  "LoadResult J F path =
     (case rf_read F path of
        None \<Rightarrow> Inl (Runtime_error (''cannot open '' @ path))
      | Some text \<Rightarrow>
          (case js_parse J text of
             Inl e \<Rightarrow> (case e of Json_error m \<Rightarrow> Inl (Runtime_error (''invalid JSON in '' @ path @ '': '' @ m)) | _ \<Rightarrow> Inl e)
           | Inr j \<Rightarrow> if js_is_object J j then Inr j
                      else Inl (Runtime_error (''result.json root must be object: '' @ path))))"

fun AddFiles :: "'j json_api \<Rightarrow> report_fs \<Rightarrow> string list \<Rightarrow> ReportSummary \<times> seen_names \<Rightarrow> (ReportSummary \<times> seen_names) res" where
  "AddFiles J F [] acc = Inr acc"
| "AddFiles J F (path # paths) acc =
     res_bind (LoadResult J F path) (\<lambda>j. res_bind (AddResult J j acc) (AddFiles J F paths))"

text \<open>The only element of a set, if it has exactly one.\<close>

definition sole :: "unit omap \<Rightarrow> string" where
  "sole names = (case names of [(s, _)] \<Rightarrow> s | _ \<Rightarrow> [])"

definition AggregateResultFiles :: "'j json_api \<Rightarrow> report_fs \<Rightarrow> string list \<Rightarrow> ReportSummary res" where
  "AggregateResultFiles J F paths =
     (if paths = [] then Inl (Runtime_error ''no result files to aggregate'')
      else res_bind (AddFiles J F paths (new_ReportSummary \<lparr> rp_sources := paths \<rparr>,
             \<lparr> sn_run_ids = om_empty, sn_job_ids = om_empty, sn_endpoints = om_empty, sn_targets = om_empty \<rparr>))
           (\<lambda>(out, seen).
             if 1 < length (sn_run_ids seen) then Inl (Runtime_error ''result files disagree on run_id'')
             else Inr (out \<lparr> rp_run_id := sole (sn_run_ids seen), rp_endpoint := sole (sn_endpoints seen),
                             rp_target := sole (sn_targets seen), rp_job_ids := map fst (sn_job_ids seen) \<rparr>)))"

section \<open>Finding the file\<close>

definition RequireRunId :: "ReportOptions \<Rightarrow> string \<Rightarrow> string res" where
  "RequireRunId opts why =
     (if ro_run_id opts \<noteq> [] then Inr (ro_run_id opts) else Inl (Runtime_error (why @ '' (pass --run-id)'')))"

text \<open>\<^verbatim>\<open>path::filename\<close>: what follows the last separator.\<close>

definition path_filename :: "string \<Rightarrow> string" where
  "path_filename p = rev (takeWhile (\<lambda>c. c \<noteq> CHR ''/'') (rev p))"

definition discover_path :: "report_fs \<Rightarrow> ReportOptions \<Rightarrow> string list res" where
  "discover_path F opts =
     (let p = ro_path opts in
      if rf_regular F p then
        (if path_filename p \<noteq> ''result.json'' then Inl (Runtime_error ''file PATH must be result.json'') else Inr [p])
      else if \<not> rf_directory F p then Inl (Runtime_error (''PATH not found: '' @ p))
      else let direct = path_append p ''result.json'' in
        if rf_regular F direct then Inr [direct]
        else res_bind (RequireRunId opts ''PATH has no result.json; treat as results root'') (\<lambda>run_id.
          let single = path_append (path_append p run_id) ''result.json'' in
          if rf_regular F single then Inr [single]
          else Inl (Runtime_error (''no result.json for run_id='' @ run_id @ '' under '' @ p))))"

definition discover_root :: "report_fs \<Rightarrow> ReportOptions \<Rightarrow> string list res" where
  "discover_root F opts =
     res_bind (RequireRunId opts ''--results-dir needs --run-id'') (\<lambda>run_id.
       let root = ro_results_dir opts in
       if \<not> rf_directory F root then Inl (Runtime_error (''results dir not found: '' @ root))
       else let single = path_append (path_append root run_id) ''result.json'' in
         if rf_regular F single then Inr [single]
         else Inl (Runtime_error (''no result.json for run_id='' @ run_id @ '' under '' @ root)))"

definition DiscoverResultFiles :: "report_fs \<Rightarrow> ReportOptions \<Rightarrow> string list res" where
  "DiscoverResultFiles F opts =
     (if ro_path opts = [] \<and> ro_results_dir opts = []
      then Inl (Runtime_error ''pass a PATH (run dir or result.json) or --results-dir'')
      else if ro_path opts \<noteq> [] \<and> ro_results_dir opts \<noteq> []
      then Inl (Runtime_error ''pass PATH or --results-dir, not both'')
      else if ro_path opts \<noteq> [] then discover_path F opts else discover_root F opts)"

section \<open>Output\<close>

definition BucketToJson :: "'j json_api \<Rightarrow> AttributionBucket \<Rightarrow> bool \<Rightarrow> 'j" where
  "BucketToJson J b include_cms_site = js_object J
     ([(''bytes_read'', js_unsigned J (ab_bytes_read b)),
       (''sessions_ok'', js_unsigned J (ab_sessions_ok b)),
       (''sessions_fail'', js_unsigned J (ab_sessions_fail b)),
       (''errors'', counts_json J (ab_errors b))]
      @ (if include_cms_site \<and> ab_cms_site b \<noteq> [] then [(''cms_site'', js_string J (ab_cms_site b))] else []))"

definition SummaryToJson :: "'j json_api \<Rightarrow> ReportSummary \<Rightarrow> 'j" where
  "SummaryToJson J s =
     (let achieved = per (rp_bytes_read s) (rp_elapsed_s s) in js_object J
     [(''run_id'', js_string J (rp_run_id s)),
      (''sources'', js_array J (map (js_string J) (rp_sources s))),
      (''job_ids'', js_array J (map (js_string J) (rp_job_ids s))),
      (''endpoint'', js_string J (rp_endpoint s)),
      (''target'', js_string J (rp_target s)),
      (''elapsed_s'', js_float J (rp_elapsed_s s)),
      (''bytes_read'', js_unsigned J (rp_bytes_read s)),
      (''sessions_ok'', js_unsigned J (rp_sessions_ok s)),
      (''sessions_fail'', js_unsigned J (rp_sessions_fail s)),
      (''ops'', js_unsigned J (rp_ops s)),
      (''achieved_bytes_per_s'', js_float J achieved),
      (''achieved_bits_per_s'', js_float J (dmul achieved (Fin 8))),
      (''errors'', counts_json J (rp_errors s)),
      (''soft_faults'', counts_json J (rp_soft_faults s)),
      (''by_data_server'', js_object J (map (\<lambda>(k, b). (k, BucketToJson J b True)) (rp_by_data_server s))),
      (''by_cms_site'', js_object J (map (\<lambda>(k, b). (k, BucketToJson J b False)) (rp_by_cms_site s)))])"

text \<open>The lines printed, without their newlines.\<close>

definition bucket_line :: "bool \<Rightarrow> string \<times> AttributionBucket \<Rightarrow> string" where
  "bucket_line show_cms_site = (\<lambda>(k, b).
     ''  '' @ pad_right 40 k
     @ (if show_cms_site \<and> ab_cms_site b \<noteq> [] then '' site='' @ pad_right 24 (ab_cms_site b) else [])
     @ '' bytes='' @ pad_right 12 (FormatBytes (ab_bytes_read b))
     @ '' ok='' @ u64_dec (ab_sessions_ok b) @ '' fail='' @ u64_dec (ab_sessions_fail b))"

definition PrintBucketTable :: "string \<Rightarrow> AttributionBucket omap \<Rightarrow> bool \<Rightarrow> string list" where
  "PrintBucketTable title m show_cms_site =
     (if m = [] then [] else (title @ '':'') # map (bucket_line show_cms_site) m)"

definition count_table :: "string \<Rightarrow> u64 omap \<Rightarrow> string list" where
  "count_table title m =
     (if m = [] then [] else (title @ '':'') # map (\<lambda>(k, n). ''  '' @ pad_right 14 k @ '' '' @ u64_dec n) m)"

definition PrintHuman :: "ReportSummary \<Rightarrow> string list res" where
  "PrintHuman s =
     res_bind (cast_u64 (per (rp_bytes_read s) (rp_elapsed_s s))) (\<lambda>achieved. Inr
     ([''=== report ==='', ''run_id:         '' @ rp_run_id s]
      @ (case rp_job_ids s of [] \<Rightarrow> [] | [jid] \<Rightarrow> [''job_id:         '' @ jid]
         | ids \<Rightarrow> (''job_ids:        '' @ nat_to_dec (length ids)) # map (\<lambda>id. ''  '' @ id) ids)
      @ (if rp_endpoint s \<noteq> [] then [''endpoint:       '' @ rp_endpoint s] else [])
      @ (if rp_target s \<noteq> [] then [''target:         '' @ rp_target s] else [])
      @ (case rp_sources s of [] \<Rightarrow> [] | src # _ \<Rightarrow> [''results:        '' @ src])
      @ [''elapsed:        '' @ FormatDuration (rp_elapsed_s s),
         ''sessions:       '' @ u64_dec (rp_sessions_ok s) @ '' ok / '' @ u64_dec (rp_sessions_fail s) @ '' fail'',
         ''bytes:          '' @ FormatBytes (rp_bytes_read s) @ '' ('' @ u64_dec (rp_bytes_read s) @ '')'',
         ''ops:            '' @ u64_dec (rp_ops s),
         ''achieved:       '' @ FormatRate achieved]
      @ count_table ''errors'' (rp_errors s)
      @ count_table ''soft_faults'' (rp_soft_faults s)
      @ PrintBucketTable ''by_cms_site'' (rp_by_cms_site s) False
      @ PrintBucketTable ''by_data_server'' (rp_by_data_server s) True))"

definition all_failed :: "u64 \<Rightarrow> u64 \<Rightarrow> int" where
  "all_failed bad good = (if 0 < bad \<and> good = 0 then 1 else 0)"

definition report_run :: "'j json_api \<Rightarrow> report_fs \<Rightarrow> ReportOptions \<Rightarrow> (int \<times> string list) res" where
  "report_run J F opts =
     res_bind (DiscoverResultFiles F opts) (\<lambda>files.
     res_bind (AggregateResultFiles J F files) (\<lambda>s.
     res_bind (if ro_json opts then res_bind (js_dump2 J (SummaryToJson J s)) (\<lambda>t. Inr [t]) else PrintHuman s) (\<lambda>lines.
       Inr (all_failed (rp_sessions_fail s) (rp_sessions_ok s), lines))))"

text \<open>\<^verbatim>\<open>RunReportCommand\<close>: the exit code and what is printed; every exception is code 2.\<close>

definition RunReportCommand :: "'j json_api \<Rightarrow> report_fs \<Rightarrow> ReportOptions \<Rightarrow> (int \<times> string list) res" where
  "RunReportCommand J F opts =
     (case report_run J F opts of
        Inr r \<Rightarrow> Inr r
      | Inl Undefined_behaviour \<Rightarrow> Inl Undefined_behaviour
      | Inl e \<Rightarrow> Inr (2, [''error: '' @ what e]))"

end
