(* ===== verification/ReportBack.thy ===== *)
theory ReportBack
  imports Report
begin

text \<open>
  What a run's \<^verbatim>\<open>result.json\<close> says is what its report says: the document \<open>WriteResult\<close> leaves, read back and added up
  by \<open>AggregateResultFiles\<close>, gives the totals and tables of the snapshot. Of the JSON library this uses that
  its observers see what its constructors were given (\<open>json_laws\<close>) and that a document printed and
  parsed looks the same to the observers (\<open>json_text\<close>).
\<close>

section \<open>What the JSON library promises\<close>

definition json_laws :: "'j json_api \<Rightarrow> bool" where
  "json_laws J \<longleftrightarrow>
     (\<forall>kvs. js_is_object J (js_object J kvs))
     \<and> (\<forall>kvs k. distinct (map fst kvs) \<longrightarrow> map_of (js_items J (js_object J kvs)) k = map_of kvs k)
     \<and> (\<forall>kvs. om_wf kvs \<longrightarrow> js_items J (js_object J kvs) = kvs)
     \<and> (\<forall>s. js_is_string J (js_string J s) \<and> js_get_string J (js_string J s) = s)
     \<and> (\<forall>n. js_is_number_unsigned J (js_unsigned J n) \<and> js_get_u64 J (js_unsigned J n) = n)
     \<and> (\<forall>x. js_is_number_float J (js_float J x) \<and> js_get_double J (js_float J x) = x)
     \<and> (\<forall>v. js_is_number_unsigned J v \<longrightarrow> js_is_number_integer J v \<and> \<not> js_is_null J v
              \<and> js_get_double J v = d_of_u64 (js_get_u64 J v))
     \<and> (\<forall>v. js_is_number_float J v \<longrightarrow> \<not> js_is_null J v)"

text \<open>Two values that look the same, down to a depth: objects with the same keys, strings, unsigned
  and finite floating-point numbers. (\<^verbatim>\<open>dump\<close> prints a NaN or an infinity as \<^verbatim>\<open>null\<close>, and a non-negative signed
  number reads back as unsigned.)\<close>

fun looks :: "nat \<Rightarrow> 'j json_api \<Rightarrow> 'j \<Rightarrow> 'j \<Rightarrow> bool" where
  "looks 0 J v w \<longleftrightarrow> True"
| "looks (Suc n) J v w \<longleftrightarrow>
     (js_is_object J v \<longrightarrow> js_is_object J w
        \<and> list_all2 (\<lambda>a b. fst a = fst b \<and> looks n J (snd a) (snd b)) (js_items J v) (js_items J w))
     \<and> (js_is_string J v \<longrightarrow> js_is_string J w \<and> js_get_string J w = js_get_string J v)
     \<and> (js_is_number_unsigned J v \<longrightarrow> js_is_number_unsigned J w \<and> js_get_u64 J w = js_get_u64 J v)
     \<and> (js_is_number_float J v \<and> is_finite (js_get_double J v) \<longrightarrow>
          js_is_number_float J w \<and> js_get_double J w = js_get_double J v)"

definition looks_same :: "'j json_api \<Rightarrow> 'j \<Rightarrow> 'j \<Rightarrow> bool" where
  "looks_same J v w \<longleftrightarrow> (\<forall>n. looks n J v w)"

definition json_text :: "'j json_api \<Rightarrow> bool" where
  "json_text J \<longleftrightarrow> (\<forall>j t. js_dump2 J j = Inr t \<longrightarrow> (\<exists>j'. js_parse J (t @ newline) = Inr j' \<and> looks_same J j j'))"

section \<open>Observing a document read back\<close>

lemma looks_refl: "looks n J v v"
  by (induction n arbitrary: v) (simp_all add: list_all2_refl)

lemma list_all2_all: "(\<And>n::nat. list_all2 (\<lambda>a b. fst a = fst b \<and> P n (snd a) (snd b)) xs ys)
    \<Longrightarrow> list_all2 (\<lambda>a b. fst a = fst b \<and> (\<forall>n. P n (snd a) (snd b))) xs ys"
  by (simp add: list_all2_conv_all_nth)

lemma map_of_list_all2: "list_all2 (\<lambda>a b. fst a = fst b \<and> P (snd a) (snd b)) xs ys
    \<Longrightarrow> rel_option P (map_of xs k) (map_of ys k)"
proof (induction xs ys rule: list_all2_induct)
  case (Cons x xs y ys)
  then show ?case by (cases x; cases y) simp
qed simp

lemma same_object:
  assumes "looks_same J v w" "js_is_object J v"
  shows "js_is_object J w" "list_all2 (\<lambda>a b. fst a = fst b \<and> looks_same J (snd a) (snd b)) (js_items J v) (js_items J w)"
proof -
  have s: "looks (Suc n) J v w" for n using assms(1) by (simp add: looks_same_def)
  from s [of 0] assms(2) show "js_is_object J w" by simp
  have "list_all2 (\<lambda>a b. fst a = fst b \<and> looks n J (snd a) (snd b)) (js_items J v) (js_items J w)" for n
    using s [of n] assms(2) by simp
  then show "list_all2 (\<lambda>a b. fst a = fst b \<and> looks_same J (snd a) (snd b)) (js_items J v) (js_items J w)"
    unfolding looks_same_def by (rule list_all2_all)
qed

lemma same_scalars:
  assumes "looks_same J v w"
  shows "js_is_string J v \<Longrightarrow> js_is_string J w \<and> js_get_string J w = js_get_string J v"
    "js_is_number_unsigned J v \<Longrightarrow> js_is_number_unsigned J w \<and> js_get_u64 J w = js_get_u64 J v"
    "js_is_number_float J v \<Longrightarrow> is_finite (js_get_double J v) \<Longrightarrow> js_is_number_float J w \<and> js_get_double J w = js_get_double J v"
proof -
  have s: "looks (Suc 0) J v w" using assms unfolding looks_same_def by blast
  then show "js_is_string J v \<Longrightarrow> js_is_string J w \<and> js_get_string J w = js_get_string J v"
    "js_is_number_unsigned J v \<Longrightarrow> js_is_number_unsigned J w \<and> js_get_u64 J w = js_get_u64 J v"
    "js_is_number_float J v \<Longrightarrow> is_finite (js_get_double J v) \<Longrightarrow> js_is_number_float J w \<and> js_get_double J w = js_get_double J v"
    by simp_all
qed

text \<open>A document built from fields \<open>kvs\<close>, as it looks when read back.\<close>

definition restored :: "'j json_api \<Rightarrow> (string \<times> 'j) list \<Rightarrow> 'j \<Rightarrow> bool" where
  "restored J kvs w \<longleftrightarrow> json_laws J \<and> distinct (map fst kvs) \<and> looks_same J (js_object J kvs) w"

lemma restored_field: "restored J kvs w \<Longrightarrow> rel_option (looks_same J) (map_of kvs k) (js_field J w k)"
  using same_object [of J "js_object J kvs" w]
    map_of_list_all2 [of "looks_same J" "js_items J (js_object J kvs)" "js_items J w" k]
  by (simp add: restored_def json_laws_def js_field_def)

lemma restored_None: "restored J kvs w \<Longrightarrow> map_of kvs k = None \<Longrightarrow> js_field J w k = None"
  using restored_field [of J kvs w k] by simp

lemma restored_Some: "restored J kvs w \<Longrightarrow> map_of kvs k = Some v \<Longrightarrow> \<exists>v'. js_field J w k = Some v' \<and> looks_same J v v'"
  using restored_field [of J kvs w k] by (simp add: option_rel_Some1)

lemma restored_object: "restored J kvs w \<Longrightarrow> js_is_object J w"
  using same_object [of J "js_object J kvs" w] by (simp add: restored_def json_laws_def)

lemma restored_items: "json_laws J \<Longrightarrow> looks_same J (js_object J kvs) w \<Longrightarrow> om_wf kvs \<Longrightarrow>
    js_is_object J w \<and> list_all2 (\<lambda>a b. fst a = fst b \<and> looks_same J (snd a) (snd b)) kvs (js_items J w)"
  using same_object [of J "js_object J kvs" w] by (simp add: json_laws_def)

lemma restored_unsigned: "json_laws J \<Longrightarrow> looks_same J (js_unsigned J n) w \<Longrightarrow>
    js_is_number_unsigned J w \<and> js_get_u64 J w = n \<and> js_is_number J w \<and> \<not> js_is_null J w \<and> js_get_double J w = d_of_u64 n"
  using same_scalars(2) [of J "js_unsigned J n" w] by (simp add: json_laws_def js_is_number_def)

lemma restored_laws: "restored J kvs w \<Longrightarrow> json_laws J"
  by (simp add: restored_def)

lemma JsonU64_restored:
  assumes "restored J kvs w" "map_of kvs k = Some (js_unsigned J n)" shows "JsonU64 J w k = Inr n"
proof -
  obtain v where "js_field J w k = Some v" "looks_same J (js_unsigned J n) v" using restored_Some [OF assms] by blast
  then show ?thesis using restored_unsigned [of J n v] restored_laws [OF assms(1)] by (simp add: JsonU64_def)
qed

lemma JsonString_restored:
  assumes "restored J kvs w" "map_of kvs k = Some (js_string J s)" shows "JsonString J w k = s"
proof -
  obtain v where "js_field J w k = Some v" "looks_same J (js_string J s) v" using restored_Some [OF assms] by blast
  then show ?thesis using same_scalars(1) [of J "js_string J s" v] restored_laws [OF assms(1)]
    by (simp add: JsonString_def json_laws_def)
qed

lemma JsonString_None: "restored J kvs w \<Longrightarrow> map_of kvs k = None \<Longrightarrow> JsonString J w k = []"
  using restored_None [of J kvs w k] by (simp add: JsonString_def)

lemma JsonDouble_restored:
  assumes "restored J kvs w" "map_of kvs k = Some (js_float J x)" "is_finite x" shows "JsonDouble J w k = x"
proof -
  obtain v where "js_field J w k = Some v" "looks_same J (js_float J x) v" using restored_Some [OF assms(1,2)] by blast
  then show ?thesis using same_scalars(3) [of J "js_float J x" v] restored_laws [OF assms(1)] assms(3)
    by (simp add: JsonDouble_def json_laws_def js_is_number_def)
qed

section \<open>Tables in key order\<close>

lemma om_upsert_last: "\<forall>x\<in>set m. fst x < k \<Longrightarrow> om_upsert k f m = m @ [(k, f None)]"
proof (induction m)
  case (Cons x m)
  then show ?case by (cases x) auto
qed simp

lemma om_get_fresh: "\<forall>x\<in>set m. fst x < k \<Longrightarrow> om_get m k = None"
  by (force simp: om_get_def map_of_eq_None_iff)

lemma om_wf_append: "om_wf (m @ (k, v) # m') \<Longrightarrow> \<forall>x\<in>set m. fst x < k"
  by (auto simp: om_wf_def sorted_append order.order_iff_strict)

lemma om_put_fold:
  assumes "om_wf (m @ m')" "\<forall>x\<in>set m'. key (snd x) = fst x"
  shows "foldl (\<lambda>obj (_, v). om_put (key v) (f v) obj) (map (\<lambda>(k, v). (k, f v)) m) m' = map (\<lambda>(k, v). (k, f v)) (m @ m')"
  using assms
proof (induction m' arbitrary: m)
  case (Cons x m')
  obtain k v where x: "x = (k, v)" by (cases x)
  have "\<forall>y\<in>set (map (\<lambda>(k, v). (k, f v)) m). fst y < k"
    using om_wf_append [of m k v m'] Cons.prems(1) by (auto simp: x)
  then have "om_put k (f v) (map (\<lambda>(k, v). (k, f v)) m) = map (\<lambda>(k, v). (k, f v)) (m @ [x])"
    by (simp add: om_put_def om_upsert_last x)
  then show ?case using Cons.IH [of "m @ [x]"] Cons.prems by (simp add: x)
qed simp

lemma om_wf_map: "om_wf (map (\<lambda>(k, v). (k, f v)) m) \<longleftrightarrow> om_wf m"
  by (simp add: om_wf_def comp_def case_prod_unfold)

definition counts_ok :: "u64 omap \<Rightarrow> bool" where
  "counts_ok m \<longleftrightarrow> om_wf m \<and> (\<forall>x\<in>set m. unat (snd x) \<le> 2 ^ 53)"

lemma cast_counted: "unat n \<le> 2 ^ 53 \<Longrightarrow> cast_u64 (d_of_u64 n) = Inr n"
proof -
  assume "unat n \<le> 2 ^ 53"
  moreover have "(of_nat (unat n) :: rat) < 2 ^ 64"
    using unat_u64_less [of n] by (metis of_nat_less_iff of_nat_numeral of_nat_power)
  moreover have "(of_nat (unat n) :: u64) = n"
    by (rule u64_eqI) (simp add: unsigned_of_nat take_bit_nat_eq_self [OF unat_u64_less])
  ultimately show ?thesis by (simp add: d_of_u64_exact)
qed

lemma MergeCounts_restored:
  assumes "list_all2 (\<lambda>a b. fst a = fst b \<and> looks_same J (snd a) (snd b)) (map (\<lambda>(k, n). (k, js_unsigned J n)) m') kvs"
    and "json_laws J" "om_wf (m @ m')" "\<forall>x\<in>set m'. unat (snd x) \<le> 2 ^ 53"
  shows "MergeCounts J m kvs = Inr (m @ m')"
  using assms
proof (induction m' arbitrary: m kvs)
  case (Cons x m')
  obtain k n where x: "x = (k, n)" by (cases x)
  from Cons.prems(1) obtain v kvs' where kvs: "kvs = (k, v) # kvs'" "looks_same J (js_unsigned J n) v"
    "list_all2 (\<lambda>a b. fst a = fst b \<and> looks_same J (snd a) (snd b)) (map (\<lambda>(k, n). (k, js_unsigned J n)) m') kvs'"
    by (auto simp: x list_all2_Cons1)
  have "\<forall>y\<in>set m. fst y < k" using om_wf_append [of m k n m'] Cons.prems(3) by (simp add: x)
  then have "om_count k n m = m @ [x]" by (simp add: om_count_def om_upsert_last x)
  moreover have "js_is_number J v" "cast_u64 (js_get_double J v) = Inr n"
    using restored_unsigned [OF Cons.prems(2) kvs(2)] cast_counted Cons.prems(4) by (simp_all add: x)
  ultimately show ?case using Cons.IH [OF kvs(3) Cons.prems(2), of "m @ [x]"] Cons.prems(3,4) by (simp add: kvs(1))
qed simp

lemma merge_field_restored:
  assumes "restored J kvs w" "map_of kvs k = Some (counts_json J m)" "counts_ok m"
  shows "merge_field J w k om_empty = Inr m"
proof -
  obtain v where v: "js_field J w k = Some v" "looks_same J (counts_json J m) v" using restored_Some [OF assms(1,2)] by blast
  have J: "json_laws J" by (rule restored_laws [OF assms(1)])
  have "om_wf (map (\<lambda>(k, n). (k, js_unsigned J n)) m)" using assms(3) by (simp add: om_wf_map counts_ok_def)
  from restored_items [OF J v(2) [unfolded counts_json_def] this] J assms(3) show ?thesis
    using MergeCounts_restored [of J m "js_items J v" "[]"]
    by (simp add: merge_field_def v(1) MergeCountMap_def om_empty_def counts_ok_def)
qed

section \<open>Buckets\<close>

text \<open>The fields of a bucket's entry, for servers and sites alike.\<close>

definition bucket_fields :: "'j json_api \<Rightarrow> AttributionBucket \<Rightarrow> (string \<times> 'j) list" where
  "bucket_fields J b =
     [(''bytes_read'', js_unsigned J (ab_bytes_read b)),
      (''sessions_ok'', js_unsigned J (ab_sessions_ok b)),
      (''sessions_fail'', js_unsigned J (ab_sessions_fail b)),
      (''errors'', counts_json J (ab_errors b))]
     @ (if ab_cms_site b \<noteq> [] then [(''cms_site'', js_string J (ab_cms_site b))] else [])"

definition server_bucket :: "EndpointStats \<Rightarrow> AttributionBucket" where
  "server_bucket ep = \<lparr> ab_bytes_read = ep_bytes_read ep, ab_sessions_ok = ep_sessions_ok ep,
     ab_sessions_fail = ep_sessions_fail ep, ab_errors = ep_errors_by_class ep, ab_cms_site = ep_cms_site ep \<rparr>"

definition site_bucket :: "SiteStats \<Rightarrow> AttributionBucket" where
  "site_bucket site = \<lparr> ab_bytes_read = st_bytes_read site, ab_sessions_ok = st_sessions_ok site,
     ab_sessions_fail = st_sessions_fail site, ab_errors = st_errors_by_class site, ab_cms_site = [] \<rparr>"

lemma bucket_json: "endpoint_json J ep = js_object J (bucket_fields J (server_bucket ep))"
  "site_json J site = js_object J (bucket_fields J (site_bucket site))"
  by (simp_all add: endpoint_json_def site_json_def bucket_fields_def server_bucket_def site_bucket_def)

lemma MergeBucket_restored:
  assumes "json_laws J" "looks_same J (js_object J (bucket_fields J b)) w" "counts_ok (ab_errors b)"
  shows "MergeBucket J w new_AttributionBucket = Inr b"
proof -
  have r: "restored J (bucket_fields J b) w" using assms(1,2) by (simp add: restored_def bucket_fields_def)
  have u: "JsonU64 J w ''bytes_read'' = Inr (ab_bytes_read b)" "JsonU64 J w ''sessions_ok'' = Inr (ab_sessions_ok b)"
    "JsonU64 J w ''sessions_fail'' = Inr (ab_sessions_fail b)"
    by (rule JsonU64_restored [OF r], simp add: bucket_fields_def)+
  have e: "merge_field J w ''errors'' om_empty = Inr (ab_errors b)"
    by (rule merge_field_restored [OF r _ assms(3)]) (simp add: bucket_fields_def)
  have "JsonString J w ''cms_site'' = ab_cms_site b"
  proof (cases "ab_cms_site b = []")
    case True
    then show ?thesis using JsonString_None [OF r] by (simp add: bucket_fields_def)
  next
    case False
    then show ?thesis by (intro JsonString_restored [OF r]) (simp add: bucket_fields_def)
  qed
  then show ?thesis by (simp add: MergeBucket_def u e new_AttributionBucket_def)
qed

lemma MergeBuckets_restored:
  assumes "list_all2 (\<lambda>a b. fst a = fst b \<and> looks_same J (snd a) (snd b)) (map (\<lambda>(k, b). (k, js_object J (bucket_fields J b))) m') kvs"
    and "json_laws J" "om_wf (m @ m')" "\<forall>x\<in>set m'. counts_ok (ab_errors (snd x))"
  shows "MergeBuckets J m kvs = Inr (m @ m')"
  using assms
proof (induction m' arbitrary: m kvs)
  case (Cons x m')
  obtain k b where x: "x = (k, b)" by (cases x)
  from Cons.prems(1) obtain v kvs' where kvs: "kvs = (k, v) # kvs'" "looks_same J (js_object J (bucket_fields J b)) v"
    "list_all2 (\<lambda>a b. fst a = fst b \<and> looks_same J (snd a) (snd b)) (map (\<lambda>(k, b). (k, js_object J (bucket_fields J b))) m') kvs'"
    by (auto simp: x list_all2_Cons1)
  have l: "\<forall>y\<in>set m. fst y < k" using om_wf_append [of m k b m'] Cons.prems(3) by (simp add: x)
  then have "om_put k b m = m @ [x]" by (simp add: om_put_def om_upsert_last x)
  moreover have "MergeBucket J v new_AttributionBucket = Inr b"
    using MergeBucket_restored [OF Cons.prems(2) kvs(2)] Cons.prems(4) by (simp add: x)
  ultimately show ?case
    using Cons.IH [OF kvs(3) Cons.prems(2), of "m @ [x]"] Cons.prems(3,4) om_get_fresh [OF l] by (simp add: kvs(1))
qed simp

definition buckets_ok :: "AttributionBucket omap \<Rightarrow> bool" where
  "buckets_ok m \<longleftrightarrow> om_wf m \<and> (\<forall>x\<in>set m. counts_ok (ab_errors (snd x)))"

lemma merge_table_restored:
  assumes "restored J kvs w" "buckets_ok m"
    and "map_of kvs k = (if m = [] then None else Some (js_object J (map (\<lambda>(k, b). (k, js_object J (bucket_fields J b))) m)))"
  shows "merge_table J w k om_empty = Inr m"
proof (cases "m = []")
  case True
  then show ?thesis using restored_None [OF assms(1), of k] assms(3) by (simp add: merge_table_def om_empty_def)
next
  case False
  let ?o = "map (\<lambda>(k, b). (k, js_object J (bucket_fields J b))) m"
  obtain v where v: "js_field J w k = Some v" "looks_same J (js_object J ?o) v"
    using restored_Some [OF assms(1), of k] assms(3) False by auto
  have J: "json_laws J" by (rule restored_laws [OF assms(1)])
  have "om_wf ?o" using assms(2) by (simp add: om_wf_map buckets_ok_def)
  from restored_items [OF J v(2) this] J assms(2) show ?thesis
    using MergeBuckets_restored [of J m "js_items J v" "[]"]
    by (simp add: merge_table_def v(1) om_empty_def buckets_ok_def)
qed

section \<open>The whole document\<close>

definition result_fields :: "'j json_api \<Rightarrow> RunInfoMeta \<Rightarrow> MetricsSnapshot \<Rightarrow> double \<Rightarrow> (string \<times> 'j) list" where
  "result_fields J meta s cpu =
     [(''run_id'', js_string J (ms_run_id s)), (''job_id'', js_string J (ms_job_id s)),
      (''target'', js_string J (ms_target s)), (''endpoint'', js_string J (ms_endpoint s)),
      (''elapsed_s'', js_float J (ms_wall_s s)),
      (''target_rate_bytes_per_s'', js_float J (ms_target_rate_bytes s)),
      (''achieved_bytes_per_s'', js_float J (per (ms_bytes_read_total s) (ms_wall_s s))),
      (''target_rate_bits_per_s'', js_float J (dmul (ms_target_rate_bytes s) (Fin 8))),
      (''achieved_bits_per_s'', js_float J (dmul (per (ms_bytes_read_total s) (ms_wall_s s)) (Fin 8))),
      (''bytes_read'', js_unsigned J (ms_bytes_read_total s)),
      (''sessions_ok'', js_unsigned J (ms_sessions_ok s)), (''sessions_fail'', js_unsigned J (ms_sessions_fail s)),
      (''ops'', js_unsigned J (ms_read_ops_total s)), (''max_inflight'', js_unsigned J (ucast (ms_max_inflight s))),
      (''errors'', counts_json J (ms_errors_by_class s)), (''soft_faults'', counts_json J (ms_soft_faults_by_kind s)),
      (''latency'', latency_json J s), (''xrdhover_cpu_seconds_total'', js_float J (ms_cpu_seconds_total s)),
      (''xrdhover_process_resident_memory_bytes'', js_unsigned J (ms_process_resident_memory_bytes s)),
      (''xrdhover_bytes_per_cpu_second'',
        js_float J (per (ms_bytes_read_total s) (dsub (ms_cpu_seconds_total s) cpu))),
      (''run_info'', run_info_json J meta)]
     @ (if rm_workload_hash meta \<noteq> [] then [(''workload_hash'', js_string J (rm_workload_hash meta))] else [])
     @ attribution_fields J s"

lemma ResultToJson_fields: "ResultToJson J meta s cpu = js_object J (result_fields J meta s cpu)"
  by (simp add: ResultToJson_def result_fields_def Let_def)

lemma result_keys: "distinct (map fst (result_fields J meta s cpu))"
  by (simp add: result_fields_def attribution_fields_def)

definition server_buckets :: "MetricsSnapshot \<Rightarrow> AttributionBucket omap" where
  "server_buckets s = map (\<lambda>(k, ep). (k, server_bucket ep)) (ms_by_data_server s)"

definition site_buckets :: "MetricsSnapshot \<Rightarrow> AttributionBucket omap" where
  "site_buckets s = map (\<lambda>(k, site). (k, site_bucket site)) (ms_by_cms_site s)"

text \<open>What the snapshots of a registry satisfy, and no error count above \<open>2 ^ 53\<close>.\<close>

definition snapshot_ok :: "MetricsSnapshot \<Rightarrow> bool" where
  "snapshot_ok s \<longleftrightarrow> is_finite (ms_wall_s s) \<and> dle (Fin 0) (ms_wall_s s)
     \<and> counts_ok (ms_errors_by_class s) \<and> counts_ok (ms_soft_faults_by_kind s)
     \<and> buckets_ok (server_buckets s) \<and> (\<forall>x\<in>set (ms_by_data_server s). ep_data_server (snd x) = fst x)
     \<and> buckets_ok (site_buckets s) \<and> (\<forall>x\<in>set (ms_by_cms_site s). st_cms_site (snd x) = fst x)"

lemma server_table:
  assumes "snapshot_ok s"
  shows "by_data_server_json J (ms_by_data_server s)
    = js_object J (map (\<lambda>(k, b). (k, js_object J (bucket_fields J b))) (server_buckets s))"
proof -
  have "om_wf ([] @ ms_by_data_server s)" using assms by (simp add: snapshot_ok_def buckets_ok_def server_buckets_def om_wf_map)
  from om_put_fold [OF this, of ep_data_server "endpoint_json J"] assms show ?thesis
    by (simp add: snapshot_ok_def by_data_server_json_def om_empty_def server_buckets_def bucket_json case_prod_unfold comp_def)
qed

lemma site_table:
  assumes "snapshot_ok s"
  shows "by_cms_site_json J (ms_by_cms_site s)
    = js_object J (map (\<lambda>(k, b). (k, js_object J (bucket_fields J b))) (site_buckets s))"
proof -
  have "om_wf ([] @ ms_by_cms_site s)" using assms by (simp add: snapshot_ok_def buckets_ok_def site_buckets_def om_wf_map)
  from om_put_fold [OF this, of st_cms_site "site_json J"] assms show ?thesis
    by (simp add: snapshot_ok_def by_cms_site_json_def om_empty_def site_buckets_def bucket_json case_prod_unfold comp_def)
qed

text \<open>The summary of a snapshot.\<close>

definition summary_of :: "string \<Rightarrow> MetricsSnapshot \<Rightarrow> ReportSummary" where
  "summary_of path s = \<lparr> rp_run_id = ms_run_id s, rp_job_ids = (if ms_job_id s = [] then [] else [ms_job_id s]),
     rp_sources = [path], rp_endpoint = ms_endpoint s, rp_target = ms_target s, rp_elapsed_s = ms_wall_s s,
     rp_bytes_read = ms_bytes_read_total s, rp_sessions_ok = ms_sessions_ok s, rp_sessions_fail = ms_sessions_fail s,
     rp_ops = ms_read_ops_total s, rp_errors = ms_errors_by_class s, rp_soft_faults = ms_soft_faults_by_kind s,
     rp_by_data_server = server_buckets s, rp_by_cms_site = site_buckets s \<rparr>"

lemma noted: "sole (note_name x om_empty) = x" "map fst (note_name x om_empty) = (if x = [] then [] else [x])"
  "length (note_name x om_empty) \<le> 1"
  by (simp_all add: note_name_def sole_def om_put_def om_empty_def)

lemma AddResult_restored:
  assumes "restored J (result_fields J meta s cpu) w" "snapshot_ok s"
  shows "AddResult J w (new_ReportSummary \<lparr> rp_sources := [path] \<rparr>,
      \<lparr> sn_run_ids = om_empty, sn_job_ids = om_empty, sn_endpoints = om_empty, sn_targets = om_empty \<rparr>)
    = Inr (summary_of path s \<lparr> rp_run_id := [], rp_job_ids := [], rp_endpoint := [], rp_target := [] \<rparr>,
        \<lparr> sn_run_ids = note_name (ms_run_id s) om_empty, sn_job_ids = note_name (ms_job_id s) om_empty,
           sn_endpoints = note_name (ms_endpoint s) om_empty, sn_targets = note_name (ms_target s) om_empty \<rparr>)"
proof -
  note r = assms(1)
  have ok: "counts_ok (ms_errors_by_class s)" "counts_ok (ms_soft_faults_by_kind s)"
    "buckets_ok (server_buckets s)" "buckets_ok (site_buckets s)" "is_finite (ms_wall_s s)" "dle (Fin 0) (ms_wall_s s)"
    using assms(2) by (simp_all add: snapshot_ok_def)
  have n: "JsonString J w ''run_id'' = ms_run_id s" "JsonString J w ''job_id'' = ms_job_id s"
    "JsonString J w ''endpoint'' = ms_endpoint s" "JsonString J w ''target'' = ms_target s"
    by (rule JsonString_restored [OF r], simp add: result_fields_def)+
  have u: "JsonU64 J w ''bytes_read'' = Inr (ms_bytes_read_total s)" "JsonU64 J w ''sessions_ok'' = Inr (ms_sessions_ok s)"
    "JsonU64 J w ''sessions_fail'' = Inr (ms_sessions_fail s)" "JsonU64 J w ''ops'' = Inr (ms_read_ops_total s)"
    by (rule JsonU64_restored [OF r], simp add: result_fields_def)+
  have e: "merge_field J w ''errors'' om_empty = Inr (ms_errors_by_class s)"
    "merge_field J w ''soft_faults'' om_empty = Inr (ms_soft_faults_by_kind s)"
    by (rule merge_field_restored [OF r _ ok(1)], simp add: result_fields_def,
        rule merge_field_restored [OF r _ ok(2)], simp add: result_fields_def)
  have "server_buckets s = [] \<longleftrightarrow> ms_by_data_server s = []" "site_buckets s = [] \<longleftrightarrow> ms_by_cms_site s = []"
    by (simp_all add: server_buckets_def site_buckets_def)
  then have t: "merge_table J w ''by_data_server'' om_empty = Inr (server_buckets s)"
    "merge_table J w ''by_cms_site'' om_empty = Inr (site_buckets s)"
    by (intro merge_table_restored [OF r ok(3)] merge_table_restored [OF r ok(4)];
        simp add: result_fields_def attribution_fields_def server_table [OF assms(2)] site_table [OF assms(2)])+
  have d: "JsonDouble J w ''elapsed_s'' = ms_wall_s s"
    by (rule JsonDouble_restored [OF r _ ok(5)]) (simp add: result_fields_def)
  have "dmax (Fin 0) (ms_wall_s s) = ms_wall_s s"
    using ok(5,6) by (cases "ms_wall_s s") (auto simp: dbl_ops is_finite_def)
  then show ?thesis by (simp add: AddResult_def n u e t d new_ReportSummary_def summary_of_def)
qed

lemma result_read_back:
  assumes "json_laws J" "json_text J" "snapshot_ok s"
    and "WriteResult J F s cpu k d = (Inr (), d')"
    and "rf_read R = d'" "rf_regular R (path_append (fk_run_dir k) ''result.json'')"
    and "rf_directory R (fk_run_dir k)" "\<not> rf_regular R (fk_run_dir k)" "fk_run_dir k \<noteq> []"
    and "ro_path opts = fk_run_dir k" "ro_results_dir opts = []"
  shows "res_bind (DiscoverResultFiles R opts) (AggregateResultFiles J R)
    = Inr (summary_of (path_append (fk_run_dir k) ''result.json'') s)"
proof -
  let ?p = "path_append (fk_run_dir k) ''result.json''"
  obtain t where t: "js_dump2 J (ResultToJson J (fk_meta k) s cpu) = Inr t" "d' ?p = Some (t @ newline)"
    using WriteResult_file [OF assms(4)] by blast
  obtain w where w: "js_parse J (t @ newline) = Inr w" "looks_same J (ResultToJson J (fk_meta k) s cpu) w"
    using assms(2) t(1) unfolding json_text_def by blast
  have r: "restored J (result_fields J (fk_meta k) s cpu) w"
    using w(2) assms(1) by (simp add: restored_def result_keys ResultToJson_fields)
  have "LoadResult J R ?p = Inr w" by (simp add: LoadResult_def assms(5) t(2) w(1) restored_object [OF r])
  then have "AggregateResultFiles J R [?p] = Inr (summary_of ?p s)"
    by (simp add: AggregateResultFiles_def AddResult_restored [OF r assms(3)] noted summary_of_def)
       (simp add: note_name_def om_put_def om_empty_def)
  moreover have "DiscoverResultFiles R opts = Inr [?p]"
    using assms(6-11) by (simp add: DiscoverResultFiles_def discover_path_def)
  ultimately show ?thesis by simp
qed

text \<open>C18. A report says what the run wrote: when \<open>WriteResult\<close> has written the final snapshot, the report command
  given the run's directory finds that file and reads from it the snapshot's totals, its errors and soft
  faults, and its tables by server and by site, as long as no error count exceeds \<open>2 ^ 53\<close> (counts
  pass through a \<^verbatim>\<open>double\<close>).\<close>

theorem report_of_result:
  assumes "json_laws J" "json_text J" "snapshot_ok s"
    and "WriteResult J F s cpu k d = (Inr (), d')"
    and "rf_read R = d'" "rf_regular R (path_append (fk_run_dir k) ''result.json'')"
    and "rf_directory R (fk_run_dir k)" "\<not> rf_regular R (fk_run_dir k)" "fk_run_dir k \<noteq> []"
    and "ro_path opts = fk_run_dir k" "ro_results_dir opts = []"
  shows "res_bind (DiscoverResultFiles R opts) (AggregateResultFiles J R)
    = Inr (summary_of (path_append (fk_run_dir k) ''result.json'') s)"
  by (rule result_read_back [OF assms])

definition demo_servers :: "EndpointStats omap" where
  "demo_servers =
     [(''se1.example'', \<lparr> ep_data_server = ''se1.example'', ep_cms_site = ''T2_A'', ep_bytes_read = 4096, ep_sessions_ok = 1,
         ep_sessions_fail = 0, ep_errors_by_class = [] \<rparr>),
      (''se2.example'', \<lparr> ep_data_server = ''se2.example'', ep_cms_site = [], ep_bytes_read = 0, ep_sessions_ok = 0,
         ep_sessions_fail = 1, ep_errors_by_class = [(''timeout'', 1)] \<rparr>)]"

definition demo_snapshot :: MetricsSnapshot where
  "demo_snapshot = mr_Snapshot None (Fin 10) (new_MetricsRegistry \<lparr> mr_run_id := ''a__b'', mr_job_id := ''j'',
     mr_bytes_read_total := 4096, mr_sessions_ok := 1, mr_sessions_fail := 1, mr_read_ops_total := 2,
     mr_errors_by_class := [0, 0, 1, 0, 0, 0, 0, 0, 0, 0, 0, 0], mr_by_data_server := demo_servers \<rparr>)"

definition demo_sink :: FileSink where
  "demo_sink = new_FileSink ''results'' ''a__b'' \<lparr> rm_version = ''1'', rm_arch = ''x86_64'', rm_xrdcl_version = ''5'',
     rm_seed = 1, rm_pattern = ''sequential'', rm_schema_version = 1, rm_auth_mode = ''x509'',
     rm_workload_hash = ''00'', rm_workload_resolved_json = '' '' \<rparr>"

definition demo_files :: file_env where
  "demo_files = \<lparr> fe_mkdir_error = (\<lambda>_. None), fe_writable = (\<lambda>_. True) \<rparr>"

text \<open>A JSON library that prints and parses one document.\<close>

definition one_doc_api :: "jval \<Rightarrow> jval json_api" where
  "one_doc_api doc = jval_api \<lparr>
     js_dump2 := (\<lambda>j. if j = doc then Inr ''doc'' else Inl (Json_error ''another'')),
     js_parse := (\<lambda>t. if t = ''doc'' @ newline then Inr doc else Inl (Json_error ''another'')) \<rparr>"

lemma jval_laws: "json_laws (one_doc_api doc)"
  by (simp add: json_laws_def one_doc_api_def jval_api_def split: jval.splits)

lemma one_doc_text: "json_text (one_doc_api doc)"
  by (simp add: json_text_def one_doc_api_def looks_same_def looks_refl)

lemma one_doc_values: "js_object (one_doc_api doc) = js_object jval_api" "js_array (one_doc_api doc) = js_array jval_api"
  "js_string (one_doc_api doc) = js_string jval_api" "js_unsigned (one_doc_api doc) = js_unsigned jval_api"
  "js_integer (one_doc_api doc) = js_integer jval_api" "js_float (one_doc_api doc) = js_float jval_api"
  by (simp_all add: one_doc_api_def)

lemma one_doc_same: "ResultToJson (one_doc_api doc) meta s cpu = ResultToJson jval_api meta s cpu"
  unfolding ResultToJson_fields result_fields_def counts_json_def latency_json_def LatencyPercentiles_def
    run_info_json_def attribution_fields_def by_data_server_json_def endpoint_json_def by_cms_site_json_def
    site_json_def one_doc_values by (rule refl)

lemma demo_roll_up: "map fst (roll_up demo_servers) = [''T2_A'', ''unmapped'']"
  "map (st_cms_site \<circ> snd) (roll_up demo_servers) = [''T2_A'', ''unmapped'']"
  "map (st_errors_by_class \<circ> snd) (roll_up demo_servers) = [[], [(''timeout'', 1)]]"
  by code_simp+

lemma demo_counts:
  "named_counts (map ErrorClassName kErrorClasses) [0, 0, 1, 0, 0, 0, 0, 0, 0, 0, 0, 0] = [(''timeout'', 1)]"
  "named_counts kSoftFaultKinds (replicate 6 0) = []"
  by code_simp+

lemma demo_snapshot_ok: "snapshot_ok demo_snapshot"
proof -
  have c: "counts_ok []" "counts_ok [(''timeout'', 1)]" by (simp_all add: counts_ok_def om_wf_def)
  have f: "ms_wall_s demo_snapshot = Fin 10" "ms_by_data_server demo_snapshot = demo_servers"
    "ms_by_cms_site demo_snapshot = roll_up demo_servers"
    by (simp_all add: demo_snapshot_def mr_Snapshot_def)
  have n: "ms_errors_by_class demo_snapshot = [(''timeout'', 1)]" "ms_soft_faults_by_kind demo_snapshot = []"
    by (simp_all add: demo_snapshot_def mr_Snapshot_def demo_counts new_MetricsRegistry_def)
  have b: "buckets_ok (server_buckets demo_snapshot)" using c
    by (simp add: buckets_ok_def server_buckets_def f demo_servers_def om_wf_def server_bucket_def)
  have "map (ab_errors \<circ> snd) (site_buckets demo_snapshot) = [[], [(''timeout'', 1)]]"
    by (simp add: site_buckets_def f site_bucket_def comp_def case_prod_unfold demo_roll_up(3) [unfolded comp_def])
  moreover have "om_wf (site_buckets demo_snapshot)" using roll_up_wf by (simp add: site_buckets_def f om_wf_map)
  ultimately have s: "buckets_ok (site_buckets demo_snapshot)" using c by (auto simp: buckets_ok_def)
  have "\<forall>x\<in>set (roll_up demo_servers). st_cms_site (snd x) = fst x"
    using demo_roll_up(1) demo_roll_up(2) by (simp add: map_eq_conv [symmetric] comp_def)
  moreover have "\<forall>x\<in>set demo_servers. ep_data_server (snd x) = fst x" by (simp add: demo_servers_def)
  ultimately show ?thesis using c b s by (simp add: snapshot_ok_def f n is_finite_def dbl_ops)
qed

lemma report_of_result_witness:
  "\<exists>(J :: jval json_api) R. res_bind (DiscoverResultFiles R \<lparr> ro_path = ''results/a__b'', ro_results_dir = [], ro_run_id = [], ro_json = False \<rparr>)
      (AggregateResultFiles J R) = Inr (summary_of ''results/a__b/result.json'' demo_snapshot)"
proof -
  let ?doc = "ResultToJson jval_api (fk_meta demo_sink) demo_snapshot (Fin 0)"
  let ?J = "one_doc_api ?doc" and ?p = "''results/a__b/result.json''"
  let ?R = "\<lparr> rf_read = [?p \<mapsto> ''doc'' @ newline], rf_regular = (\<lambda>p. p = ?p), rf_directory = (\<lambda>p. p = ''results/a__b'') \<rparr>"
  have d: "fk_run_dir demo_sink = ''results/a__b''" "path_append ''results/a__b'' ''result.json'' = ?p"
    by (simp_all add: demo_sink_def new_FileSink_def path_append_def path_is_absolute_def)
  have "WriteResult ?J demo_files demo_snapshot (Fin 0) demo_sink Map.empty = (Inr (), [?p \<mapsto> ''doc'' @ newline])"
    by (simp add: WriteResult_def d demo_files_def open_out_def append_to_def one_doc_same Let_def)
       (simp add: one_doc_api_def append_to_def)
  from report_of_result [OF jval_laws one_doc_text demo_snapshot_ok this, of ?R
      "\<lparr> ro_path = ''results/a__b'', ro_results_dir = [], ro_run_id = [], ro_json = False \<rparr>"] d
  have "res_bind (DiscoverResultFiles ?R \<lparr> ro_path = ''results/a__b'', ro_results_dir = [], ro_run_id = [], ro_json = False \<rparr>)
      (AggregateResultFiles ?J ?R) = Inr (summary_of ?p demo_snapshot)" by simp
  then show ?thesis by blast
qed

end
