(* ===== verification/PromEncode.thy ===== *)
theory PromEncode
  imports Registry Printf
begin

text \<open>
  \<^verbatim>\<open>src/prom_encode.cc\<close>: a snapshot as Prometheus text. Labels are escaped; histograms are written as cumulated buckets.
  The clock is an argument.
\<close>

section \<open>Labels\<close>

definition dquote :: char where
  "dquote = CHR 0x22"

definition backslash :: char where
  "backslash = CHR 0x5C"

definition esc_char :: "char \<Rightarrow> string" where
  "esc_char c = (if c = backslash \<or> c = dquote then [backslash, c] else if c = CHR 10 then [backslash, CHR ''n''] else [c])"

definition EscapeLabel :: "string \<Rightarrow> string" where
  "EscapeLabel s = concat (map esc_char s)"

text \<open>A label with its value between quotes.\<close>

definition prom_label :: "string \<Rightarrow> string \<Rightarrow> string" where
  "prom_label name v = name @ ''='' @ [dquote] @ EscapeLabel v @ [dquote]"

definition source_dest :: "string \<Rightarrow> string \<times> string" where
  "source_dest run_id =
     (case str_find run_id ''__'' of None \<Rightarrow> ([], []) | Some pos \<Rightarrow> (take pos run_id, drop (pos + 2) run_id))"

definition AppendSourceDest :: "string \<Rightarrow> string" where
  "AppendSourceDest run_id =
     (let (source, dest) = source_dest run_id in '','' @ prom_label ''source'' source @ '','' @ prom_label ''dest'' dest)"

definition CommonLabels :: "MetricsSnapshot \<Rightarrow> string" where
  "CommonLabels s =
     prom_label ''src_dst'' (ms_run_id s) @ '','' @ prom_label ''job_id'' (ms_job_id s) @ '',''
     @ prom_label ''host'' (if ms_host s = [] then ''unknown'' else ms_host s) @ '',''
     @ prom_label ''target'' (ms_target s) @ '','' @ prom_label ''endpoint'' (ms_endpoint s)
     @ AppendSourceDest (ms_run_id s)"

section \<open>Families\<close>

definition kMetricPrefix :: string where
  "kMetricPrefix = ''xrdhover_''"

definition RequireMetricPrefix :: "string \<Rightarrow> unit res" where
  "RequireMetricPrefix name =
     (if take (length kMetricPrefix) name \<noteq> kMetricPrefix
      then Inl (Logic_error (''Prometheus metric name must start with xrdhover_: '' @ name)) else Inr ())"

definition AppendHelpType :: "string \<Rightarrow> string \<Rightarrow> string \<Rightarrow> string res" where
  "AppendHelpType name help type =
     res_bind (RequireMetricPrefix name) (\<lambda>_. Inr
       (''# HELP '' @ name @ '' '' @ help @ newline @ ''# TYPE '' @ name @ '' '' @ type @ newline))"

text \<open>One sample line.\<close>

definition prom_sample :: "string \<Rightarrow> string \<Rightarrow> string \<Rightarrow> string" where
  "prom_sample name labels v = name @ ''{'' @ labels @ ''} '' @ v @ newline"

definition AppendCounter :: "string \<Rightarrow> string \<Rightarrow> string \<Rightarrow> u64 \<Rightarrow> string res" where
  "AppendCounter name help labels v =
     res_bind (AppendHelpType name help ''counter'') (\<lambda>h. Inr (h @ prom_sample name labels (u64_dec v)))"

definition AppendGauge :: "string \<Rightarrow> string \<Rightarrow> string \<Rightarrow> double \<Rightarrow> string res" where
  "AppendGauge name help labels v =
     res_bind (AppendHelpType name help ''gauge'') (\<lambda>h. Inr (h @ prom_sample name labels (fmt_g 9 v)))"

definition AppendGaugeU64 :: "string \<Rightarrow> string \<Rightarrow> string \<Rightarrow> u64 \<Rightarrow> string res" where
  "AppendGaugeU64 name help labels v =
     res_bind (AppendHelpType name help ''gauge'') (\<lambda>h. Inr (h @ prom_sample name labels (u64_dec v)))"

text \<open>The buckets of a histogram: the upper bound as a label and the cumulated count.\<close>

fun bucket_counts :: "double list \<Rightarrow> u64 list \<Rightarrow> u64 \<Rightarrow> (string \<times> u64) list" where
  "bucket_counts bounds [] cum = []"
| "bucket_counts [] (c # cs) cum = (''+Inf'', cum + c) # bucket_counts [] cs (cum + c)"
| "bucket_counts (b # bs) (c # cs) cum = (fmt_g 9 b, cum + c) # bucket_counts bs cs (cum + c)"

definition histogram_buckets :: "HistogramSnapshot \<Rightarrow> (string \<times> u64) list" where
  "histogram_buckets h = (if hs_counts h = [] then [(''+Inf'', 0)] else bucket_counts (hs_bounds h) (hs_counts h) 0)"

definition bucket_sample :: "string \<Rightarrow> string \<Rightarrow> string \<times> u64 \<Rightarrow> string" where
  "bucket_sample name labels = (\<lambda>(le, cum).
     prom_sample (name @ ''_bucket'') (labels @ '',le='' @ [dquote] @ le @ [dquote]) (u64_dec cum))"

definition AppendHistogram :: "string \<Rightarrow> string \<Rightarrow> string \<Rightarrow> HistogramSnapshot \<Rightarrow> string res" where
  "AppendHistogram name help labels h =
     res_bind (AppendHelpType name help ''histogram'') (\<lambda>head. Inr
       (head @ concat (map (bucket_sample name labels) (histogram_buckets h))
        @ prom_sample (name @ ''_sum'') labels (fmt_g 9 (hs_sum h))
        @ prom_sample (name @ ''_count'') labels (u64_dec (hs_count h))))"

section \<open>The whole text\<close>

text \<open>Pieces written one after the other; one that throws ends it.\<close>

fun res_concat :: "string res list \<Rightarrow> string res" where
  "res_concat [] = Inr []"
| "res_concat (p # ps) = res_bind p (\<lambda>s. res_bind (res_concat ps) (\<lambda>t. Inr (s @ t)))"

definition session_lines :: "string \<Rightarrow> MetricsSnapshot \<Rightarrow> string res" where
  "session_lines L s =
     res_bind (AppendHelpType ''xrdhover_sessions_total'' ''Completed file sessions'' ''counter'') (\<lambda>h. Inr
       (h @ prom_sample ''xrdhover_sessions_total'' (L @ '','' @ prom_label ''result'' ''ok'') (u64_dec (ms_sessions_ok s))
          @ prom_sample ''xrdhover_sessions_total'' (L @ '','' @ prom_label ''result'' ''fail'') (u64_dec (ms_sessions_fail s))))"

definition counts_family :: "string \<Rightarrow> string \<Rightarrow> string \<Rightarrow> string \<Rightarrow> u64 omap \<Rightarrow> string res" where
  "counts_family name help key L m =
     (if m = [] then Inr []
      else res_bind (AppendHelpType name help ''counter'') (\<lambda>h. Inr
        (h @ concat (map (\<lambda>(k, n). prom_sample name (L @ '','' @ prom_label key k) (u64_dec n)) m))))"

definition site_lines :: "string \<Rightarrow> double \<Rightarrow> SiteStats \<Rightarrow> string" where
  "site_lines L wall_s site =
     (let SL = L @ '','' @ prom_label ''cms_site'' (st_cms_site site);
          site_rate = (if dlt (Fin 0) wall_s then ddiv (d_of_u64 (st_bytes_read site)) wall_s else Fin 0)
      in prom_sample ''xrdhover_site_bytes_total'' SL (u64_dec (st_bytes_read site))
         @ prom_sample ''xrdhover_site_achieved_rate_bytes'' SL (fmt_g 9 site_rate)
         @ prom_sample ''xrdhover_site_sessions_total'' (SL @ '','' @ prom_label ''result'' ''ok'') (u64_dec (st_sessions_ok site))
         @ prom_sample ''xrdhover_site_sessions_total'' (SL @ '','' @ prom_label ''result'' ''fail'') (u64_dec (st_sessions_fail site)))"

definition site_family :: "string \<Rightarrow> MetricsSnapshot \<Rightarrow> string res" where
  "site_family L s =
     (if ms_by_cms_site s = [] then Inr []
      else res_concat
       [AppendHelpType ''xrdhover_site_bytes_total''
          (''Bytes read attributed to CMS site (unmapped uses cms_site='' @ [dquote] @ ''unmapped'' @ [dquote] @ '')'') ''counter'',
        AppendHelpType ''xrdhover_site_achieved_rate_bytes''
          ''Cumulative bytes/wall for this CMS site (same definition as xrdhover_achieved_rate_bytes)'' ''gauge'',
        AppendHelpType ''xrdhover_site_sessions_total''
          ''Completed FileSessions attributed to CMS site (not TCP connections)'' ''counter'',
        Inr (concat (map (\<lambda>(k, site). site_lines L (ms_wall_s s) site) (ms_by_cms_site s)))])"

definition EncodePrometheusText :: "int \<Rightarrow> MetricsSnapshot \<Rightarrow> string res" where
  "EncodePrometheusText unix_time s =
     (let L = CommonLabels s in res_concat
     [AppendCounter ''xrdhover_bytes_read_total'' ''Total bytes read'' L (ms_bytes_read_total s),
      AppendCounter ''xrdhover_read_ops_total'' ''Total read/vector-read operations'' L (ms_read_ops_total s),
      session_lines L s,
      AppendGauge ''xrdhover_target_rate_bytes'' ''Configured target rate in bytes/sec'' L (ms_target_rate_bytes s),
      AppendGauge ''xrdhover_achieved_rate_bytes''
        ''Cumulative achieved read rate (bytes_read / steady_clock wall sec)'' L (ms_achieved_rate_bytes s),
      AppendHistogram ''xrdhover_open_seconds'' ''File open latency including redirects'' L (ms_open_seconds s),
      AppendHistogram ''xrdhover_ttfb_seconds''
        ''Time from first Read submit to first byte (excludes token wait)'' L (ms_ttfb_seconds s),
      AppendHistogram ''xrdhover_read_seconds''
        ''Per-session sum of Read issue-to-complete times (excludes token wait)'' L (ms_read_seconds s),
      AppendHistogram ''xrdhover_read_op_seconds''
        ''Per-Read issue-to-complete latency (application RTT; excludes token wait)'' L (ms_read_op_seconds s),
      AppendHistogram ''xrdhover_redirects_per_open'' ''Redirect hop count per open'' L (ms_redirects_per_open s),
      counts_family ''xrdhover_errors_total'' ''Hard session failures by classifier class'' ''class'' L (ms_errors_by_class s),
      counts_family ''xrdhover_soft_faults_total'' ''XrdCl Error-level log lines (may not fail a session)'' ''kind'' L
        (ms_soft_faults_by_kind s),
      AppendGaugeU64 ''xrdhover_inflight_reads'' ''Currently in-flight file sessions'' L (ms_inflight_reads s),
      AppendGaugeU64 ''xrdhover_max_inflight'' ''Configured max in-flight sessions'' L (ucast (ms_max_inflight s)),
      AppendGauge ''xrdhover_cpu_seconds_total'' ''Process CPU time (utime+stime) in seconds'' L (ms_cpu_seconds_total s),
      AppendGaugeU64 ''xrdhover_process_resident_memory_bytes'' ''Process RSS in bytes'' L (ms_process_resident_memory_bytes s),
      AppendGauge ''xrdhover_wall_seconds'' ''Elapsed wall time of the run so far'' L (ms_wall_s s),
      AppendGauge ''xrdhover_push_time_seconds''
        ''Unix time this snapshot was encoded (drop the group if older than 300s)'' L (d_of_int unix_time),
      site_family L s])"

section \<open>The labels come back\<close>

text \<open>What a reader of the text does with a label value.\<close>

fun unescape :: "string \<Rightarrow> string" where
  "unescape [] = []"
| "unescape [c] = [c]"
| "unescape (c # d # s) =
     (if c = backslash then (if d = CHR ''n'' then CHR 10 else d) # unescape s else c # unescape (d # s))"

lemma esc_char_cases:
  "(c = backslash \<or> c = dquote) \<and> esc_char c = [backslash, c]
    \<or> c = CHR 10 \<and> esc_char c = [backslash, CHR ''n'']
    \<or> c \<noteq> backslash \<and> c \<noteq> dquote \<and> c \<noteq> CHR 10 \<and> esc_char c = [c]"
  by (auto simp: esc_char_def)

lemma unescape_esc: "unescape (esc_char c @ s) = c # unescape s"
  using esc_char_cases [of c] by (cases s) (auto simp: backslash_def dquote_def)

lemma unescape_EscapeLabel: "unescape (EscapeLabel s) = s"
  by (induction s) (simp_all add: EscapeLabel_def unescape_esc)

lemma EscapeLabel_line: "CHR 10 \<notin> set (EscapeLabel s)"
  unfolding EscapeLabel_def by (induction s) (auto simp: esc_char_def backslash_def dquote_def)

text \<open>Where a quoted value ends: at the first quote that no backslash precedes.\<close>

fun scan_value :: "string \<Rightarrow> (string \<times> string) option" where
  "scan_value [] = None"
| "scan_value (c # s) =
     (if c = dquote then Some ([], s)
      else if c = backslash then
        (case s of [] \<Rightarrow> None | d # s' \<Rightarrow> map_option (\<lambda>(v, rest). (c # d # v, rest)) (scan_value s'))
      else map_option (\<lambda>(v, rest). (c # v, rest)) (scan_value s))"

lemma scan_value_esc: "scan_value (esc_char c @ s) = map_option (\<lambda>(v, rest). (esc_char c @ v, rest)) (scan_value s)"
  using esc_char_cases [of c] by (auto simp: backslash_def dquote_def)

lemma scan_value_EscapeLabel: "scan_value (EscapeLabel s @ dquote # rest) = Some (EscapeLabel s, rest)"
  by (induction s) (simp_all add: EscapeLabel_def scan_value_esc)

text \<open>C30. Labels are safe: whatever bytes a run id, a host or an error text has, its label stays on one line, a
  reader finds the end of the value where it was written, and gets the original back.\<close>

theorem label_roundtrip:
  "CHR 10 \<notin> set (EscapeLabel s)
    \<and> map_option (\<lambda>(v, rest). (unescape v, rest)) (scan_value (EscapeLabel s @ [dquote] @ rest)) = Some (s, rest)"
  using scan_value_EscapeLabel [of s rest] by (simp add: EscapeLabel_line unescape_EscapeLabel)

section \<open>Histograms\<close>

lemma bucket_counts_last:
  "cs \<noteq> [] \<Longrightarrow> snd (last (bucket_counts bs cs cum)) = cum + sum_list cs \<and> bucket_counts bs cs cum \<noteq> []"
proof (induction bs cs cum rule: bucket_counts.induct)
  case (2 c cs cum)
  then show ?case by (cases cs) (simp_all add: add.assoc)
next
  case (3 b bs c cs cum)
  then show ?case by (cases cs) (simp_all add: add.assoc)
qed simp

lemma bucket_counts_Inf: "length bs < length cs \<Longrightarrow> fst (last (bucket_counts bs cs cum)) = ''+Inf''"
proof (induction bs cs cum rule: bucket_counts.induct)
  case (2 c cs cum)
  then show ?case by (cases cs) simp_all
next
  case (3 b bs c cs cum)
  then show ?case using bucket_counts_last [of cs bs "cum + c"] by (cases cs) simp_all
qed simp

lemma bucket_counts_sorted:
  "unat cum + sum_list (map unat cs) < 2 ^ 64 \<Longrightarrow>
    sorted (map (\<lambda>x. unat (snd x)) (bucket_counts bs cs cum))
    \<and> (\<forall>x\<in>set (bucket_counts bs cs cum). unat cum \<le> unat (snd x))"
proof (induction bs cs cum rule: bucket_counts.induct)
  case (2 c cs cum)
  have "unat (cum + c) = unat cum + unat c" using 2(2) by (subst unat_add_u64) simp_all
  then show ?case using 2 by auto
next
  case (3 b bs c cs cum)
  have "unat (cum + c) = unat cum + unat c" using 3(2) by (subst unat_add_u64) simp_all
  then show ?case using 3 by auto
qed simp

lemma sum_list_bump_nat:
  "i < length xs \<Longrightarrow> sum_list (map unat xs) < 2 ^ 64 - 1 \<Longrightarrow>
    sum_list (map unat (xs[i := xs ! i + 1])) = sum_list (map unat xs) + (1 :: nat)" for xs :: "u64 list"
proof (induction xs arbitrary: i)
  case (Cons x xs)
  show ?case
  proof (cases i)
    case 0
    then show ?thesis using Cons.prems by (simp add: unat_add_u64)
  next
    case (Suc j)
    then show ?thesis using Cons.IH [of j] Cons.prems by simp
  qed
qed simp

lemma hist_counts_nat:
  assumes "list_all obs_ok vs" "length vs < 2 ^ 64"
  shows "hist_ok (foldl hist_step new_Histogram vs)
    \<and> sum_list (map unat (hi_buckets (foldl hist_step new_Histogram vs))) = length vs"
  using assms
proof (induction vs rule: rev_induct)
  case Nil
  show ?case by (simp add: new_Histogram_def hist_ok_def sum_list_replicate)
next
  case (snoc v vs)
  let ?h = "foldl hist_step new_Histogram vs"
  have v: "obs_ok v" and h: "hist_ok ?h" "sum_list (map unat (hi_buckets ?h)) = length vs"
    using snoc by simp_all
  obtain us i where "i < kHistogramBuckets" "Observe ?h v = Inr (?h \<lparr> hi_sum_us := hi_sum_us ?h + us,
      hi_count := hi_count ?h + 1, hi_buckets := (hi_buckets ?h)[i := hi_buckets ?h ! i + 1] \<rparr>)"
    using Observe_returns [OF v] by blast
  then have "sum_list (map unat (hi_buckets (hist_step ?h v))) = length vs + 1"
    using h snoc.prems(2) sum_list_bump_nat [of i "hi_buckets ?h"] by (simp add: hist_step_def [of ?h v] hist_ok_def)
  then show ?case using hist_step_ok(1) [OF h(1) v] by simp
qed

lemma hist_count: "list_all obs_ok vs \<Longrightarrow> hi_count (foldl hist_step new_Histogram vs) = of_nat (length vs)"
  using hist.bal_run [of new_Histogram vs]
  by (simp add: new_Histogram_def hist_ok_def sum_list_replicate trace_sum_const [of _ 1, simplified])

text \<open>C29. The exported histograms keep Prometheus' contract: after any observations, there is a bucket for each
  of the fifteen bounds and \<^verbatim>\<open>+Inf\<close>, the cumulated counts never fall from one to the next, and the
  last one, labelled \<^verbatim>\<open>+Inf\<close>, is the value of \<^verbatim>\<open>_count\<close>, the number of observations.\<close>

theorem histogram_exposition:
  assumes "list_all obs_ok vs" "length vs < 2 ^ 64"
  defines "h \<equiv> Histogram_Snapshot (foldl hist_step new_Histogram vs)"
  shows "map fst (butlast (histogram_buckets h)) = map (fmt_g 9) kLatencyBucketBounds
    \<and> sorted (map (\<lambda>b. unat (snd b)) (histogram_buckets h))
    \<and> last (histogram_buckets h) = (''+Inf'', hs_count h) \<and> unat (hs_count h) = length vs"
proof -
  let ?h = "foldl hist_step new_Histogram vs"
  have n: "hist_ok ?h" "sum_list (map unat (hi_buckets ?h)) = length vs" using hist_counts_nat [OF assms(1,2)] by simp_all
  have l: "length (hi_buckets ?h) = 16" using n(1) by (simp add: hist_ok_def kHistogramBuckets_def)
  then have ne: "hi_buckets ?h \<noteq> []" by auto
  have b: "histogram_buckets h = bucket_counts kLatencyBucketBounds (hi_buckets ?h) 0"
    using ne by (simp add: histogram_buckets_def h_def Histogram_Snapshot_def)
  have k: "length kLatencyBucketBounds = 15" by (simp add: kLatencyBucketBounds_def)
  have "map fst (butlast (bucket_counts bs cs cum)) = map (fmt_g 9) bs" if "length cs = Suc (length bs)" for bs cs cum
    using that
  proof (induction bs cs cum rule: bucket_counts.induct)
    case (2 c cs cum)
    then show ?case by simp
  next
    case (3 b bs c cs cum)
    then show ?case using bucket_counts_last [of cs bs "cum + c"] by (cases cs) simp_all
  qed simp
  moreover have "hs_count h = of_nat (length vs)" by (simp add: h_def Histogram_Snapshot_def hist_count [OF assms(1)])
  moreover have "sum_list (hi_buckets ?h) = hs_count h" using n(1) by (simp add: h_def Histogram_Snapshot_def hist_ok_def)
  ultimately show ?thesis
    using bucket_counts_sorted [of 0 "hi_buckets ?h" kLatencyBucketBounds] n(2) assms(2) l k
      bucket_counts_last [OF ne, of kLatencyBucketBounds 0] bucket_counts_Inf [of kLatencyBucketBounds "hi_buckets ?h" 0]
    by (simp add: b prod_eq_iff unsigned_of_nat take_bit_nat_eq_self)
qed

lemma histogram_exposition_witness:
  "last (histogram_buckets (Histogram_Snapshot (foldl hist_step new_Histogram [Fin (-1), Fin 3, NaN]))) =
    (''+Inf'', hs_count (Histogram_Snapshot (foldl hist_step new_Histogram [Fin (-1), Fin 3, NaN])))"
  using histogram_exposition [of "[Fin (-1), Fin 3, NaN]"] by simp

end
