(* ===== verification/Pushgateway.thy ===== *)
theory Pushgateway
  imports PromEncode
begin

text \<open>
  \<^verbatim>\<open>src/pushgateway_sink.cc\<close> with \<^verbatim>\<open>push_group.hh\<close>: the snapshots put to a Pushgateway under the group of a run, and
  the group's deletion at the end. libcurl is a parameter: whether a handle and a header list can be had, what
  its URL escape gives (\<open>None\<close> where it fails), and how each request ends. What the sink does is the list of
  requests it makes.
\<close>

section \<open>Groups\<close>

definition kPushReplicaLabel :: string where
  "kPushReplicaLabel = ''replica''"

definition PushReplicaValue :: "string \<Rightarrow> string" where
  "PushReplicaValue job_id = (if job_id = [] then ''local'' else job_id)"

definition FormatPushGroupPath :: "string \<Rightarrow> string \<Rightarrow> string \<Rightarrow> string" where
  "FormatPushGroupPath job src_dst replica =
     ''/metrics/job/'' @ job @ ''/src_dst/'' @ src_dst @ ''/'' @ kPushReplicaLabel @ ''/'' @ replica"

section \<open>State\<close>

record curl_api =
  cu_init :: bool
  cu_headers :: bool
  cu_escape :: "string \<Rightarrow> string option"

datatype http_result = Curl_error string | Http_code int

record http_request =
  rq_method :: string
  rq_url :: string
  rq_body :: string
  rq_with_headers :: bool

record PushgatewaySink =
  pw_base_url :: string
  pw_push_job :: string
  pw_encoded_job :: string
  pw_last_src_dst :: string
  pw_last_replica :: string
  pw_cached_group_url :: string
  pw_finished :: bool

definition TrimTrailingSlash :: "string \<Rightarrow> string" where
  "TrimTrailingSlash u = rev (dropWhile (\<lambda>c. c = CHR ''/'') (rev u))"

definition UrlEncode :: "curl_api \<Rightarrow> string \<Rightarrow> string" where
  "UrlEncode C s = (case cu_escape C s of None \<Rightarrow> s | Some r \<Rightarrow> r)"

definition new_PushgatewaySink :: "curl_api \<Rightarrow> string \<Rightarrow> string \<Rightarrow> PushgatewaySink res" where
  "new_PushgatewaySink C base_url push_job =
     (let base = TrimTrailingSlash base_url; job = (if push_job = [] then ''xrdhover'' else push_job)
      in if base = [] then Inl (Runtime_error ''pushgateway URL is empty'')
         else if \<not> cu_init C then Inl (Runtime_error ''pushgateway: curl_easy_init failed'')
         else if \<not> cu_headers C then Inl (Runtime_error ''pushgateway: curl_slist_append failed'')
         else Inr \<lparr> pw_base_url = base, pw_push_job = job, pw_encoded_job = UrlEncode C job, pw_last_src_dst = [],
                    pw_last_replica = [], pw_cached_group_url = [], pw_finished = False \<rparr>)"

section \<open>Operations\<close>

definition GroupUrl :: "curl_api \<Rightarrow> string \<Rightarrow> string \<Rightarrow> PushgatewaySink \<Rightarrow> string \<times> PushgatewaySink" where
  "GroupUrl C src_dst replica s =
     (if src_dst = pw_last_src_dst s \<and> replica = pw_last_replica s \<and> pw_cached_group_url s \<noteq> []
      then (pw_cached_group_url s, s)
      else let url = pw_base_url s @ FormatPushGroupPath (pw_encoded_job s) (UrlEncode C src_dst) (UrlEncode C replica)
           in (url, s \<lparr> pw_cached_group_url := url, pw_last_src_dst := src_dst, pw_last_replica := replica \<rparr>))"

text \<open>The request made, whether it counts as a success, and the complaint printed.\<close>

definition HttpRequest :: "(http_request \<Rightarrow> http_result) \<Rightarrow> string \<Rightarrow> string \<Rightarrow> string \<Rightarrow> http_request \<times> bool \<times> string list" where
  "HttpRequest ends meth url body =
     (let is_put = (take 1 meth = ''P'');
          r = \<lparr> rq_method = meth, rq_url = url, rq_body = (if is_put \<and> body \<noteq> [] then body else []),
                 rq_with_headers = is_put \<rparr>
      in case ends r of
           Curl_error e \<Rightarrow> (r, False, [''pushgateway: '' @ meth @ '' '' @ url @ '' failed: '' @ e])
         | Http_code code \<Rightarrow>
             (if code < 200 \<or> 300 \<le> code
              then (r, False, [''pushgateway: '' @ meth @ '' '' @ url @ '' HTTP '' @ int_dec code])
              else (r, True, [])))"

definition push_src_dst :: "MetricsSnapshot \<Rightarrow> string" where
  "push_src_dst snap = (if ms_run_id snap \<noteq> [] then ms_run_id snap
     else if ms_job_id snap \<noteq> [] then ms_job_id snap else ''local'')"

record push_outcome =
  po_ok :: bool
  po_requests :: "http_request list"
  po_printed :: "string list"

definition nothing_pushed :: "bool \<Rightarrow> push_outcome" where
  "nothing_pushed ok = \<lparr> po_ok = ok, po_requests = [], po_printed = [] \<rparr>"

definition requested :: "http_request \<times> bool \<times> string list \<Rightarrow> push_outcome" where
  "requested = (\<lambda>(r, ok, printed). \<lparr> po_ok = ok, po_requests = [r], po_printed = printed \<rparr>)"

definition pw_Push ::
  "curl_api \<Rightarrow> (http_request \<Rightarrow> http_result) \<Rightarrow> int \<Rightarrow> MetricsSnapshot \<Rightarrow> PushgatewaySink
    \<Rightarrow> (push_outcome \<times> PushgatewaySink) res" where
  "pw_Push C ends unix_time snap s =
     (if pw_finished s then Inr (nothing_pushed False, s)
      else let (url, s') = GroupUrl C (push_src_dst snap) (PushReplicaValue (ms_job_id snap)) s
           in res_bind (EncodePrometheusText unix_time snap) (\<lambda>body.
                Inr (requested (HttpRequest ends ''PUT'' url body), s')))"

definition pw_Finish ::
  "curl_api \<Rightarrow> (http_request \<Rightarrow> http_result) \<Rightarrow> string \<Rightarrow> string \<Rightarrow> PushgatewaySink \<Rightarrow> push_outcome \<times> PushgatewaySink" where
  "pw_Finish C ends src_dst replica s =
     (if pw_finished s then (nothing_pushed True, s)
      else let s = s \<lparr> pw_finished := True \<rparr>;
               key = (if src_dst \<noteq> [] then src_dst else pw_last_src_dst s);
               rep = (if replica \<noteq> [] then replica else pw_last_replica s)
           in if key = [] \<or> rep = [] then (nothing_pushed True, s)
              else let (url, s) = GroupUrl C key rep s in (requested (HttpRequest ends ''DELETE'' url []), s))"

section \<open>Runs of a sink\<close>

datatype push_call = CallPush "http_request \<Rightarrow> http_result" int MetricsSnapshot
  | CallFinish "http_request \<Rightarrow> http_result" string string

definition push_apply :: "curl_api \<Rightarrow> push_call \<Rightarrow> PushgatewaySink \<Rightarrow> push_outcome \<times> PushgatewaySink" where
  "push_apply C c s = (case c of
       CallPush ends t snap \<Rightarrow> (case pw_Push C ends t snap s of Inr r \<Rightarrow> r | Inl _ \<Rightarrow> (nothing_pushed False, s))
     | CallFinish ends src_dst replica \<Rightarrow> pw_Finish C ends src_dst replica s)"

fun push_run :: "curl_api \<Rightarrow> push_call list \<Rightarrow> PushgatewaySink \<Rightarrow> http_request list" where
  "push_run C [] s = []"
| "push_run C (c # cs) s = (let (o1, s') = push_apply C c s in po_requests o1 @ push_run C cs s')"

text \<open>The URL of a group, without the cache.\<close>

definition group_url :: "curl_api \<Rightarrow> PushgatewaySink \<Rightarrow> string \<Rightarrow> string \<Rightarrow> string" where
  "group_url C s src_dst replica =
     pw_base_url s @ FormatPushGroupPath (pw_encoded_job s) (UrlEncode C src_dst) (UrlEncode C replica)"

definition cache_good :: "curl_api \<Rightarrow> PushgatewaySink \<Rightarrow> bool" where
  "cache_good C s \<longleftrightarrow> (pw_cached_group_url s \<noteq> [] \<longrightarrow>
     pw_cached_group_url s = group_url C s (pw_last_src_dst s) (pw_last_replica s))"

lemma GroupUrl_facts:
  assumes "cache_good C s" "GroupUrl C a b s = (url, s')"
  shows "url = group_url C s a b" "cache_good C s'" "pw_finished s' = pw_finished s"
    "pw_base_url s' = pw_base_url s" "pw_encoded_job s' = pw_encoded_job s"
  using assms by (auto simp: GroupUrl_def cache_good_def group_url_def Let_def split: if_splits)

lemma HttpRequest_request:
  "HttpRequest ends meth url body = (r, ok, printed) \<Longrightarrow>
     r = \<lparr> rq_method = meth, rq_url = url, rq_body = (if take 1 meth = ''P'' then body else []),
           rq_with_headers = (take 1 meth = ''P'') \<rparr>"
  by (auto simp: HttpRequest_def Let_def split: http_result.splits if_splits)

text \<open>Calls of one run: its snapshots carry its ids, and it finishes with them.\<close>

fun call_of_run :: "string \<Rightarrow> string \<Rightarrow> push_call \<Rightarrow> bool" where
  "call_of_run run_id job_id (CallPush ends t snap) \<longleftrightarrow> ms_run_id snap = run_id \<and> ms_job_id snap = job_id"
| "call_of_run run_id job_id (CallFinish ends src_dst replica) \<longleftrightarrow> src_dst = run_id \<and> replica = job_id"

text \<open>The request a push is to make: the snapshot's text put to the group, if it can be encoded; and the request of the
  end.\<close>

fun put_of :: "string \<Rightarrow> push_call \<Rightarrow> http_request list" where
  "put_of url (CallPush ends t snap) = (case EncodePrometheusText t snap of
       Inr body \<Rightarrow> [\<lparr> rq_method = ''PUT'', rq_url = url, rq_body = body, rq_with_headers = True \<rparr>] | Inl _ \<Rightarrow> [])"
| "put_of url (CallFinish ends src_dst replica) = []"

definition delete_of :: "string \<Rightarrow> http_request" where
  "delete_of url = \<lparr> rq_method = ''DELETE'', rq_url = url, rq_body = [], rq_with_headers = False \<rparr>"

fun is_push :: "push_call \<Rightarrow> bool" where
  "is_push (CallPush ends t snap) = True"
| "is_push (CallFinish ends src_dst replica) = False"

lemma push_finished: "pw_finished s \<Longrightarrow> push_run C cs s = []"
  by (induction cs arbitrary: s)
     (auto simp: push_apply_def pw_Push_def pw_Finish_def nothing_pushed_def split: push_call.splits)

lemma push_step:
  assumes "cache_good C s" "\<not> pw_finished s" "run_id \<noteq> []" "job_id \<noteq> []" "call_of_run run_id job_id c"
    and "push_apply C c s = (out, s')"
  defines "url \<equiv> group_url C s run_id job_id"
  shows "cache_good C s' \<and> group_url C s' = group_url C s
    \<and> po_requests out = (if is_push c then put_of url c else [delete_of url]) \<and> pw_finished s' = (\<not> is_push c)"
proof (cases c)
  case (CallPush ends t snap)
  obtain url1 s1 where g: "GroupUrl C run_id job_id s = (url1, s1)" by fastforce
  note f = GroupUrl_facts [OF assms(1) g]
  have gu: "group_url C s1 = group_url C s" using f by (intro ext) (simp add: group_url_def)
  have k: "push_src_dst snap = run_id" "PushReplicaValue (ms_job_id snap) = job_id"
    using assms(3-5) by (simp_all add: CallPush push_src_dst_def PushReplicaValue_def)
  show ?thesis
  proof (cases "EncodePrometheusText t snap")
    case (Inl e)
    then show ?thesis using assms(1,2,6) by (auto simp: push_apply_def CallPush pw_Push_def k g nothing_pushed_def)
  next
    case (Inr b)
    obtain r ok pr where h: "HttpRequest ends ''PUT'' url1 b = (r, ok, pr)" by (metis prod_cases3)
    then have "out = requested (r, ok, pr)" "s' = s1" using assms(2,6) Inr
      by (simp_all add: push_apply_def CallPush pw_Push_def k g)
    then show ?thesis using HttpRequest_request [OF h] f gu assms(2) Inr by (simp add: requested_def CallPush url_def)
  qed
next
  case (CallFinish ends src_dst replica)
  let ?s = "s \<lparr> pw_finished := True \<rparr>"
  obtain url1 s1 where g: "GroupUrl C run_id job_id ?s = (url1, s1)" by fastforce
  have "cache_good C ?s" using assms(1) by (simp add: cache_good_def group_url_def)
  note f = GroupUrl_facts [OF this g]
  have gu: "group_url C s1 = group_url C s" using f by (intro ext) (simp add: group_url_def)
  have gs: "group_url C ?s = group_url C s" by (intro ext) (simp add: group_url_def)
  obtain r ok pr where h: "HttpRequest ends ''DELETE'' url1 [] = (r, ok, pr)" by (metis prod_cases3)
  then have "out = requested (r, ok, pr)" "s' = s1" using assms(2-6) g
    by (simp_all add: push_apply_def CallFinish pw_Finish_def Let_def)
  then show ?thesis using HttpRequest_request [OF h] f gu gs
    by (simp add: requested_def delete_of_def CallFinish url_def)
qed

text \<open>C27. One run, one group, and it ends clean: the requests a sink makes for a run are exactly a PUT of each encoded
  snapshot pushed before the first \<open>Finish\<close>, in order and to the run's group, and then, if there is a \<open>Finish\<close>, one DELETE
  of that very URL, without a body; nothing is sent after it.\<close>

theorem push_one_group:
  assumes "new_PushgatewaySink C base_url push_job = Inr s" "run_id \<noteq> []" "job_id \<noteq> []"
    and "list_all (call_of_run run_id job_id) calls"
  shows "let url = group_url C s run_id job_id in
    push_run C calls s = concat (map (put_of url) (takeWhile is_push calls))
      @ (if list_all is_push calls then [] else [delete_of url])"
proof -
  have "cache_good C s" "\<not> pw_finished s"
    using assms(1) by (auto simp: new_PushgatewaySink_def cache_good_def Let_def split: if_splits)
  then show ?thesis using assms(4)
  proof (induction calls arbitrary: s)
    case (Cons c cs)
    obtain out s' where a: "push_apply C c s = (out, s')" by fastforce
    have c: "call_of_run run_id job_id c" "list_all (call_of_run run_id job_id) cs" using Cons.prems by simp_all
    note st = push_step [OF Cons.prems(1,2) assms(2,3) c(1) a]
    show ?case
    proof (cases "is_push c")
      case True
      then show ?thesis using st Cons.IH [OF _ _ c(2), of s'] by (simp add: a Let_def)
    next
      case False
      then show ?thesis using st push_finished [of s' C cs] by (simp add: a Let_def)
    qed
  qed simp
qed

definition plain_curl :: curl_api where
  "plain_curl = \<lparr> cu_init = True, cu_headers = True, cu_escape = (\<lambda>s. Some s) \<rparr>"

lemma push_one_group_witness:
  "\<exists>s. new_PushgatewaySink plain_curl ''http://gw/'' [] = Inr s
    \<and> push_run plain_curl [CallFinish (\<lambda>_. Http_code 202) ''a__b'' ''j''] s
        = [delete_of (group_url plain_curl s ''a__b'' ''j'')]"
proof -
  obtain s where s: "new_PushgatewaySink plain_curl ''http://gw/'' [] = Inr s"
    by (simp add: new_PushgatewaySink_def plain_curl_def TrimTrailingSlash_def Let_def)
  from push_one_group [OF s, of "''a__b''" "''j''" "[CallFinish (\<lambda>_. Http_code 202) ''a__b'' ''j'']"] s
  show ?thesis by (simp add: Let_def)
qed

end
