(* ===== verification/Chirp.thy ===== *)
theory Chirp
  imports Pushgateway Workload
begin

text \<open>
  \<^verbatim>\<open>src/chirp_sink.cc\<close>: metrics published with \<^verbatim>\<open>condor_chirp\<close>, one process per command. What the environment answers is an
  argument: the variables, which paths exist, how a process or a write ends.
\<close>

section \<open>Running the program\<close>

text \<open>One turn of the waiting loop: what \<^verbatim>\<open>waitpid\<close> said, and the clock (in seconds) when it is read after that.\<close>

datatype wait_result = Exited int | Signaled | Interrupted | Wait_error string | Still_running

definition kChirpTimeoutS :: int where
  "kChirpTimeoutS = 10"

text \<open>The loop over its turns: whether the program succeeded, and the complaint. \<open>None\<close>: the turns are over
  and the loop still waits.\<close>

fun spawn_wait :: "int \<Rightarrow> int \<Rightarrow> (wait_result \<times> int) list \<Rightarrow> (bool \<times> string list) option" where
  "spawn_wait pid deadline [] = None"
| "spawn_wait pid deadline ((r, now) # turns) =
     (case r of
        Exited code \<Rightarrow> Some (code = 0, [])
      | Signaled \<Rightarrow> Some (False, [])
      | Wait_error e \<Rightarrow> Some (False, [''chirp: waitpid failed: '' @ e])
      | _ \<Rightarrow> if deadline \<le> now then Some (False, [''chirp: child pid '' @ int_dec pid @ '' timed out after ''
               @ int_dec kChirpTimeoutS @ ''s, killing'']) else spawn_wait pid deadline turns)"

text \<open>\<open>spawn\<close> is what \<^verbatim>\<open>posix_spawn\<close> gives: the text of its error, or the process.\<close>

definition SpawnChirp :: "string + int \<Rightarrow> int \<Rightarrow> (wait_result \<times> int) list \<Rightarrow> (bool \<times> string list) option" where
  "SpawnChirp spawn now turns = (case spawn of
       Inl e \<Rightarrow> Some (False, [''chirp: posix_spawn failed: '' @ e])
     | Inr pid \<Rightarrow> spawn_wait pid (now + kChirpTimeoutS) turns)"

section \<open>Finding the program\<close>

record chirp_env =
  ch_config_var :: "string option"
  ch_path_var :: "string option"
  ch_tmpdir_var :: "string option"
  ch_exists :: "string \<Rightarrow> bool"
  ch_canonical :: "string \<Rightarrow> string"

definition first_existing :: "chirp_env \<Rightarrow> string list \<Rightarrow> string option" where
  "first_existing E cands = find (ch_exists E) cands"

definition path_dirs :: "string \<Rightarrow> string list" where
  "path_dirs paths = filter (\<lambda>d. d \<noteq> []) (split_on (CHR '':'') paths)"

definition DiscoverChirpBinary :: "chirp_env \<Rightarrow> string" where
  "DiscoverChirpBinary E =
     (let by_config = (case ch_config_var E of
            None \<Rightarrow> None
          | Some cfg \<Rightarrow> if cfg = [] then None
              else let dir = parent_path cfg
                   in first_existing E [path_append dir ''condor_chirp'', path_append dir ''../bin/condor_chirp''])
      in case by_config of
           Some cand \<Rightarrow> ch_canonical E cand
         | None \<Rightarrow> (case ch_path_var E of
              None \<Rightarrow> []
            | Some paths \<Rightarrow> (case first_existing E (map (\<lambda>d. path_append d ''condor_chirp'') (path_dirs paths)) of
                 None \<Rightarrow> [] | Some cand \<Rightarrow> cand)))"

section \<open>The sink\<close>

record ChirpSink =
  ck_binary :: string
  ck_prom_remote_path :: string
  ck_classads :: bool

definition new_ChirpSink :: "chirp_env \<Rightarrow> string \<Rightarrow> string \<Rightarrow> bool \<Rightarrow> string \<Rightarrow> string \<Rightarrow> ChirpSink" where
  "new_ChirpSink E chirp_binary prom_remote_dir classads run_id job_id =
     (let binary = (if chirp_binary = [] then DiscoverChirpBinary E else chirp_binary)
      in \<lparr> ck_binary = binary,
           ck_prom_remote_path = (if binary = [] \<or> prom_remote_dir = [] then []
             else TrimTrailingSlash prom_remote_dir @ ''/xrdhover_'' @ run_id @ ''_'' @ job_id @ ''.prom''),
           ck_classads = classads \<rparr>)"

definition Available :: "ChirpSink \<Rightarrow> bool" where
  "Available k \<longleftrightarrow> ck_binary k \<noteq> []"

text \<open>The commands given to the program; a \<open>Put\<close> has the text of the file it sends.\<close>

datatype chirp_command =
    SetAttr string string
  | Put string string
  | RemoveFile string

fun chirp_argv :: "string \<Rightarrow> chirp_command \<Rightarrow> string list" where
  "chirp_argv tmp_path (SetAttr name v) = [''set_job_attr'', name, v]"
| "chirp_argv tmp_path (Put remote body) = [''put'', tmp_path, remote]"
| "chirp_argv tmp_path (RemoveFile remote) = [''remove'', remote]"

definition SetAttr_double :: "string \<Rightarrow> double \<Rightarrow> chirp_command" where
  "SetAttr_double name v = SetAttr name (fmt_g 6 v)"

definition SetAttr_u64 :: "string \<Rightarrow> u64 \<Rightarrow> chirp_command" where
  "SetAttr_u64 name v = SetAttr name (u64_dec v)"

text \<open>\<^verbatim>\<open>PutFile\<close>: the temporary file's name, or why \<^verbatim>\<open>mkstemp\<close> failed; the answers of \<^verbatim>\<open>write\<close>; what running the
  program gives, with its complaints. A body that cannot be written is not sent.\<close>

datatype write_result = Wrote nat | Write_interrupted | Write_error string

fun write_all :: "nat \<Rightarrow> write_result list \<Rightarrow> (string + unit) option" where
  "write_all left answers =
     (if left = 0 then Some (Inr ())
      else case answers of
        [] \<Rightarrow> None
      | Wrote n # rest \<Rightarrow> write_all (left - n) rest
      | Write_interrupted # rest \<Rightarrow> write_all left rest
      | Write_error e # _ \<Rightarrow> Some (Inl e))"

definition tmp_template :: "chirp_env \<Rightarrow> string" where
  "tmp_template E = (case ch_tmpdir_var E of None \<Rightarrow> ''/tmp'' | Some d \<Rightarrow> if d = [] then ''/tmp'' else d)
     @ ''/xrdhover_chirp_XXXXXX''"

definition PutFile ::
  "string + string \<Rightarrow> write_result list \<Rightarrow> (string list \<Rightarrow> bool \<times> string list) \<Rightarrow> string \<Rightarrow> string
    \<Rightarrow> (bool \<times> string list) option" where
  "PutFile tmp answers runs remote body =
     (case tmp of
        Inl e \<Rightarrow> Some (False, [''chirp: mkstemp failed: '' @ e])
      | Inr tmp_path \<Rightarrow>
          (case write_all (length body) answers of
             None \<Rightarrow> None
           | Some (Inl e) \<Rightarrow> Some (False, [''chirp: write tmp failed: '' @ e])
           | Some (Inr _) \<Rightarrow>
               (let (ok, complaints) = runs (chirp_argv tmp_path (Put remote body))
                in Some (ok, complaints @ (if ok then [] else [''chirp: put '' @ remote @ '' failed''])))))"

definition PushClassAds :: "MetricsSnapshot \<Rightarrow> chirp_command list" where
  "PushClassAds s =
     [SetAttr_double ''ChirpXrdhoverAchievedRate'' (ms_achieved_rate_bytes s),
      SetAttr_double ''ChirpXrdhoverTargetRate'' (ms_target_rate_bytes s),
      SetAttr_u64 ''ChirpXrdhoverBytesTotal'' (ms_bytes_read_total s),
      SetAttr_u64 ''ChirpXrdhoverSessionsOk'' (ms_sessions_ok s),
      SetAttr_u64 ''ChirpXrdhoverSessionsFail'' (ms_sessions_fail s),
      SetAttr_u64 ''ChirpXrdhoverErrorsTotal'' (om_sum (ms_errors_by_class s)),
      SetAttr_u64 ''ChirpXrdhoverSoftFaults'' (om_sum (ms_soft_faults_by_kind s)),
      SetAttr_u64 ''ChirpXrdhoverInflight'' (ms_inflight_reads s),
      SetAttr_double ''ChirpXrdhoverWallS'' (ms_wall_s s),
      SetAttr_double ''ChirpXrdhoverCpuS'' (ms_cpu_seconds_total s)]"

definition PushPromFile :: "int \<Rightarrow> MetricsSnapshot \<Rightarrow> ChirpSink \<Rightarrow> chirp_command list res" where
  "PushPromFile unix_time s k =
     (if ck_prom_remote_path k = [] then Inr []
      else res_bind (EncodePrometheusText unix_time s) (\<lambda>body. Inr [Put (ck_prom_remote_path k) body]))"

definition chirp_Push :: "int \<Rightarrow> MetricsSnapshot \<Rightarrow> ChirpSink \<Rightarrow> chirp_command list res" where
  "chirp_Push unix_time s k =
     (if ck_binary k = [] then Inr []
      else res_bind (PushPromFile unix_time s k) (\<lambda>put. Inr ((if ck_classads k then PushClassAds s else []) @ put)))"

definition chirp_Finish :: "int \<Rightarrow> MetricsSnapshot \<Rightarrow> ChirpSink \<Rightarrow> chirp_command list res" where
  "chirp_Finish unix_time s k =
     (if ck_binary k = [] then Inr []
      else res_bind (chirp_Push unix_time s k) (\<lambda>pushed. Inr
        (pushed
         @ (if ck_classads k then
              [SetAttr_double ''ChirpXrdhoverAchievedRate'' (Fin 0), SetAttr_u64 ''ChirpXrdhoverInflight'' 0,
               SetAttr_double ''ChirpXrdhoverTargetRate'' (Fin 0)] else [])
         @ (if ck_prom_remote_path k \<noteq> [] then [RemoveFile (ck_prom_remote_path k)] else []))))"

section \<open>What is left behind\<close>

text \<open>What the access point holds after commands: the job's attributes and the remote files.\<close>

fun chirp_effect :: "chirp_command \<Rightarrow> (string \<rightharpoonup> string) \<times> (string \<rightharpoonup> string) \<Rightarrow> (string \<rightharpoonup> string) \<times> (string \<rightharpoonup> string)" where
  "chirp_effect (SetAttr name v) (ads, files) = (ads(name \<mapsto> v), files)"
| "chirp_effect (Put remote body) (ads, files) = (ads, files(remote \<mapsto> body))"
| "chirp_effect (RemoveFile remote) (ads, files) = (ads, files(remote := None))"

definition chirp_effects :: "chirp_command list \<Rightarrow> (string \<rightharpoonup> string) \<times> (string \<rightharpoonup> string) \<Rightarrow> (string \<rightharpoonup> string) \<times> (string \<rightharpoonup> string)" where
  "chirp_effects cs st = fold chirp_effect cs st"

text \<open>The wait ends: at the latest in the turn that finds the deadline passed.\<close>

lemma spawn_waits: "spawn_wait pid deadline turns = None \<Longrightarrow> \<forall>x\<in>set turns. snd x < deadline"
  by (induction turns) (fastforce split: wait_result.splits if_splits)+

lemma push_files:
  "chirp_Push t s k = Inr cs \<Longrightarrow> ck_prom_remote_path k \<noteq> p \<Longrightarrow> snd (chirp_effects cs st) p = snd st p"
  by (cases st) (auto simp: chirp_Push_def PushPromFile_def PushClassAds_def SetAttr_double_def SetAttr_u64_def
      chirp_effects_def cxx_res split: if_splits)

text \<open>C28. A finished run leaves nothing that looks alive: after any snapshots and the final \<open>Finish\<close>, when the commands
  have succeeded, the rates and the number of sessions among the job's attributes are 0 and the run's
  \<^verbatim>\<open>.prom\<close> file is gone; no other remote file was touched.\<close>

theorem chirp_leaves_idle:
  assumes "k = new_ChirpSink E chirp_binary prom_dir True run_id job_id" "Available k"
    and "chirp_Finish t s k = Inr cs"
  shows "fst (chirp_effects cs st) ''ChirpXrdhoverAchievedRate'' = Some ''0''
    \<and> fst (chirp_effects cs st) ''ChirpXrdhoverTargetRate'' = Some ''0''
    \<and> fst (chirp_effects cs st) ''ChirpXrdhoverInflight'' = Some ''0''
    \<and> (prom_dir \<noteq> [] \<longrightarrow> snd (chirp_effects cs st) (ck_prom_remote_path k) = None)
    \<and> (\<forall>p. p \<noteq> ck_prom_remote_path k \<longrightarrow> snd (chirp_effects cs st) p = snd st p)"
proof -
  obtain pushed where p: "chirp_Push t s k = Inr pushed" and
    cs: "cs = pushed @ [SetAttr_double ''ChirpXrdhoverAchievedRate'' (Fin 0), SetAttr_u64 ''ChirpXrdhoverInflight'' 0,
               SetAttr_double ''ChirpXrdhoverTargetRate'' (Fin 0)]
         @ (if ck_prom_remote_path k \<noteq> [] then [RemoveFile (ck_prom_remote_path k)] else [])"
    using assms by (auto simp: chirp_Finish_def Available_def new_ChirpSink_def Let_def cxx_res)
  obtain ads files where e: "chirp_effects pushed st = (ads, files)" by fastforce
  have z: "fmt_g_rat 6 0 = ''0''" "u64_dec 0 = ''0''" by (simp add: fmt_g_rat_def, code_simp)
  have path: "prom_dir \<noteq> [] \<Longrightarrow> ck_prom_remote_path k \<noteq> []" using assms(1,2) by (simp add: new_ChirpSink_def Available_def Let_def)
  have "files q = snd st q" if "q \<noteq> ck_prom_remote_path k" for q using push_files [OF p, of q st] that by (simp add: e)
  then show ?thesis using path e
    by (simp add: cs chirp_effects_def SetAttr_double_def SetAttr_u64_def z)
qed

lemma chirp_leaves_idle_witness:
  "\<exists>cs. chirp_Finish 0 (mr_Snapshot None (Fin 1) new_MetricsRegistry)
      (new_ChirpSink \<lparr> ch_config_var = None, ch_path_var = None, ch_tmpdir_var = None, ch_exists = (\<lambda>_. False), ch_canonical = id \<rparr>
        ''/bin/condor_chirp'' [] True ''r'' ''j'') = Inr cs
    \<and> fst (chirp_effects cs (Map.empty, Map.empty)) ''ChirpXrdhoverAchievedRate'' = Some ''0''"
proof -
  let ?E = "\<lparr> ch_config_var = None, ch_path_var = None, ch_tmpdir_var = None, ch_exists = (\<lambda>_. False), ch_canonical = id \<rparr>"
  let ?k = "new_ChirpSink ?E ''/bin/condor_chirp'' [] True ''r'' ''j''"
  let ?s = "mr_Snapshot None (Fin 1) new_MetricsRegistry"
  obtain cs where cs: "chirp_Finish 0 ?s ?k = Inr cs"
    by (simp add: chirp_Finish_def chirp_Push_def PushPromFile_def new_ChirpSink_def)
  have "Available ?k" by (simp add: Available_def new_ChirpSink_def)
  from chirp_leaves_idle [OF refl this cs] cs show ?thesis by auto
qed

end
