(* ===== verification/Watchdog.thy ===== *)
theory Watchdog
  imports FileSession TokenBucket
begin

text \<open>
  The deadline thread of \<^verbatim>\<open>src/file_session.cc\<close>, \<^verbatim>\<open>SessionDeadlineWatchdog\<close>: the wall timeouts of all sessions in one list.
  Sessions are numbers; an entry is a weak pointer, so \<open>alive s\<close> says whether the object still exists and
  \<open>completed s\<close> is \<^verbatim>\<open>IsCompleted\<close>, read without the session's mutex. Each critical section of the list is one
  function. Times are nanoseconds.
\<close>

section \<open>State and operations\<close>

record wd_entry =
  we_deadline :: int
  we_session :: nat

record Watchdog =
  wd_entries :: "wd_entry list"
  wd_started :: bool
  wd_stop :: bool

definition new_Watchdog :: Watchdog where
  "new_Watchdog = \<lparr> wd_entries = [], wd_started = False, wd_stop = False \<rparr>"

text \<open>\<^verbatim>\<open>EnsureThreadLocked\<close>.\<close>

definition EnsureThread :: "Watchdog \<Rightarrow> Watchdog" where
  "EnsureThread w = (if wd_started w then w else w \<lparr> wd_started := True, wd_stop := False \<rparr>)"

text \<open>The loop over the entries: the first one of the session gets the new deadline.\<close>

fun set_deadline :: "(nat \<Rightarrow> bool) \<Rightarrow> nat \<Rightarrow> int \<Rightarrow> wd_entry list \<Rightarrow> wd_entry list option" where
  "set_deadline alive s t [] = None"
| "set_deadline alive s t (e # es) =
     (if alive (we_session e) \<and> we_session e = s then Some (e \<lparr> we_deadline := t \<rparr> # es)
      else map_option (\<lambda>es'. e # es') (set_deadline alive s t es))"

definition Arm :: "(nat \<Rightarrow> bool) \<Rightarrow> int \<Rightarrow> nat \<Rightarrow> double \<Rightarrow> Watchdog \<Rightarrow> Watchdog res" where
  "Arm alive now s timeout_s w =
     (if dle timeout_s (Fin 0) then Inr w
      else res_bind (sleep_ns timeout_s) (\<lambda>d. Inr
        (if wd_stop w then w
         else EnsureThread (w \<lparr> wd_entries :=
           (case set_deadline alive s (now + d) (wd_entries w) of
              Some es \<Rightarrow> es
            | None \<Rightarrow> wd_entries w @ [\<lparr> we_deadline = now + d, we_session = s \<rparr>]) \<rparr>))))"

definition Disarm :: "(nat \<Rightarrow> bool) \<Rightarrow> nat \<Rightarrow> Watchdog \<Rightarrow> Watchdog" where
  "Disarm alive s w = w \<lparr> wd_entries := filter (\<lambda>e. alive (we_session e) \<and> we_session e \<noteq> s) (wd_entries w) \<rparr>"

text \<open>\<^verbatim>\<open>ShutDown\<close>: before the thread is joined, and after.\<close>

definition ShutDown_begin :: "Watchdog \<Rightarrow> Watchdog" where
  "ShutDown_begin w = (if wd_stop w then w else w \<lparr> wd_stop := True, wd_entries := [] \<rparr>)"

definition ShutDown_end :: "Watchdog \<Rightarrow> Watchdog" where
  "ShutDown_end w = w \<lparr> wd_started := False, wd_stop := False \<rparr>"

section \<open>The thread\<close>

definition kMaxSleep :: int where
  "kMaxSleep = 10 ^ 9"

text \<open>One pass over the entries: those kept, the sessions past their deadline, and the next deadline.\<close>

fun scan_entries :: "(nat \<Rightarrow> bool) \<Rightarrow> (nat \<Rightarrow> bool) \<Rightarrow> int \<Rightarrow> wd_entry list \<Rightarrow> int \<Rightarrow> wd_entry list \<times> nat list \<times> int" where
  "scan_entries alive completed now [] next_deadline = ([], [], next_deadline)"
| "scan_entries alive completed now (e # es) next_deadline =
     (if \<not> alive (we_session e) \<or> completed (we_session e) then scan_entries alive completed now es next_deadline
      else if we_deadline e \<le> now then
        (let (kept, expired, next) = scan_entries alive completed now es next_deadline
         in (kept, we_session e # expired, next))
      else
        (let (kept, expired, next) = scan_entries alive completed now es (min next_deadline (we_deadline e))
         in (e # kept, expired, next)))"

text \<open>The locked part of a turn: the expired sessions, which then get \<^verbatim>\<open>RequestWallTimeout\<close>, and the next deadline.\<close>

definition wd_scan :: "(nat \<Rightarrow> bool) \<Rightarrow> (nat \<Rightarrow> bool) \<Rightarrow> int \<Rightarrow> Watchdog \<Rightarrow> Watchdog \<times> nat list \<times> int" where
  "wd_scan alive completed now w =
     (let (kept, expired, next) = scan_entries alive completed now (wd_entries w) (now + kMaxSleep)
      in (w \<lparr> wd_entries := kept \<rparr>, expired, next))"

text \<open>How long the thread then sleeps; \<open>now\<close> is read again.\<close>

definition wd_wait_for :: "int \<Rightarrow> int \<Rightarrow> int" where
  "wd_wait_for next_deadline now =
     (let wait_for = next_deadline - now;
          wait_for = (if wait_for < 10 ^ 6 then 10 ^ 6 else wait_for)
      in if kMaxSleep < wait_for then kMaxSleep else wait_for)"

section \<open>One entry per session\<close>

definition wd_ok :: "Watchdog \<Rightarrow> bool" where
  "wd_ok w \<longleftrightarrow> distinct (map we_session (wd_entries w))"

lemma set_deadline_sessions: "set_deadline alive s t es = Some es' \<Longrightarrow> map we_session es' = map we_session es"
  by (induction es arbitrary: es') (auto split: if_splits)

lemma set_deadline_None: "set_deadline alive s t es = None \<Longrightarrow> alive s \<Longrightarrow> s \<notin> set (map we_session es)"
  by (induction es) (auto split: if_splits)

lemma set_deadline_in: "set_deadline alive s t es = Some es' \<Longrightarrow> \<lparr> we_deadline = t, we_session = s \<rparr> \<in> set es'"
proof (induction es arbitrary: es')
  case (Cons e es)
  then show ?case by (cases e) (auto split: if_splits)
qed simp

lemma set_deadline_other: "set_deadline alive s t es = Some es' \<Longrightarrow> we_session e \<noteq> s \<Longrightarrow> e \<in> set es' \<longleftrightarrow> e \<in> set es"
  by (induction es arbitrary: es') (auto split: if_splits)

lemma scan_entries_eq:
  "scan_entries alive completed now es next =
     (let live = filter (\<lambda>e. alive (we_session e) \<and> \<not> completed (we_session e)) es;
          kept = filter (\<lambda>e. now < we_deadline e) live
      in (kept, map we_session (filter (\<lambda>e. we_deadline e \<le> now) live), foldl min next (map we_deadline kept)))"
proof (induction es arbitrary: "next")
  case (Cons e es)
  then show ?case by (auto simp: Let_def)
qed simp

lemma foldl_min: "foldl min a xs \<le> (a :: int) \<and> (\<forall>x\<in>set xs. foldl min a xs \<le> x)"
proof (induction xs arbitrary: a)
  case (Cons x xs)
  then show ?case using Cons.IH [of "min a x"] by (auto intro: order_trans)
qed simp

text \<open>Calls of the list, by any thread. A caller of \<open>Arm\<close> and \<open>Disarm\<close> holds the session, so it is alive.\<close>

datatype wd_op = WdArm int nat double | WdDisarm nat | WdScan "nat \<Rightarrow> bool" int | WdDown | WdUp

fun wd_apply :: "(nat \<Rightarrow> bool) \<Rightarrow> wd_op \<Rightarrow> Watchdog \<Rightarrow> Watchdog res" where
  "wd_apply alive (WdArm now s timeout_s) w = (if alive s then Arm alive now s timeout_s w else Inr w)"
| "wd_apply alive (WdDisarm s) w = (if alive s then Inr (Disarm alive s w) else Inr w)"
| "wd_apply alive (WdScan completed now) w = Inr (fst (wd_scan alive completed now w))"
| "wd_apply alive WdDown w = Inr (ShutDown_begin w)"
| "wd_apply alive WdUp w = Inr (ShutDown_end w)"

definition wd_step :: "Watchdog \<Rightarrow> (nat \<Rightarrow> bool) \<times> wd_op \<Rightarrow> Watchdog" where
  "wd_step w x = (case wd_apply (fst x) (snd x) w of Inr w' \<Rightarrow> w' | Inl _ \<Rightarrow> w)"

lemma Ensure_entries [simp]: "wd_entries (EnsureThread w) = wd_entries w"
  by (simp add: EnsureThread_def)

lemma wd_step_ok:
  assumes "wd_ok w" shows "wd_ok (wd_step w x)"
proof (cases "snd x")
  case (WdArm now s timeout_s)
  show ?thesis
  proof (cases "sleep_ns timeout_s")
    case (Inr d)
    have "s \<notin> set (map we_session (wd_entries w))"
      if "set_deadline (fst x) s (now + d) (wd_entries w) = None" "fst x s"
      by (rule set_deadline_None [OF that])
    then show ?thesis using assms set_deadline_sessions [of "fst x" s "now + d" "wd_entries w"]
      by (auto simp: wd_step_def WdArm Arm_def Inr wd_ok_def split: option.split)
  qed (use assms in \<open>simp add: wd_step_def WdArm Arm_def\<close>)
next
  case (WdDisarm s)
  then show ?thesis using assms by (simp add: wd_step_def Disarm_def wd_ok_def distinct_map_filter)
next
  case (WdScan completed now)
  then show ?thesis using assms
    by (simp add: wd_step_def wd_scan_def scan_entries_eq Let_def wd_ok_def distinct_map_filter)
qed (use assms in \<open>simp_all add: wd_step_def ShutDown_begin_def ShutDown_end_def wd_ok_def\<close>)

interpretation watchdog: machine wd_step wd_ok "\<lambda>_. True"
  by unfold_locales (rule wd_step_ok)

section \<open>What the deadlines mean\<close>

text \<open>The contract, without the list: the deadline each session is armed with, and whether the watchdog is shut down.
  A timeout is armed for its length from now, replaces the previous one of its session, lasts until it is disarmed,
  fires, or its session is found completed, and is forgotten by a shutdown.\<close>

type_synonym armed = "(nat \<Rightarrow> int option) \<times> bool"

fun wd_spec :: "armed \<Rightarrow> (nat \<Rightarrow> bool) \<times> wd_op \<Rightarrow> armed" where
  "wd_spec (A, stopped) (alive, WdArm now s timeout_s) =
     (case sleep_ns timeout_s of
        Inr d \<Rightarrow> (if alive s \<and> \<not> stopped \<and> \<not> dle timeout_s (Fin 0) then A(s \<mapsto> now + d) else A, stopped)
      | Inl _ \<Rightarrow> (A, stopped))"
| "wd_spec (A, stopped) (alive, WdDisarm s) = (if alive s then A(s := None) else A, stopped)"
| "wd_spec (A, stopped) (alive, WdScan completed now) =
     ((\<lambda>s. case A s of None \<Rightarrow> None | Some t \<Rightarrow> if completed s \<or> t \<le> now then None else Some t), stopped)"
| "wd_spec (A, stopped) (alive, WdDown) = (\<lambda>_. None, True)"
| "wd_spec (A, stopped) (alive, WdUp) = (A, False)"

definition armed_after :: "((nat \<Rightarrow> bool) \<times> wd_op) list \<Rightarrow> nat \<Rightarrow> int option" where
  "armed_after ops = fst (foldl wd_spec (\<lambda>_. None, False) ops)"

definition we_pair :: "wd_entry \<Rightarrow> nat \<times> int" where
  "we_pair e = (we_session e, we_deadline e)"

definition deadline_of :: "Watchdog \<Rightarrow> nat \<Rightarrow> int option" where
  "deadline_of w = map_of (map we_pair (wd_entries w))"

text \<open>The list implements the contract on the sessions that exist.\<close>

definition wd_rel :: "(nat \<Rightarrow> bool) \<Rightarrow> Watchdog \<Rightarrow> armed \<Rightarrow> bool" where
  "wd_rel alive w a \<longleftrightarrow> wd_ok w \<and> (wd_stop w \<longrightarrow> wd_entries w = []) \<and> wd_stop w = snd a
     \<and> (\<forall>s. alive s \<longrightarrow> deadline_of w s = fst a s)"

lemma we_pair_entry [simp]: "we_pair \<lparr> we_deadline = t, we_session = s \<rparr> = (s, t)"
  by (simp add: we_pair_def)

lemma we_pair_inj: "inj we_pair"
proof (rule injI)
  fix e e' assume "we_pair e = we_pair e'"
  then show "e = e'" by (cases e; cases e') auto
qed

lemma we_pair_sessions: "fst ` set (map we_pair es) = set (map we_session es)"
  by (force simp: we_pair_def)

lemma set_deadline_map:
  "set_deadline alive s t es = Some es' \<Longrightarrow> alive s \<Longrightarrow> map_of (map we_pair es') = (map_of (map we_pair es))(s \<mapsto> t)"
  by (induction es arbitrary: es') (auto simp: we_pair_def fun_upd_twist split: if_splits)

lemma deadline_filter:
  "distinct (map we_session es) \<Longrightarrow> map_of (map we_pair (filter P es)) s
     = (case map_of (map we_pair es) s of None \<Rightarrow> None
        | Some t \<Rightarrow> if P \<lparr> we_deadline = t, we_session = s \<rparr> then Some t else None)"
proof (induction es)
  case (Cons e es)
  have "map_of (map we_pair es) (we_session e) = None"
    using Cons.prems we_pair_sessions [of es] by (simp add: map_of_eq_None_iff)
  then show ?case using Cons by (cases e) (auto split: option.splits)
qed simp

lemma deadline_snoc:
  "s \<notin> set (map we_session es) \<Longrightarrow>
     map_of (map we_pair (es @ [\<lparr> we_deadline = t, we_session = s \<rparr>])) = (map_of (map we_pair es))(s \<mapsto> t)"
  by (induction es) (auto simp: we_pair_def fun_upd_twist)

text \<open>Objects go, they do not come back: the sessions that exist at one call exist at every call before it.\<close>

lemma wd_rel_mono: "wd_rel alive w a \<Longrightarrow> (\<And>s. alive' s \<Longrightarrow> alive s) \<Longrightarrow> wd_rel alive' w a"
  by (auto simp: wd_rel_def)

lemma wd_step_rel:
  assumes "wd_rel alive w a" shows "wd_rel alive (wd_step w (alive, x)) (wd_spec a (alive, x))"
proof -
  obtain A stopped where a: "a = (A, stopped)" by (cases a)
  note r = assms [unfolded wd_rel_def a fst_conv snd_conv]
  have ok: "wd_ok (wd_step w (alive, x))" by (rule wd_step_ok) (use r in blast)
  have d: "distinct (map we_session (wd_entries w))" using r by (simp add: wd_ok_def)
  show ?thesis
  proof (cases x)
    case (WdArm now s timeout_s)
    show ?thesis
    proof (cases "\<exists>d. sleep_ns timeout_s = Inr d \<and> alive s \<and> \<not> stopped \<and> \<not> dle timeout_s (Fin 0)")
      case True
      then obtain d where t: "sleep_ns timeout_s = Inr d" "alive s" "\<not> stopped" "\<not> dle timeout_s (Fin 0)" by blast
      have "deadline_of (wd_step w (alive, x)) = (deadline_of w)(s \<mapsto> now + d)"
        using t r set_deadline_map [of alive s "now + d" "wd_entries w"] set_deadline_None [of alive s "now + d" "wd_entries w"]
          deadline_snoc [of s "wd_entries w" "now + d"]
        by (auto simp: wd_step_def WdArm Arm_def deadline_of_def split: option.split)
      then show ?thesis using t r ok by (auto simp: wd_rel_def a WdArm wd_step_def Arm_def EnsureThread_def)
    next
      case False
      then show ?thesis using False r ok
        by (cases "sleep_ns timeout_s") (auto simp: wd_rel_def a WdArm wd_step_def Arm_def EnsureThread_def)
    qed
  next
    case (WdDisarm s)
    have "deadline_of (wd_step w (alive, x)) s' = (if s' = s then None else deadline_of w s')" if "alive s" "alive s'" for s'
      using that by (simp add: WdDisarm wd_step_def Disarm_def deadline_of_def deadline_filter [OF d] split: option.split)
    then show ?thesis using r ok by (auto simp: wd_rel_def a WdDisarm wd_step_def Disarm_def)
  next
    case (WdScan completed now)
    have "deadline_of (wd_step w (alive, x)) s' = (case deadline_of w s' of None \<Rightarrow> None
        | Some t \<Rightarrow> if completed s' \<or> t \<le> now then None else Some t)" if "alive s'" for s'
      using that by (simp add: WdScan wd_step_def wd_scan_def scan_entries_eq Let_def deadline_of_def filter_filter
          deadline_filter [OF d] split: option.split)
    then show ?thesis using r ok by (auto simp: wd_rel_def a WdScan wd_step_def wd_scan_def scan_entries_eq Let_def)
  qed (use r ok in \<open>auto simp: wd_rel_def a wd_step_def ShutDown_begin_def ShutDown_end_def deadline_of_def\<close>)
qed

definition objects_go :: "(nat \<Rightarrow> bool) list \<Rightarrow> bool" where
  "objects_go alives \<longleftrightarrow> sorted_wrt (\<lambda>before after. \<forall>s. after s \<longrightarrow> before s) alives"

lemma wd_run_rel:
  assumes "objects_go (map fst ops @ [alive])"
  shows "wd_rel alive (foldl wd_step new_Watchdog ops) (foldl wd_spec (\<lambda>_. None, False) ops)"
  using assms
proof (induction ops arbitrary: alive rule: rev_induct)
  case Nil
  then show ?case by (simp add: wd_rel_def new_Watchdog_def wd_ok_def deadline_of_def)
next
  case (snoc c ops)
  obtain alive0 x where c: "c = (alive0, x)" by (cases c)
  have g: "objects_go (map fst ops @ [alive0])" "\<And>s. alive s \<Longrightarrow> alive0 s"
    using snoc.prems by (auto simp: objects_go_def c sorted_wrt_append)
  from wd_step_rel [OF snoc.IH [OF g(1)], of x] show ?case using wd_rel_mono [OF _ g(2)] by (simp add: c)
qed

lemma wd_entries_armed:
  assumes "objects_go (map fst ops @ [alive])" "alive (we_session e)"
  shows "e \<in> set (wd_entries (foldl wd_step new_Watchdog ops)) \<longleftrightarrow> armed_after ops (we_session e) = Some (we_deadline e)"
proof -
  let ?w = "foldl wd_step new_Watchdog ops"
  note r = wd_run_rel [OF assms(1), unfolded wd_rel_def armed_after_def [symmetric]]
  have "map fst (map we_pair (wd_entries ?w)) = map we_session (wd_entries ?w)" by (simp add: we_pair_def)
  then have "deadline_of ?w (we_session e) = Some (we_deadline e) \<longleftrightarrow> we_pair e \<in> set (map we_pair (wd_entries ?w))"
    unfolding deadline_of_def we_pair_def [of e] using r by (simp only: wd_ok_def map_of_eq_Some_iff)
  then show ?thesis using r assms(2) inj_image_mem_iff [OF we_pair_inj] by simp
qed

text \<open>C26. The watchdog is exact and prompt: after any calls and turns, with \<open>armed_after\<close> the deadlines that the timeouts
  armed and not disarmed, fired or shut down since come to, a turn hands a timeout to exactly the existing, uncompleted
  sessions whose deadline has come, each once, and keeps exactly those whose deadline is still to come; it then sleeps a
  millisecond at least, a second at most, and never beyond the next of these deadlines by more than that millisecond.\<close>

theorem watchdog_timely:
  assumes "wd_scan alive completed now (foldl wd_step new_Watchdog ops) = (w', expired, next)" "now \<le> now'"
    and "objects_go (map fst ops @ [alive])"
  shows "distinct expired
    \<and> set expired = {s. alive s \<and> \<not> completed s \<and> (\<exists>t\<le>now. armed_after ops s = Some t)}
    \<and> we_pair ` set (wd_entries w') = {(s, t). alive s \<and> \<not> completed s \<and> armed_after ops s = Some t \<and> now < t}
    \<and> 10 ^ 6 \<le> wd_wait_for next now' \<and> wd_wait_for next now' \<le> kMaxSleep
    \<and> list_all (\<lambda>e. now' + wd_wait_for next now' \<le> max (we_deadline e) (now' + 10 ^ 6)) (wd_entries w')"
proof -
  let ?w = "foldl wd_step new_Watchdog ops"
  define live where "live = filter (\<lambda>e. alive (we_session e) \<and> \<not> completed (we_session e)) (wd_entries ?w)"
  have d: "distinct (map we_session (wd_entries ?w))" using wd_run_rel [OF assms(3)] by (simp add: wd_rel_def wd_ok_def)
  have e: "wd_entries w' = filter (\<lambda>e. now < we_deadline e) live"
    "expired = map we_session (filter (\<lambda>e. we_deadline e \<le> now) live)"
    "next = foldl min (now + kMaxSleep) (map we_deadline (wd_entries w'))"
    using assms(1) by (auto simp: wd_scan_def scan_entries_eq Let_def live_def)
  have n: "next \<le> we_deadline x" if "x \<in> set (wd_entries w')" for x
    using foldl_min [of "now + kMaxSleep" "map we_deadline (wd_entries w')"] that e(3) by simp
  have l: "set live = {e. alive (we_session e) \<and> \<not> completed (we_session e)
      \<and> armed_after ops (we_session e) = Some (we_deadline e)}" unfolding live_def using wd_entries_armed [OF assms(3)] by auto
  have "distinct expired" unfolding e(2) live_def using d by (simp add: distinct_map_filter)
  moreover have "10 ^ 6 \<le> wd_wait_for next now' \<and> wd_wait_for next now' \<le> kMaxSleep"
    by (simp add: wd_wait_for_def Let_def kMaxSleep_def)
  moreover have "now' + wd_wait_for next now' \<le> max (we_deadline x) (now' + 10 ^ 6)" if "x \<in> set (wd_entries w')" for x
    using n [OF that] by (simp add: wd_wait_for_def Let_def kMaxSleep_def max_def)
  moreover have "set expired = {s. alive s \<and> \<not> completed s \<and> (\<exists>t\<le>now. armed_after ops s = Some t)}"
  proof -
    have "s \<in> set expired" if "alive s" "\<not> completed s" "armed_after ops s = Some t" "t \<le> now" for s t
    proof -
      have "\<lparr> we_deadline = t, we_session = s \<rparr> \<in> set (filter (\<lambda>e. we_deadline e \<le> now) live)" using that by (simp add: l)
      from imageI [OF this, of we_session] show ?thesis by (simp add: e(2))
    qed
    then show ?thesis by (auto simp: e(2) l)
  qed
  moreover have "we_pair ` set (wd_entries w')
      = {(s, t). alive s \<and> \<not> completed s \<and> armed_after ops s = Some t \<and> now < t}"
  proof -
    have "(s, t) \<in> we_pair ` set (wd_entries w')"
      if "alive s" "\<not> completed s" "armed_after ops s = Some t" "now < t" for s t
    proof -
      have "\<lparr> we_deadline = t, we_session = s \<rparr> \<in> set (wd_entries w')" using that by (simp add: e(1) l)
      from imageI [OF this, of we_pair] show ?thesis by simp
    qed
    then show ?thesis by (auto simp: e(1) l we_pair_def)
  qed
  ultimately show ?thesis by (auto simp: list_all_iff)
qed

text \<open>Two sessions armed with five and nine seconds, the first of them again after two: at eight seconds it has timed out.\<close>

definition demo_watch :: "((nat \<Rightarrow> bool) \<times> wd_op) list" where
  "demo_watch = [(\<lambda>_. True, WdArm 0 1 (Fin 5)), (\<lambda>_. True, WdArm 0 2 (Fin 9)), (\<lambda>_. True, WdArm (2 * 10 ^ 9) 1 (Fin 5))]"

lemma demo_watch_armed: "armed_after demo_watch 1 = Some (7 * 10 ^ 9)" "armed_after demo_watch 2 = Some (9 * 10 ^ 9)"
  by code_simp+

lemma watchdog_timely_witness:
  "\<exists>w' expired next. wd_scan (\<lambda>_. True) (\<lambda>_. False) (8 * 10 ^ 9) (foldl wd_step new_Watchdog demo_watch) = (w', expired, next)
    \<and> 1 \<in> set expired \<and> 2 \<notin> set expired"
proof -
  obtain w' expired "next" where s: "wd_scan (\<lambda>_. True) (\<lambda>_. False) (8 * 10 ^ 9) (foldl wd_step new_Watchdog demo_watch)
      = (w', expired, next)"
    by (metis prod_cases3)
  have "objects_go (map fst demo_watch @ [\<lambda>_. True])" by (simp add: objects_go_def demo_watch_def)
  from watchdog_timely [OF s order_refl this] s demo_watch_armed show ?thesis by auto
qed

end
