(* ===== verification/SoftFaultLog.thy ===== *)
theory SoftFaultLog
  imports Registry
begin

text \<open>
  \<^verbatim>\<open>SoftFaultLogOut\<close> of \<^verbatim>\<open>src/soft_fault_log.cc\<close> as XrdCl's log sees it: installed, it copies each line to the error stream
  and counts the Error-level ones in the registry it points to; torn down, XrdCl's own output takes the lines and
  the registry is left alone.
\<close>

record xrdcl_log =
  xl_installed :: bool
  xl_copied :: string

definition sf_Install :: "xrdcl_log \<Rightarrow> xrdcl_log" where
  "sf_Install l = l \<lparr> xl_installed := True \<rparr>"

definition sf_TearDown :: "xrdcl_log \<Rightarrow> xrdcl_log" where
  "sf_TearDown l = l \<lparr> xl_installed := False \<rparr>"

text \<open>The copy ends with a newline unless the line is empty.\<close>

definition copied_line :: "string \<Rightarrow> string" where
  "copied_line message = message @ (if message \<noteq> [] \<and> last message \<noteq> CHR 10 then [CHR 10] else [])"

definition sf_Write :: "string \<Rightarrow> xrdcl_log \<times> MetricsRegistry \<Rightarrow> xrdcl_log \<times> MetricsRegistry" where
  "sf_Write message = (\<lambda>(l, r).
     if xl_installed l then (l \<lparr> xl_copied := xl_copied l @ copied_line message \<rparr>, SoftFaultLogOut_Write message r) else (l, r))"

definition sf_writes :: "string list \<Rightarrow> xrdcl_log \<times> MetricsRegistry \<Rightarrow> xrdcl_log \<times> MetricsRegistry" where
  "sf_writes ms s = foldl (\<lambda>s m. sf_Write m s) s ms"

text \<open>Counting changes neither the copy nor the other books, and stops at the tear-down.\<close>

lemma sf_writes_registry:
  "sf_writes ms (l, r) = (if xl_installed l then (l \<lparr> xl_copied := xl_copied l @ concat (map copied_line ms) \<rparr>,
      foldl (\<lambda>r m. SoftFaultLogOut_Write m r) r ms) else (l, r))"
  by (induction ms arbitrary: l r) (simp_all add: sf_writes_def sf_Write_def)

lemma torn_down_silent: "snd (sf_writes ms (sf_TearDown l, r)) = r"
  by (simp add: sf_writes_registry sf_TearDown_def)

end
