(* ===== verification/ProcStat.thy ===== *)
theory ProcStat
  imports Printf
begin

text \<open>
  \<^verbatim>\<open>SampleProcess\<close> of \<^verbatim>\<open>src/metrics.cc\<close>: the CPU seconds and the resident bytes read from the texts of \<^verbatim>\<open>/proc/self/stat\<close>
  and \<^verbatim>\<open>/proc/self/statm\<close>, with the C library's number readers. A \<^verbatim>\<open>long\<close> has 64 bits. The file system and \<^verbatim>\<open>sysconf\<close> are
  arguments: \<open>None\<close> is a file that cannot be opened.
\<close>

section \<open>Reading numbers\<close>

text \<open>White space, a sign, digits: the magnitude, whether it is negated, and what is left; \<open>None\<close> without digits.\<close>

definition scan_integer :: "string \<Rightarrow> (bool \<times> int \<times> string) option" where
  "scan_integer s =
     (let s1 = dropWhile is_space s;
          (neg, s2) = (case s1 of [] \<Rightarrow> (False, []) | c # t \<Rightarrow>
             if c = CHR ''-'' then (True, t) else if c = CHR ''+'' then (False, t) else (False, s1));
          ds = takeWhile is_digit s2
      in if ds = [] then None else Some (neg, dec_to_int ds, dropWhile is_digit s2))"

text \<open>\<^verbatim>\<open>strtoul\<close>, base 10: too large a magnitude gives \<^verbatim>\<open>ULONG_MAX\<close>, a minus sign negates modulo \<open>2 ^ 64\<close>.\<close>

definition strtoul :: "string \<Rightarrow> (u64 \<times> string) option" where
  "strtoul s = map_option (\<lambda>(neg, n, rest).
     (if 2 ^ 64 \<le> n then - 1 else if neg then - word_of_int n else word_of_int n, rest)) (scan_integer s)"

text \<open>\<^verbatim>\<open>>>\<close> into a \<^verbatim>\<open>uint64_t\<close>: too large a magnitude fails.\<close>

definition extract_u64 :: "string \<Rightarrow> (u64 \<times> string) option" where
  "extract_u64 s = (case scan_integer s of None \<Rightarrow> None | Some (neg, n, rest) \<Rightarrow>
     if 2 ^ 64 \<le> n then None else Some (if neg then - word_of_int n else word_of_int n, rest))"

section \<open>The process' record\<close>

record proc_env =
  pe_ticks :: int
  pe_page :: int
  pe_stat :: "string option"
  pe_statm :: "string option"

text \<open>What follows the last \<^verbatim>\<open>)\<close> and the character after it; \<open>None\<close> where the code gives up. A C string ends at NUL.\<close>

definition after_comm :: "string \<Rightarrow> string option" where
  "after_comm line =
     (if CHR '')'' \<notin> set line then None
      else let rest = rev (takeWhile (\<lambda>c. c \<noteq> CHR '')'') (rev line))
           in if length rest \<le> 1 then None else Some (takeWhile (\<lambda>c. code_of c \<noteq> 0) (tl rest)))"

fun read_fields :: "nat \<Rightarrow> string \<Rightarrow> u64 list option" where
  "read_fields 0 s = Some []"
| "read_fields (Suc n) s =
     (case strtoul (dropWhile (\<lambda>c. c = CHR '' '') s) of
        None \<Rightarrow> None
      | Some (v, rest) \<Rightarrow> map_option (\<lambda>vs. v # vs) (read_fields n rest))"

definition stat_times :: "string \<Rightarrow> (u64 \<times> u64) option" where
  "stat_times line =
     (case after_comm line of
        None \<Rightarrow> None
      | Some p \<Rightarrow>
          let p = dropWhile (\<lambda>c. c = CHR '' '') p;
              p = dropWhile (\<lambda>c. c \<noteq> CHR '' '') p
          in map_option (\<lambda>vs. (vs ! 10, vs ! 11)) (read_fields 12 p))"

definition statm_resident :: "string \<Rightarrow> u64 option" where
  "statm_resident s =
     (case extract_u64 s of None \<Rightarrow> None | Some (_, rest) \<Rightarrow> map_option fst (extract_u64 rest))"

definition first_line :: "string \<Rightarrow> string option" where
  "first_line s = (if s = [] then None else Some (takeWhile (\<lambda>c. c \<noteq> CHR 10) s))"

definition SampleProcess :: "proc_env \<Rightarrow> double \<times> u64" where
  "SampleProcess E =
     (if pe_ticks E \<le> 0 \<or> pe_page E \<le> 0 then (Fin 0, 0)
      else case Option.bind (Option.bind (pe_stat E) first_line) stat_times of
        None \<Rightarrow> (Fin 0, 0)
      | Some (utime, stime) \<Rightarrow>
          (ddiv (d_of_u64 (utime + stime)) (d_of_int (pe_ticks E)),
           case Option.bind (pe_statm E) statm_resident of
             None \<Rightarrow> 0
           | Some resident \<Rightarrow> resident * word_of_int (pe_page E)))"

section \<open>The right fields are read\<close>

lemma digit_facts:
  assumes "is_digit c"
  shows "\<not> is_space c" "c \<noteq> CHR ''-''" "c \<noteq> CHR ''+''" "c \<noteq> CHR '' ''" "c \<noteq> CHR '')''" "c \<noteq> CHR 10" "code_of c \<noteq> 0"
  using assms by (auto simp: is_digit_def is_space_def code_of_def)

lemma takeWhile_digits:
  assumes "list_all is_digit ds" "rest = [] \<or> \<not> is_digit (hd rest)"
  shows "takeWhile is_digit (ds @ rest) = ds" "dropWhile is_digit (ds @ rest) = rest"
  using assms by (induction ds) (auto simp: takeWhile_eq_Nil_iff dropWhile_eq_self_iff)

lemma int_dec_cases: "int_dec v = (if v < 0 then CHR ''-'' # int_to_dec (- v) else int_to_dec v)"
  by (simp add: int_dec_def)

lemma scan_integer_int_dec:
  assumes "rest = [] \<or> \<not> is_digit (hd rest)"
  shows "scan_integer (int_dec v @ rest) = Some (v < 0, \<bar>v\<bar>, rest)"
proof -
  have d: "list_all is_digit (int_to_dec \<bar>v\<bar>)" by (simp add: int_to_dec_digits)
  obtain c cs where c: "int_to_dec \<bar>v\<bar> = c # cs" "is_digit c"
    using d int_to_dec_nonempty [of "\<bar>v\<bar>"] by (cases "int_to_dec \<bar>v\<bar>") auto
  note t = takeWhile_digits [OF d assms] dec_to_int_to_dec [of "\<bar>v\<bar>"]
  show ?thesis
  proof (cases "v < 0")
    case True
    have "\<not> is_space (CHR ''-'')" by (simp add: is_space_def code_of_def)
    then show ?thesis using True t by (simp add: scan_integer_def int_dec_def Let_def)
  next
    case False
    then have v: "int_dec v = c # cs" "\<bar>v\<bar> = v" using c(1) by (simp_all add: int_dec_def)
    have "dropWhile is_space (int_dec v @ rest) = c # cs @ rest" using digit_facts(1) [OF c(2)] by (simp add: v(1))
    then show ?thesis using False t digit_facts [OF c(2)] unfolding scan_integer_def Let_def c(1) by (simp add: v(2))
  qed
qed

lemma strtoul_int_dec:
  assumes "rest = [] \<or> \<not> is_digit (hd rest)" "\<bar>v\<bar> < 2 ^ 64"
  shows "strtoul (int_dec v @ rest) = Some (word_of_int v, rest)"
  using assms(2) by (simp add: strtoul_def scan_integer_int_dec [OF assms(1)])

text \<open>The numbers of a line, each after a blank.\<close>

definition blank_joined :: "int list \<Rightarrow> string" where
  "blank_joined vs = concat (map (\<lambda>v. CHR '' '' # int_dec v) vs)"

lemma int_dec_start: "int_dec v \<noteq> [] \<and> hd (int_dec v) \<noteq> CHR '' ''"
proof (cases "v < 0")
  case False
  have "list_all is_digit (int_to_dec v)" using False by (simp add: int_to_dec_digits)
  then have "is_digit (hd (int_to_dec v))" using int_to_dec_nonempty [of v] by (cases "int_to_dec v") auto
  then show ?thesis using False digit_facts by (simp add: int_dec_def)
qed (simp add: int_dec_def)

lemma read_fields_blank:
  assumes "list_all (\<lambda>v. \<bar>v\<bar> < 2 ^ 64) vs" "rest = [] \<or> hd rest = CHR '' ''"
  shows "read_fields (length vs) (blank_joined vs @ rest) = Some (map word_of_int vs)"
  using assms(1)
proof (induction vs)
  case Nil
  then show ?case by simp
next
  case (Cons v vs)
  let ?t = "blank_joined vs @ rest"
  have b: "\<not> is_digit (CHR '' '')" by (simp add: is_digit_def code_of_def)
  have t: "?t = [] \<or> \<not> is_digit (hd ?t)"
    using assms(2) b by (cases vs) (auto simp: blank_joined_def)
  have "dropWhile (\<lambda>c. c = CHR '' '') (blank_joined (v # vs) @ rest) = int_dec v @ ?t"
    using int_dec_start [of v] by (cases "int_dec v") (auto simp: blank_joined_def)
  then show ?case using Cons strtoul_int_dec [OF t, of v] by simp
qed

text \<open>C31. The CPU time is read from the right fields whatever the program is called: blanks, digits and parentheses in the
  name between the parentheses of \<^verbatim>\<open>/proc/self/stat\<close> do not shift them. The result is user plus system time in
  ticks over the ticks of a second, and the resident pages times the page size.\<close>

theorem SampleProcess_reads_times:
  assumes "0 < pe_ticks E" "0 < pe_page E"
    and "pe_stat E = Some (pid @ '' ('' @ comm @ '') '' @ [state] @ blank_joined nums @ rest)"
    and "CHR 10 \<notin> set (pid @ comm)" "state \<notin> {CHR '' '', CHR '')'', CHR 10}" "code_of state \<noteq> 0"
    and "length nums = 12" "list_all (\<lambda>v. \<bar>v\<bar> < 2 ^ 64) nums"
    and "rest = [] \<or> hd rest = CHR '' ''" "CHR '')'' \<notin> set rest" "CHR 10 \<notin> set rest" "\<forall>c\<in>set rest. code_of c \<noteq> 0"
    and "pe_statm E = Some (int_dec pages @ '' '' @ int_dec resident @ others)" "0 \<le> pages" "pages < 2 ^ 64"
    and "0 \<le> resident" "resident < 2 ^ 64" "others = [] \<or> \<not> is_digit (hd others)"
  shows "SampleProcess E =
    (ddiv (d_of_u64 (word_of_int (nums ! 10) + word_of_int (nums ! 11))) (d_of_int (pe_ticks E)),
     word_of_int resident * word_of_int (pe_page E))"
proof -
  let ?f = "blank_joined nums"
  have d: "c \<noteq> CHR '')'' \<and> c \<noteq> CHR 10 \<and> code_of c \<noteq> 0" if "c \<in> set ?f" for c
  proof -
    have "c = CHR '' '' \<or> (\<exists>v. c \<in> set (int_dec v))" using that by (auto simp: blank_joined_def split: if_splits)
    moreover have "c = CHR ''-'' \<or> is_digit c" if "c \<in> set (int_dec v)" for v
    proof -
      have "list_all is_digit (int_to_dec \<bar>v\<bar>)" by (simp add: int_to_dec_digits)
      then show ?thesis using that by (auto simp: int_dec_def list_all_iff split: if_splits)
    qed
    ultimately consider "c = CHR '' ''" | "c = CHR ''-''" | "is_digit c" by blast
    then show ?thesis
    proof cases
      case 3
      then show ?thesis using digit_facts [of c] by simp
    qed (simp_all add: code_of_def)
  qed
  let ?tail = "CHR '' '' # state # ?f @ rest" and ?line = "pid @ '' ('' @ comm @ '') '' @ [state] @ ?f @ rest"
  have nl: "CHR 10 \<notin> set ?line" using assms(4,5,11) d by auto
  then have l: "first_line ?line = Some ?line" by (auto simp: first_line_def)
  have p: "CHR '')'' \<notin> set ?tail" using assms(5,10) d by auto
  have tl: "?line = (pid @ '' ('' @ comm) @ CHR '')'' # ?tail" by simp
  have "takeWhile (\<lambda>c. c \<noteq> CHR '')'') (rev ?tail @ CHR '')'' # ys) = rev ?tail" for ys
    using p by (subst takeWhile_append2) auto
  then have a: "rev (takeWhile (\<lambda>c. c \<noteq> CHR '')'') (rev ?line)) = ?tail" unfolding tl by simp
  have "takeWhile (\<lambda>c. code_of c \<noteq> 0) (state # ?f @ rest) = state # ?f @ rest"
    using assms(6,12) d by (subst takeWhile_eq_all_conv) auto
  then have "after_comm ?line = Some (state # ?f @ rest)" unfolding after_comm_def Let_def a by simp
  moreover have "dropWhile (\<lambda>c. c \<noteq> CHR '' '') (state # ?f @ rest) = ?f @ rest"
    using assms(5,7) by (cases nums) (auto simp: blank_joined_def)
  ultimately have t: "stat_times ?line = Some (word_of_int (nums ! 10), word_of_int (nums ! 11))"
    using read_fields_blank [OF assms(8,9)] assms(5,7) by (simp add: stat_times_def Let_def)
  have b: "\<not> is_digit (CHR '' '')" "is_space (CHR '' '')" by (simp_all add: is_digit_def is_space_def code_of_def)
  have "scan_integer (CHR '' '' # s) = scan_integer s" for s using b by (simp add: scan_integer_def)
  then have m: "statm_resident (int_dec pages @ '' '' @ int_dec resident @ others) = Some (word_of_int resident)"
    using scan_integer_int_dec [of "'' '' @ int_dec resident @ others" pages] scan_integer_int_dec [OF assms(18), of resident] b assms(14-17)
    by (simp add: statm_resident_def extract_u64_def)
  show ?thesis using assms(1,2) l t m by (simp add: SampleProcess_def assms(3,13))
qed

lemma SampleProcess_reads_times_witness:
  "SampleProcess \<lparr> pe_ticks = 100, pe_page = 4096,
      pe_stat = Some (''42'' @ '' ('' @ ''a) 1 (b'' @ '') '' @ [CHR ''S''] @ blank_joined [1, 42, 42, 0, -1, 4, 5, 6, 7, 8, 300, 100] @ '' 0 0''),
      pe_statm = Some (int_dec 500 @ '' '' @ int_dec 25 @ '' 7'') \<rparr>
    = (ddiv (d_of_u64 (word_of_int 300 + word_of_int 100)) (d_of_int 100), word_of_int 25 * word_of_int 4096)"
  by (subst SampleProcess_reads_times [where nums = "[1, 42, 42, 0, -1, 4, 5, 6, 7, 8, 300, 100]" and state = "CHR ''S''"
      and pid = "''42''" and comm = "''a) 1 (b''" and rest = "'' 0 0''" and pages = 500 and resident = 25 and others = "'' 7''"])
    (simp_all add: code_of_def is_digit_def)

end
