(* ===== verification/RunCommand.thy ===== *)
theory RunCommand
  imports EngineRuns Report Chirp
begin

text \<open>
  \<^verbatim>\<open>src/run_command.cc\<close> around the engine, with \<^verbatim>\<open>xrdcl_env.cc\<close>: the checks and the dry run, the sinks' start, the periodic
  snapshots, the final snapshot with its files, pushes and printed summary, the exit code. What the program does
  to the outside is collected in \<open>outputs\<close>.
\<close>

section \<open>The environment\<close>

record 'j run_env =
  re_json :: "'j json_api"
  re_files :: file_env
  re_site_map :: "string \<Rightarrow> string option"
  re_curl :: curl_api
  re_http :: "http_request \<Rightarrow> http_result"
  re_chirp :: chirp_env
  re_hostname :: "string option"
  re_has_xrd_env :: bool
  re_version :: string
  re_arch :: string
  re_xrd_version :: string

text \<open>Files, requests to the Pushgateway, chirp commands, settings of the XrdCl environment, the lines of the error
  stream and of the output.\<close>

record outputs =
  ou_disk :: disk
  ou_requests :: "http_request list"
  ou_chirp :: "chirp_command list"
  ou_xrdcl :: "(string \<times> int) list"
  ou_err :: "string list"
  ou_out :: "string list"

definition log_err :: "string \<Rightarrow> outputs \<Rightarrow> outputs" where
  "log_err line u = u \<lparr> ou_err := ou_err u @ [line] \<rparr>"

definition log_lines :: "string list \<Rightarrow> outputs \<Rightarrow> outputs" where
  "log_lines ls u = u \<lparr> ou_err := ou_err u @ ls \<rparr>"

definition error_of :: "fault \<Rightarrow> string" where
  "error_of e = ''error: '' @ what e"

definition ApplyXrdClTimeouts :: "'j run_env \<Rightarrow> int \<Rightarrow> int \<Rightarrow> int \<Rightarrow> double \<Rightarrow> bool \<Rightarrow> outputs \<Rightarrow> outputs" where
  "ApplyXrdClTimeouts E connection_window_s connection_retry request_timeout_s session_timeout_s logging u =
     (if \<not> re_has_xrd_env E then u
      else let u = u \<lparr> ou_xrdcl := ou_xrdcl u
             @ (if 0 < connection_window_s then [(''ConnectionWindow'', connection_window_s)] else [])
             @ (if 0 \<le> connection_retry then [(''ConnectionRetry'', connection_retry)] else [])
             @ (if 0 < request_timeout_s then [(''RequestTimeout'', request_timeout_s)] else []) \<rparr>
           in if \<not> logging then u
              else log_err (''xrdcl timeouts: ConnectionWindow='' @ int_dec connection_window_s @ ''s ConnectionRetry=''
                @ int_dec connection_retry @ '' RequestTimeout='' @ int_dec request_timeout_s @ ''s session_timeout=''
                @ (if dlt (Fin 0) session_timeout_s then FormatDuration session_timeout_s else ''off'')) u)"

section \<open>The dry run\<close>

definition DescribeTargetRate :: "RunConfig \<Rightarrow> string" where
  "DescribeTargetRate cfg =
     (if rc_target_rate_bytes_per_s cfg = 0 then ''uncapped''
      else FormatRate (rc_target_rate_bytes_per_s cfg)
        @ (if rc_target_rate_input cfg \<noteq> [] then '' (from '' @ quoted (rc_target_rate_input cfg) @ '')'' else []))"

definition or_disabled :: "string \<Rightarrow> string" where
  "or_disabled s = (if s = [] then ''(disabled)'' else s)"

definition PrintDryRun :: "RunConfig \<Rightarrow> string list" where
  "PrintDryRun cfg =
     [''run_id:         '' @ rc_run_id cfg,
      ''job_id:         '' @ (if rc_job_id cfg = [] then ''(hostname|local)'' else rc_job_id cfg),
      ''duration:       '' @ FormatDuration (rc_duration_s cfg),
      ''endpoint:       '' @ rc_endpoint cfg,
      ''filelist:       '' @ rc_filelist_path cfg @ '' ('' @ nat_to_dec (length (rc_files cfg)) @ '' files)'',
      ''target_rate:    '' @ DescribeTargetRate cfg,
      ''max_inflight:   '' @ nat_to_dec (unat (rc_max_inflight cfg)),
      ''pattern:        '' @ PatternTypeName (rc_pattern cfg),
      ''chunk_size:     '' @ FormatBytes (ucast (rc_chunk_size cfg))]
     @ (if rc_pattern cfg = Vector \<or> rc_pattern cfg = Mixed
        then [''vector_chunks:  '' @ nat_to_dec (unat (rc_vector_chunks cfg))]
             @ (if rc_pattern cfg = Mixed then [''vector_fraction:'' @ fmt_f 2 (rc_vector_fraction cfg)] else [])
        else [])
     @ [(if 0 < rc_max_bytes cfg
         then ''max_bytes:      '' @ FormatBytes (rc_max_bytes cfg) @ (if rc_max_bytes_auto cfg then '' (auto)'' else [])
         else ''max_bytes:      (none)''),
        ''session_timeout:'' @ (if dlt (Fin 0) (rc_session_timeout_s cfg) then FormatDuration (rc_session_timeout_s cfg) else ''off''),
        ''conn_window:    '' @ int_dec (rc_connection_window_s cfg) @ '' s (XrdCl)'',
        ''seed:           '' @ u64_dec (rc_seed cfg),
        ''results_dir:    '' @ (if rc_write_results cfg then rc_results_dir cfg else ''(disabled)''),
        ''snapshot:       '' @ FormatDuration (rc_snapshot_interval_s cfg),
        ''pushgateway:    '' @ or_disabled (rc_pushgateway_url cfg)]
     @ (if rc_pushgateway_url cfg \<noteq> [] then [''push_job:       '' @ rc_pushgateway_job cfg] else [])
     @ [''chirp_classads: '' @ (if rc_chirp_classads cfg then ''on'' else ''off''),
        ''chirp_prom:     '' @ or_disabled (rc_chirp_prom_path cfg),
        ''site_map:       '' @ (if rc_site_map_path cfg = [] then ''(none)'' else rc_site_map_path cfg),
        ''sitename_query: '' @ (if rc_sitename_query cfg then ''on'' else ''off''),
        ''dry_run:        true (no I/O)'']
     @ (case rc_files cfg of [] \<Rightarrow> [] | f # _ \<Rightarrow> [''example URL:    '' @ JoinUrl (rc_endpoint cfg) f])"

section \<open>Sinks\<close>

record sinks =
  si_file :: "FileSink option"
  si_push :: "PushgatewaySink option"
  si_chirp :: "ChirpSink option"

definition any_sink :: "sinks \<Rightarrow> bool" where
  "any_sink k \<longleftrightarrow> si_file k \<noteq> None \<or> si_push k \<noteq> None \<or> si_chirp k \<noteq> None"

definition run_meta :: "'j run_env \<Rightarrow> RunConfig \<Rightarrow> RunInfoMeta" where
  "run_meta E cfg = \<lparr> rm_version = re_version E, rm_arch = re_arch E, rm_xrdcl_version = re_xrd_version E,
     rm_seed = rc_seed cfg, rm_pattern = PatternTypeName (rc_pattern cfg), rm_schema_version = rc_schema_version cfg,
     rm_auth_mode = rc_auth_mode cfg, rm_workload_hash = rc_workload_hash cfg,
     rm_workload_resolved_json = rc_workload_resolved_json cfg \<rparr>"

text \<open>Each step that can fail ends the run with code 2 and its message; \<open>Inl\<close> carries that code.\<close>

definition load_site_map :: "'j run_env \<Rightarrow> RunConfig \<Rightarrow> outputs \<Rightarrow> (int + SiteMap option) \<times> outputs" where
  "load_site_map E cfg u =
     (if rc_site_map_path cfg = [] then (Inr None, u)
      else case sm_LoadFile (re_json E) (rc_site_map_path cfg) (re_site_map E (rc_site_map_path cfg)) of
        Inl e \<Rightarrow> (Inl 2, log_err (error_of e) u)
      | Inr m \<Rightarrow> (Inr (Some m), log_err (''site_map: loaded '' @ nat_to_dec (length (sm_exact m) + length (sm_suffixes m))
          @ '' entries from '' @ rc_site_map_path cfg) u))"

definition open_file_sink :: "'j run_env \<Rightarrow> RunConfig \<Rightarrow> outputs \<Rightarrow> (int + FileSink option) \<times> outputs" where
  "open_file_sink E cfg u =
     (if \<not> rc_write_results cfg then (Inr None, u)
      else let (r, d) = FileSink_Start (re_files E) (new_FileSink (rc_results_dir cfg) (rc_run_id cfg) (run_meta E cfg)) (ou_disk u);
               u = u \<lparr> ou_disk := d \<rparr>
           in case r of
                Inl e \<Rightarrow> (Inl 2, log_err (error_of e) u)
              | Inr k \<Rightarrow> (Inr (Some k), log_err (''results: '' @ fk_run_dir k) u))"

definition open_push_sink :: "'j run_env \<Rightarrow> RunConfig \<Rightarrow> string \<Rightarrow> outputs \<Rightarrow> (int + PushgatewaySink option) \<times> outputs" where
  "open_push_sink E cfg job_id u =
     (if rc_pushgateway_url cfg = [] then (Inr None, u)
      else case new_PushgatewaySink (re_curl E) (rc_pushgateway_url cfg) (rc_pushgateway_job cfg) of
        Inl e \<Rightarrow> (Inl 2, log_err (error_of e) u)
      | Inr k \<Rightarrow> (Inr (Some k), log_err (''pushgateway: '' @ rc_pushgateway_url cfg @ '' (job='' @ rc_pushgateway_job cfg
          @ '' src_dst='' @ rc_run_id cfg @ '' replica='' @ job_id @ '')'') u))"

definition open_chirp_sink :: "'j run_env \<Rightarrow> RunConfig \<Rightarrow> string \<Rightarrow> outputs \<Rightarrow> ChirpSink option \<times> outputs" where
  "open_chirp_sink E cfg job_id u =
     (if \<not> rc_chirp_classads cfg \<and> rc_chirp_prom_path cfg = [] then (None, u)
      else let k = new_ChirpSink (re_chirp E) (rc_chirp_binary cfg) (rc_chirp_prom_path cfg) (rc_chirp_classads cfg)
                 (rc_run_id cfg) job_id
           in if Available k
              then (Some k, log_err (''chirp: classads='' @ (if rc_chirp_classads cfg then ''on'' else ''off'')
                     @ '' prom='' @ or_disabled (rc_chirp_prom_path cfg)) u)
              else (None, log_err ''chirp: condor_chirp not found; chirp sink disabled'' u))"

definition or_stop :: "(int + 'a) \<times> outputs \<Rightarrow> ('a \<Rightarrow> outputs \<Rightarrow> (int + 'b) \<times> outputs) \<Rightarrow> (int + 'b) \<times> outputs" where
  "or_stop r f = (case r of (Inl code, u) \<Rightarrow> (Inl code, u) | (Inr x, u) \<Rightarrow> f x u)"

text \<open>\<^verbatim>\<open>RunEngine\<close> up to the start of the loop.\<close>

definition start_run :: "'j run_env \<Rightarrow> RunConfig \<Rightarrow> outputs \<Rightarrow> (int + SiteMap option \<times> sinks) \<times> outputs" where
  "start_run E cfg u =
     (let job_id = the_job_id (re_hostname E) cfg;
          u = ApplyXrdClTimeouts E (rc_connection_window_s cfg) (rc_connection_retry cfg) (rc_request_timeout_s cfg)
                (rc_session_timeout_s cfg) True u
      in or_stop (load_site_map E cfg u) (\<lambda>site_map u.
         let u = (if rc_sitename_query cfg
                  then log_err ''sitename_query: on (background thread; independent of I/O and scheduling)'' u else u)
         in or_stop (open_file_sink E cfg u) (\<lambda>file u.
            or_stop (open_push_sink E cfg job_id u) (\<lambda>push u.
              let (chirp, u) = open_chirp_sink E cfg job_id u;
                  u = log_err (''run '' @ rc_run_id cfg @ '': duration='' @ FormatDuration (rc_duration_s cfg) @ '' rate=''
                        @ DescribeTargetRate cfg @ '' max_inflight='' @ nat_to_dec (unat (rc_max_inflight cfg)) @ '' pattern=''
                        @ PatternTypeName (rc_pattern cfg) @ '' files='' @ nat_to_dec (length (rc_files cfg))
                        @ '' bucket_capacity='' @ FormatBytes (ComputeBucketCapacity cfg)) u
              in (Inr (site_map, \<lparr> si_file = file, si_push = push, si_chirp = chirp \<rparr>), u)))))"

section \<open>Snapshots\<close>

text \<open>One PUT, with the warning of its caller where it fails.\<close>

definition push_snapshot :: "'j run_env \<Rightarrow> int \<Rightarrow> string \<Rightarrow> MetricsSnapshot \<Rightarrow> PushgatewaySink \<Rightarrow> outputs
    \<Rightarrow> (PushgatewaySink \<times> outputs) res" where
  "push_snapshot E unix_time warning snap k u =
     res_bind (pw_Push (re_curl E) (re_http E) unix_time snap k) (\<lambda>(out, k). Inr
       (k, u \<lparr> ou_requests := ou_requests u @ po_requests out,
               ou_err := ou_err u @ po_printed out @ (if po_ok out then [] else [''warning: '' @ warning @ '' failed'']) \<rparr>))"

text \<open>The end of \<^verbatim>\<open>take_snapshot\<close>: the snapshot goes to every sink. It runs on the timer's thread, where an exception
  ends the process.\<close>

definition emit_snapshot :: "'j run_env \<Rightarrow> int \<Rightarrow> MetricsSnapshot \<Rightarrow> sinks \<Rightarrow> outputs \<Rightarrow> (sinks \<times> outputs) res" where
  "emit_snapshot E unix_time snap k u =
     res_bind (case si_file k of
         None \<Rightarrow> Inr (None, u)
       | Some f \<Rightarrow> (let (r, d) = WriteSnapshot (re_json E) snap f (ou_disk u)
                   in res_bind r (\<lambda>f. Inr (Some f, u \<lparr> ou_disk := d \<rparr>)))) (\<lambda>(file, u).
     res_bind (case si_push k of
         None \<Rightarrow> Inr (None, u)
       | Some p \<Rightarrow> res_bind (push_snapshot E unix_time ''pushgateway push'' snap p u) (\<lambda>(p, u). Inr (Some p, u))) (\<lambda>(push, u).
     res_bind (case si_chirp k of
         None \<Rightarrow> Inr u
       | Some c \<Rightarrow> res_bind (chirp_Push unix_time snap c) (\<lambda>cs. Inr (u \<lparr> ou_chirp := ou_chirp u @ cs \<rparr>))) (\<lambda>u.
       Inr (k \<lparr> si_file := file, si_push := push \<rparr>, u))))"

text \<open>The timer's loop: how long it sleeps (milliseconds), or that a snapshot is due.\<close>

definition timer_interval :: "RunConfig \<Rightarrow> int res" where
  "timer_interval cfg = ns_of_seconds (dmax (rc_snapshot_interval_s cfg) (lit (1 / 10)))"

definition timer_turn :: "int \<Rightarrow> int \<Rightarrow> int option" where
  "timer_turn next now = (if now < next then Some (min ((next - now) div 10 ^ 6) 50) else None)"

section \<open>Runs\<close>

text \<open>A step of the run: of the engine, or the timer's snapshot with the process sample, the wall time and the clock.\<close>

datatype run_action = EngineStep engine_action | TakeSnapshot "double \<times> u64" double int

type_synonym 'r run_state = "'r engine \<times> sinks \<times> outputs"

fun run_act :: "'j run_env \<Rightarrow> 'r rng_api \<Rightarrow> run_action \<Rightarrow> 'r run_state \<Rightarrow> 'r run_state res option" where
  "run_act E G (EngineStep a) (e, k, u) = map_option (\<lambda>r. res_bind r (\<lambda>e. Inr (e, k, u))) (engine_act G a e)"
| "run_act E G (TakeSnapshot proc wall_s unix_time) (e, k, u) =
     map_option (\<lambda>r. res_bind r (\<lambda>e.
         res_bind (emit_snapshot E unix_time (mr_Snapshot (re_hostname E) wall_s (en_registry e)) k u)
           (\<lambda>(k, u). Inr (e, k, u))))
       (engine_act G (Tick (if any_sink k then Some proc else None)) e)"

fun run_acts :: "'j run_env \<Rightarrow> 'r rng_api \<Rightarrow> run_action list \<Rightarrow> 'r run_state \<Rightarrow> 'r run_state option" where
  "run_acts E G [] s = Some s"
| "run_acts E G (a # as) s = (case run_act E G a s of Some (Inr s') \<Rightarrow> run_acts E G as s' | _ \<Rightarrow> None)"

text \<open>The state when the loop starts: the first process sample is taken if there is a sink.\<close>

definition begin_run ::
  "'j run_env \<Rightarrow> 'r rng_api \<Rightarrow> RunConfig \<Rightarrow> double \<times> u64 \<Rightarrow> int \<Rightarrow> sinks \<Rightarrow> outputs \<Rightarrow> 'r run_state res" where
  "begin_run E G cfg proc t0 k u =
     res_bind (new_engine G (re_hostname E) cfg t0) (\<lambda>e.
     res_bind (if any_sink k then mr_SampleProc proc (en_registry e) else Inr (en_registry e)) (\<lambda>reg.
       Inr (e \<lparr> en_registry := reg \<rparr>, k, u)))"

text \<open>What the engine sees of a run.\<close>

fun engine_part :: "bool \<Rightarrow> run_action \<Rightarrow> engine_action" where
  "engine_part sampled (EngineStep a) = a"
| "engine_part sampled (TakeSnapshot proc wall_s unix_time) = Tick (if sampled then Some proc else None)"

section \<open>The end of a run\<close>

definition fill_one ::
  "RunConfig \<Rightarrow> SiteMap option \<Rightarrow> (string \<Rightarrow> string) \<Rightarrow> SitenameCache \<times> MetricsRegistry \<Rightarrow> string \<Rightarrow> SitenameCache \<times> MetricsRegistry" where
  "fill_one cfg site_map query = (\<lambda>(cache, reg) ds.
     let (site, cache) = (if rc_sitename_query cfg then Resolve query cache ds else ([], cache));
         site = (if site = [] then (case site_map of None \<Rightarrow> [] | Some m \<Rightarrow> sm_Lookup m ds) else site)
     in (cache, if site \<noteq> [] then mr_SetCmsSite ds site reg else reg))"

definition fill_cms_sites ::
  "RunConfig \<Rightarrow> SiteMap option \<Rightarrow> (string \<Rightarrow> string) \<Rightarrow> SitenameCache \<Rightarrow> MetricsRegistry \<Rightarrow> SitenameCache \<times> MetricsRegistry" where
  "fill_cms_sites cfg site_map query cache reg =
     foldl (fill_one cfg site_map query) (cache, reg) (mr_DataServersMissingSite reg)"

definition final_snapshot ::
  "'j run_env \<Rightarrow> RunConfig \<Rightarrow> SiteMap option \<Rightarrow> (string \<Rightarrow> string) \<Rightarrow> SitenameCache \<Rightarrow> bool \<Rightarrow> double \<times> u64 \<Rightarrow> double
    \<Rightarrow> u64 \<Rightarrow> MetricsRegistry \<Rightarrow> MetricsSnapshot res" where
  "final_snapshot E cfg site_map query cache sampled proc elapsed live reg =
     res_bind (if sampled then mr_SampleProc proc reg else Inr reg) (\<lambda>reg.
       let (_, reg) = fill_cms_sites cfg site_map query cache (mr_SetInflight live reg)
       in Inr (mr_Snapshot (re_hostname E) elapsed reg))"

definition results_warning :: "fault \<Rightarrow> string" where
  "results_warning e = ''warning: results write failed: '' @ what e"

definition write_final :: "'j run_env \<Rightarrow> MetricsSnapshot \<Rightarrow> double \<Rightarrow> FileSink \<Rightarrow> outputs \<Rightarrow> outputs" where
  "write_final E snap cpu_at_start f u =
     (let (r, d) = dk_bind (WriteSnapshot (re_json E) snap f (ou_disk u)) (\<lambda>f d. WriteResult (re_json E) (re_files E) snap cpu_at_start f d);
          u = u \<lparr> ou_disk := d \<rparr>
      in case r of Inl e \<Rightarrow> log_err (results_warning e) u | Inr _ \<Rightarrow> u)"

definition idle_snapshot :: "MetricsSnapshot \<Rightarrow> MetricsSnapshot" where
  "idle_snapshot s = s \<lparr> ms_achieved_rate_bytes := Fin 0, ms_inflight_reads := 0, ms_by_data_server := om_empty,
     ms_by_cms_site := om_empty \<rparr>"

definition push_final :: "'j run_env \<Rightarrow> RunConfig \<Rightarrow> string \<Rightarrow> int \<Rightarrow> MetricsSnapshot \<Rightarrow> PushgatewaySink \<Rightarrow> outputs \<Rightarrow> outputs res" where
  "push_final E cfg job_id unix_time snap p u =
     res_bind (push_snapshot E unix_time ''final pushgateway push'' snap p u) (\<lambda>(p, u).
     res_bind (push_snapshot E unix_time ''idle (zero-rate) pushgateway push'' (idle_snapshot snap) p u) (\<lambda>(p, u). Inr
       (if rc_pushgateway_keep cfg
        then log_err (''pushgateway: keeping idle group job='' @ rc_pushgateway_job cfg @ '' src_dst='' @ rc_run_id cfg
               @ '' replica='' @ job_id) u
        else let (out, p) = pw_Finish (re_curl E) (re_http E) (rc_run_id cfg) job_id p
             in u \<lparr> ou_requests := ou_requests u @ po_requests out, ou_err := ou_err u @ po_printed out \<rparr>)))"

text \<open>The servers no site is known for.\<close>

definition unmapped :: "MetricsSnapshot \<Rightarrow> EndpointStats list" where
  "unmapped s = filter (\<lambda>ep. ep_cms_site ep = []) (map snd (ms_by_data_server s))"

definition unmapped_lines :: "RunConfig \<Rightarrow> MetricsSnapshot \<Rightarrow> string list" where
  "unmapped_lines cfg s =
     (if unmapped s = [] then []
      else [''unmapped:       '' @ nat_to_dec (length (unmapped s)) @ '' data_server(s) bytes=''
              @ FormatBytes (sum_list (map ep_bytes_read (unmapped s))) @ '' ok='' @ u64_dec (sum_list (map ep_sessions_ok (unmapped s)))
              @ '' fail='' @ u64_dec (sum_list (map ep_sessions_fail (unmapped s))) @ '' (detail: result.json by_data_server)'']
           @ (if rc_site_map_path cfg = [] \<and> \<not> rc_sitename_query cfg
              then [''hint:          enable sitename query (default) or --site-map for by_cms_site'']
              else if rc_site_map_path cfg = []
              then [''hint:          some servers omit sitename; optional --site-map for overrides''] else []))"

definition summary_lines :: "RunConfig \<Rightarrow> string \<Rightarrow> sinks \<Rightarrow> double \<Rightarrow> MetricsSnapshot \<Rightarrow> string list res" where
  "summary_lines cfg job_id k elapsed s =
     res_bind (cast_u64 (ms_achieved_rate_bytes s)) (\<lambda>achieved. Inr
     ([''=== run summary ==='', ''run_id:         '' @ rc_run_id cfg, ''job_id:         '' @ job_id,
       ''elapsed:        '' @ fmt_f 3 elapsed @ '' s'',
       ''sessions:       '' @ u64_dec (ms_sessions_ok s) @ '' ok / '' @ u64_dec (ms_sessions_fail s) @ '' fail'',
       ''bytes:          '' @ FormatBytes (ms_bytes_read_total s) @ '' ('' @ u64_dec (ms_bytes_read_total s) @ '')'',
       ''ops:            '' @ u64_dec (ms_read_ops_total s),
       ''achieved:       '' @ FormatRate achieved]
      @ (if rc_target_rate_bytes_per_s cfg \<noteq> 0 then [''target:         '' @ DescribeTargetRate cfg] else [])
      @ (case si_file k of None \<Rightarrow> [] | Some f \<Rightarrow> [''results:        '' @ fk_run_dir f])
      @ (case si_push k of None \<Rightarrow> [] | Some _ \<Rightarrow> [''pushgateway:    '' @ rc_pushgateway_url cfg])
      @ (case si_chirp k of None \<Rightarrow> [] | Some _ \<Rightarrow> [''chirp:          classads='' @ (if rc_chirp_classads cfg then ''on'' else ''off'')
           @ '' prom='' @ or_disabled (rc_chirp_prom_path cfg)])
      @ count_table ''errors'' (ms_errors_by_class s)
      @ count_table ''soft_faults'' (ms_soft_faults_by_kind s)
      @ (if ms_by_cms_site s = [] then []
         else ''by_cms_site:'' # map (\<lambda>(_, site). ''  '' @ pad_right 24 (st_cms_site site) @ '' bytes=''
                @ pad_right 12 (FormatBytes (st_bytes_read site)) @ '' ok='' @ u64_dec (st_sessions_ok site)
                @ '' fail='' @ u64_dec (st_sessions_fail site)) (ms_by_cms_site s))
      @ unmapped_lines cfg s))"

definition drain_warning :: "u64 \<Rightarrow> string list" where
  "drain_warning live = (if 0 < live then [''warning: drain timed out with '' @ u64_dec live @ '' session(s) still live''] else [])"

text \<open>\<^verbatim>\<open>RunEngine\<close> after the loop; \<open>live\<close> is the counter when the drain ends.\<close>

definition finish_run ::
  "'j run_env \<Rightarrow> RunConfig \<Rightarrow> SiteMap option \<Rightarrow> (string \<Rightarrow> string) \<Rightarrow> SitenameCache \<Rightarrow> double \<Rightarrow> double \<times> u64 \<Rightarrow> double
    \<Rightarrow> int \<Rightarrow> 'r run_state \<Rightarrow> (int \<times> MetricsSnapshot \<times> outputs) res" where
  "finish_run E cfg site_map query cache cpu_at_start proc elapsed unix_time = (\<lambda>(e, k, u).
     let job_id = the_job_id (re_hostname E) cfg;
         u = u \<lparr> ou_err := ou_err u @ drain_warning (en_live e) \<rparr>
     in res_bind (final_snapshot E cfg site_map query cache (any_sink k) proc elapsed (en_live e) (en_registry e)) (\<lambda>snap.
          let u = (case si_file k of None \<Rightarrow> u | Some f \<Rightarrow> write_final E snap cpu_at_start f u)
          in res_bind (case si_push k of None \<Rightarrow> Inr u | Some p \<Rightarrow> push_final E cfg job_id unix_time snap p u) (\<lambda>u.
             res_bind (case si_chirp k of None \<Rightarrow> Inr u
               | Some c \<Rightarrow> res_bind (chirp_Finish unix_time snap c) (\<lambda>cs. Inr (u \<lparr> ou_chirp := ou_chirp u @ cs \<rparr>))) (\<lambda>u.
             res_bind (summary_lines cfg job_id k elapsed snap) (\<lambda>lines.
               Inr (all_failed (ms_sessions_fail snap) (ms_sessions_ok snap), snap, u \<lparr> ou_out := ou_out u @ lines \<rparr>))))))"

section \<open>The command\<close>

definition auto_line :: "RunConfig \<Rightarrow> string" where
  "auto_line cfg = ''max_bytes auto '' @ [CHR 0xE2, CHR 0x86, CHR 0x92] @ '' '' @ FormatBytes (rc_max_bytes cfg)
     @ '' (rate/max_inflight '' @ [CHR 0xC3, CHR 0x97] @ '' '' @ fmt_f 0 kAutoMaxAmortizeSec @ ''s, capped at ''
     @ FormatBytes kAutoMaxHardCapBytes @ '')''"

text \<open>What the outside decides in a run: the process samples, the clock, the order of the steps, what the sitename
  queries answer and what their thread has cached.\<close>

record run_schedule =
  rs_first_sample :: "double \<times> u64"
  rs_t0 :: int
  rs_actions :: "run_action list"
  rs_query :: "string \<Rightarrow> string"
  rs_cache :: SitenameCache
  rs_cpu_at_start :: double
  rs_last_sample :: "double \<times> u64"
  rs_elapsed :: double
  rs_unix_time :: int

text \<open>\<^verbatim>\<open>RunEngine\<close> under a schedule; \<open>None\<close> where the schedule is not one of the run's, or an exception of a thread ends it.\<close>

definition RunEngine :: "'j run_env \<Rightarrow> 'r rng_api \<Rightarrow> run_schedule \<Rightarrow> RunConfig \<Rightarrow> outputs \<Rightarrow> (int \<times> outputs) res option" where
  "RunEngine E G sc cfg u =
     (case start_run E cfg u of
        (Inl code, u) \<Rightarrow> Some (Inr (code, u))
      | (Inr (site_map, k), u) \<Rightarrow>
          (case begin_run E G cfg (rs_first_sample sc) (rs_t0 sc) k u of
             Inl f \<Rightarrow> Some (Inl f)
           | Inr s \<Rightarrow>
               map_option (\<lambda>s. res_bind (finish_run E cfg site_map (rs_query sc) (rs_cache sc) (rs_cpu_at_start sc)
                   (rs_last_sample sc) (rs_elapsed sc) (rs_unix_time sc) s) (\<lambda>(code, snap, u). Inr (code, u)))
                 (run_acts E G (rs_actions sc) s)))"

text \<open>\<open>engine\<close> is \<^verbatim>\<open>RunEngine\<close> under some schedule.\<close>

definition RunRunCommand ::
  "(RunConfig \<Rightarrow> outputs \<Rightarrow> (int \<times> outputs) res option) \<Rightarrow> RunConfig \<Rightarrow> outputs \<Rightarrow> (int \<times> outputs) res option" where
  "RunRunCommand engine cfg_in u =
     (case ResolveRunConfig cfg_in of
        Inl Undefined_behaviour \<Rightarrow> Some (Inl Undefined_behaviour)
      | Inl e \<Rightarrow> Some (Inr (2, log_err (error_of e) u))
      | Inr cfg \<Rightarrow>
          if rc_endpoint cfg = [] then Some (Inr (2, log_err ''error: --endpoint is required'' u))
          else if rc_files cfg = [] then Some (Inr (2, log_err ''error: filelist is empty'' u))
          else if rc_dry_run cfg then Some (Inr (0, u \<lparr> ou_out := ou_out u @ PrintDryRun cfg \<rparr>))
          else engine cfg (if rc_max_bytes_auto cfg then log_err (auto_line cfg) u else u))"

end
