(* ===== verification/RunEnd.thy ===== *)
theory RunEnd
  imports RunCommand ReportBack
begin

text \<open>
  From the start of a run to its exit code: what the engine sees of a run is an engine run, so the theorems about
  those hold; the final snapshot has their totals; the exit code, the last requests to the Pushgateway and the
  report of the result file follow from it.
\<close>

section \<open>The engine's part of a run\<close>

lemma emit_any_sink: "emit_snapshot E t snap k u = Inr (k', u') \<Longrightarrow> any_sink k' = any_sink k"
  by (auto simp: emit_snapshot_def any_sink_def cxx_res Let_def split: option.splits prod.splits)

lemma run_act_engine:
  assumes "run_act E G a (e, k, u) = Some (Inr (e', k', u'))"
  shows "engine_act G (engine_part (any_sink k) a) e = Some (Inr e')" "any_sink k' = any_sink k"
  using assms by (cases a; force simp: cxx_res dest: emit_any_sink)+

lemma run_acts_engine:
  "run_acts E G as (e, k, u) = Some (e', k', u') \<Longrightarrow>
    engine_run G (map (engine_part (any_sink k)) as) e = Some e' \<and> any_sink k' = any_sink k"
proof (induction as arbitrary: e k u)
  case (Cons a as)
  obtain e1 k1 u1 where a: "run_act E G a (e, k, u) = Some (Inr (e1, k1, u1))"
    "run_acts E G as (e1, k1, u1) = Some (e', k', u')"
    using Cons.prems by (auto split: option.splits sum.splits)
  then show ?case using run_act_engine [OF a(1)] Cons.IH [OF a(2)] by simp
qed simp

lemma begin_run_tick:
  assumes "begin_run E G cfg proc t0 k u = Inr (e, k', u')"
  shows "k' = k" "\<exists>e0. new_engine G (re_hostname E) cfg t0 = Inr e0
    \<and> engine_act G (Tick (if any_sink k then Some proc else None)) e0 = Some (Inr e)"
proof -
  obtain e0 where e0: "new_engine G (re_hostname E) cfg t0 = Inr e0"
    and r: "res_bind (if any_sink k then mr_SampleProc proc (en_registry e0) else Inr (en_registry e0))
      (\<lambda>reg. Inr (e0 \<lparr> en_registry := reg \<rparr>, k, u)) = Inr (e, k', u')"
    using assms by (auto simp: begin_run_def cxx_res)
  show "k' = k" using r by (auto simp: cxx_res)
  have "mr_SetInflight (en_live e0) (en_registry e0) = en_registry e0"
    using e0 by (auto simp: new_engine_def cxx_res mr_SetInflight_def mr_SetConfigGauges_def mr_SetLabels_def
      new_MetricsRegistry_def)
  then have "engine_act G (Tick (if any_sink k then Some proc else None)) e0 = Some (Inr e)"
    using r by (auto simp: cxx_res split: if_splits)
  then show "\<exists>e0. new_engine G (re_hostname E) cfg t0 = Inr e0
    \<and> engine_act G (Tick (if any_sink k then Some proc else None)) e0 = Some (Inr e)" using e0 by blast
qed

text \<open>A whole run, as the engine sees it.\<close>

lemma whole_run:
  assumes "begin_run E G cfg proc t0 k u = Inr s0" "run_acts E G as s0 = Some (e, k', u')"
  obtains e0 acts where "new_engine G (re_hostname E) cfg t0 = Inr e0" "engine_run G acts e0 = Some e"
    "any_sink k' = any_sink k"
proof -
  obtain e1 k1 u1 where s0: "s0 = (e1, k1, u1)" by (cases s0)
  note b = begin_run_tick [OF assms(1) [unfolded s0]]
  obtain e0 where e0: "new_engine G (re_hostname E) cfg t0 = Inr e0"
    "engine_act G (Tick (if any_sink k then Some proc else None)) e0 = Some (Inr e1)" using b(2) by blast
  note r = run_acts_engine [OF assms(2) [unfolded s0]]
  have "engine_run G (Tick (if any_sink k then Some proc else None) # map (engine_part (any_sink k1)) as) e0 = Some e"
    using e0(2) r by simp
  moreover have "any_sink k' = any_sink k" using r b(1) by blast
  ultimately show thesis by (rule that [OF e0(1)])
qed

section \<open>The final snapshot\<close>

lemma SampleProc_totals: "mr_SampleProc x r = Inr r' \<Longrightarrow> totals r' = totals r"
  by (cases x) (auto simp: mr_SampleProc_def cxx_res totals_def)

lemma SetCmsSite_totals: "totals (mr_SetCmsSite ds site r) = totals r"
  by (auto simp: mr_SetCmsSite_def totals_def split: option.splits)

lemma fill_one_totals: "totals (snd (fill_one cfg m q (c, r) ds)) = totals r"
  by (auto simp: fill_one_def Let_def SetCmsSite_totals split: prod.splits)

lemma fill_totals: "totals (snd (fill_cms_sites cfg m q c r)) = totals r"
proof -
  have "totals (snd (foldl (fill_one cfg m q) (c, r) xs)) = totals r" for xs
  proof (induction xs arbitrary: c r)
    case (Cons x xs)
    obtain c1 r1 where "fill_one cfg m q (c, r) x = (c1, r1)" by fastforce
    then show ?case using Cons.IH [of c1 r1] fill_one_totals [of cfg m q c r x] by simp
  qed simp
  then show ?thesis by (simp add: fill_cms_sites_def)
qed

lemma final_snapshot_totals:
  assumes "final_snapshot E cfg m q c sampled proc elapsed live r = Inr snap"
  shows "(ms_bytes_read_total snap, ms_sessions_ok snap, ms_sessions_fail snap) = totals r" "ms_wall_s snap = elapsed"
proof -
  obtain r1 where r1: "(if sampled then mr_SampleProc proc r else Inr r) = Inr r1"
    "snap = mr_Snapshot (re_hostname E) elapsed (snd (fill_cms_sites cfg m q c (mr_SetInflight live r1)))"
    using assms by (auto simp: final_snapshot_def cxx_res Let_def case_prod_unfold)
  have "totals r1 = totals r" using r1(1) SampleProc_totals [of proc r] by (auto split: if_splits)
  moreover have "totals (mr_SetInflight live r1) = totals r1" by (simp add: totals_def mr_SetInflight_def)
  ultimately have "totals (snd (fill_cms_sites cfg m q c (mr_SetInflight live r1))) = totals r" by (simp add: fill_totals)
  then show "(ms_bytes_read_total snap, ms_sessions_ok snap, ms_sessions_fail snap) = totals r" "ms_wall_s snap = elapsed"
    unfolding r1(2) by (simp_all add: mr_Snapshot_def totals_def)
qed

section \<open>The exit code\<close>

definition ended_ok :: "'r engine_session \<Rightarrow> bool" where
  "ended_ok x \<longleftrightarrow> es_phase x \<noteq> Running \<and> fr_ok (fs_result (ss_fs (es_sys x)))"

definition ended_badly :: "'r engine_session \<Rightarrow> bool" where
  "ended_badly x \<longleftrightarrow> es_phase x \<noteq> Running \<and> \<not> fr_ok (fs_result (ss_fs (es_sys x)))"

lemma counted_lengths:
  "sum_list (map (\<lambda>x. fst (snd (counted x))) xs) = of_nat (length (filter ended_ok xs))"
  "sum_list (map (\<lambda>x. snd (snd (counted x))) xs) = of_nat (length (filter ended_badly xs))"
  by (induction xs) (simp_all add: counted_def ended_ok_def ended_badly_def Let_def)

lemma unat_small: "n < 2 ^ 64 \<Longrightarrow> unat (of_nat n :: u64) = n"
  by (simp add: unsigned_of_nat take_bit_nat_eq_self)

lemma finish_run_code:
  assumes "finish_run E cfg m q c cpu0 proc elapsed unix_time (e, k, u) = Inr (code, snap, u')"
  shows "code = all_failed (ms_sessions_fail snap) (ms_sessions_ok snap)"
    "final_snapshot E cfg m q c (any_sink k) proc elapsed (en_live e) (en_registry e) = Inr snap"
  using assms by (auto simp: finish_run_def cxx_res Let_def)

text \<open>C4. The exit code and the summary tell the truth, from the first step of a run to the last, whatever the threads did
  in between: the final snapshot counts exactly the sessions that ended well and those that ended badly, and
  the code is 1 if some ended badly and none well, else 0.\<close>

theorem run_exit_code:
  assumes "begin_run E G cfg proc0 t0 k0 u0 = Inr s0" "run_acts E G as s0 = Some (e, k, u)"
    and "finish_run E cfg m q c cpu0 proc elapsed unix_time (e, k, u) = Inr (code, snap, u')"
    and "length (en_sessions e) < 2 ^ 64"
  shows "unat (ms_sessions_ok snap) = length (filter ended_ok (en_sessions e))
    \<and> unat (ms_sessions_fail snap) = length (filter ended_badly (en_sessions e))
    \<and> code = (if filter ended_badly (en_sessions e) \<noteq> [] \<and> filter ended_ok (en_sessions e) = [] then 1 else 0)"
proof -
  obtain e0 acts where r: "new_engine G (re_hostname E) cfg t0 = Inr e0" "engine_run G acts e0 = Some e"
    using whole_run [OF assms(1,2)] by blast
  have i: "own_inv G e" "books_inv e" using engine_run_inv [OF r] by (simp_all add: engine_inv_def)
  have a: "list_all (es_inv G (en_cfg e)) (en_sessions e)" unfolding all_sessions using own_es_inv [OF i(1)] by blast
  have "totals (en_registry e) = (sum_list (map (\<lambda>x. fst (counted x)) (en_sessions e)),
      of_nat (length (filter ended_ok (en_sessions e))), of_nat (length (filter ended_badly (en_sessions e))))"
    using i(2) unfolding books_inv_def tally_def counted_sum [OF a] counted_lengths by simp
  moreover note final_snapshot_totals(1) [OF finish_run_code(2) [OF assms(3)]]
  ultimately have s: "ms_sessions_ok snap = of_nat (length (filter ended_ok (en_sessions e)))"
    "ms_sessions_fail snap = of_nat (length (filter ended_badly (en_sessions e)))" by (simp_all add: prod_eq_iff)
  have l: "length (filter P (en_sessions e)) < 2 ^ 64" for P
    using length_filter_le [of P "en_sessions e"] assms(4) by linarith
  have n: "unat (ms_sessions_ok snap) = length (filter ended_ok (en_sessions e))"
    "unat (ms_sessions_fail snap) = length (filter ended_badly (en_sessions e))"
    unfolding s by (rule unat_small [OF l])+
  have "ms_sessions_ok snap = 0 \<longleftrightarrow> filter ended_ok (en_sessions e) = []"
    "ms_sessions_fail snap = 0 \<longleftrightarrow> filter ended_badly (en_sessions e) = []"
    using n by (metis length_0_conv unsigned_0 u64_eqI)+
  then show ?thesis using n finish_run_code(1) [OF assms(3)] by (auto simp: all_failed_def word_neq_0_conv)
qed

lemma run_acts_map:
  "engine_run G as e = Some e' \<Longrightarrow> run_acts E G (map EngineStep as) (e, k, u) = Some (e', k, u)"
  by (induction as arbitrary: e) (auto simp: cxx_res split: option.splits sum.splits)

definition demo_run_env :: "jval run_env" where
  "demo_run_env = \<lparr> re_json = jval_api, re_files = demo_files, re_site_map = (\<lambda>_. None),
     re_curl = \<lparr> cu_init = True, cu_headers = True, cu_escape = (\<lambda>_. None) \<rparr>, re_http = (\<lambda>_. Http_code 200),
     re_chirp = \<lparr> ch_config_var = None, ch_path_var = None, ch_tmpdir_var = None, ch_exists = (\<lambda>_. False), ch_canonical = (\<lambda>p. p) \<rparr>,
     re_hostname = None, re_has_xrd_env = True, re_version = ''1'', re_arch = ''x86_64'', re_xrd_version = ''5'' \<rparr>"

definition no_sinks :: sinks where
  "no_sinks = \<lparr> si_file = None, si_push = None, si_chirp = None \<rparr>"

definition no_outputs :: outputs where
  "no_outputs = \<lparr> ou_disk = Map.empty, ou_requests = [], ou_chirp = [], ou_xrdcl = [], ou_err = [], ou_out = [] \<rparr>"

text \<open>One session was started and is still live when the drain ends: it is counted as neither.\<close>

lemma run_exit_code_witness:
  "\<exists>code snap u. finish_run demo_run_env demo_engine_cfg None (\<lambda>_. []) om_empty (Fin 0) (Fin 0, 0) (Fin 0) 0
      (demo_engine, no_sinks, no_outputs) = Inr (code, snap, u)
    \<and> unat (ms_sessions_ok snap) = length (filter ended_ok (en_sessions demo_engine)) \<and> code \<in> {0, 1}"
proof -
  have n: "\<not> any_sink no_sinks" by (simp add: any_sink_def no_sinks_def)
  have h: "re_hostname demo_run_env = None" by (simp add: demo_run_env_def)
  have b: "begin_run demo_run_env counter_rng demo_engine_cfg (Fin 0, 0) 0 no_sinks no_outputs
      = Inr (demo_engine0, no_sinks, no_outputs)" by (simp add: begin_run_def h demo_new n)
  note r = run_acts_map [OF demo_run(1), of demo_run_env no_sinks no_outputs]
  obtain snap where s: "final_snapshot demo_run_env demo_engine_cfg None (\<lambda>_. []) om_empty False (Fin 0, 0) (Fin 0)
      (en_live demo_engine) (en_registry demo_engine) = Inr snap" "ms_achieved_rate_bytes snap = Fin 0"
    by (auto simp: final_snapshot_def mr_Snapshot_def case_prod_unfold Let_def)
  obtain ls where l: "summary_lines demo_engine_cfg (the_job_id None demo_engine_cfg) no_sinks (Fin 0) snap = Inr ls"
    by (simp add: summary_lines_def s(2))
  obtain u where f: "finish_run demo_run_env demo_engine_cfg None (\<lambda>_. []) om_empty (Fin 0) (Fin 0, 0) (Fin 0) 0
      (demo_engine, no_sinks, no_outputs) = Inr (all_failed (ms_sessions_fail snap) (ms_sessions_ok snap), snap, u)"
    using l by (simp add: finish_run_def n s(1) h Let_def) (simp add: no_sinks_def)
  from run_exit_code [OF b r f] demo_run(2) f show ?thesis by auto
qed

end
