(* ===== verification/RegistryShape.thy ===== *)
theory RegistryShape
  imports ReportBack
begin

text \<open>
  Every snapshot a registry gives is well-formed: its tables are sorted by their keys, each entry carries its key,
  and, as long as fewer than \<open>2 ^ 53\<close> calls were made, its counts are exact when they pass through a \<^verbatim>\<open>double\<close>. This is
  what the report of a result file relies on.
\<close>

section \<open>Sums and invariants of a table\<close>

lemma upsert_sum:
  fixes g :: "'v \<Rightarrow> nat"
  assumes "\<And>v. g (f (Some v)) \<le> g v + d" "g (f None) \<le> d"
  shows "sum_list (map (\<lambda>x. g (snd x)) (om_upsert k f m)) \<le> sum_list (map (\<lambda>x. g (snd x)) m) + d"
proof (induction m)
  case (Cons x m)
  then show ?case using assms(1) [of "snd x"] assms(2) by (cases x) auto
qed (simp add: assms(2))

lemma upsert_all:
  assumes "list_all (\<lambda>x. P (fst x) (snd x)) m" "\<And>v. P k v \<Longrightarrow> P k (f (Some v))" "P k (f None)"
  shows "list_all (\<lambda>x. P (fst x) (snd x)) (om_upsert k f m)"
  using assms(1)
proof (induction m)
  case (Cons x m)
  then show ?case using assms(2) [of "snd x"] assms(3) by (cases x) auto
qed (simp add: assms(3))

lemma unat_plus_le: "unat (a + b) \<le> unat a + unat b" for a b :: u64
  by (metis le_add2 nat_le_linear unat_plus_simple order_trans unat_add_lem word_arith_nat_add unat_of_nat mod_less_eq_dividend)

text \<open>The counts of a map, added up as numbers.\<close>

definition errs :: "u64 omap \<Rightarrow> nat" where
  "errs m = sum_list (map (\<lambda>x. unat (snd x)) m)"

lemma errs_empty [simp]: "errs om_empty = 0"
  by (simp add: errs_def om_empty_def)

lemma errs_count: "errs (om_count k n m) \<le> errs m + unat n"
  unfolding errs_def om_count_def by (rule upsert_sum) (simp_all add: unat_plus_le)

lemma errs_member: "x \<in> set m \<Longrightarrow> unat (snd x) \<le> errs m"
  unfolding errs_def by (induction m) auto

lemma errs_counts_ok: "om_wf m \<Longrightarrow> errs m \<le> 2 ^ 53 \<Longrightarrow> counts_ok m"
  using errs_member [of _ m] by (fastforce simp: counts_ok_def)

lemma add_errors_errs: "errs (add_errors m m') \<le> errs m + errs m'"
proof (induction m' arbitrary: m)
  case (Cons x m')
  have "errs (add_errors (om_count (fst x) (snd x) m) m') \<le> errs (om_count (fst x) (snd x) m) + errs m'" by (rule Cons.IH)
  also have "\<dots> \<le> errs m + unat (snd x) + errs m'" using errs_count by simp
  finally show ?case by (simp add: add_errors_def errs_def case_prod_unfold)
qed (simp add: add_errors_def errs_def)

lemma add_errors_wf: "om_wf m \<Longrightarrow> om_wf (add_errors m m')"
  by (induction m' arbitrary: m) (simp_all add: add_errors_def case_prod_unfold om_count_wf)

section \<open>The shape of a registry\<close>

definition entry_ok :: "string \<Rightarrow> EndpointStats \<Rightarrow> bool" where
  "entry_ok k ep \<longleftrightarrow> ep_data_server ep = k \<and> om_wf (ep_errors_by_class ep)"

definition table_errs :: "EndpointStats omap \<Rightarrow> nat" where
  "table_errs m = sum_list (map (\<lambda>x. errs (ep_errors_by_class (snd x))) m)"

definition reg_shape :: "nat \<Rightarrow> MetricsRegistry \<Rightarrow> bool" where
  "reg_shape n r \<longleftrightarrow> om_wf (mr_by_data_server r) \<and> list_all (\<lambda>x. entry_ok (fst x) (snd x)) (mr_by_data_server r)
     \<and> table_errs (mr_by_data_server r) \<le> n
     \<and> length (mr_errors_by_class r) = 12 \<and> sum_list (map unat (mr_errors_by_class r)) \<le> n
     \<and> length (mr_soft_faults_by_kind r) = 6 \<and> sum_list (map unat (mr_soft_faults_by_kind r)) \<le> n"

lemma reg_shape_mono: "reg_shape n r \<Longrightarrow> n \<le> n' \<Longrightarrow> reg_shape n' r"
  by (auto simp: reg_shape_def)

lemma new_registry_shape: "reg_shape 0 new_MetricsRegistry"
  by (simp add: reg_shape_def new_MetricsRegistry_def om_empty_def table_errs_def sum_list_replicate)

lemma reg_shape_frame:
  assumes "reg_shape n r" "mr_by_data_server r' = mr_by_data_server r" "mr_errors_by_class r' = mr_errors_by_class r"
    "mr_soft_faults_by_kind r' = mr_soft_faults_by_kind r"
  shows "reg_shape n r'"
  using assms by (simp add: reg_shape_def)

lemma bump_sum: "sum_list (map unat (bump i xs)) \<le> Suc (sum_list (map unat xs))" for xs :: "u64 list"
proof (cases "i < length xs")
  case True
  have "unat (x + 1) \<le> Suc (unat x)" for x :: u64 using unat_plus_le [of x 1] by simp
  with True show ?thesis
  proof (induction xs arbitrary: i)
    case (Cons x xs)
    show ?case
    proof (cases i)
      case (Suc j)
      then show ?thesis using Cons.IH [of j] Cons.prems by (simp add: bump_def)
    qed (use Cons.prems(2) [of x] in \<open>simp add: bump_def\<close>)
  qed simp
qed (simp add: bump_def list_update_beyond)

lemma attribute_entry_shape:
  "entry_ok k (attribute_entry sm k ok b c s None)"
  "entry_ok k ep \<Longrightarrow> entry_ok k (attribute_entry sm k ok b c s (Some ep))"
  "errs (ep_errors_by_class (attribute_entry sm k ok b c s None)) \<le> (if ok then 0 else 1)"
  "errs (ep_errors_by_class (attribute_entry sm k ok b c s (Some ep))) \<le> errs (ep_errors_by_class ep) + (if ok then 0 else 1)"
  using errs_count [of "ErrorClassName c" 1 om_empty] errs_count [of "ErrorClassName c" 1 "ep_errors_by_class ep"]
  by (auto simp: attribute_entry_def entry_ok_def Let_def new_EndpointStats_def om_count_wf split: option.split)

lemma AttributeLocked_shape:
  assumes "om_wf m" "list_all (\<lambda>x. entry_ok (fst x) (snd x)) m" "mr_by_data_server r = m"
  shows "om_wf (mr_by_data_server (mr_AttributeLocked ds ok b c s r))"
    "list_all (\<lambda>x. entry_ok (fst x) (snd x)) (mr_by_data_server (mr_AttributeLocked ds ok b c s r))"
    "table_errs (mr_by_data_server (mr_AttributeLocked ds ok b c s r)) \<le> table_errs m + (if ok then 0 else 1)"
proof -
  let ?k = "if ds = [] then kUnknownDataServer else ds"
  have e: "mr_by_data_server (mr_AttributeLocked ds ok b c s r) = om_upsert ?k (attribute_entry (mr_site_map r) ?k ok b c s) m"
    by (simp add: mr_AttributeLocked_def Let_def assms(3))
  show "om_wf (mr_by_data_server (mr_AttributeLocked ds ok b c s r))" unfolding e by (rule om_wf_upsert [OF assms(1)])
  show "list_all (\<lambda>x. entry_ok (fst x) (snd x)) (mr_by_data_server (mr_AttributeLocked ds ok b c s r))"
    unfolding e by (rule upsert_all [OF assms(2) attribute_entry_shape(2,1)])
  show "table_errs (mr_by_data_server (mr_AttributeLocked ds ok b c s r)) \<le> table_errs m + (if ok then 0 else 1)"
    unfolding e table_errs_def by (rule upsert_sum [OF attribute_entry_shape(4,3)])
qed

lemma SetCmsSite_shape: "reg_shape n r \<Longrightarrow> reg_shape n (mr_SetCmsSite ds site r)"
proof -
  assume r: "reg_shape n r"
  show ?thesis
  proof (cases "ds = [] \<or> site = [] \<or> om_get (mr_by_data_server r) ds = None")
    case False
    then obtain ep where ep: "om_get (mr_by_data_server r) ds = Some ep" by auto
    then have m: "(ds, ep) \<in> set (mr_by_data_server r)" by (simp add: om_get_def map_of_SomeD)
    then have k: "entry_ok ds ep" using r by (force simp: reg_shape_def list_all_iff)
    let ?f = "\<lambda>_. ep \<lparr> ep_cms_site := site \<rparr>"
    have "sum_list (map (\<lambda>x. errs (ep_errors_by_class (snd x))) (om_upsert ds ?f m))
        \<le> sum_list (map (\<lambda>x. errs (ep_errors_by_class (snd x))) m)" if "(ds, ep) \<in> set m" "om_wf m" for m
      using that
    proof (induction m)
      case (Cons x m)
      then show ?case by (cases x) (force simp: om_wf_def)
    qed simp
    with m r have "table_errs (om_upsert ds ?f (mr_by_data_server r)) \<le> n"
      unfolding reg_shape_def table_errs_def by (meson order_trans)
    moreover have "list_all (\<lambda>x. entry_ok (fst x) (snd x)) (om_upsert ds ?f (mr_by_data_server r))"
      using r k by (intro upsert_all) (simp_all add: reg_shape_def entry_ok_def)
    ultimately show ?thesis using r False ep by (simp add: mr_SetCmsSite_def reg_shape_def om_wf_upsert)
  qed (use r in \<open>auto simp: mr_SetCmsSite_def\<close>)
qed

lemma mr_apply_shape:
  assumes "mr_apply c r = Inr r'" "reg_shape n r" shows "reg_shape (Suc n) r'"
proof (cases c)
  case (CallOk bytes ops o_s t_s r_s red ds site)
  then obtain r1 where r1: "r' = mr_AttributeLocked ds True bytes NoError site r1" "mr_by_data_server r1 = mr_by_data_server r"
    "mr_errors_by_class r1 = mr_errors_by_class r" "mr_soft_faults_by_kind r1 = mr_soft_faults_by_kind r"
    using assms(1) by (fastforce simp: mr_ObserveSessionOk_def cxx_res)
  then show ?thesis using assms(2) AttributeLocked_shape [of "mr_by_data_server r" r1 ds True bytes NoError site]
    by (simp add: reg_shape_def) (simp add: mr_AttributeLocked_def Let_def)
next
  case (CallFail e ds site)
  let ?r1 = "r \<lparr> mr_sessions_fail := mr_sessions_fail r + 1,
      mr_errors_by_class := bump (error_index e) (mr_errors_by_class r) \<rparr>"
  have "r' = mr_AttributeLocked ds False 0 e site ?r1" using assms(1) CallFail by (simp add: mr_ObserveSessionFail_def)
  moreover have "sum_list (map unat (bump (error_index e) (mr_errors_by_class r))) \<le> Suc n"
    using bump_sum [of "error_index e" "mr_errors_by_class r"] assms(2) by (simp add: reg_shape_def)
  ultimately show ?thesis using assms(2) AttributeLocked_shape [of "mr_by_data_server r" ?r1 ds False 0 e site]
    by (simp add: reg_shape_def bump_def) (simp add: mr_AttributeLocked_def Let_def)
next
  case (CallLog m)
  then show ?thesis using assms bump_sum [of "soft_fault_index (ClassifySoftFaultMessage m)" "mr_soft_faults_by_kind r"]
    by (auto simp: SoftFaultLogOut_Write_def mr_ObserveSoftFault_def reg_shape_def bump_def)
next
  case (CallSite ds site)
  then show ?thesis using assms reg_shape_mono [OF SetCmsSite_shape [OF assms(2)]] by auto
next
  case (CallReadOp x)
  then show ?thesis using assms reg_shape_mono [OF reg_shape_frame [OF assms(2)]]
    by (auto simp: mr_ObserveReadOp_def cxx_res)
next
  case (CallSample cpu rss)
  then show ?thesis using assms reg_shape_mono [OF reg_shape_frame [OF assms(2)]]
    by (auto simp: mr_SampleProc_def cxx_res)
next
  case (CallInflight x)
  then show ?thesis using assms reg_shape_mono [OF reg_shape_frame [OF assms(2)]] by (auto simp: mr_SetInflight_def)
next
  case (CallConfig x y)
  then show ?thesis using assms reg_shape_mono [OF reg_shape_frame [OF assms(2)]] by (auto simp: mr_SetConfigGauges_def)
qed

text \<open>Calls that return, one after the other.\<close>

fun mr_calls :: "mr_call list \<Rightarrow> MetricsRegistry \<Rightarrow> MetricsRegistry res" where
  "mr_calls [] r = Inr r"
| "mr_calls (c # cs) r = res_bind (mr_apply c r) (mr_calls cs)"

lemma mr_calls_append: "mr_calls (cs @ ds) r = res_bind (mr_calls cs r) (mr_calls ds)"
  by (induction cs arbitrary: r) (auto simp: res_bind_def split: sum.split)

lemma mr_calls_shape: "mr_calls cs r = Inr r' \<Longrightarrow> reg_shape n r \<Longrightarrow> reg_shape (n + length cs) r'"
proof (induction cs arbitrary: r n)
  case (Cons c cs)
  then obtain r1 where "mr_apply c r = Inr r1" "mr_calls cs r1 = Inr r'" by (auto simp: cxx_res)
  then show ?case using Cons.IH [of r1 "Suc n"] mr_apply_shape [OF _ Cons.prems(2)] by simp
qed simp

section \<open>The snapshot of a well-formed registry\<close>

lemma named_counts_wf: "om_wf (named_counts ks vs)"
proof -
  have "om_wf (foldl (\<lambda>m (k, v). if 0 < v then om_put k v m else m) m xs)" if "om_wf m" for m :: "u64 omap" and xs
    using that by (induction xs arbitrary: m) (auto simp: om_put_wf)
  then show ?thesis by (simp add: named_counts_def)
qed

lemma named_counts_errs: "errs (named_counts ks vs) \<le> sum_list (map unat vs)"
proof -
  have p: "errs (om_put k v m) \<le> errs m + unat v" for k v m
    unfolding errs_def om_put_def by (rule upsert_sum) simp_all
  have "errs (foldl (\<lambda>m (k, v). if 0 < v then om_put k v m else m) m (zip ks vs)) \<le> errs m + sum_list (map unat vs)" for m
  proof (induction ks arbitrary: m vs)
    case (Cons k ks)
    show ?case
    proof (cases vs)
      case (Cons v vs')
      then show ?thesis using Cons.IH [of "om_put k v m" vs'] Cons.IH [of m vs'] p [of k v m] by simp
    qed simp
  qed simp
  from this [of om_empty] show ?thesis by (simp add: named_counts_def)
qed

lemma roll_up_shape:
  fixes m :: "EndpointStats omap"
  shows "list_all (\<lambda>x. st_cms_site (snd x) = fst x \<and> om_wf (st_errors_by_class (snd x))) (roll_up m)"
    "sum_list (map (\<lambda>x. errs (st_errors_by_class (snd x))) (roll_up m)) \<le> table_errs m"
proof -
  let ?P = "\<lambda>k s. st_cms_site s = k \<and> om_wf (st_errors_by_class s)"
  let ?step = "\<lambda>sites (k, ep). om_upsert (site_key ep) (site_add ep) sites"
  have a: "list_all (\<lambda>x. ?P (fst x) (snd x)) (foldl ?step t m)" if "list_all (\<lambda>x. ?P (fst x) (snd x)) t" for t :: "SiteStats omap"
    using that
  proof (induction m arbitrary: t)
    case (Cons x m)
    have "list_all (\<lambda>y. ?P (fst y) (snd y)) (om_upsert (site_key (snd x)) (site_add (snd x)) t)"
      by (rule upsert_all [where P = ?P, OF Cons.prems])
         (simp_all add: site_add_def Let_def add_errors_wf new_SiteStats_def)
    then show ?case using Cons.IH by (simp add: case_prod_unfold)
  qed simp
  have b: "sum_list (map (\<lambda>x. errs (st_errors_by_class (snd x))) (foldl ?step t m))
      \<le> sum_list (map (\<lambda>x. errs (st_errors_by_class (snd x))) t) + table_errs m" for t :: "SiteStats omap"
  proof (induction m arbitrary: t)
    case (Cons x m)
    let ?t = "om_upsert (site_key (snd x)) (site_add (snd x)) t"
    have "sum_list (map (\<lambda>x. errs (st_errors_by_class (snd x))) ?t)
        \<le> sum_list (map (\<lambda>x. errs (st_errors_by_class (snd x))) t) + errs (ep_errors_by_class (snd x))"
      using add_errors_errs [of _ "ep_errors_by_class (snd x)"] add_errors_errs [of om_empty "ep_errors_by_class (snd x)"]
      by (intro upsert_sum) (simp_all add: site_add_def Let_def new_SiteStats_def)
    then show ?case using Cons.IH [of ?t] by (simp add: case_prod_unfold table_errs_def)
  qed (simp add: table_errs_def)
  show "list_all (\<lambda>x. st_cms_site (snd x) = fst x \<and> om_wf (st_errors_by_class (snd x))) (roll_up m)"
    unfolding roll_up_def by (rule a) (simp add: om_empty_def)
  show "sum_list (map (\<lambda>x. errs (st_errors_by_class (snd x))) (roll_up m)) \<le> table_errs m"
    using b [of om_empty] by (simp add: roll_up_def om_empty_def)
qed

lemma sum_member: "x \<in> set m \<Longrightarrow> g x \<le> sum_list (map g m)" for g :: "'a \<Rightarrow> nat"
  by (induction m) auto

lemma counts_ok_part:
  assumes "sum_list (map (\<lambda>x. errs (g (snd x))) m) \<le> N" "N \<le> 2 ^ 53" "x \<in> set m" "om_wf (g (snd x))"
  shows "counts_ok (g (snd x))"
proof -
  have "errs (g (snd x)) \<le> sum_list (map (\<lambda>x. errs (g (snd x))) m)" by (rule sum_member [OF assms(3)])
  then show ?thesis using assms(1,2) by (intro errs_counts_ok [OF assms(4)]) linarith
qed

lemma shape_snapshot_ok:
  assumes "reg_shape n r" "n \<le> 2 ^ 53" "is_finite wall" "dle (Fin 0) wall"
  shows "snapshot_ok (mr_Snapshot hostname wall r)"
proof -
  let ?s = "mr_Snapshot hostname wall r" and ?m = "mr_by_data_server r"
  have s: "ms_wall_s ?s = wall" "ms_by_data_server ?s = ?m" "ms_by_cms_site ?s = roll_up ?m"
    "ms_errors_by_class ?s = named_counts (map ErrorClassName kErrorClasses) (mr_errors_by_class r)"
    "ms_soft_faults_by_kind ?s = named_counts kSoftFaultKinds (mr_soft_faults_by_kind r)"
    by (simp_all add: mr_Snapshot_def)
  have c: "counts_ok (named_counts ks vs)" if "sum_list (map unat vs) \<le> n" for ks vs
    using that assms(2) named_counts_errs [of ks vs] by (intro errs_counts_ok [OF named_counts_wf]) linarith
  have t: "sum_list (map (\<lambda>x. errs (ep_errors_by_class (snd x))) ?m) \<le> n" "table_errs ?m \<le> n"
    using assms(1) by (simp_all add: reg_shape_def table_errs_def)
  have e: "entry_ok (fst x) (snd x)" if "x \<in> set ?m" for x using assms(1) that by (simp add: reg_shape_def list_all_iff)
  have "counts_ok (ep_errors_by_class (snd x))" if "x \<in> set ?m" for x
    using e [OF that] by (intro counts_ok_part [where g = ep_errors_by_class, OF t(1) assms(2) that]) (simp add: entry_ok_def)
  then have b: "buckets_ok (server_buckets ?s)" using assms(1)
    by (auto simp: buckets_ok_def server_buckets_def s om_wf_map reg_shape_def server_bucket_def)
  note r = roll_up_shape [of ?m]
  have rn: "sum_list (map (\<lambda>x. errs (st_errors_by_class (snd x))) (roll_up ?m)) \<le> n" using r(2) t(2) by linarith
  have re: "st_cms_site (snd x) = fst x \<and> om_wf (st_errors_by_class (snd x))" if "x \<in> set (roll_up ?m)" for x
    using r(1) that by (simp add: list_all_iff)
  have "counts_ok (st_errors_by_class (snd x))" if "x \<in> set (roll_up ?m)" for x
    using re [OF that] by (intro counts_ok_part [where g = st_errors_by_class, OF rn assms(2) that]) simp
  then have d: "buckets_ok (site_buckets ?s)"
    by (auto simp: buckets_ok_def site_buckets_def s om_wf_map roll_up_wf site_bucket_def)
  show ?thesis using assms(1,3,4) b c d e re
    unfolding snapshot_ok_def by (simp add: s entry_ok_def) (simp add: reg_shape_def)
qed

text \<open>C17. Every snapshot is well-formed: after any calls that return, the tables are sorted by server and by site with
  no key twice, every entry carries its key, and, for up to \<open>2 ^ 53\<close> calls, no count of an error class or
  soft fault, of the run, of a server or of a site, is above what a \<^verbatim>\<open>double\<close> holds exactly.\<close>

theorem registry_snapshot_wellformed:
  assumes "mr_calls cs new_MetricsRegistry = Inr r" "length cs \<le> 2 ^ 53" "is_finite wall" "dle (Fin 0) wall"
  shows "snapshot_ok (mr_Snapshot hostname wall r)"
  using shape_snapshot_ok [OF mr_calls_shape [OF assms(1) new_registry_shape], of wall hostname] assms(2-4) by simp

lemma registry_snapshot_wellformed_witness:
  "\<exists>r. mr_calls [CallFail Auth ''h:1'' ''T1'', CallFail Timeout [] [], CallSite ''h:1'' ''T2'', CallLog ''[Error] timeout'']
      new_MetricsRegistry = Inr r \<and> snapshot_ok (mr_Snapshot None (Fin 3) r)"
proof -
  obtain r where r: "mr_calls [CallFail Auth ''h:1'' ''T1'', CallFail Timeout [] [], CallSite ''h:1'' ''T2'',
      CallLog ''[Error] timeout''] new_MetricsRegistry = Inr r" by simp
  have "is_finite (Fin 3)" "dle (Fin 0) (Fin 3)" by code_simp+
  then show ?thesis using registry_snapshot_wellformed [OF r, of "Fin 3" None] r by simp
qed

end
