(* ===== verification/RunReport.thy ===== *)
theory RunReport
  imports RunEnd RegistryShape
begin

text \<open>
  A run and its report. The registry of a run is what a sequence of registry calls makes of a new one, so the final
  snapshot is well-formed, and the report of the run's result file says what the run itself said.
\<close>

section \<open>The registry of a run\<close>

definition calls_to :: "nat \<Rightarrow> MetricsRegistry \<Rightarrow> MetricsRegistry \<Rightarrow> bool" where
  "calls_to n r r' \<longleftrightarrow> (\<exists>cs. mr_calls cs r = Inr r' \<and> length cs \<le> n)"

lemma calls_to_none: "calls_to n r r"
  unfolding calls_to_def by (rule exI [of _ "[]"]) simp

lemma calls_to_one: "mr_apply c r = Inr r' \<Longrightarrow> 1 \<le> n \<Longrightarrow> calls_to n r r'"
  unfolding calls_to_def by (rule exI [of _ "[c]"]) simp

lemma calls_to_trans: "calls_to m r r' \<Longrightarrow> calls_to n r' r'' \<Longrightarrow> calls_to (m + n) r r''"
  unfolding calls_to_def using mr_calls_append by (metis add_mono length_append res_bind_simps(2))

lemma report_done_calls: "report_done r e = Inr e' \<Longrightarrow> calls_to 1 (en_registry e) (en_registry e')"
  by (auto simp: report_done_def cxx_res Let_def split: if_splits
      intro: calls_to_one [where c = "CallOk _ _ _ _ _ _ _ _"] calls_to_one [where c = "CallFail _ _ _"])

lemma SetInflight_calls: "calls_to 1 r (mr_SetInflight n r)"
  by (rule calls_to_one [of "CallInflight n"]) simp_all

lemma advance_registry [simp]: "en_registry (advance i e) = en_registry e" "en_registry (set_phase i p e) = en_registry e"
  by (simp_all add: advance_def set_phase_def)

lemma perform_effect_calls: "perform_effect now i f e = Inr e' \<Longrightarrow> calls_to 1 (en_registry e) (en_registry e')"
proof (cases f)
  case (Done r)
  assume "perform_effect now i f e = Inr e'"
  then show ?thesis unfolding Done
    by (cases "es_phase (es_of e i)") (auto simp: cxx_res calls_to_none SetInflight_calls [simplified] dest: report_done_calls)
next
  case (ReadOpDone s)
  assume "perform_effect now i f e = Inr e'"
  then show ?thesis unfolding ReadOpDone
    by (auto simp: cxx_res intro: calls_to_one [of "CallReadOp s"])
qed (auto simp: calls_to_none)

lemma main_step_calls:
  "main_step G env now p e = Some (Inr e') \<Longrightarrow> calls_to 1 (en_registry e) (en_registry e')"
proof (cases p)
  case (Counted item)
  assume "main_step G env now p e = Some (Inr e')"
  then show ?thesis using SetInflight_calls [of "en_registry e" "en_live e"] by (auto simp: Counted)
qed (auto simp: case_prod_beta cxx_res pick_def price_def pause_def Let_def calls_to_none split: if_splits list.splits)

lemma calls_to_mono: "calls_to m r r' \<Longrightarrow> m \<le> n \<Longrightarrow> calls_to n r r'"
  by (auto simp: calls_to_def)

lemma engine_act_calls: "engine_act G a e = Some (Inr e') \<Longrightarrow> calls_to 2 (en_registry e) (en_registry e')"
proof (cases a)
  case (Perform i now)
  assume "engine_act G a e = Some (Inr e')"
  then have "perform_effect now i (es_log (es_of e i) ! es_seen (es_of e i)) e = Inr e'"
    using Perform by (auto simp: perform_def Let_def split: if_splits)
  then show ?thesis by (rule calls_to_mono [OF perform_effect_calls]) simp
next
  case (Move now env)
  assume "engine_act G a e = Some (Inr e')"
  then have "calls_to 1 (en_registry e) (en_registry e')" using Move main_step_calls by auto
  then show ?thesis by (rule calls_to_mono) simp
next
  case (Tick sample)
  assume a: "engine_act G a e = Some (Inr e')"
  have "calls_to 1 (mr_SetInflight (en_live e) (en_registry e)) (en_registry e')"
  proof (cases sample)
    case (Some s)
    then show ?thesis using a Tick by (cases s) (auto simp: cxx_res intro: calls_to_one [of "CallSample (fst s) (snd s)"])
  qed (use a Tick calls_to_none in auto)
  then show ?thesis using calls_to_trans [OF SetInflight_calls] by (metis one_add_one)
next
  case (FoundSite ds site)
  assume "engine_act G a e = Some (Inr e')"
  then show ?thesis using FoundSite by (auto intro: calls_to_one [of "CallSite ds site"])
next
  case (LogLine m)
  assume "engine_act G a e = Some (Inr e')"
  then show ?thesis using LogLine by (auto intro: calls_to_one [of "CallLog m"])
qed (auto simp: on_ready_def Let_def calls_to_none split: if_splits option.splits handing.splits)

lemma calls_to_shape: "calls_to m r r' \<Longrightarrow> reg_shape n r \<Longrightarrow> reg_shape (n + m) r'"
  unfolding calls_to_def using mr_calls_shape reg_shape_mono by (metis add_left_mono)

lemma engine_run_shape:
  "engine_run G as e = Some e' \<Longrightarrow> reg_shape n (en_registry e) \<Longrightarrow> reg_shape (n + 2 * length as) (en_registry e')"
proof (induction as arbitrary: e n)
  case (Cons a as)
  then obtain e1 where e1: "engine_act G a e = Some (Inr e1)" "engine_run G as e1 = Some e'"
    by (auto split: option.splits sum.splits)
  from Cons.IH [OF e1(2) calls_to_shape [OF engine_act_calls [OF e1(1)] Cons.prems(2)]] show ?case by (simp add: add.assoc)
qed simp

lemma new_engine_shape: "new_engine G hostname cfg t0 = Inr e \<Longrightarrow> reg_shape 0 (en_registry e)"
  using reg_shape_frame [OF new_registry_shape]
  by (auto simp: new_engine_def cxx_res mr_SetConfigGauges_def mr_SetLabels_def)

section \<open>The final snapshot is well-formed\<close>

lemma fill_shape: "reg_shape n r \<Longrightarrow> reg_shape n (snd (fill_cms_sites cfg m q c r))"
proof -
  have one: "reg_shape n (snd (fill_one cfg m q (c, r) ds))" if "reg_shape n r" for c r ds
    using that by (simp add: fill_one_def Let_def case_prod_unfold SetCmsSite_shape)
  have "reg_shape n (snd (foldl (fill_one cfg m q) (c, r) xs))" if "reg_shape n r" for c r xs
    using that
  proof (induction xs arbitrary: c r)
    case (Cons x xs)
    obtain c1 r1 where f: "fill_one cfg m q (c, r) x = (c1, r1)" by fastforce
    then have "reg_shape n r1" using one [OF Cons.prems, of c x] by simp
    then show ?case using Cons.IH f by simp
  qed simp
  then show "reg_shape n r \<Longrightarrow> reg_shape n (snd (fill_cms_sites cfg m q c r))" by (simp add: fill_cms_sites_def)
qed

lemma final_snapshot_parts:
  assumes "final_snapshot E cfg m q c sampled proc elapsed live r = Inr snap"
  obtains r' where "snap = mr_Snapshot (re_hostname E) elapsed r'" "\<And>n. reg_shape n r \<Longrightarrow> reg_shape (n + 2) r'"
proof -
  obtain r1 where r1: "(if sampled then mr_SampleProc proc r else Inr r) = Inr r1"
    "snap = mr_Snapshot (re_hostname E) elapsed (snd (fill_cms_sites cfg m q c (mr_SetInflight live r1)))"
    using assms by (auto simp: final_snapshot_def cxx_res Let_def case_prod_unfold)
  have "calls_to 1 r r1"
    using r1(1) calls_to_none by (cases proc) (auto intro: calls_to_one [of "CallSample (fst proc) (snd proc)"] split: if_splits)
  then have "calls_to 2 r (mr_SetInflight live r1)" using calls_to_trans [OF _ SetInflight_calls] by (metis one_add_one)
  then show thesis using calls_to_shape fill_shape r1(2) by (intro that) blast+
qed

lemma whole_run_shape:
  assumes "begin_run E G cfg proc t0 k u = Inr s0" "run_acts E G as s0 = Some (e, k', u')"
  shows "reg_shape (2 * length as + 2) (en_registry e)"
proof -
  obtain e1 k1 u1 where s0: "s0 = (e1, k1, u1)" by (cases s0)
  obtain e0 where e0: "new_engine G (re_hostname E) cfg t0 = Inr e0"
    "engine_act G (Tick (if any_sink k then Some proc else None)) e0 = Some (Inr e1)"
    using begin_run_tick(2) [OF assms(1) [unfolded s0]] by blast
  have "reg_shape 2 (en_registry e1)" using calls_to_shape [OF engine_act_calls [OF e0(2)] new_engine_shape [OF e0(1)]] by (metis add_0)
  then show ?thesis
    using engine_run_shape [of G "map (engine_part (any_sink k1)) as" e1 e 2] run_acts_engine [OF assms(2) [unfolded s0]]
    by (metis add.commute length_map)
qed

section \<open>What the run leaves on the disk\<close>

definition warned :: "outputs \<Rightarrow> bool" where
  "warned u \<longleftrightarrow> list_ex (\<lambda>l. take 31 l = ''warning: results write failed: '') (ou_err u)"

lemma warning_found: "warned (log_err (results_warning e) u)"
  by (simp add: warned_def log_err_def results_warning_def)

lemma WriteSnapshot_dir: "WriteSnapshot J s f d = (Inr f', d') \<Longrightarrow> fk_run_dir f' = fk_run_dir f"
  by (auto simp: WriteSnapshot_def split: if_splits sum.splits)

lemma write_final_result:
  assumes "\<not> warned (write_final E snap cpu f u)"
  obtains f' d where "WriteResult (re_json E) (re_files E) snap cpu f' d = (Inr (), ou_disk (write_final E snap cpu f u))"
    "fk_run_dir f' = fk_run_dir f"
proof -
  obtain r d1 where w: "WriteSnapshot (re_json E) snap f (ou_disk u) = (r, d1)" by fastforce
  show thesis
  proof (cases r)
    case (Inl e)
    then show ?thesis using assms w warning_found by (simp add: write_final_def)
  next
    case (Inr f')
    obtain r2 d2 where x: "WriteResult (re_json E) (re_files E) snap cpu f' d1 = (r2, d2)" by fastforce
    show ?thesis
    proof (cases r2)
      case (Inl e)
      then show ?thesis using assms w x Inr warning_found by (simp add: write_final_def)
    next
      case (Inr y)
      then have "ou_disk (write_final E snap cpu f u) = d2" using w x \<open>r = Inr f'\<close> by (simp add: write_final_def)
      then show ?thesis using that [of f' d1] WriteSnapshot_dir [of "re_json E" snap f "ou_disk u" f' d1] w x Inr \<open>r = Inr f'\<close> by simp
    qed
  qed
qed

lemma push_snapshot_frame: "push_snapshot E t w snap p u = Inr (p', u') \<Longrightarrow> ou_disk u' = ou_disk u \<and> (warned u \<longrightarrow> warned u')"
  by (auto simp: push_snapshot_def cxx_res warned_def)

lemma push_final_frame: "push_final E cfg j t snap p u = Inr u' \<Longrightarrow> ou_disk u' = ou_disk u \<and> (warned u \<longrightarrow> warned u')"
  by (auto simp: push_final_def cxx_res warned_def log_err_def split: if_splits prod.splits dest!: push_snapshot_frame)

text \<open>The file the run leaves, and that its summary could be printed.\<close>

lemma finish_run_file:
  assumes "finish_run E cfg m q c cpu0 proc elapsed unix_time (e, k, u) = Inr (code, snap, u')" "si_file k = Some f" "\<not> warned u'"
  obtains f' d where "WriteResult (re_json E) (re_files E) snap cpu0 f' d = (Inr (), ou_disk u')" "fk_run_dir f' = fk_run_dir f"
    "\<exists>n. cast_u64 (ms_achieved_rate_bytes snap) = Inr n"
proof -
  let ?u1 = "u \<lparr> ou_err := ou_err u @ drain_warning (en_live e) \<rparr>" and ?j = "the_job_id (re_hostname E) cfg"
  let ?w = "write_final E snap cpu0 f ?u1"
  obtain u2 u3 where u: "(case si_push k of None \<Rightarrow> Inr ?w | Some p \<Rightarrow> push_final E cfg ?j unix_time snap p ?w) = Inr u2"
    "(case si_chirp k of None \<Rightarrow> Inr u2
       | Some c \<Rightarrow> res_bind (chirp_Finish unix_time snap c) (\<lambda>cs. Inr (u2 \<lparr> ou_chirp := ou_chirp u2 @ cs \<rparr>))) = Inr u3"
    "\<exists>ls. summary_lines cfg ?j k elapsed snap = Inr ls \<and> u' = u3 \<lparr> ou_out := ou_out u3 @ ls \<rparr>"
    using assms(1) [unfolded finish_run_def prod.case assms(2) option.case Let_def] by (auto simp: cxx_res)
  have a: "ou_disk u2 = ou_disk ?w \<and> (warned ?w \<longrightarrow> warned u2)"
    using u(1) by (auto split: option.splits dest: push_final_frame)
  have b: "ou_disk u3 = ou_disk u2 \<and> (warned u2 \<longrightarrow> warned u3)"
    using u(2) by (auto simp: cxx_res warned_def split: option.splits)
  have c: "ou_disk u' = ou_disk u3" "warned u' = warned u3" using u(3) by (auto simp: warned_def)
  have "\<not> warned ?w" using a b c assms(3) by blast
  then obtain f' d where "WriteResult (re_json E) (re_files E) snap cpu0 f' d = (Inr (), ou_disk ?w)" "fk_run_dir f' = fk_run_dir f"
    by (rule write_final_result)
  moreover have "\<exists>n. cast_u64 (ms_achieved_rate_bytes snap) = Inr n" using u(3) by (auto simp: summary_lines_def cxx_res)
  ultimately show thesis using a b c that by simp
qed

lemma final_rate:
  "final_snapshot E cfg m q c sampled proc elapsed live r = Inr snap \<Longrightarrow> ms_achieved_rate_bytes snap = per (ms_bytes_read_total snap) elapsed
    \<and> ms_wall_s snap = elapsed"
  by (auto simp: final_snapshot_def cxx_res Let_def case_prod_unfold mr_Snapshot_def per_def)

section \<open>The report says what the run said\<close>

text \<open>C3. The report of a run agrees with the run: when a run, whatever its threads did, has ended without a warning that
  the results could not be written, \<^verbatim>\<open>report\<close> on its directory finds the result, ends with the run's own exit
  code, and its summary has the final snapshot's totals and tables.\<close>

theorem run_report_agrees:
  assumes "begin_run E G cfg proc0 t0 k0 u0 = Inr s0" "run_acts E G as s0 = Some (e, k, u)"
    and "finish_run E cfg m q c cpu0 proc elapsed unix_time (e, k, u) = Inr (code, snap, u')"
    and "si_file k = Some f" "\<not> warned u'" "json_laws (re_json E)" "json_text (re_json E)"
    and "2 * length as + 4 \<le> 2 ^ 53" "is_finite elapsed" "dle (Fin 0) elapsed"
    and "rf_read R = ou_disk u'" "rf_regular R (path_append (fk_run_dir f) ''result.json'')"
    and "rf_directory R (fk_run_dir f)" "\<not> rf_regular R (fk_run_dir f)" "fk_run_dir f \<noteq> []"
    and "ro_path opts = fk_run_dir f" "ro_results_dir opts = []" "\<not> ro_json opts"
  shows "res_bind (DiscoverResultFiles R opts) (AggregateResultFiles (re_json E) R)
      = Inr (summary_of (path_append (fk_run_dir f) ''result.json'') snap)
    \<and> (\<exists>lines. RunReportCommand (re_json E) R opts = Inr (code, lines))"
proof -
  let ?s = "summary_of (path_append (fk_run_dir f) ''result.json'') snap"
  obtain f' d n where w: "WriteResult (re_json E) (re_files E) snap cpu0 f' d = (Inr (), ou_disk u')" "fk_run_dir f' = fk_run_dir f"
    "cast_u64 (ms_achieved_rate_bytes snap) = Inr n" using finish_run_file [OF assms(3-5)] by metis
  note fin = finish_run_code [OF assms(3)]
  obtain r' where r': "snap = mr_Snapshot (re_hostname E) elapsed r'"
    "\<And>n. reg_shape n (en_registry e) \<Longrightarrow> reg_shape (n + 2) r'"
    using final_snapshot_parts [OF fin(2)] by blast
  have "snapshot_ok snap" unfolding r'(1)
    by (rule shape_snapshot_ok [OF r'(2) [OF whole_run_shape [OF assms(1,2)]] _ assms(9,10)]) (use assms(8) in simp)
  from result_read_back [OF assms(6,7) this w(1) assms(11), of opts] w(2) assms(12-17)
  have a: "res_bind (DiscoverResultFiles R opts) (AggregateResultFiles (re_json E) R) = Inr ?s" by simp
  then obtain files where files: "DiscoverResultFiles R opts = Inr files" "AggregateResultFiles (re_json E) R files = Inr ?s"
    by (auto simp: cxx_res)
  have t: "rp_bytes_read ?s = ms_bytes_read_total snap" "rp_elapsed_s ?s = elapsed"
    "rp_sessions_fail ?s = ms_sessions_fail snap" "rp_sessions_ok ?s = ms_sessions_ok snap"
    using final_rate [OF fin(2)] by (simp_all add: summary_of_def)
  have "cast_u64 (per (rp_bytes_read ?s) (rp_elapsed_s ?s)) = Inr n" using final_rate [OF fin(2)] w(3) unfolding t by simp
  then obtain lines where "PrintHuman ?s = Inr lines" by (simp add: PrintHuman_def)
  then have "report_run (re_json E) R opts = Inr (code, lines)" using assms(18) files fin(1) t by (simp add: report_run_def)
  then show ?thesis using a by (simp add: RunReportCommand_def)
qed

text \<open>A run that stops at once, with a file sink.\<close>

definition file_only :: sinks where
  "file_only = \<lparr> si_file = Some (demo_sink \<lparr> fk_jsonl := Opened \<rparr>), si_push = None, si_chirp = None \<rparr>"

lemma no_cpu: "mr_SampleProc (Fin 0, 0) r = Inr (r \<lparr> mr_cpu_us := 0, mr_rss_bytes := 0 \<rparr>)"
proof -
  have "cast_u64 (dmul (Fin 0) (Fin (10 ^ 6))) = Inr 0" by code_simp
  then show ?thesis by (simp only: mr_SampleProc_def prod.case res_bind_simps)
qed

lemma new_engine_live: "new_engine G hostname cfg t0 = Inr e \<Longrightarrow> en_live e = 0"
  by (auto simp: new_engine_def cxx_res)

lemma demo_write:
  assumes "J = one_doc_api (ResultToJson jval_api (fk_meta demo_sink) snap (Fin 0))" "re_json E = J" "re_files E = demo_files"
  shows "ou_err (write_final E snap (Fin 0) (demo_sink \<lparr> fk_jsonl := Opened \<rparr>) u) = ou_err u"
proof -
  have "js_dump J j = js_dump jval_api j" for j by (simp add: assms(1) one_doc_api_def)
  then obtain t where t: "js_dump J (SnapshotToJsonl J snap) = Inr t" by (simp add: jval_api_def)
  then show ?thesis
    by (simp add: write_final_def assms(2,3) WriteSnapshot_def WriteResult_def Let_def demo_files_def open_out_def)
       (simp add: assms(1) one_doc_same, simp add: one_doc_api_def)
qed

lemma run_report_agrees_witness:
  "\<exists>(E :: jval run_env) (e :: u64 engine) R code snap u'.
     finish_run E demo_engine_cfg None (\<lambda>_. []) om_empty (Fin 0) (Fin 0, 0) (Fin 0) 0 (e, file_only, no_outputs) = Inr (code, snap, u')
     \<and> (\<exists>lines. RunReportCommand (re_json E) R \<lparr> ro_path = ''results/a__b'', ro_results_dir = [], ro_run_id = [], ro_json = False \<rparr>
         = Inr (code, lines))"
proof -
  let ?f = "demo_sink \<lparr> fk_jsonl := Opened \<rparr>"
  have k: "any_sink file_only" "si_file file_only = Some ?f" "si_push file_only = None" "si_chirp file_only = None"
    by (simp_all add: any_sink_def file_only_def)
  obtain e1 where b: "begin_run E counter_rng demo_engine_cfg (Fin 0, 0) 0 file_only no_outputs = Inr (e1, file_only, no_outputs)"
      if "re_hostname E = None" for E :: "jval run_env"
    by (simp add: begin_run_def demo_new k no_cpu)
  have "en_live e1 = 0" using b [of demo_run_env] new_engine_live [OF demo_new]
    by (auto simp: begin_run_def cxx_res k demo_run_env_def demo_new no_cpu)
  obtain snap where s: "final_snapshot E demo_engine_cfg None (\<lambda>_. []) om_empty True (Fin 0, 0) (Fin 0) (en_live e1) (en_registry e1)
      = Inr snap" if "re_hostname E = None" for E :: "jval run_env"
    by (simp add: final_snapshot_def no_cpu case_prod_unfold Let_def)
  let ?doc = "ResultToJson jval_api (fk_meta demo_sink) snap (Fin 0)"
  let ?E = "demo_run_env \<lparr> re_json := one_doc_api ?doc \<rparr>"
  have E: "re_hostname ?E = None" "re_json ?E = one_doc_api ?doc" "re_files ?E = demo_files" by (simp_all add: demo_run_env_def)
  let ?u = "no_outputs \<lparr> ou_err := ou_err no_outputs @ drain_warning (en_live e1) \<rparr>"
  let ?w = "write_final ?E snap (Fin 0) ?f ?u"
  have "ms_achieved_rate_bytes snap = Fin 0" using final_rate [OF s [OF E(1)]] by (simp add: per_def)
  then obtain ls where l: "summary_lines demo_engine_cfg (the_job_id None demo_engine_cfg) file_only (Fin 0) snap = Inr ls"
    by (simp add: summary_lines_def)
  let ?u' = "?w \<lparr> ou_out := ou_out ?w @ ls \<rparr>"
  have f: "finish_run ?E demo_engine_cfg None (\<lambda>_. []) om_empty (Fin 0) (Fin 0, 0) (Fin 0) 0 (e1, file_only, no_outputs)
      = Inr (all_failed (ms_sessions_fail snap) (ms_sessions_ok snap), snap, ?u')"
    by (simp add: finish_run_def k s [OF E(1), unfolded E(1)] l E(1) Let_def)
  have "ou_err ?w = []" using demo_write [OF refl E(2,3), of ?u] \<open>en_live e1 = 0\<close> by (simp add: no_outputs_def drain_warning_def)
  then have w: "\<not> warned ?u'" by (simp add: warned_def)
  define R where "R = \<lparr> rf_read = ou_disk ?u', rf_regular = (\<lambda>p. p = ''results/a__b/result.json''), rf_directory = (\<lambda>p. p = ''results/a__b'') \<rparr>"
  define opts where "opts = \<lparr> ro_path = ''results/a__b'', ro_results_dir = [], ro_run_id = [], ro_json = False \<rparr>"
  have d: "fk_run_dir ?f = ''results/a__b''" "path_append ''results/a__b'' ''result.json'' = ''results/a__b/result.json''"
    by (simp_all add: demo_sink_def new_FileSink_def path_append_def path_is_absolute_def)
  have R: "rf_read R = ou_disk ?u'" "rf_regular R (path_append (fk_run_dir ?f) ''result.json'')"
    "rf_directory R (fk_run_dir ?f)" "\<not> rf_regular R (fk_run_dir ?f)" "fk_run_dir ?f \<noteq> []"
    "ro_path opts = fk_run_dir ?f" "ro_results_dir opts = []" "\<not> ro_json opts"
    by (simp_all add: R_def opts_def d)
  have r: "run_acts ?E counter_rng [] (e1, file_only, no_outputs) = Some (e1, file_only, no_outputs)" by simp
  have z: "is_finite (Fin 0)" "dle (Fin 0) (Fin 0)" by code_simp+
  have j: "json_laws (re_json ?E)" "json_text (re_json ?E)" unfolding E(2) by (rule jval_laws, rule one_doc_text)
  have c: "2 * length ([] :: run_action list) + 4 \<le> 2 ^ 53" by simp
  note conjunct2 [OF run_report_agrees [OF b [OF E(1)] r f k(2) w j c z R]]
  then show ?thesis using f unfolding opts_def by blast
qed

end
