(* ===== verification/ReadCommand.thy ===== *)
theory ReadCommand
  imports FileSession PromEncode
begin

text \<open>
  \<^verbatim>\<open>src/read_command.cc\<close> with \<^verbatim>\<open>RunFileSession\<close>: one unpaced session, its timings printed as text or as a line of JSON. The
  session's run is an argument: its one result.
\<close>

record ReadOptions =
  rd_url :: string
  rd_chunk_size :: u32
  rd_offset :: u64
  rd_max_bytes :: u64
  rd_vector_chunks :: u16
  rd_json :: bool

definition default_ReadOptions :: ReadOptions where
  "default_ReadOptions = \<lparr> rd_url = [], rd_chunk_size = 2 ^ 20, rd_offset = 0, rd_max_bytes = 0, rd_vector_chunks = 0,
     rd_json = False \<rparr>"

definition read_session_opts :: "ReadOptions \<Rightarrow> FileSessionOptions" where
  "read_session_opts o1 = default_FileSessionOptions \<lparr> fo_url := rd_url o1, fo_chunk_size := rd_chunk_size o1,
     fo_offset := rd_offset o1, fo_max_bytes := rd_max_bytes o1, fo_vector_chunks := rd_vector_chunks o1 \<rparr>"

text \<open>A text and a field name between double quotes.\<close>

definition in_dquotes :: "string \<Rightarrow> string" where
  "in_dquotes s = [dquote] @ s @ [dquote]"

definition json_member :: "string \<Rightarrow> string \<Rightarrow> string" where
  "json_member k v = in_dquotes k @ '':'' @ v"

definition read_op_name :: "FileSessionResult \<Rightarrow> string" where
  "read_op_name r = (if fr_vector r then ''vector_read'' else ''read'')"

definition result_json_line :: "FileSessionResult \<Rightarrow> string" where
  "result_json_line r =
     ''{'' @ json_member ''url'' (in_dquotes (fr_url r)) @ '','' @ json_member ''data_server'' (in_dquotes (fr_data_server r))
     @ '','' @ json_member ''file_size'' (u64_dec (fr_file_size r))
     @ '','' @ json_member ''open_hosts'' (nat_to_dec (fr_open_hosts r))
     @ '','' @ json_member ''open_ms'' (fmt_f 3 (fr_open_ms r)) @ '','' @ json_member ''ttfb_ms'' (fmt_f 3 (fr_ttfb_ms r))
     @ '','' @ json_member ''bytes_read'' (u64_dec (fr_bytes_read r)) @ '','' @ json_member ''ops'' (u64_dec (fr_ops r))
     @ '','' @ json_member ''op'' (in_dquotes (read_op_name r)) @ '','' @ json_member ''read_s'' (fmt_f 3 (fr_read_s r))
     @ '','' @ json_member ''throughput_Mbps'' (fmt_f 2 (fr_throughput_Mbps r))
     @ '','' @ json_member ''op_latency_ms''
         (''{'' @ json_member ''min'' (fmt_f 3 (fr_op_lat_min_ms r)) @ '','' @ json_member ''avg'' (fmt_f 3 (fr_op_lat_avg_ms r))
          @ '','' @ json_member ''max'' (fmt_f 3 (fr_op_lat_max_ms r)) @ ''}'')
     @ '','' @ json_member ''close_ms'' (fmt_f 3 (fr_close_ms r)) @ '','' @ json_member ''total_s'' (fmt_f 3 (fr_total_s r)) @ ''}''"

definition bytes_per_sec :: "FileSessionResult \<Rightarrow> u64 res" where
  "bytes_per_sec r = (if dlt (Fin 0) (fr_read_s r)
     then cast_u64 (dadd (ddiv (d_of_u64 (fr_bytes_read r)) (fr_read_s r)) (Fin (1 / 2))) else Inr 0)"

definition PrintResult :: "FileSessionResult \<Rightarrow> bool \<Rightarrow> string list res" where
  "PrintResult r json =
     (if json then Inr [result_json_line r]
      else res_bind (bytes_per_sec r) (\<lambda>rate. Inr
        [''URL:          '' @ fr_url r,
         ''Data server:  '' @ fr_data_server r,
         ''File size:    '' @ u64_dec (fr_file_size r) @ '' bytes'',
         ''Open:         '' @ fmt_f 3 (fr_open_ms r) @ '' ms ('' @ nat_to_dec (fr_open_hosts r) @ '' host''
           @ (if fr_open_hosts r = 1 then [] else ''s'') @ '' in open chain)'',
         ''TTFB:         '' @ fmt_f 3 (fr_ttfb_ms r) @ '' ms'',
         ''Read:         '' @ u64_dec (fr_bytes_read r) @ '' bytes in '' @ u64_dec (fr_ops r) @ '' '' @ read_op_name r @ '' op''
           @ (if fr_ops r = 1 then [] else ''s'') @ '' ('' @ fmt_f 3 (fr_read_s r) @ '' s)'',
         ''Op latency:   min '' @ fmt_f 3 (fr_op_lat_min_ms r) @ '' / avg '' @ fmt_f 3 (fr_op_lat_avg_ms r)
           @ '' / max '' @ fmt_f 3 (fr_op_lat_max_ms r) @ '' ms'',
         ''Throughput:   '' @ FormatRate rate,
         ''Close:        '' @ fmt_f 3 (fr_close_ms r) @ '' ms'',
         ''Total:        '' @ fmt_f 3 (fr_total_s r) @ '' s'']))"

text \<open>The exit code and the lines printed.\<close>

definition RunReadCommand :: "(FileSessionOptions \<Rightarrow> FileSessionResult) \<Rightarrow> ReadOptions \<Rightarrow> (int \<times> string list) res" where
  "RunReadCommand session o1 =
     (let r = session (read_session_opts o1)
      in if \<not> fr_ok r then Inr (1, [''error: '' @ fr_error r])
         else res_bind (PrintResult r (rd_json o1)) (\<lambda>lines. Inr (0, lines)))"

text \<open>The JSON line takes the texts as they are: with a quote in the URL it is not JSON.\<close>

lemma json_line_unescaped:
  "fr_url r = u @ [dquote] \<Longrightarrow> \<exists>rest. result_json_line r = ''{'' @ json_member ''url'' ([dquote] @ u @ [dquote, dquote]) @ rest"
  by (simp add: result_json_line_def in_dquotes_def json_member_def)

end
