(* ===== verification/Probe.thy ===== *)
theory Probe
  imports RunCommand AuthCheck "HOL-Library.Multiset"
begin

text \<open>
  \<^verbatim>\<open>src/probe_command.cc\<close>: open and read one byte of every file of a workload, a bounded number at a time. The
  admission loop of the main thread and the callbacks of the sessions interleave; one action is one step between
  accesses to what they share.
\<close>

section \<open>Items\<close>

record ProbeOptions =
  po_workload_path :: string
  po_target :: string
  po_limit :: u32
  po_concurrency :: u32
  po_json :: bool
  po_skip_auth_check :: bool

record ProbeItemResult =
  pi_target :: string
  pi_url :: string
  pi_ok :: bool
  pi_timed_out :: bool
  pi_error_class :: string
  pi_error :: string
  pi_open_ms :: double
  pi_ttfb_ms :: double
  pi_open_hosts :: nat
  pi_data_server :: string

definition FromSession :: "string \<Rightarrow> string \<Rightarrow> FileSessionResult \<Rightarrow> ProbeItemResult" where
  "FromSession target url r = \<lparr> pi_target = target, pi_url = url, pi_ok = fr_ok r, pi_timed_out = fr_timed_out r,
     pi_error_class = (if fr_ok r then ''none'' else ErrorClassName
       (if fr_timed_out r then Timeout else ClassifyXRootDError (fr_status_code r) (fr_err_code r) (fr_error r))),
     pi_error = (if fr_ok r then [] else fr_error r),
     pi_open_ms = fr_open_ms r, pi_ttfb_ms = fr_ttfb_ms r, pi_open_hosts = fr_open_hosts r,
     pi_data_server = fr_data_server r \<rparr>"

definition ItemToJson :: "'j json_api \<Rightarrow> ProbeItemResult \<Rightarrow> 'j" where
  "ItemToJson J r = js_object J
     [(''target'', js_string J (pi_target r)), (''url'', js_string J (pi_url r)), (''ok'', js_boolean J (pi_ok r)),
      (''timed_out'', js_boolean J (pi_timed_out r)), (''error_class'', js_string J (pi_error_class r)),
      (''error'', js_string J (pi_error r)), (''open_ms'', js_float J (pi_open_ms r)),
      (''ttfb_ms'', js_float J (pi_ttfb_ms r)), (''open_hosts'', js_unsigned J (of_nat (pi_open_hosts r))),
      (''data_server'', js_string J (pi_data_server r))]"

definition pad_left :: "nat \<Rightarrow> string \<Rightarrow> string" where
  "pad_left n s = replicate (n - length s) (CHR '' '') @ s"

definition probe_lines :: "ProbeItemResult \<Rightarrow> string list" where
  "probe_lines r =
     (let timing = '' open='' @ pad_left 7 (fmt_f 1 (pi_open_ms r)) @ '' ms ttfb='' @ pad_left 7 (fmt_f 1 (pi_ttfb_ms r))
            @ '' ms hosts='' @ nat_to_dec (pi_open_hosts r) @ '' ds='' @ (if pi_data_server r = [] then ''-'' else pi_data_server r)
      in if pi_ok r then [''OK  '' @ pad_right 16 (pi_target r) @ timing, ''  '' @ pi_url r]
         else [''FAIL '' @ pad_right 16 (pi_target r) @ '' class='' @ pad_right 14 (pi_error_class r) @ timing,
               ''  '' @ pi_url r, ''  '' @ pi_error r])"

section \<open>What is probed\<close>

definition probe_targets :: "TargetSpec list \<Rightarrow> string \<Rightarrow> TargetSpec list" where
  "probe_targets ts wanted = filter (\<lambda>t. wanted = [] \<or> ts_name t = wanted) ts"

definition probe_limit :: "u32 \<Rightarrow> nat \<Rightarrow> nat" where
  "probe_limit limit n = (if 0 < limit \<and> unat limit < n then unat limit else n)"

definition probe_work :: "u32 \<Rightarrow> TargetSpec list \<Rightarrow> (string \<times> string) list" where
  "probe_work limit ts = concat (map (\<lambda>t.
     map (\<lambda>f. (ts_name t, JoinUrl (ts_endpoint t) f)) (take (probe_limit limit (length (ts_files t))) (ts_files t))) ts)"

definition probe_session_opts :: "double \<Rightarrow> string \<Rightarrow> FileSessionOptions" where
  "probe_session_opts timeout_s url = default_FileSessionOptions \<lparr> fo_url := url, fo_chunk_size := 1, fo_max_bytes := 1,
     fo_vector_chunks := 0, fo_wall_timeout_s := timeout_s \<rparr>"

text \<open>Everything before the first session: the complaints, or what to probe.\<close>

definition PrepareProbe ::
  "'j wl_env \<Rightarrow> cred_env \<Rightarrow> ProbeOptions \<Rightarrow> (string list + ValidateResult \<times> AuthCheckResult \<times> (string \<times> string) list) res" where
  "PrepareProbe E C opts =
     res_bind (ValidateWorkloadFile E (po_workload_path opts)) (\<lambda>validated. Inr
       (if \<not> vr_ok validated then Inl (map issue_line (vr_issues validated))
        else
          let wl = vr_resolved validated;
              auth = (if po_skip_auth_check opts
                then \<lparr> ac_ok = True, ac_issues = [], ac_proxy_path = [], ac_remaining_s = Fin 0, ac_loose_permissions = False \<rparr>
                else CheckX509Credentials C (wl_duration_s wl) []);
              targets = probe_targets (wl_targets wl) (po_target opts);
              work = probe_work (po_limit opts) targets
          in if \<not> po_skip_auth_check opts \<and> wl_auth_mode wl \<noteq> ''x509''
             then Inl [''auth.mode: unsupported auth mode for probe'']
             else if \<not> ac_ok auth then Inl (map (\<lambda>i. vi_field i @ '': '' @ vi_message i) (ac_issues auth))
             else if targets = []
             then Inl [if po_target opts \<noteq> [] then ''target: unknown target name '' @ quoted (po_target opts)
                       else ''targets: no targets to probe'']
             else if work = [] then Inl [''probe: no files selected'']
             else Inr (validated, auth, work)))"

section \<open>The probing loop\<close>

datatype probe_phase = Probing | Delivered | Notified

record probe_session =
  pr_target :: string
  pr_url :: string
  pr_opts :: FileSessionOptions
  pr_phase :: probe_phase

datatype probe_pc = Admitting | Collecting | Returned

record probe =
  pb_timeout_s :: double
  pb_sem :: InFlightSemaphore
  pb_todo :: "(string \<times> string) list"
  pb_sessions :: "probe_session list"
  pb_results :: "ProbeItemResult list"
  pb_completed :: nat
  pb_pc :: probe_pc

definition new_probe :: "double \<Rightarrow> u32 \<Rightarrow> (string \<times> string) list \<Rightarrow> probe" where
  "new_probe timeout_s concurrency work = \<lparr> pb_timeout_s = timeout_s, pb_sem = new_InFlightSemaphore (if concurrency = 0 then 1 else concurrency),
     pb_todo = work, pb_sessions = [], pb_results = [], pb_completed = 0, pb_pc = Admitting \<rparr>"

text \<open>\<open>Admit\<close>: one turn of the main thread's loop, with whether the 24 hours are over; \<open>Deliver\<close> and \<open>Free\<close>: a
  session's callback, its locked part and the release of its slot; \<open>Collect\<close>: the final wait is over.\<close>

datatype probe_action = Admit bool | Deliver nat FileSessionResult | Free nat | Collect

definition set_phase_of :: "nat \<Rightarrow> probe_phase \<Rightarrow> probe \<Rightarrow> probe" where
  "set_phase_of i ph p = p \<lparr> pb_sessions := (pb_sessions p)[i := (pb_sessions p ! i) \<lparr> pr_phase := ph \<rparr>] \<rparr>"

fun probe_act :: "probe_action \<Rightarrow> probe \<Rightarrow> probe option" where
  "probe_act (Admit expired) p =
     (if pb_pc p \<noteq> Admitting then None
      else case pb_todo p of
        [] \<Rightarrow> Some (p \<lparr> pb_pc := Collecting \<rparr>)
      | (target, url) # rest \<Rightarrow>
          (case sem_AcquireUntil (pb_sem p) expired of
             None \<Rightarrow> None
           | Some (False, sem) \<Rightarrow> Some (p \<lparr> pb_pc := Collecting, pb_sem := sem \<rparr>)
           | Some (True, sem) \<Rightarrow> Some (p \<lparr> pb_sem := sem, pb_todo := rest,
               pb_sessions := pb_sessions p @ [\<lparr> pr_target = target, pr_url = url,
                 pr_opts = probe_session_opts (pb_timeout_s p) url, pr_phase = Probing \<rparr>] \<rparr>)))"
| "probe_act (Deliver i r) p =
     (if i < length (pb_sessions p) \<and> pr_phase (pb_sessions p ! i) = Probing
      then let x = pb_sessions p ! i
           in Some (set_phase_of i Delivered (p \<lparr> pb_results := pb_results p @ [FromSession (pr_target x) (pr_url x) r],
                pb_completed := pb_completed p + 1 \<rparr>))
      else None)"
| "probe_act (Free i) p =
     (if i < length (pb_sessions p) \<and> pr_phase (pb_sessions p ! i) = Delivered
      then Some (set_phase_of i Notified (p \<lparr> pb_sem := sem_Release (pb_sem p) \<rparr>)) else None)"
| "probe_act Collect p =
     (if pb_pc p = Collecting \<and> length (pb_sessions p) \<le> pb_completed p then Some (p \<lparr> pb_pc := Returned \<rparr>) else None)"

fun probe_run :: "probe_action list \<Rightarrow> probe \<Rightarrow> probe option" where
  "probe_run [] p = Some p"
| "probe_run (a # as) p = (case probe_act a p of None \<Rightarrow> None | Some p' \<Rightarrow> probe_run as p')"

section \<open>The report\<close>

definition class_counts :: "ProbeItemResult list \<Rightarrow> u64 omap" where
  "class_counts rs = foldl (\<lambda>m r. if pi_ok r then m else om_count (pi_error_class r) 1 m) om_empty rs"

definition probe_ok_n :: "ProbeItemResult list \<Rightarrow> u64" where
  "probe_ok_n rs = of_nat (length (filter pi_ok rs))"

definition probe_fail_n :: "ProbeItemResult list \<Rightarrow> u64" where
  "probe_fail_n rs = of_nat (length (filter (\<lambda>r. \<not> pi_ok r) rs))"

definition probe_json :: "'j json_api \<Rightarrow> ProbeOptions \<Rightarrow> ValidateResult \<Rightarrow> AuthCheckResult \<Rightarrow> ProbeItemResult list \<Rightarrow> 'j" where
  "probe_json J opts validated auth rs = js_object J
     ([(''workload_hash'', js_string J (vr_workload_hash validated)),
       (''run_id'', js_string J (wl_run_id (vr_resolved validated))),
       (''auth_skipped'', js_boolean J (po_skip_auth_check opts))]
      @ (if po_skip_auth_check opts then [] else
         [(''auth_remaining_s'', js_float J (ac_remaining_s auth)), (''auth_proxy_path'', js_string J (ac_proxy_path auth))])
      @ [(''probed'', js_unsigned J (of_nat (length rs))), (''ok'', js_unsigned J (probe_ok_n rs)),
         (''failed'', js_unsigned J (probe_fail_n rs)),
         (''errors_by_class'', js_object J (map (\<lambda>(k, n). (k, js_unsigned J n)) (class_counts rs))),
         (''results'', js_array J (map (ItemToJson J) rs))])"

definition probe_text :: "ProbeOptions \<Rightarrow> ValidateResult \<Rightarrow> AuthCheckResult \<Rightarrow> ProbeItemResult list \<Rightarrow> string list" where
  "probe_text opts validated auth rs =
     [''probe: run_id='' @ wl_run_id (vr_resolved validated) @ '' workload_hash='' @ vr_workload_hash validated
        @ '' files='' @ nat_to_dec (length rs),
      (if po_skip_auth_check opts then ''auth: skipped (--skip-auth-check)''
       else ''auth: proxy='' @ ac_proxy_path auth @ '' remaining='' @ fmt_f 0 (ac_remaining_s auth) @ ''s'')]
     @ concat (map probe_lines rs)
     @ [''summary: ok='' @ u64_dec (probe_ok_n rs) @ '' failed='' @ u64_dec (probe_fail_n rs)]
     @ map (\<lambda>(k, n). ''  '' @ k @ '': '' @ u64_dec n) (class_counts rs)"

definition probe_exit :: "(string \<times> string) list \<Rightarrow> probe \<Rightarrow> int" where
  "probe_exit work p = (if length (pb_sessions p) \<noteq> length work then 1
     else if probe_fail_n (pb_results p) = 0 then 0 else 1)"

text \<open>\<^verbatim>\<open>RunProbeCommand\<close>: \<open>probing\<close> is a run of the loop to its end.\<close>

definition RunProbeCommand ::
  "'j run_env \<Rightarrow> 'j wl_env \<Rightarrow> cred_env \<Rightarrow> (probe \<Rightarrow> probe) \<Rightarrow> ProbeOptions \<Rightarrow> outputs \<Rightarrow> (int \<times> outputs) res" where
  "RunProbeCommand R E C probing opts u =
     res_bind (PrepareProbe E C opts) (\<lambda>prep. case prep of
        Inl lines \<Rightarrow> Inr (2, log_lines lines u)
      | Inr (validated, auth, work) \<Rightarrow>
          (let t = wl_client_tuning (vr_resolved validated);
               u = ApplyXrdClTimeouts R (ct_connection_window_s t) (ct_connection_retry t) (ct_request_timeout_s t)
                     (ct_session_timeout_s t) True u;
               p = probing (new_probe (ct_session_timeout_s t) (po_concurrency opts) work);
               incomplete = (if length (pb_sessions p) \<noteq> length work
                 then [''probe: incomplete admission ('' @ nat_to_dec (length (pb_sessions p)) @ ''/'' @ nat_to_dec (length work) @ '')'']
                 else [])
           in res_bind (if po_json opts
                then res_bind (js_dump2 (we_json E) (probe_json (we_json E) opts validated auth (pb_results p))) (\<lambda>t. Inr [t])
                else Inr (probe_text opts validated auth (pb_results p)))
              (\<lambda>lines. Inr (probe_exit work p, log_lines incomplete (u \<lparr> ou_out := ou_out u @ lines \<rparr>)))))"

section \<open>Every file is reported once\<close>

definition item_key :: "ProbeItemResult \<Rightarrow> string \<times> string" where
  "item_key r = (pi_target r, pi_url r)"

definition session_key :: "probe_session \<Rightarrow> string \<times> string" where
  "session_key x = (pr_target x, pr_url x)"

definition with_phase :: "(probe_phase \<Rightarrow> bool) \<Rightarrow> probe \<Rightarrow> probe_session multiset" where
  "with_phase P p = filter_mset (\<lambda>x. P (pr_phase x)) (mset (pb_sessions p))"

definition probe_inv :: "u32 \<Rightarrow> (string \<times> string) list \<Rightarrow> probe \<Rightarrow> bool" where
  "probe_inv concurrency work p \<longleftrightarrow>
     sem_ok (pb_sem p) \<and> sem_max (pb_sem p) = (if concurrency = 0 then 1 else concurrency)
     \<and> uint (sem_current (pb_sem p)) = int (size (with_phase (\<lambda>h. h \<noteq> Notified) p))
     \<and> map session_key (pb_sessions p) @ pb_todo p = work
     \<and> pb_completed p = length (pb_results p)
     \<and> image_mset item_key (mset (pb_results p)) = image_mset session_key (with_phase (\<lambda>h. h \<noteq> Probing) p)
     \<and> (pb_pc p = Returned \<longrightarrow> pb_completed p = length (pb_sessions p))"

lemma with_phase_set:
  assumes "i < length (pb_sessions p)"
  shows "with_phase P (set_phase_of i h p)
    = (if P h then {#(pb_sessions p ! i) \<lparr> pr_phase := h \<rparr>#} else {#})
      + (with_phase P p - (if P (pr_phase (pb_sessions p ! i)) then {#pb_sessions p ! i#} else {#}))"
  using assms by (simp add: with_phase_def set_phase_of_def mset_update)

lemma with_phase_in:
  "i < length (pb_sessions p) \<Longrightarrow> P (pr_phase (pb_sessions p ! i)) \<Longrightarrow> pb_sessions p ! i \<in># with_phase P p"
  by (simp add: with_phase_def)

lemma with_phase_frame: "pb_sessions p' = pb_sessions p \<Longrightarrow> with_phase P p' = with_phase P p"
  by (simp add: with_phase_def)

lemma set_phase_frame [simp]:
  "pb_sem (set_phase_of i h p) = pb_sem p" "pb_todo (set_phase_of i h p) = pb_todo p"
  "pb_results (set_phase_of i h p) = pb_results p" "pb_completed (set_phase_of i h p) = pb_completed p"
  "pb_pc (set_phase_of i h p) = pb_pc p" "length (pb_sessions (set_phase_of i h p)) = length (pb_sessions p)"
  by (simp_all add: set_phase_of_def)

lemma set_phase_keys [simp]: "map session_key (pb_sessions (set_phase_of i h p)) = map session_key (pb_sessions p)"
proof -
  have "session_key ((pb_sessions p ! i) \<lparr> pr_phase := h \<rparr>) = session_key (pb_sessions p ! i)" by (simp add: session_key_def)
  then show ?thesis by (simp add: set_phase_of_def map_update)
     (metis list_update_beyond list_update_id linorder_not_less length_map nth_map)
qed

lemma delivered_count: "size (with_phase (\<lambda>h. h \<noteq> Probing) p) \<le> length (pb_sessions p)"
  unfolding with_phase_def by (metis size_filter_mset_lesseq size_mset)

lemma new_probe_inv: "probe_inv c work (new_probe t c work)"
  by (simp add: probe_inv_def new_probe_def with_phase_def new_InFlightSemaphore_def sem_ok_def word_neq_0_conv)

lemma deliver_inv:
  assumes "probe_inv c work p" "i < length (pb_sessions p)" "pr_phase (pb_sessions p ! i) = Probing"
  shows "probe_inv c work (set_phase_of i Delivered (p \<lparr> pb_results :=
      pb_results p @ [FromSession (pr_target (pb_sessions p ! i)) (pr_url (pb_sessions p ! i)) r], pb_completed := pb_completed p + 1 \<rparr>))"
proof -
  let ?x = "pb_sessions p ! i"
  let ?p = "p \<lparr> pb_results := pb_results p @ [FromSession (pr_target ?x) (pr_url ?x) r], pb_completed := pb_completed p + 1 \<rparr>"
  have f: "with_phase P ?p = with_phase P p" for P by (rule with_phase_frame) simp
  have i: "i < length (pb_sessions ?p)" "pb_sessions ?p ! i = ?x" using assms(2) by simp_all
  have "?x \<in># with_phase (\<lambda>h. h \<noteq> Notified) p" using assms(2,3) by (intro with_phase_in) simp_all
  then obtain B where "with_phase (\<lambda>h. h \<noteq> Notified) p = add_mset ?x B" by (blast dest: multi_member_split)
  then have a: "size (with_phase (\<lambda>h. h \<noteq> Notified) (set_phase_of i Delivered ?p)) = size (with_phase (\<lambda>h. h \<noteq> Notified) p)"
    using with_phase_set [OF i(1), of "\<lambda>h. h \<noteq> Notified" Delivered] assms(3) unfolding f i(2) by simp
  have b: "with_phase (\<lambda>h. h \<noteq> Probing) (set_phase_of i Delivered ?p) = {#?x \<lparr> pr_phase := Delivered \<rparr>#} + with_phase (\<lambda>h. h \<noteq> Probing) p"
    using with_phase_set [OF i(1), of "\<lambda>h. h \<noteq> Probing" Delivered] assms(3) unfolding f i(2) by simp
  have c: "pb_pc p \<noteq> Returned"
  proof
    assume "pb_pc p = Returned"
    then have n: "length (pb_results p) = length (pb_sessions p)" using assms(1) by (simp add: probe_inv_def)
    have "size (image_mset item_key (mset (pb_results p))) = size (image_mset session_key (with_phase (\<lambda>h. h \<noteq> Probing) p))"
      using assms(1) by (simp add: probe_inv_def)
    then have "size (with_phase (\<lambda>h. h \<noteq> Probing) p) = length (pb_sessions p)" using n by simp
    moreover have "with_phase (\<lambda>h. h \<noteq> Probing) p \<subseteq># mset (pb_sessions p) - {#?x#}"
      unfolding with_phase_def using assms(2,3)
      by (metis (mono_tags, lifting) diff_single_trivial filter_mset_add_mset insert_DiffM multiset_filter_subset nth_mem_mset)
    ultimately show False using assms(2) size_mset_mono [of "with_phase (\<lambda>h. h \<noteq> Probing) p" "mset (pb_sessions p) - {#?x#}"]
      by (simp add: size_Diff_singleton)
  qed
  show ?thesis using assms(1) a b c
    by (simp add: probe_inv_def FromSession_def item_key_def session_key_def)
qed

lemma free_inv:
  assumes "probe_inv c work p" "i < length (pb_sessions p)" "pr_phase (pb_sessions p ! i) = Delivered"
  shows "probe_inv c work (set_phase_of i Notified (p \<lparr> pb_sem := sem_Release (pb_sem p) \<rparr>))"
proof -
  let ?x = "pb_sessions p ! i" and ?p = "p \<lparr> pb_sem := sem_Release (pb_sem p) \<rparr>"
  have f: "with_phase P ?p = with_phase P p" for P by (rule with_phase_frame) simp
  have i: "i < length (pb_sessions ?p)" "pb_sessions ?p ! i = ?x" using assms(2) by simp_all
  have m: "?x \<in># with_phase (\<lambda>h. h \<noteq> Notified) p" "?x \<in># with_phase (\<lambda>h. h \<noteq> Probing) p"
    using assms(2,3) by (auto intro!: with_phase_in)
  have a: "with_phase (\<lambda>h. h \<noteq> Notified) (set_phase_of i Notified ?p) = with_phase (\<lambda>h. h \<noteq> Notified) p - {#?x#}"
    using with_phase_set [OF i(1), of "\<lambda>h. h \<noteq> Notified" Notified] assms(3) by (simp add: f i(2))
  have b: "with_phase (\<lambda>h. h \<noteq> Probing) (set_phase_of i Notified ?p)
      = {#?x \<lparr> pr_phase := Notified \<rparr>#} + (with_phase (\<lambda>h. h \<noteq> Probing) p - {#?x#})"
    using with_phase_set [OF i(1), of "\<lambda>h. h \<noteq> Probing" Notified] assms(3) by (simp add: f i(2))
  have "session_key (?x \<lparr> pr_phase := Notified \<rparr>) = session_key ?x" by (simp add: session_key_def)
  then have k: "image_mset session_key (with_phase (\<lambda>h. h \<noteq> Probing) (set_phase_of i Notified ?p))
      = image_mset session_key (with_phase (\<lambda>h. h \<noteq> Probing) p)"
    unfolding b using m(2) by (simp add: image_mset_Diff)
  have "0 < size (with_phase (\<lambda>h. h \<noteq> Notified) p)" using m(1) by (metis empty_not_add_mset multi_member_split nonempty_has_size)
  moreover have u: "uint (sem_current (pb_sem p)) = int (size (with_phase (\<lambda>h. h \<noteq> Notified) p))" "sem_ok (pb_sem p)"
    using assms(1) by (simp_all add: probe_inv_def)
  ultimately have g: "0 < sem_current (pb_sem p)" by (simp add: word_less_def)
  have "uint (sem_current (sem_Release (pb_sem p))) = int (size (with_phase (\<lambda>h. h \<noteq> Notified) p - {#?x#}))"
    using u(1) m(1) g uint_dec_u32 [OF g] multi_member_split [OF m(1)] by (auto simp: sem_Release_def)
  moreover have "sem_ok (sem_Release (pb_sem p))"
    using sem_step_ok [OF u(2), of SemRelease] by simp
  moreover have "sem_max (sem_Release (pb_sem p)) = sem_max (pb_sem p)" by (simp add: sem_Release_def)
  ultimately show ?thesis using assms(1) a k by (auto simp: probe_inv_def)
qed

lemma admit_inv:
  assumes "probe_inv c work p" "pb_pc p = Admitting" "pb_todo p = (target, url) # rest"
    and "sem_current (pb_sem p) < sem_max (pb_sem p)"
  shows "probe_inv c work (p \<lparr> pb_sem := (pb_sem p) \<lparr> sem_current := sem_current (pb_sem p) + 1 \<rparr>, pb_todo := rest,
     pb_sessions := pb_sessions p @ [\<lparr> pr_target = target, pr_url = url, pr_opts = o1, pr_phase = Probing \<rparr>] \<rparr>)"
  using assms sem_take_ok [of "pb_sem p"] uint_inc_u32 [OF assms(4)] by (simp add: probe_inv_def with_phase_def session_key_def)

lemma probe_act_inv:
  assumes "probe_inv c work p" "probe_act a p = Some p'" shows "probe_inv c work p'"
proof (cases a)
  case (Admit expired)
  have k: "probe_inv c work (p \<lparr> pb_pc := Collecting \<rparr>)" using assms(1) by (simp add: probe_inv_def with_phase_def)
  show ?thesis
  proof (cases "pb_todo p")
    case Nil
    then show ?thesis using assms(2) k by (auto simp: Admit split: if_splits)
  next
    case (Cons x rest)
    obtain target url where x: "x = (target, url)" by (cases x)
    show ?thesis
    proof (cases "sem_current (pb_sem p) < sem_max (pb_sem p)")
      case True
      then have "pb_pc p = Admitting" "p' = p \<lparr> pb_sem := (pb_sem p) \<lparr> sem_current := sem_current (pb_sem p) + 1 \<rparr>, pb_todo := rest,
          pb_sessions := pb_sessions p @ [\<lparr> pr_target = target, pr_url = url,
            pr_opts = probe_session_opts (pb_timeout_s p) url, pr_phase = Probing \<rparr>] \<rparr>"
        using assms(2) by (auto simp: Admit Cons x sem_AcquireUntil_def split: if_splits)
      then show ?thesis using admit_inv [OF assms(1) _ _ True] Cons x by simp
    next
      case False
      then have "p' = p \<lparr> pb_pc := Collecting \<rparr>"
        using assms(2) by (auto simp: Admit Cons x sem_AcquireUntil_def split: if_splits)
      then show ?thesis using k by simp
    qed
  qed
next
  case (Deliver i r)
  then show ?thesis using assms(2) deliver_inv [OF assms(1), of i r] by (auto simp: Let_def split: if_splits)
next
  case (Free i)
  then show ?thesis using assms(2) free_inv [OF assms(1), of i] by (auto split: if_splits)
next
  case Collect
  have "length (pb_results p) \<le> length (pb_sessions p)"
    using assms(1) delivered_count [of p] by (metis probe_inv_def size_image_mset size_mset)
  then show ?thesis using assms by (auto simp: Collect probe_inv_def with_phase_def split: if_splits)
qed

lemma probe_run_inv: "probe_run as p = Some p' \<Longrightarrow> probe_inv c work p \<Longrightarrow> probe_inv c work p'"
  by (induction as arbitrary: p) (auto intro: probe_act_inv split: option.splits)

text \<open>C25. A probe reports every file it tried exactly once, whatever the order of the answers, and never has more
  sessions under way than the concurrency asked for; when it returns, its exit code is 0 exactly if it tried
  every file of the work list and each could be opened and read.\<close>

theorem probe_reports_all:
  assumes "probe_run as (new_probe timeout_s concurrency work) = Some p" "length work < 2 ^ 64"
  shows "length (filter (\<lambda>x. pr_phase x \<noteq> Notified) (pb_sessions p)) \<le> max 1 (unat concurrency)
    \<and> (pb_pc p = Returned \<longrightarrow>
        mset (map item_key (pb_results p)) = mset (take (length (pb_sessions p)) work)
        \<and> (probe_exit work p = 0 \<longleftrightarrow> length (pb_results p) = length work \<and> list_all pi_ok (pb_results p)))"
proof -
  have i: "probe_inv concurrency work p" by (rule probe_run_inv [OF assms(1) new_probe_inv])
  then have s: "sem_ok (pb_sem p)" "sem_max (pb_sem p) = (if concurrency = 0 then 1 else concurrency)"
    "uint (sem_current (pb_sem p)) = int (size (with_phase (\<lambda>h. h \<noteq> Notified) p))"
    "map session_key (pb_sessions p) @ pb_todo p = work"
    by (simp_all add: probe_inv_def)
  have n: "size (with_phase (\<lambda>h. h \<noteq> Notified) p) = length (filter (\<lambda>x. pr_phase x \<noteq> Notified) (pb_sessions p))"
    unfolding with_phase_def by (metis mset_filter size_mset)
  have "uint (sem_current (pb_sem p)) \<le> uint (sem_max (pb_sem p))" using s(1) by (simp add: sem_ok_def word_le_def)
  also have "uint (sem_max (pb_sem p)) \<le> int (max 1 (unat concurrency))"
    using s(2) by (cases "concurrency = 0") (simp_all only: if_True if_False uint_nat, simp_all)
  finally have c: "length (filter (\<lambda>x. pr_phase x \<noteq> Notified) (pb_sessions p)) \<le> max 1 (unat concurrency)"
    using s(3) n by linarith
  have k: "map session_key (pb_sessions p) = take (length (pb_sessions p)) work"
    unfolding s(4) [symmetric] by simp
  have r: "mset (map item_key (pb_results p)) = mset (take (length (pb_sessions p)) work)
        \<and> (probe_exit work p = 0 \<longleftrightarrow> length (pb_results p) = length work \<and> list_all pi_ok (pb_results p))"
    if "pb_pc p = Returned"
  proof -
    have l: "length (pb_results p) = length (pb_sessions p)" using i that by (simp add: probe_inv_def)
    have "image_mset item_key (mset (pb_results p)) = image_mset session_key (with_phase (\<lambda>h. h \<noteq> Probing) p)"
      using i by (simp add: probe_inv_def)
    moreover from this have "size (with_phase (\<lambda>h. h \<noteq> Probing) p) = size (mset (pb_sessions p))"
      using l by (metis size_image_mset size_mset)
    then have "with_phase (\<lambda>h. h \<noteq> Probing) p = mset (pb_sessions p)"
      unfolding with_phase_def by (metis multiset_filter_subset mset_subset_size nat_less_le subset_mset.le_imp_less_or_eq)
    ultimately have m: "mset (map item_key (pb_results p)) = mset (take (length (pb_sessions p)) work)"
      by (simp add: k [symmetric])
    have le: "length (pb_sessions p) \<le> length work" using s(4) by (metis length_append length_map le_add1)
    have "length (filter (\<lambda>r. \<not> pi_ok r) (pb_results p)) < 2 ^ 64"
      using length_filter_le [of "\<lambda>r. \<not> pi_ok r" "pb_results p"] l le assms(2) by linarith
    then have "unat (probe_fail_n (pb_results p)) = length (filter (\<lambda>r. \<not> pi_ok r) (pb_results p))"
      unfolding probe_fail_n_def by (simp add: unsigned_of_nat take_bit_nat_eq_self)
    then have "probe_fail_n (pb_results p) = 0 \<longleftrightarrow> filter (\<lambda>r. \<not> pi_ok r) (pb_results p) = []"
      by (metis length_0_conv unsigned_0 u64_eqI)
    then show ?thesis using m l le by (auto simp: probe_exit_def list_all_iff filter_empty_conv)
  qed
  show ?thesis using c r by blast
qed

definition demo_probe_work :: "(string \<times> string) list" where
  "demo_probe_work = [(''t'', ''root://h//a''), (''t'', ''root://h//b'')]"

definition demo_probe_actions :: "probe_action list" where
  "demo_probe_actions = [Admit False, Deliver 0 (new_FileSessionResult \<lparr> fr_ok := True \<rparr>), Free 0, Admit False,
     Deliver 1 (new_FileSessionResult \<lparr> fr_ok := True \<rparr>), Free 1, Admit False, Collect]"

lemma demo_probe: "\<exists>p. probe_run demo_probe_actions (new_probe (Fin 60) 1 demo_probe_work) = Some p
    \<and> pb_pc p = Returned \<and> length (pb_results p) = 2 \<and> list_all pi_ok (pb_results p)"
  by (simp add: demo_probe_actions_def demo_probe_work_def new_probe_def new_InFlightSemaphore_def sem_AcquireUntil_def
      sem_Release_def set_phase_of_def FromSession_def new_FileSessionResult_def Let_def)

lemma probe_reports_all_witness:
  "\<exists>p. probe_run demo_probe_actions (new_probe (Fin 60) 1 demo_probe_work) = Some p \<and> probe_exit demo_probe_work p = 0"
proof -
  obtain p where p: "probe_run demo_probe_actions (new_probe (Fin 60) 1 demo_probe_work) = Some p" "pb_pc p = Returned"
    "length (pb_results p) = 2" "list_all pi_ok (pb_results p)" using demo_probe by blast
  have "length demo_probe_work = 2" by (simp add: demo_probe_work_def)
  then show ?thesis using probe_reports_all [OF p(1)] p by simp
qed

text \<open>The main thread may return, and destroy the semaphore, while the last callback has yet to release it.\<close>

lemma probe_returns_early:
  "\<exists>p. probe_run [Admit False, Deliver 0 (new_FileSessionResult \<lparr> fr_ok := True \<rparr>), Admit False, Collect]
      (new_probe (Fin 60) 4 [(''t'', ''u'')]) = Some p \<and> pb_pc p = Returned \<and> pr_phase (pb_sessions p ! 0) = Delivered"
  by (simp add: new_probe_def new_InFlightSemaphore_def sem_AcquireUntil_def set_phase_of_def FromSession_def
      new_FileSessionResult_def Let_def)

end
