(* ===== verification/MainCli.thy ===== *)
theory MainCli
  imports RunEnd ReadCommand Probe
begin

text \<open>
  \<^verbatim>\<open>src/main.cc\<close>: the command line, with \<^verbatim>\<open>workload_run_command.cc\<close>'s hand-over to the run. CLI11 is a parameter:
  the values it leaves in the variables bound to the options (\<open>run_args\<close> and the other commands' records) and
  the options it has seen.
\<close>

section \<open>Arguments\<close>

definition ParsePattern :: "string \<Rightarrow> PatternType res" where
  "ParsePattern s =
     (if s = ''sequential'' then Inr Sequential else if s = ''random'' then Inr Random
      else if s = ''vector'' then Inr Vector else if s = ''mixed'' then Inr Mixed
      else Inl (Runtime_error ''pattern must be sequential|random|vector|mixed''))"

text \<open>The variables of \<^verbatim>\<open>run\<close>; \<open>ra_counted\<close> are the options given.\<close>

record run_args =
  ra_counted :: "string list"
  ra_cfg :: RunConfig
  ra_duration :: string
  ra_rate :: string
  ra_chunk :: string
  ra_max_bytes :: string
  ra_pattern :: string
  ra_filelist :: string
  ra_snapshot :: string
  ra_session_timeout :: string
  ra_no_results :: bool
  ra_workload :: string
  ra_target :: string
  ra_skip_auth :: bool
  ra_no_sitename_query :: bool

definition default_run_args :: run_args where
  "default_run_args = \<lparr> ra_counted = [], ra_cfg = default_RunConfig, ra_duration = ''30s'', ra_rate = [], ra_chunk = ''1MiB'',
     ra_max_bytes = ''auto'', ra_pattern = ''sequential'', ra_filelist = [], ra_snapshot = ''15s'',
     ra_session_timeout = ''60s'', ra_no_results = False, ra_workload = [], ra_target = [], ra_skip_auth = False,
     ra_no_sitename_query = False \<rparr>"

definition AnyCounted :: "string list \<Rightarrow> string list \<Rightarrow> bool" where
  "AnyCounted given opts \<longleftrightarrow> list_ex (\<lambda>opt. opt \<in> set given) opts"

definition legacy_config_opts :: "string list" where
  "legacy_config_opts = [''--endpoint'', ''--filelist'', ''--duration'', ''--rate'', ''--max-inflight'', ''--pattern'',
     ''--chunk-size'', ''--vector-chunks'', ''--vector-fraction'', ''--max-bytes'', ''--session-timeout'',
     ''--connection-window'', ''--connection-retry'', ''--request-timeout'', ''--seed'', ''--run-id'', ''--job-id'',
     ''--results-dir'', ''--snapshot-interval'', ''--no-results'', ''--pushgateway'', ''--pushgateway-job'',
     ''--pushgateway-keep'']"

section \<open>The run command\<close>

text \<open>The configuration from the flags, in the order of the assignments; the first exception wins.\<close>

definition legacy_config :: "(string \<Rightarrow> string option) \<Rightarrow> run_args \<Rightarrow> RunConfig res" where
  "legacy_config file a =
     res_bind (ParseDurationString (ra_duration a)) (\<lambda>duration.
     res_bind (ParseSizeString (ra_chunk a)) (\<lambda>chunk.
     res_bind (if ra_rate a = [] then Inr None else res_bind (ParseTargetRateString (ra_rate a)) (\<lambda>r. Inr (Some r))) (\<lambda>rate.
     res_bind (if ra_max_bytes a = ''auto'' then Inr None else res_bind (ParseSizeString (ra_max_bytes a)) (\<lambda>n. Inr (Some n))) (\<lambda>max_bytes.
     res_bind (ParsePattern (ra_pattern a)) (\<lambda>pattern.
     res_bind (LoadFileList (ra_filelist a) (file (ra_filelist a))) (\<lambda>files.
     res_bind (ParseDurationString (ra_snapshot a)) (\<lambda>snapshot.
     res_bind (ParseDurationString (ra_session_timeout a)) (\<lambda>session_timeout.
       let cfg = (ra_cfg a) \<lparr> rc_duration_s := duration, rc_chunk_size := ucast chunk, rc_pattern := pattern,
             rc_filelist_path := ra_filelist a, rc_files := files, rc_snapshot_interval_s := snapshot,
             rc_session_timeout_s := session_timeout, rc_write_results := \<not> ra_no_results a \<rparr>;
           cfg = (case rate of None \<Rightarrow> cfg
             | Some r \<Rightarrow> cfg \<lparr> rc_target_rate_input := ra_rate a, rc_target_rate_bytes_per_s := r \<rparr>);
           cfg = (case max_bytes of None \<Rightarrow> cfg \<lparr> rc_max_bytes_auto := True \<rparr>
             | Some n \<Rightarrow> cfg \<lparr> rc_max_bytes_auto := False, rc_max_bytes := n \<rparr>)
       in Inr cfg))))))))"

record 'j main_env =
  me_workload :: "'j wl_env"
  me_credentials :: cred_env
  me_files :: "string \<Rightarrow> string option"
  me_report :: report_fs
  me_out :: file_env
  me_session :: "FileSessionOptions \<Rightarrow> FileSessionResult"
  me_probing :: "probe \<Rightarrow> probe"
  me_engine :: "RunConfig \<Rightarrow> outputs \<Rightarrow> (int \<times> outputs) res option"

definition RunWorkloadCommand :: "'j main_env \<Rightarrow> WorkloadRunOptions \<Rightarrow> outputs \<Rightarrow> (int \<times> outputs) res option" where
  "RunWorkloadCommand M opts u =
     (case PrepareWorkload (me_workload M) (me_credentials M) opts of
        Inl f \<Rightarrow> Some (Inl f)
      | Inr (Inl lines) \<Rightarrow> Some (Inr (2, log_lines lines u))
      | Inr (Inr cfg) \<Rightarrow> RunRunCommand (me_engine M) cfg (log_err (''workload_hash='' @ rc_workload_hash cfg) u))"

definition refuse :: "string \<Rightarrow> outputs \<Rightarrow> (int \<times> outputs) res option" where
  "refuse line u = Some (Inr (2, log_err line u))"

definition main_run :: "'j main_env \<Rightarrow> run_args \<Rightarrow> outputs \<Rightarrow> (int \<times> outputs) res option" where
  "main_run M a u =
     (let a = (if ra_no_sitename_query a then a \<lparr> ra_cfg := (ra_cfg a) \<lparr> rc_sitename_query := False \<rparr> \<rparr> else a)
      in if ra_workload a \<noteq> [] then
           (if AnyCounted (ra_counted a) legacy_config_opts
            then refuse (''error: workload mode rejects legacy run config flags (edit the JSON, or omit the workload path)'') u
            else RunWorkloadCommand M \<lparr> wo_workload_path = ra_workload a, wo_target = ra_target a,
                   wo_dry_run = rc_dry_run (ra_cfg a), wo_skip_auth_check = ra_skip_auth a,
                   wo_site_map_path = rc_site_map_path (ra_cfg a), wo_sitename_query = rc_sitename_query (ra_cfg a) \<rparr> u)
         else if AnyCounted (ra_counted a) [''--target'', ''--skip-auth-check'']
         then refuse ''error: --target and --skip-auth-check require a workload JSON'' u
         else if \<not> AnyCounted (ra_counted a) [''--endpoint''] \<or> \<not> AnyCounted (ra_counted a) [''--filelist'']
         then refuse ''error: pass a workload JSON, or both --endpoint and --filelist'' u
         else case legacy_config (me_files M) a of
           Inl Undefined_behaviour \<Rightarrow> Some (Inl Undefined_behaviour)
         | Inl e \<Rightarrow> refuse (error_of e) u
         | Inr cfg \<Rightarrow> RunRunCommand (me_engine M) cfg u)"

section \<open>The other commands\<close>

definition main_validate :: "'j main_env \<Rightarrow> string \<Rightarrow> string \<Rightarrow> outputs \<Rightarrow> (int \<times> outputs) res" where
  "main_validate M workload out u =
     res_bind (ValidateWorkloadFile (me_workload M) workload) (\<lambda>r. Inr
       (if \<not> vr_ok r then (2, log_lines (map issue_line (vr_issues r)) u)
        else let hash_line = ''workload_hash='' @ vr_workload_hash r
             in if out = [] then (0, log_err hash_line (u \<lparr> ou_out := ou_out u @ [vr_canonical_json r] \<rparr>))
                else if \<not> fe_writable (me_out M) out then (2, log_err (''error: cannot write '' @ out) u)
                else (0, log_err hash_line (u \<lparr> ou_disk := (ou_disk u)(out \<mapsto> vr_canonical_json r) \<rparr>))))"

text \<open>The application name told to XrdCl: only when the environment does not give one.\<close>

definition main_app_name :: "string option \<Rightarrow> string \<Rightarrow> string option" where
  "main_app_name XRD_APPNAME version =
     (case XRD_APPNAME of Some (_ # _) \<Rightarrow> None | _ \<Rightarrow> Some (''xrdhover/'' @ version))"

definition version_line :: "'j run_env \<Rightarrow> string" where
  "version_line E = ''xrdhover '' @ re_version E @ '' ('' @ re_arch E @ '', XrdCl '' @ re_xrd_version E @ '')''"

datatype main_command =
    CmdRead ReadOptions
  | CmdRun run_args
  | CmdValidate string string
  | CmdProbe ProbeOptions
  | CmdReport ReportOptions
  | CmdVersion

text \<open>What a command leaves: the lines it printed, or all its outputs.\<close>

datatype main_output = Printed "string list" | Outputs outputs

definition printed_result :: "(int \<times> string list) res \<Rightarrow> (int \<times> main_output) res" where
  "printed_result r = res_bind r (\<lambda>(code, lines). Inr (code, Printed lines))"

definition outputs_result :: "(int \<times> outputs) res \<Rightarrow> (int \<times> main_output) res" where
  "outputs_result r = res_bind r (\<lambda>(code, u). Inr (code, Outputs u))"

fun main_act :: "'j run_env \<Rightarrow> 'j main_env \<Rightarrow> outputs \<Rightarrow> main_command \<Rightarrow> (int \<times> main_output) res option" where
  "main_act E M u (CmdRead opts) = Some (printed_result (RunReadCommand (me_session M) opts))"
| "main_act E M u (CmdRun a) = map_option outputs_result (main_run M a u)"
| "main_act E M u (CmdValidate workload out) = Some (outputs_result (main_validate M workload out u))"
| "main_act E M u (CmdProbe opts) =
     Some (outputs_result (RunProbeCommand E (me_workload M) (me_credentials M) (me_probing M) opts u))"
| "main_act E M u (CmdReport opts) = Some (printed_result (RunReportCommand (we_json (me_workload M)) (me_report M) opts))"
| "main_act E M u CmdVersion = Some (Inr (0, Printed [version_line E]))"

section \<open>What a refusal means\<close>

text \<open>Nothing was sent and no summary was printed.\<close>

definition untouched :: "outputs \<Rightarrow> outputs \<Rightarrow> bool" where
  "untouched u u' \<longleftrightarrow> ou_requests u' = ou_requests u \<and> ou_chirp u' = ou_chirp u \<and> ou_out u' = ou_out u"

lemma untouched_log [simp]: "untouched u (log_err l u') = untouched u u'" "untouched u (log_lines ls u') = untouched u u'"
  "untouched u u" "untouched (log_err l u) u' = untouched u u'"
  by (simp_all add: untouched_def log_err_def log_lines_def)

lemma untouched_trans: "untouched u v \<Longrightarrow> untouched v w \<Longrightarrow> untouched u w"
  by (simp add: untouched_def)

lemma ApplyXrdClTimeouts_untouched: "untouched u (ApplyXrdClTimeouts E a b c t l u)"
  by (simp add: ApplyXrdClTimeouts_def untouched_def log_err_def Let_def)

lemma sink_start_untouched:
  "load_site_map E cfg u = (r1, u') \<Longrightarrow> untouched u u'"
  "open_file_sink E cfg u = (r2, u') \<Longrightarrow> untouched u u'"
  "open_push_sink E cfg j u = (r3, u') \<Longrightarrow> untouched u u'"
  "open_chirp_sink E cfg j u = (r4, u') \<Longrightarrow> untouched u u'"
  by (auto simp: load_site_map_def open_file_sink_def open_push_sink_def open_chirp_sink_def untouched_def log_err_def
      Let_def split: if_splits sum.splits prod.splits)

lemma or_stop_Inl: "or_stop r f = (Inl code, u') \<longleftrightarrow>
    r = (Inl code, u') \<or> (\<exists>x u. r = (Inr x, u) \<and> f x u = (Inl code, u'))"
  by (cases r; cases "fst r") (auto simp: or_stop_def)

text \<open>Where the start of a run stops, nothing was sent.\<close>

lemma start_run_stops:
  assumes "start_run E cfg u = (Inl code, u')" shows "untouched u u'"
proof -
  define u1 where "u1 = ApplyXrdClTimeouts E (rc_connection_window_s cfg) (rc_connection_retry cfg) (rc_request_timeout_s cfg)
    (rc_session_timeout_s cfg) True u"
  have u1: "untouched u u1" by (simp add: u1_def ApplyXrdClTimeouts_untouched)
  have "untouched u1 u'"
    using assms unfolding start_run_def Let_def u1_def [symmetric] or_stop_Inl
    by (auto split: prod.splits if_splits dest!: sink_start_untouched) (simp_all add: untouched_def)
  then show ?thesis by (rule untouched_trans [OF u1])
qed

lemma code_of_finish: "finish_run E cfg m q c cpu proc elapsed t s = Inr (code, snap, u) \<Longrightarrow> code \<in> {0, 1}"
  by (cases s) (auto simp: finish_run_def cxx_res Let_def all_failed_def split: if_splits)

lemma RunEngine_refuses: "RunEngine E G sc cfg u = Some (Inr (2, u')) \<Longrightarrow> untouched u u'"
  by (auto simp: RunEngine_def cxx_res split: prod.splits sum.splits dest: code_of_finish intro: start_run_stops)

lemma RunRunCommand_refuses:
  "RunRunCommand (RunEngine E G sc) cfg u = Some (Inr (2, u')) \<Longrightarrow> untouched u u'"
  by (auto simp: RunRunCommand_def split: sum.splits fault.splits if_splits dest!: RunEngine_refuses)

text \<open>C21. Exit code 2 of \<^verbatim>\<open>run\<close>, in both of its modes, means that the run was refused: whatever the schedule, no request was
  sent to the Pushgateway, no attribute was set through chirp and no summary or dry run was printed.\<close>

theorem refused_run_untouched:
  assumes "me_engine M = RunEngine E G sc" "main_run M a u = Some (Inr (2, u'))"
  shows "ou_requests u' = ou_requests u \<and> ou_chirp u' = ou_chirp u \<and> ou_out u' = ou_out u"
proof -
  have "untouched u u'" using assms
    by (auto simp: main_run_def refuse_def RunWorkloadCommand_def Let_def split: sum.splits fault.splits if_splits
        dest!: RunRunCommand_refuses)
  then show ?thesis by (simp add: untouched_def)
qed

definition demo_schedule :: run_schedule where
  "demo_schedule = \<lparr> rs_first_sample = (Fin 0, 0), rs_t0 = 0, rs_actions = [], rs_query = (\<lambda>_. []), rs_cache = om_empty,
     rs_cpu_at_start = Fin 0, rs_last_sample = (Fin 0, 0), rs_elapsed = Fin 0, rs_unix_time = 0 \<rparr>"

definition demo_main_env :: "(RunConfig \<Rightarrow> outputs \<Rightarrow> (int \<times> outputs) res option) \<Rightarrow> jval main_env" where
  "demo_main_env engine = \<lparr> me_workload = sample_wl_env, me_credentials = sample_cred_env, me_files = (\<lambda>_. Some ''/store/a''),
     me_report = \<lparr> rf_read = Map.empty, rf_regular = (\<lambda>_. False), rf_directory = (\<lambda>_. False) \<rparr>, me_out = demo_files,
     me_session = (\<lambda>_. new_FileSessionResult), me_probing = (\<lambda>p. p), me_engine = engine \<rparr>"

definition mixed_args :: run_args where
  "mixed_args = default_run_args \<lparr> ra_workload := ''w.json'', ra_counted := [''--target'', ''--rate''] \<rparr>"

lemma refused_run_untouched_witness:
  "\<exists>u'. main_run (demo_main_env (RunEngine demo_run_env counter_rng demo_schedule)) mixed_args no_outputs = Some (Inr (2, u'))
    \<and> ou_requests u' = [] \<and> ou_out u' = []"
proof -
  let ?M = "demo_main_env (RunEngine demo_run_env counter_rng demo_schedule)"
  have e: "me_engine ?M = RunEngine demo_run_env counter_rng demo_schedule" by (simp add: demo_main_env_def)
  obtain u' where r: "main_run ?M mixed_args no_outputs = Some (Inr (2, u'))"
    by (simp add: main_run_def mixed_args_def default_run_args_def AnyCounted_def legacy_config_opts_def refuse_def)
  show ?thesis using refused_run_untouched [OF e r] r by (simp add: no_outputs_def)
qed

section \<open>What the engine is given\<close>

definition runnable :: "RunConfig \<Rightarrow> bool" where
  "runnable cfg \<longleftrightarrow> rc_endpoint cfg \<noteq> [] \<and> rc_files cfg \<noteq> [] \<and> \<not> rc_dry_run cfg
     \<and> (rc_target_rate_bytes_per_s cfg = 0 \<longrightarrow> \<not> rc_max_bytes_auto cfg \<and> 0 < rc_max_bytes cfg)"

lemma RunRunCommand_engine:
  assumes "\<And>cfg u. runnable cfg \<Longrightarrow> f cfg u = g cfg u"
  shows "RunRunCommand f cfg u = RunRunCommand g cfg u"
proof (cases "ResolveRunConfig cfg")
  case (Inr c)
  then have "rc_target_rate_bytes_per_s c = 0 \<longrightarrow> \<not> rc_max_bytes_auto c \<and> 0 < rc_max_bytes c"
    by (auto simp: ResolveRunConfig_def cxx_res word_neq_0_conv split: if_splits)
  then show ?thesis using assms by (simp add: RunRunCommand_def Inr runnable_def)
qed (simp add: RunRunCommand_def split: fault.split)

text \<open>C23. The engine is started only on a configuration that can run: it has an endpoint and files, it is not a dry
  run, and without a target rate it has a byte cap per session. Two engines that agree on such
  configurations cannot be told apart from the command line.\<close>

theorem engine_given_runnable:
  assumes "\<And>cfg u. runnable cfg \<Longrightarrow> f cfg u = g cfg u"
  shows "main_act E (M \<lparr> me_engine := f \<rparr>) u c = main_act E (M \<lparr> me_engine := g \<rparr>) u c"
proof (cases c)
  case (CmdRun a)
  have "main_run (M \<lparr> me_engine := f \<rparr>) a u = main_run (M \<lparr> me_engine := g \<rparr>) a u"
    unfolding main_run_def RunWorkloadCommand_def Let_def
    by (simp add: RunRunCommand_engine [of f g, OF assms] cong: sum.case_cong fault.case_cong if_cong)
  then show ?thesis by (simp add: CmdRun)
qed (simp_all add: main_validate_def cong: if_cong)

lemma engine_given_runnable_witness:
  "main_act demo_run_env (demo_main_env (\<lambda>_ _. None)) no_outputs
      (CmdRun (default_run_args \<lparr> ra_counted := [''--endpoint'', ''--filelist''], ra_filelist := ''f'' \<rparr>))
    = main_act demo_run_env (demo_main_env (\<lambda>cfg u. if runnable cfg then None else Some (Inr (0, u)))) no_outputs
      (CmdRun (default_run_args \<lparr> ra_counted := [''--endpoint'', ''--filelist''], ra_filelist := ''f'' \<rparr>))"
  using engine_given_runnable [of "\<lambda>_ _. None" "\<lambda>cfg u. if runnable cfg then None else Some (Inr (0, u))" demo_run_env
      "demo_main_env (\<lambda>_ _. None)" no_outputs
      "CmdRun (default_run_args \<lparr> ra_counted := [''--endpoint'', ''--filelist''], ra_filelist := ''f'' \<rparr>)"]
  by (simp add: demo_main_env_def)

text \<open>The cast of the chunk size: 4 GiB become 0.\<close>

lemma chunk_size_wraps:
  "\<exists>n. ParseSizeString ''4GiB'' = Inr n \<and> (ucast n :: u32) = 0"
  by (rule exI [of _ "2 ^ 32"]) code_simp

end
