(* ===== verification/CommandLine.thy ===== *)
theory CommandLine
  imports MainCli
begin

text \<open>
  The options \<^verbatim>\<open>main.cc\<close> declares: for each subcommand, the names and the variables they are bound to. CLI11 is a
  parameter: it has matched the command line against the declarations, and gives the name and the text of every option
  seen, in order (the text of a flag given without a value is its own). \<open>cli_api\<close> holds its conversions of a text and its
  range checks: \<open>None\<close>, or a refusing check, is a complaint, and the program ends before any command runs.
\<close>

section \<open>Declarations\<close>

record cli_api =
  cl_bool :: "string \<Rightarrow> bool option"
  cl_u16 :: "string \<Rightarrow> u16 option"
  cl_u32 :: "string \<Rightarrow> u32 option"
  cl_u64 :: "string \<Rightarrow> u64 option"
  cl_int :: "string \<Rightarrow> int option"
  cl_double :: "string \<Rightarrow> double option"
  cl_Range_u32 :: "u32 \<Rightarrow> u32 \<Rightarrow> string \<Rightarrow> bool"
  cl_Range_double :: "double \<Rightarrow> double \<Rightarrow> string \<Rightarrow> bool"

type_synonym 'a setter = "string \<Rightarrow> 'a \<Rightarrow> 'a option"

text \<open>An option bound to a text, to a value of another type, and one with a \<^verbatim>\<open>check\<close> on its text.\<close>

definition bound_text :: "(string \<Rightarrow> 'a \<Rightarrow> 'a) \<Rightarrow> 'a setter" where
  "bound_text upd v a = Some (upd v a)"

definition bound_to :: "(string \<Rightarrow> 'v option) \<Rightarrow> ('v \<Rightarrow> 'a \<Rightarrow> 'a) \<Rightarrow> 'a setter" where
  "bound_to conv upd v a = map_option (\<lambda>x. upd x a) (conv v)"

definition range_checked :: "(string \<Rightarrow> bool) \<Rightarrow> 'a setter \<Rightarrow> 'a setter" where
  "range_checked ok f v a = (if ok v then f v a else None)"

definition on_cfg :: "(RunConfig \<Rightarrow> RunConfig) \<Rightarrow> run_args \<Rightarrow> run_args" where
  "on_cfg f a = a \<lparr> ra_cfg := f (ra_cfg a) \<rparr>"

definition read_options :: "cli_api \<Rightarrow> (string \<times> ReadOptions setter) list" where
  "read_options C =
     [(''url'', bound_text (\<lambda>v o1. o1 \<lparr> rd_url := v \<rparr>)),
      (''--chunk-size'', bound_to (cl_u32 C) (\<lambda>v o1. o1 \<lparr> rd_chunk_size := v \<rparr>)),
      (''--offset'', bound_to (cl_u64 C) (\<lambda>v o1. o1 \<lparr> rd_offset := v \<rparr>)),
      (''--max-bytes'', bound_to (cl_u64 C) (\<lambda>v o1. o1 \<lparr> rd_max_bytes := v \<rparr>)),
      (''--vector'', bound_to (cl_u16 C) (\<lambda>v o1. o1 \<lparr> rd_vector_chunks := v \<rparr>)),
      (''--json'', bound_to (cl_bool C) (\<lambda>v o1. o1 \<lparr> rd_json := v \<rparr>))]"

definition run_options :: "cli_api \<Rightarrow> (string \<times> run_args setter) list" where
  "run_options C =
     [(''workload'', bound_text (\<lambda>v a. a \<lparr> ra_workload := v \<rparr>)),
      (''--endpoint'', bound_text (\<lambda>v. on_cfg (\<lambda>c. c \<lparr> rc_endpoint := v \<rparr>))),
      (''--filelist'', bound_text (\<lambda>v a. a \<lparr> ra_filelist := v \<rparr>)),
      (''--duration'', bound_text (\<lambda>v a. a \<lparr> ra_duration := v \<rparr>)),
      (''--rate'', bound_text (\<lambda>v a. a \<lparr> ra_rate := v \<rparr>)),
      (''--max-inflight'', range_checked (cl_Range_u32 C 1 100000) (bound_to (cl_u32 C) (\<lambda>v. on_cfg (\<lambda>c. c \<lparr> rc_max_inflight := v \<rparr>)))),
      (''--pattern'', bound_text (\<lambda>v a. a \<lparr> ra_pattern := v \<rparr>)),
      (''--chunk-size'', bound_text (\<lambda>v a. a \<lparr> ra_chunk := v \<rparr>)),
      (''--vector-chunks'', bound_to (cl_u16 C) (\<lambda>v. on_cfg (\<lambda>c. c \<lparr> rc_vector_chunks := v \<rparr>))),
      (''--vector-fraction'', range_checked (cl_Range_double C (Fin 0) (Fin 1))
         (bound_to (cl_double C) (\<lambda>v. on_cfg (\<lambda>c. c \<lparr> rc_vector_fraction := v \<rparr>)))),
      (''--max-bytes'', bound_text (\<lambda>v a. a \<lparr> ra_max_bytes := v \<rparr>)),
      (''--session-timeout'', bound_text (\<lambda>v a. a \<lparr> ra_session_timeout := v \<rparr>)),
      (''--connection-window'', bound_to (cl_int C) (\<lambda>v. on_cfg (\<lambda>c. c \<lparr> rc_connection_window_s := v \<rparr>))),
      (''--connection-retry'', bound_to (cl_int C) (\<lambda>v. on_cfg (\<lambda>c. c \<lparr> rc_connection_retry := v \<rparr>))),
      (''--request-timeout'', bound_to (cl_int C) (\<lambda>v. on_cfg (\<lambda>c. c \<lparr> rc_request_timeout_s := v \<rparr>))),
      (''--seed'', bound_to (cl_u64 C) (\<lambda>v. on_cfg (\<lambda>c. c \<lparr> rc_seed := v \<rparr>))),
      (''--run-id'', bound_text (\<lambda>v. on_cfg (\<lambda>c. c \<lparr> rc_run_id := v \<rparr>))),
      (''--job-id'', bound_text (\<lambda>v. on_cfg (\<lambda>c. c \<lparr> rc_job_id := v \<rparr>))),
      (''--results-dir'', bound_text (\<lambda>v. on_cfg (\<lambda>c. c \<lparr> rc_results_dir := v \<rparr>))),
      (''--snapshot-interval'', bound_text (\<lambda>v a. a \<lparr> ra_snapshot := v \<rparr>)),
      (''--no-results'', bound_to (cl_bool C) (\<lambda>v a. a \<lparr> ra_no_results := v \<rparr>)),
      (''--pushgateway'', bound_text (\<lambda>v. on_cfg (\<lambda>c. c \<lparr> rc_pushgateway_url := v \<rparr>))),
      (''--pushgateway-job'', bound_text (\<lambda>v. on_cfg (\<lambda>c. c \<lparr> rc_pushgateway_job := v \<rparr>))),
      (''--pushgateway-keep'', bound_to (cl_bool C) (\<lambda>v. on_cfg (\<lambda>c. c \<lparr> rc_pushgateway_keep := v \<rparr>))),
      (''--site-map'', bound_text (\<lambda>v. on_cfg (\<lambda>c. c \<lparr> rc_site_map_path := v \<rparr>))),
      (''--no-sitename-query'', bound_to (cl_bool C) (\<lambda>v a. a \<lparr> ra_no_sitename_query := v \<rparr>)),
      (''--dry-run'', bound_to (cl_bool C) (\<lambda>v. on_cfg (\<lambda>c. c \<lparr> rc_dry_run := v \<rparr>))),
      (''--target'', bound_text (\<lambda>v a. a \<lparr> ra_target := v \<rparr>)),
      (''--skip-auth-check'', bound_to (cl_bool C) (\<lambda>v a. a \<lparr> ra_skip_auth := v \<rparr>))]"

text \<open>The workload and the output path of \<^verbatim>\<open>validate\<close>.\<close>

definition validate_options :: "(string \<times> (string \<times> string) setter) list" where
  "validate_options = [(''workload'', bound_text (\<lambda>v (w, out). (v, out))), (''--out'', bound_text (\<lambda>v (w, out). (w, v)))]"

definition default_ProbeOptions :: ProbeOptions where
  "default_ProbeOptions = \<lparr> po_workload_path = [], po_target = [], po_limit = 0, po_concurrency = 4, po_json = False,
     po_skip_auth_check = False \<rparr>"

definition probe_options :: "cli_api \<Rightarrow> (string \<times> ProbeOptions setter) list" where
  "probe_options C =
     [(''workload'', bound_text (\<lambda>v o1. o1 \<lparr> po_workload_path := v \<rparr>)),
      (''--target'', bound_text (\<lambda>v o1. o1 \<lparr> po_target := v \<rparr>)),
      (''--limit'', bound_to (cl_u32 C) (\<lambda>v o1. o1 \<lparr> po_limit := v \<rparr>)),
      (''--concurrency'', range_checked (cl_Range_u32 C 1 100000) (bound_to (cl_u32 C) (\<lambda>v o1. o1 \<lparr> po_concurrency := v \<rparr>))),
      (''--json'', bound_to (cl_bool C) (\<lambda>v o1. o1 \<lparr> po_json := v \<rparr>)),
      (''--skip-auth-check'', bound_to (cl_bool C) (\<lambda>v o1. o1 \<lparr> po_skip_auth_check := v \<rparr>))]"

definition default_ReportOptions :: ReportOptions where
  "default_ReportOptions = \<lparr> ro_path = [], ro_results_dir = [], ro_run_id = [], ro_json = False \<rparr>"

definition report_options :: "cli_api \<Rightarrow> (string \<times> ReportOptions setter) list" where
  "report_options C =
     [(''path'', bound_text (\<lambda>v o1. o1 \<lparr> ro_path := v \<rparr>)), (''--results-dir'', bound_text (\<lambda>v o1. o1 \<lparr> ro_results_dir := v \<rparr>)),
      (''--run-id'', bound_text (\<lambda>v o1. o1 \<lparr> ro_run_id := v \<rparr>)), (''--json'', bound_to (cl_bool C) (\<lambda>v o1. o1 \<lparr> ro_json := v \<rparr>))]"

section \<open>Parsing\<close>

fun set_options :: "(string \<times> 'a setter) list \<Rightarrow> (string \<times> string) list \<Rightarrow> 'a \<Rightarrow> 'a option" where
  "set_options table [] a = Some a"
| "set_options table ((name, v) # args) a =
     (case map_of table name of None \<Rightarrow> None | Some f \<Rightarrow> Option.bind (f v a) (set_options table args))"

definition parse_run :: "cli_api \<Rightarrow> (string \<times> string) list \<Rightarrow> run_args option" where
  "parse_run C args = map_option (\<lambda>a. a \<lparr> ra_counted := map fst args \<rparr>) (set_options (run_options C) args default_run_args)"

text \<open>\<^verbatim>\<open>CLI11_PARSE\<close>: the command, if the line is in order; \<^verbatim>\<open>required\<close> options have to be there.\<close>

definition parse_command :: "cli_api \<Rightarrow> string \<Rightarrow> (string \<times> string) list \<Rightarrow> main_command option" where
  "parse_command C sub args =
     (let given = (\<lambda>n. n \<in> set (map fst args)) in
      if sub = ''read'' then (if given ''url'' then map_option CmdRead (set_options (read_options C) args default_ReadOptions) else None)
      else if sub = ''run'' then map_option CmdRun (parse_run C args)
      else if sub = ''validate'' then
        (if given ''workload'' then map_option (\<lambda>(w, out). CmdValidate w out) (set_options validate_options args ([], [])) else None)
      else if sub = ''probe'' then
        (if given ''workload'' then map_option CmdProbe (set_options (probe_options C) args default_ProbeOptions) else None)
      else if sub = ''report'' then map_option CmdReport (set_options (report_options C) args default_ReportOptions)
      else if sub = ''version'' then map_option (\<lambda>_. CmdVersion) (set_options [] args ())
      else None)"

section \<open>What the options leave\<close>

text \<open>What every declared option keeps, a command line keeps.\<close>

lemma set_options_keep:
  assumes "set_options table args a = Some a'" "P a"
    "\<And>n f v b b'. n \<in> set (map fst args) \<Longrightarrow> (n, f) \<in> set table \<Longrightarrow> f v b = Some b' \<Longrightarrow> P b \<Longrightarrow> P b'"
  shows "P a'"
  using assms
proof (induction table args a rule: set_options.induct)
  case (2 table name v args a)
  then obtain f b where f: "map_of table name = Some f" "f v a = Some b" "set_options table args b = Some a'"
    by (auto split: option.splits bind_splits)
  have "P b" by (rule 2(4) [OF _ map_of_SomeD [OF f(1)] f(2) 2(3)]) simp
  have "P a'" if "\<And>n f v b b'. n \<in> set (map fst args) \<Longrightarrow> (n, f) \<in> set table \<Longrightarrow> f v b = Some b' \<Longrightarrow> P b \<Longrightarrow> P b'"
    using 2(1) [OF f(1,2,3) \<open>P b\<close>] that by blast
  then show ?case using 2(4) by (metis list.set_intros(2) list.simps(9))
qed simp

text \<open>The documented law of the range checks: no accepted text is of a value outside.\<close>

definition range_law :: "cli_api \<Rightarrow> bool" where
  "range_law C \<longleftrightarrow>
     (\<forall>lo hi v x. cl_Range_u32 C lo hi v \<longrightarrow> cl_u32 C v = Some x \<longrightarrow> lo \<le> x \<and> x \<le> hi)
   \<and> (\<forall>lo hi v x. cl_Range_double C lo hi v \<longrightarrow> cl_double C v = Some x \<longrightarrow> \<not> dlt x lo \<and> \<not> dlt hi x)"

definition in_range :: "RunConfig \<Rightarrow> bool" where
  "in_range c \<longleftrightarrow> 1 \<le> rc_max_inflight c \<and> rc_max_inflight c \<le> 100000
     \<and> \<not> dlt (rc_vector_fraction c) (Fin 0) \<and> \<not> dlt (Fin 1) (rc_vector_fraction c)"

lemmas option_defs = run_options_def bound_text_def bound_to_def range_checked_def on_cfg_def

lemma run_options_range:
  assumes "range_law C" "(n, f) \<in> set (run_options C)" "f v a = Some a'" "in_range (ra_cfg a)"
  shows "in_range (ra_cfg a')"
  using assms by (auto simp: option_defs in_range_def range_law_def split: if_splits)

text \<open>The last text given for an option, for a text and for a flag.\<close>

definition text_of :: "(string \<times> string) list \<Rightarrow> string \<Rightarrow> string" where
  "text_of args n = (case map_of (rev args) n of None \<Rightarrow> [] | Some v \<Rightarrow> v)"

definition flag_of :: "cli_api \<Rightarrow> (string \<times> string) list \<Rightarrow> string \<Rightarrow> bool" where
  "flag_of C args n = (case map_of (rev args) n of None \<Rightarrow> False | Some v \<Rightarrow> the (cl_bool C v))"

lemma default_in_range: "in_range (ra_cfg default_run_args)"
  by (simp add: in_range_def default_run_args_def default_RunConfig_def) code_simp

text \<open>The options of a workload run are those that are not legacy.\<close>

lemma legacy_options:
  "filter (\<lambda>n. n \<notin> set legacy_config_opts) (map fst (run_options C)) =
     [''workload'', ''--site-map'', ''--no-sitename-query'', ''--dry-run'', ''--target'', ''--skip-auth-check'']"
  by (simp add: run_options_def legacy_config_opts_def)

lemma set_options_known: "set_options table args a = Some a' \<Longrightarrow> set (map fst args) \<subseteq> set (map fst table)"
  by (induction table args a rule: set_options.induct) (force split: option.splits bind_splits dest: map_of_SomeD)+

lemma legacy_given:
  assumes "set_options (run_options C) args a = Some a'"
  shows "AnyCounted (map fst args) legacy_config_opts \<longleftrightarrow>
    (\<exists>n\<in>set (map fst args). n \<notin> {''workload'', ''--target'', ''--site-map'', ''--dry-run'', ''--skip-auth-check'', ''--no-sitename-query''})"
proof -
  have "n \<in> set legacy_config_opts \<longleftrightarrow> n \<notin> set (filter (\<lambda>n. n \<notin> set legacy_config_opts) (map fst (run_options C)))"
    if "n \<in> set (map fst args)" for n
    using set_options_known [OF assms] that by auto
  then show ?thesis unfolding legacy_options by (auto simp: AnyCounted_def list_ex_iff)
qed

text \<open>A variable \<open>g\<close> that the option \<open>n\<close> sets and no other touches has the value of its last text.\<close>

definition sets_only :: "string \<Rightarrow> (string \<Rightarrow> 'v) \<Rightarrow> ('a \<Rightarrow> 'v) \<Rightarrow> (string \<times> 'a setter) list \<Rightarrow> bool" where
  "sets_only n val g table \<longleftrightarrow>
     list_all (\<lambda>(m, f). \<forall>v b b'. f v b = Some b' \<longrightarrow> g b' = (if m = n then val v else g b)) table"

lemma set_options_field:
  assumes "set_options table args a = Some a'" "sets_only n val g table"
  shows "g a' = (case map_of (rev args) n of None \<Rightarrow> g a | Some v \<Rightarrow> val v)"
  using assms
proof (induction table args a rule: set_options.induct)
  case (2 table m v args a)
  then obtain f b where f: "map_of table m = Some f" "f v a = Some b" "set_options table args b = Some a'"
    by (auto split: option.splits bind_splits)
  have "g b = (if m = n then val v else g a)"
    using 2(3) map_of_SomeD [OF f(1)] f(2) by (auto simp: sets_only_def list_all_iff)
  then show ?case using 2(1) [OF f(1,2,3) 2(3)] by (auto simp: map_add_def split: option.splits)
qed simp

lemma run_options_fields:
  "sets_only ''workload'' (\<lambda>v. v) ra_workload (run_options C)"
  "sets_only ''--target'' (\<lambda>v. v) ra_target (run_options C)"
  "sets_only ''--site-map'' (\<lambda>v. v) (\<lambda>a. rc_site_map_path (ra_cfg a)) (run_options C)"
  "sets_only ''--dry-run'' (\<lambda>v. the (cl_bool C v)) (\<lambda>a. rc_dry_run (ra_cfg a)) (run_options C)"
  "sets_only ''--skip-auth-check'' (\<lambda>v. the (cl_bool C v)) ra_skip_auth (run_options C)"
  "sets_only ''--no-sitename-query'' (\<lambda>v. the (cl_bool C v)) ra_no_sitename_query (run_options C)"
  "sets_only [] (\<lambda>_. True) (\<lambda>a. rc_sitename_query (ra_cfg a)) (run_options C)"
  by (auto simp: sets_only_def option_defs split: if_split_asm)

lemma parse_run_fields:
  assumes "parse_run C args = Some a"
  shows "ra_workload a = text_of args ''workload''" "ra_target a = text_of args ''--target''"
    "rc_site_map_path (ra_cfg a) = text_of args ''--site-map''" "rc_dry_run (ra_cfg a) = flag_of C args ''--dry-run''"
    "ra_skip_auth a = flag_of C args ''--skip-auth-check''"
    "ra_no_sitename_query a = flag_of C args ''--no-sitename-query''" "rc_sitename_query (ra_cfg a)"
    "ra_counted a = map fst args"
proof -
  obtain b where b: "set_options (run_options C) args default_run_args = Some b" "a = b \<lparr> ra_counted := map fst args \<rparr>"
    using assms by (auto simp: parse_run_def)
  show "ra_workload a = text_of args ''workload''" "ra_target a = text_of args ''--target''"
    "rc_site_map_path (ra_cfg a) = text_of args ''--site-map''" "rc_dry_run (ra_cfg a) = flag_of C args ''--dry-run''"
    "ra_skip_auth a = flag_of C args ''--skip-auth-check''"
    "ra_no_sitename_query a = flag_of C args ''--no-sitename-query''" "rc_sitename_query (ra_cfg a)"
    "ra_counted a = map fst args"
    using run_options_fields [of C, THEN set_options_field [OF b(1)]]
    by (auto simp: b(2) text_of_def flag_of_def default_run_args_def default_RunConfig_def split: option.splits)
qed

text \<open>C22. The options of \<^verbatim>\<open>run\<close> are heeded or refused. Whatever the command line, \<^verbatim>\<open>max_inflight\<close> is in 1 .. 100000 and the
  vector fraction is not outside [0, 1]. When a workload is given, an option other than the six that a workload run has is
  refused, before anything is read; otherwise what \<^verbatim>\<open>main\<close> runs is the workload with exactly the options on the line: the
  workload, the target, the site map, the dry run, the skipped check and the sitename query, each with its last text, and
  its default where it is not given. No option is accepted and ignored.
\<close>

theorem run_options_heeded:
  assumes "range_law C" "parse_run C args = Some a"
  shows "in_range (ra_cfg a)
    \<and> (text_of args ''workload'' \<noteq> [] \<longrightarrow> main_run M a u =
        (if \<exists>n\<in>set (map fst args). n \<notin> {''workload'', ''--target'', ''--site-map'', ''--dry-run'', ''--skip-auth-check'', ''--no-sitename-query''}
         then Some (Inr (2, log_err
           ''error: workload mode rejects legacy run config flags (edit the JSON, or omit the workload path)'' u))
         else RunWorkloadCommand M
           \<lparr> wo_workload_path = text_of args ''workload'', wo_target = text_of args ''--target'',
             wo_dry_run = flag_of C args ''--dry-run'', wo_skip_auth_check = flag_of C args ''--skip-auth-check'',
             wo_site_map_path = text_of args ''--site-map'',
             wo_sitename_query = (\<not> flag_of C args ''--no-sitename-query'') \<rparr> u))"
proof -
  obtain b where b: "set_options (run_options C) args default_run_args = Some b" "a = b \<lparr> ra_counted := map fst args \<rparr>"
    using assms(2) by (auto simp: parse_run_def)
  have r: "in_range (ra_cfg b)"
    by (rule set_options_keep [OF b(1), of "\<lambda>a. in_range (ra_cfg a)"])
      (use default_in_range run_options_range [OF assms(1)] in blast)+
  have c: "AnyCounted (ra_counted a) legacy_config_opts \<longleftrightarrow>
      (\<exists>n\<in>set (map fst args). n \<notin> {''workload'', ''--target'', ''--site-map'', ''--dry-run'', ''--skip-auth-check'', ''--no-sitename-query''})"
    unfolding parse_run_fields(8) [OF assms(2)] by (rule legacy_given [OF b(1)])
  have m: "main_run M a u = (if AnyCounted (ra_counted a) legacy_config_opts
      then Some (Inr (2, log_err
           ''error: workload mode rejects legacy run config flags (edit the JSON, or omit the workload path)'' u))
      else RunWorkloadCommand M
           \<lparr> wo_workload_path = text_of args ''workload'', wo_target = text_of args ''--target'',
             wo_dry_run = flag_of C args ''--dry-run'', wo_skip_auth_check = flag_of C args ''--skip-auth-check'',
             wo_site_map_path = text_of args ''--site-map'',
             wo_sitename_query = (\<not> flag_of C args ''--no-sitename-query'') \<rparr> u)" if "text_of args ''workload'' \<noteq> []"
    using parse_run_fields(1-7) [OF assms(2)] that by (simp add: main_run_def refuse_def)
  have "in_range (ra_cfg a)" using r by (simp add: b(2))
  with m [unfolded c] show ?thesis by blast
qed

definition demo_cli :: cli_api where
  "demo_cli =
     (let num = (\<lambda>v. if v \<noteq> [] \<and> list_all is_digit v then Some (dec_to_int v) else None);
          u32 = (\<lambda>v. map_option word_of_int (num v)); dbl = (\<lambda>v. map_option (\<lambda>n. Fin (of_int n)) (num v))
      in \<lparr> cl_bool = (\<lambda>v. if v = ''true'' then Some True else if v = ''false'' then Some False else None),
           cl_u16 = (\<lambda>v. map_option word_of_int (num v)), cl_u32 = u32, cl_u64 = (\<lambda>v. map_option word_of_int (num v)),
           cl_int = num, cl_double = dbl,
           cl_Range_u32 = (\<lambda>lo hi v. case u32 v of Some x \<Rightarrow> lo \<le> x \<and> x \<le> hi | None \<Rightarrow> False),
           cl_Range_double = (\<lambda>lo hi v. case dbl v of Some x \<Rightarrow> \<not> dlt x lo \<and> \<not> dlt hi x | None \<Rightarrow> False) \<rparr>)"

lemma demo_cli_law: "range_law demo_cli"
  by (auto simp: range_law_def demo_cli_def Let_def split: if_splits)

lemma demo_cli_bounds:
  "parse_run demo_cli [(''--max-inflight'', ''0'')] = None" "parse_run demo_cli [(''--vector-fraction'', ''2'')] = None"
  by code_simp+

definition demo_line :: "(string \<times> string) list" where
  "demo_line = [(''--dry-run'', ''true''), (''workload'', ''w.json''), (''--target'', ''a'')]"

lemma demo_line_parsed:
  "parse_run demo_cli demo_line = Some (default_run_args \<lparr> ra_counted := map fst demo_line, ra_workload := ''w.json'',
     ra_target := ''a'', ra_cfg := default_RunConfig \<lparr> rc_dry_run := True \<rparr> \<rparr>)"
  by (simp add: parse_run_def demo_line_def demo_cli_def option_defs default_run_args_def Let_def)

theorem run_options_heeded_witness:
  "\<exists>a. parse_run demo_cli demo_line = Some a \<and> in_range (ra_cfg a)
     \<and> main_run (demo_main_env (\<lambda>_ _. None)) a no_outputs = RunWorkloadCommand (demo_main_env (\<lambda>_ _. None))
         \<lparr> wo_workload_path = ''w.json'', wo_target = ''a'', wo_dry_run = True, wo_skip_auth_check = False,
           wo_site_map_path = [], wo_sitename_query = True \<rparr> no_outputs"
proof -
  obtain a where a: "parse_run demo_cli demo_line = Some a" using demo_line_parsed by blast
  have l: "text_of demo_line ''workload'' = ''w.json''" "text_of demo_line ''--target'' = ''a''"
    "text_of demo_line ''--site-map'' = []" "flag_of demo_cli demo_line ''--dry-run''"
    "\<not> flag_of demo_cli demo_line ''--skip-auth-check''" "\<not> flag_of demo_cli demo_line ''--no-sitename-query''"
    by code_simp+
  show ?thesis
    using run_options_heeded [OF demo_cli_law a, of "demo_main_env (\<lambda>_ _. None)" no_outputs] a l
    by (simp add: demo_line_def)
qed

end
