(* ===== verification/ReadRun.thy ===== *)
theory ReadRun
  imports SessionLedger SessionResults ReadCommand
begin

text \<open>
  The \<^verbatim>\<open>read\<close> command on its session. \<^verbatim>\<open>RunFileSession\<close> starts a session without pacing and waits for the one
  result its promise is given. Such a session is never in the engine's hands, has no tokens, and reads
  within the file and the byte limit all the same.
\<close>

section \<open>Unpaced sessions\<close>

definition plain_pre :: "FileSessionOptions \<Rightarrow> 'r FileSession \<Rightarrow> bool" where
  "plain_pre opts s \<longleftrightarrow> fs_opts s = opts \<and> \<not> fs_paced s \<and> span_ok s \<and> reads_ok s \<and> fs_requested s = 0"

definition plain_inv :: "FileSessionOptions \<Rightarrow> 'r FileSession \<Rightarrow> bool" where
  "plain_inv opts s \<longleftrightarrow> fs_opts s = opts \<and> \<not> fs_paced s \<and> span_ok s \<and> reads_ok s
     \<and> (fs_requested s \<noteq> 0 \<and> \<not> fs_completed s \<longrightarrow> owed FnRead (fs_log s) = 1)
     \<and> (0 < owed FnRead (fs_log s) \<and> \<not> fs_completed s \<longrightarrow> fs_budget_set s)
     \<and> (0 < owed FnOpen (fs_log s) + owed FnStat (fs_log s) \<and> \<not> fs_completed s \<longrightarrow> \<not> fs_budget_set s)"

lemma plain_doneI: "plain_pre opts s \<Longrightarrow> idle s \<Longrightarrow> plain_inv opts s"
  by (simp add: plain_pre_def plain_inv_def idle_def)

lemma plain_pre_frame:
  assumes "plain_pre opts s" "fs_requested t = 0" "fs_remaining t \<le> fs_remaining s" "fs_budget_set t = fs_budget_set s"
    "fs_bytes_read t = fs_bytes_read s" "fs_opts t = fs_opts s" "fs_file_size t = fs_file_size s"
    "fs_next_offset t = fs_next_offset s" "reads (fs_log t) = reads (fs_log s)" "fs_buffer t = fs_buffer s"
    "fs_paced t = fs_paced s"
  shows "plain_pre opts t"
proof -
  note p = assms(1) [unfolded plain_pre_def]
  have "span_ok t" by (rule span_frame [of s]) (use p assms in simp_all)
  moreover have "reads_ok t" by (rule reads_frame [of s]) (use p assms in simp_all)
  ultimately show ?thesis using p assms by (simp add: plain_pre_def)
qed

text \<open>Closing, completing, failing and giving up.\<close>

lemma end_plain:
  assumes "plain_pre opts s" "idle s"
  shows "plain_inv opts (ReleaseIfIdle (SubmitClose env s))" "plain_inv opts (ReleaseIfIdle (Complete s))"
    "plain_inv opts (ReleaseIfIdle (Complete (RefundPrepaid s)))" "plain_inv opts (ReleaseIfIdle (Fail env stage st s))"
  by (rule plain_doneI; (rule plain_pre_frame [OF assms(1)])?;
      use assms in \<open>simp add: plain_pre_def idle_def fs_view\<close>)+

text \<open>A read that is issued.\<close>

lemma issue_plain:
  assumes "rng_bounded G" "plain_pre opts s" "ctl_pre s" "fs_budget_set s"
  shows "plain_inv opts (ReleaseIfIdle (IssueNext G env s))"
proof (cases "fs_timed_out s \<or> fs_remaining s = 0")
  case True
  let ?r = "RefundPrepaid (s \<lparr> fs_remaining := 0, fs_t_last_byte := ev_clock env AtLastByte \<rparr>)"
  have "plain_pre opts ?r"
    by (rule plain_pre_frame [OF assms(2)]) (use assms(2) in \<open>simp_all add: plain_pre_def fs_view\<close>)
  moreover have "idle ?r" using ctl_pre_idle [OF assms(3)] by (simp add: idle_def fs_view)
  ultimately show ?thesis using True assms(3) end_plain(1) by (simp add: IssueNext_close ctl_pre_def)
next
  case go: False
  let ?i = "issued G env s"
  have nc: "\<not> fs_completed s" "idle s" using ctl_pre_idle [OF assms(3)] by simp_all
  have i: "span_ok ?i" "reads_ok ?i" "fs_opts ?i = opts" "\<not> fs_paced ?i"
    using issued_span [OF assms(1) _ _ assms(4)] assms(2) by (simp_all add: plain_pre_def issued_view)
  show ?thesis
  proof (cases "xs_ok (ev_submit env)")
    case True
    have "plain_inv opts ?i"
      unfolding plain_inv_def using i issued_owed [OF nc(2) True] assms(4) nc(1) by (simp add: issued_view)
    moreover have "ReleaseIfIdle ?i = ?i" using nc(1) by (simp add: ReleaseIfIdle_def issued_view)
    ultimately show ?thesis using go nc(1) True by (simp add: IssueNext_read)
  next
    case False
    define t where "t = set_error (''read submission failed: '' @ xs_text (ev_submit env)) (xs_code (ev_submit env))
      (xs_errno (ev_submit env)) (CapturePartialCounters env (?i \<lparr> fs_pending_cbs := fs_pending_cbs ?i - 1 \<rparr>))"
    define u where "u = (RefundBytes (fs_requested t) t) \<lparr> fs_requested := 0 \<rparr>"
    have "span_ok u" by (rule span_frame [of ?i]) (use i(1) in \<open>simp_all add: u_def t_def fs_view\<close>)
    moreover have "reads_ok u" by (rule reads_frame [of ?i]) (use i(2) in \<open>simp_all add: u_def t_def fs_view\<close>)
    ultimately have "plain_pre opts u" using i(3,4) by (simp add: plain_pre_def u_def t_def fs_view)
    then have "plain_inv opts (ReleaseIfIdle (Complete u))"
      using nc(2) False by (intro end_plain(2)) (simp_all add: u_def t_def idle_def issued_view fs_view)
    moreover have "IssueNext G env s = Complete u"
      using go nc(1) False by (simp add: IssueNext_read u_def t_def Let_def)
    ultimately show ?thesis by simp
  qed
qed

section \<open>One lemma per call\<close>

lemma late_plain:
  assumes "plain_inv opts s" "fs_completed s" shows "plain_inv opts (ReleaseIfIdle (enter f s))"
proof -
  let ?t = "ReleaseIfIdle (enter f s)"
  note p = assms(1) [unfolded plain_inv_def]
  have "reads_ok ?t" by (rule reads_frame [of s]) (use p in \<open>simp_all add: fs_view enter_reads\<close>)
  moreover have "budget_of ?t = budget_of s" "readable ?t = readable s"
    by (simp_all add: budget_of_def readable_def fs_view)
  then have "span_ok ?t" using p by (simp add: span_ok_def fs_view enter_reads)
  ultimately show ?thesis using p assms(2) by (simp add: plain_inv_def fs_view)
qed

lemma enter_plain:
  assumes "plain_inv opts s" "ctl_inv NotReady s" "0 < owed f (fs_log s)" "f = FnOpen \<or> f = FnStat" "\<not> fs_completed s"
  shows "plain_pre opts (enter f s) \<and> ctl_pre (enter f s) \<and> \<not> fs_budget_set s"
proof -
  have c: "ctl_pre (enter f s)" using take_token [OF assms(2,3) _ assms(5)] assms(4) by auto
  have o: "0 < owed FnOpen (fs_log s) + owed FnStat (fs_log s)" "owed FnRead (fs_log s) \<noteq> 1"
    using ctl_owed [OF assms(2)] assms(3,4) by (auto simp: in_hand_def)
  then have z: "fs_requested s = 0" "\<not> fs_budget_set s" using assms(1,5) by (auto simp: plain_inv_def)
  have "plain_pre opts s" using assms(1) z by (simp add: plain_inv_def plain_pre_def)
  then have "plain_pre opts (enter f s)" by (rule plain_pre_frame) (use z in \<open>simp_all add: fs_view enter_reads\<close>)
  then show ?thesis using c z by simp
qed

lemma OnOpen_plain:
  assumes "plain_inv opts s" "ctl_inv NotReady s" "0 < owed FnOpen (fs_log s)"
  shows "plain_inv opts (OnOpen env st hosts server s)"
proof (cases "fs_completed s")
  case True
  then show ?thesis using late_plain [OF assms(1) True] by (simp add: OnOpen_def fs_view)
next
  case False
  have e: "plain_pre opts (enter FnOpen s)" "ctl_pre (enter FnOpen s)" "\<not> fs_budget_set s"
    using enter_plain [OF assms _ False] by simp_all
  define t where "t = (enter FnOpen s) \<lparr> fs_t_open := ev_clock env AtEntry,
      fs_hops := (case hosts of Some n \<Rightarrow> n | None \<Rightarrow> fs_hops (enter FnOpen s)) \<rparr>"
  define u where "u = t \<lparr> fs_data_server := server \<rparr>"
  define w where "w = emit (Submit OpStat (xs_ok (ev_submit env))) (ArmOpDeadline (u \<lparr> fs_pending_cbs := fs_pending_cbs u + 1 \<rparr>))"
  define v where "v = set_error (''stat submission failed: '' @ xs_text (ev_submit env)) (xs_code (ev_submit env))
      (xs_errno (ev_submit env)) (w \<lparr> fs_pending_cbs := fs_pending_cbs w - 1 \<rparr>)"
  have pre: "plain_pre opts t" "plain_pre opts u" "plain_pre opts w" "plain_pre opts v"
    by (rule plain_pre_frame [OF e(1)]; use e(1) in \<open>simp add: t_def u_def w_def v_def plain_pre_def fs_view\<close>)+
  have idle: "idle t" "idle u" using ctl_pre_idle [OF e(2)] by (simp_all add: t_def u_def idle_def)
  then have iv: "idle v" if "\<not> xs_ok (ev_submit env)" using that by (simp add: v_def w_def idle_def fs_view)
  have d: "OnOpen env st hosts server s =
      (if \<not> xs_ok st then ReleaseIfIdle (Fail env ''open'' st t)
       else if fs_timed_out s then ReleaseIfIdle (SubmitClose env u)
       else if xs_ok (ev_submit env) then ReleaseIfIdle w else ReleaseIfIdle (Complete (RefundPrepaid v)))"
    using False by (simp add: OnOpen_def t_def u_def v_def w_def Let_def enter_view)
  have w: "plain_inv opts (ReleaseIfIdle w)" if "xs_ok (ev_submit env)"
  proof -
    have "ReleaseIfIdle w = w" using False by (simp add: ReleaseIfIdle_def w_def u_def t_def fs_view)
    moreover have "\<not> fs_budget_set w" using e(3) by (simp add: w_def u_def t_def fs_view)
    moreover have "owed FnRead (fs_log w) = 0" using idle(2) by (simp add: w_def idle_def fs_view)
    ultimately show ?thesis using pre(3) by (simp add: plain_inv_def plain_pre_def)
  qed
  show ?thesis unfolding d using end_plain [OF pre(1) idle(1)] end_plain [OF pre(2) idle(2)] end_plain [OF pre(4) iv] w
    by auto
qed

lemma budget_plain:
  assumes "plain_pre opts s" "\<not> fs_budget_set s"
    "fs_opts t = opts" "fs_budget_set t" "fs_requested t = 0" "fs_bytes_read t = fs_bytes_read s"
    "fs_log t = fs_log s" "fs_buffer t = fs_buffer s" "fs_paced t = fs_paced s"
    "unat (fs_remaining t) \<le> budget_of t" "readable t"
  shows "plain_pre opts t"
proof -
  note p = assms(1) [unfolded plain_pre_def]
  have b: "fs_bytes_read s = 0" "reads (fs_log s) = []" using p assms(2) by (simp_all add: span_ok_def)
  have "reads_ok t" using p b(2) unfolding reads_ok_def assms(3,7,8) by simp
  moreover have "span_ok t" using assms(4,5,10,11) b(1) by (simp add: span_ok_def assms(6))
  ultimately show ?thesis using p assms(3,5,9) by (simp add: plain_pre_def)
qed

lemma OnStat_plain:
  assumes "plain_inv opts s" "ctl_inv NotReady s" "0 < owed FnStat (fs_log s)" "rng_bounded G"
  shows "plain_inv opts (OnStat G env st fsize s)"
proof (cases "fs_completed s")
  case True
  then show ?thesis using late_plain [OF assms(1) True] by (simp add: OnStat_def fs_view)
next
  case False
  let ?e = "enter FnStat s"
  let ?cap = "if 0 < fo_max_bytes opts then min fsize (fo_max_bytes opts) else fsize"
  have e: "plain_pre opts ?e" "ctl_pre ?e" "\<not> fs_budget_set s" and o: "fs_opts s = opts"
    using enter_plain [OF assms(1-3) _ False] assms(1) by (simp_all add: plain_inv_def)
  have b: "fs_bytes_read s = 0" "reads (fs_log s) = []"
    using e(1,3) by (simp_all add: plain_pre_def span_ok_def enter_view enter_reads)
  have idle: "idle ?e" using ctl_pre_idle [OF e(2)] by simp
  define r where "r = ?e \<lparr> fs_file_size := fsize, fs_rng := rng_seed G (fo_offset_seed opts),
      fs_remaining := ?cap, fs_next_offset := 0, fs_budget_set := True \<rparr>"
  define t where "t = ?e \<lparr> fs_file_size := fsize, fs_result := fs_result ?e
      \<lparr> fr_error := ''offset '' @ nat_to_dec (unat (fo_offset opts)) @ '' is beyond file size '' @ nat_to_dec (unat fsize),
         fr_file_size := fsize, fr_data_server := fs_data_server ?e, fr_open_hosts := fs_hops ?e \<rparr> \<rparr>"
  define q where "q = ?e \<lparr> fs_file_size := fsize, fs_remaining := min (fsize - fo_offset opts) ?cap,
      fs_next_offset := fo_offset opts, fs_budget_set := True \<rparr>"
  have d: "OnStat G env st fsize s =
      (if \<not> xs_ok st then ReleaseIfIdle (Fail env ''stat'' st ?e)
       else if fo_random_offset opts then ReleaseIfIdle (IssueNext G env r)
       else if fsize \<le> fo_offset opts then ReleaseIfIdle (Complete (RefundPrepaid t))
       else ReleaseIfIdle (IssueNext G env q))"
    using False o by (simp add: OnStat_def r_def t_def q_def Let_def enter_view)
  have cap: "unat ?cap = (if 0 < fo_max_bytes opts then min (unat fsize) (unat (fo_max_bytes opts)) else unat fsize)"
    by (simp add: unat_min_word)
  have R: "plain_inv opts (ReleaseIfIdle (IssueNext G env r))" if "fo_random_offset opts"
  proof (rule issue_plain [OF assms(4)])
    show "plain_pre opts r" by (rule budget_plain [OF e(1)])
      (use e(1,3) that cap o in \<open>simp_all add: r_def plain_pre_def enter_view budget_of_def readable_def\<close>)
  qed (use e(2) in \<open>simp_all add: r_def ctl_pre_def\<close>)
  have T: "plain_pre opts t" "idle t"
    using e(1,3) b idle by (simp_all add: plain_pre_def span_ok_def reads_ok_def t_def idle_def enter_view enter_reads)
  have Q: "plain_inv opts (ReleaseIfIdle (IssueNext G env q))" if "\<not> fsize \<le> fo_offset opts"
  proof (rule issue_plain [OF assms(4)])
    have le: "fo_offset opts \<le> fsize" "unat (fo_offset opts) \<le> unat fsize" using that by (simp_all add: word_le_nat_alt)
    have rq: "fs_remaining q = min (fsize - fo_offset opts) ?cap" by (simp add: q_def)
    have rem: "unat (fs_remaining q) = min (unat fsize - unat (fo_offset opts)) (unat ?cap)"
      by (simp only: rq unat_min_word unat_sub_u64 [OF le(1)])
    have f: "fs_next_offset q = fo_offset opts" "fs_file_size q = fsize" "fs_opts q = opts"
      using o by (simp_all add: q_def enter_view)
    have "unat (fs_remaining q) \<le> unat fsize - unat (fo_offset opts)" using rem by simp
    then have "readable q" unfolding readable_def f using le(2) by auto
    moreover have "unat (fs_remaining q) \<le> budget_of q" using rem unfolding budget_of_def f cap by simp
    ultimately show "plain_pre opts q" using e(1,3) f(3)
      by (intro budget_plain [OF e(1)]) (simp_all add: q_def plain_pre_def enter_view)
  qed (use e(2) in \<open>simp_all add: q_def ctl_pre_def\<close>)
  show ?thesis unfolding d using end_plain [OF e(1) idle] end_plain [OF T] R Q by simp
qed

text \<open>What a read that has answered leaves to read.\<close>

lemma read_done_plain:
  assumes "plain_inv opts s" "0 < owed FnRead (fs_log s)" "\<not> fs_completed s" "\<forall>n. info = Some n \<longrightarrow> n \<le> fs_requested s"
  shows "plain_pre opts (read_done env info (enter FnRead s)) \<and> fs_budget_set s"
proof -
  note p = assms(1) [unfolded plain_inv_def]
  have "fs_budget_set s" using p assms(2,3) by simp
  then show ?thesis using read_done_span(1,2) [OF _ _ _ assms(4)] p by (simp add: plain_pre_def fs_view)
qed

lemma OnRead_plain:
  assumes "plain_inv opts s" "ctl_inv NotReady s" "0 < owed FnRead (fs_log s)"
    "\<forall>n. info = Some n \<longrightarrow> n \<le> fs_requested s" "rng_bounded G"
  shows "plain_inv opts (OnRead G env st info s)"
proof (cases "fs_completed s")
  case True
  then show ?thesis using late_plain [OF assms(1) True] by (simp add: OnRead_def fs_view)
next
  case live: False
  note p = assms(1) [unfolded plain_inv_def]
  have t: "ctl_pre (enter FnRead s)" using take_token [OF assms(2,3) _ live] by simp
  show ?thesis
  proof (cases "xs_ok st")
    case False
    let ?t = "ReleaseIfIdle (Fail env (if 0 < fo_vector_chunks (fs_opts s) then ''vector_read'' else ''read'') st (enter FnRead s))"
    have "span_ok ?t" by (rule span_frame [of s]) (use p in \<open>simp_all add: fs_view enter_reads\<close>)
    moreover have "reads_ok ?t" by (rule reads_frame [of s]) (use p in \<open>simp_all add: fs_view enter_reads\<close>)
    ultimately have "plain_inv opts ?t"
      using p ctl_pre_idle [OF t] by (intro plain_doneI) (simp_all add: plain_pre_def idle_def fs_view)
    then show ?thesis using live False by (simp add: OnRead_err)
  next
    case True
    let ?s = "read_done env info (enter FnRead s)"
    have pre: "plain_pre opts ?s" "fs_budget_set ?s"
      using read_done_plain [OF assms(1,3) live assms(4), of env] by (simp_all add: fs_view)
    have "ctl_pre ?s" using t by (simp add: ctl_pre_def fs_view)
    then have "plain_inv opts (ReleaseIfIdle (IssueNext G env ?s))" by (rule issue_plain [OF assms(5) pre(1) _ pre(2)])
    moreover have "OnRead G env st info s = ReleaseIfIdle (IssueNext G env ?s)"
      using live True pre(1) by (simp add: OnRead_ok Let_def plain_pre_def)
    ultimately show ?thesis by simp
  qed
qed

text \<open>The close handler and the watchdog leave the reads alone.\<close>

lemma plain_frame:
  assumes "plain_inv opts s" "fs_completed t \<or> \<not> fs_completed s \<and> owed FnOpen (fs_log t) = owed FnOpen (fs_log s)
       \<and> owed FnStat (fs_log t) = owed FnStat (fs_log s) \<and> owed FnRead (fs_log t) = owed FnRead (fs_log s)"
    "fs_requested t = fs_requested s" "fs_remaining t = fs_remaining s" "fs_budget_set t = fs_budget_set s"
    "fs_bytes_read t = fs_bytes_read s" "fs_opts t = fs_opts s" "fs_file_size t = fs_file_size s"
    "fs_next_offset t = fs_next_offset s" "reads (fs_log t) = reads (fs_log s)" "fs_buffer t = fs_buffer s"
    "fs_paced t = fs_paced s"
  shows "plain_inv opts t"
proof -
  note p = assms(1) [unfolded plain_inv_def]
  have "budget_of t = budget_of s" "readable t = readable s"
    unfolding budget_of_def readable_def assms by (rule refl)+
  then have "span_ok t" using p unfolding span_ok_def assms(3-6,10) by simp
  moreover have "reads_ok s" using p by blast
  then have "reads_ok t" unfolding reads_ok_def assms(7,8,10,11) .
  ultimately show ?thesis using p assms(2) unfolding plain_inv_def assms(3,5,7,12) by auto
qed

lemma OnClose_plain:
  assumes "plain_inv opts s" shows "plain_inv opts (OnClose env st s)"
proof (cases "fs_completed s")
  case True
  then show ?thesis using late_plain [OF assms True] by (simp add: OnClose_def fs_view)
next
  case False
  then show ?thesis
    by (intro plain_frame [OF assms]) (simp_all add: OnClose_def Let_def fs_view enter_reads)
qed

lemma RequestWallTimeout_plain:
  assumes "plain_inv opts s" shows "plain_inv opts (RequestWallTimeout env s)"
proof (cases "fs_completed s \<or> fs_close_requested s")
  case False
  then show ?thesis
    by (intro plain_frame [OF assms]) (simp_all add: RequestWallTimeout_def fs_view)
qed (use assms in \<open>auto simp: RequestWallTimeout_def\<close>)

section \<open>Every reachable state\<close>

lemma start_plain:
  assumes "op_cap opts < 2 ^ 32"
  shows "plain_inv opts (fs_Start env (new_FileSession G opts True False n False False False))"
proof -
  let ?n = "new_FileSession G opts True False n False False False"
  have b: "unat (OpBytes opts) = op_cap opts" by (rule OpBytes_fits [OF assms])
  define t where "t = emit (Submit (OpOpen (fo_url opts)) (xs_ok (ev_submit env)))
     ((ArmOpDeadline (?n \<lparr> fs_self_keep := True, fs_buffer := unat (OpBytes opts), fs_t_start := ev_clock env AtEntry \<rparr>))
        \<lparr> fs_pending_cbs := 1 \<rparr>)"
  define u where "u = set_error (''open submission failed: '' @ xs_text (ev_submit env)) (xs_code (ev_submit env))
      (xs_errno (ev_submit env)) (t \<lparr> fs_pending_cbs := 0 \<rparr>)"
  have pre: "plain_pre opts t" by (simp add: t_def new_FileSession_def plain_pre_def span_ok_def reads_ok_def fs_view b)
  have o: "\<not> fs_budget_set t" "owed FnRead (fs_log t) = 0" "owed FnStat (fs_log t) = 0"
    "\<not> xs_ok (ev_submit env) \<Longrightarrow> owed FnOpen (fs_log t) = 0"
    by (simp_all add: t_def new_FileSession_def fs_view)
  have "plain_pre opts u" by (rule plain_pre_frame [OF pre]) (use pre in \<open>simp_all add: u_def plain_pre_def fs_view\<close>)
  then have "plain_inv opts (ReleaseIfIdle (Complete (RefundPrepaid u)))" if "\<not> xs_ok (ev_submit env)"
    using o that by (intro end_plain(3)) (simp_all add: u_def idle_def fs_view)
  moreover have "fs_Start env ?n = (if xs_ok (ev_submit env) then t else ReleaseIfIdle (Complete (RefundPrepaid u)))"
    by (simp add: fs_Start_def t_def u_def Let_def new_FileSession_def emit_def ArmOpDeadline_def)
  moreover have "plain_inv opts t" using pre o by (simp add: plain_inv_def plain_pre_def)
  ultimately show ?thesis by simp
qed

lemma OnRead_unpaced: "\<not> fs_paced s \<Longrightarrow> readies (fs_log (OnRead G env st info s)) = readies (fs_log s)"
  by (simp add: OnRead_def Let_def fs_view)

text \<open>The engine never has an unpaced session.\<close>

lemma step_plain:
  assumes "session_step G y y'" "ctl_inv (ss_hand y) (ss_fs y)" "ss_hand y = NotReady" "plain_inv opts (ss_fs y)" "rng_bounded G"
  shows "ss_hand y' = NotReady \<and> plain_inv opts (ss_fs y')"
  using assms
proof (induction rule: session_step.induct)
  case (cb_read y info s' env st)
  then show ?case using OnRead_plain [OF cb_read.prems(3) _ cb_read.hyps(1,2), of G env st] OnRead_unpaced [of "ss_fs y"]
    by (simp add: plain_inv_def)
qed (simp_all add: OnOpen_plain OnStat_plain OnClose_plain RequestWallTimeout_plain)

lemma reach_plain:
  assumes "session_reach G opts False n y" "rng_bounded G" "op_cap opts < 2 ^ 32"
  shows "ss_hand y = NotReady \<and> plain_inv opts (ss_fs y)"
  using assms(1)
proof (induction rule: session_reach.induct)
  case (start env)
  then show ?case using start_plain [OF assms(3)] by (simp add: session_start_def)
next
  case (step y y')
  then show ?case using step_plain [OF step(2) reach_ctl [OF step(1)]] assms(2) by blast
qed

section \<open>The result and the command\<close>

text \<open>A good result names the size the file had; only the close handler makes one.\<close>

lemma IssueNext_not_ok:
  assumes "\<not> fr_ok (fs_result s)" shows "\<not> fr_ok (fs_result (IssueNext G env s))"
proof (cases "fs_completed s")
  case False
  then show ?thesis using assms
    by (cases "fs_timed_out s \<or> fs_remaining s = 0") (simp_all add: IssueNext_close IssueNext_read Let_def issued_view fs_view)
qed (simp add: IssueNext_def assms)

lemma calls_not_ok:
  assumes "\<not> fr_ok (fs_result s)"
  shows "\<not> fr_ok (fs_result (OnOpen env st hosts server s))" "\<not> fr_ok (fs_result (OnStat G env st n s))"
    "\<not> fr_ok (fs_result (OnRead G env st info s))" "\<not> fr_ok (fs_result (RequestWallTimeout env s))"
    "\<not> fr_ok (fs_result (IssueNextFromEngine G env s))" "\<not> fr_ok (fs_result (CloseNow env s))"
  using assms by (simp_all add: OnOpen_def OnStat_def OnRead_def RequestWallTimeout_def IssueNextFromEngine_def CloseNow_def
      Let_def fs_view IssueNext_not_ok)

definition size_said :: "'r FileSession \<Rightarrow> bool" where
  "size_said s \<longleftrightarrow> (fr_ok (fs_result s) \<longrightarrow> fr_file_size (fs_result s) = fs_file_size s)"

lemma late_calls:
  assumes "fs_completed s"
  shows "OnOpen env st hosts server s = ReleaseIfIdle (enter FnOpen s)" "OnStat G env st n s = ReleaseIfIdle (enter FnStat s)"
    "OnRead G env st info s = ReleaseIfIdle (enter FnRead s)" "OnClose env st s = ReleaseIfIdle (enter FnClose s)"
    "RequestWallTimeout env s = s" "IssueNextFromEngine G env s = ReleaseIfIdle s" "CloseNow env s = ReleaseIfIdle s"
  using assms by (simp_all add: OnOpen_def OnStat_def OnRead_def OnClose_def RequestWallTimeout_def IssueNextFromEngine_def
      CloseNow_def Let_def enter_view)

lemma OnClose_size: "\<not> fr_ok (fs_result s) \<Longrightarrow> \<not> fs_completed s \<Longrightarrow> size_said (OnClose env st s)"
  by (simp add: OnClose_def Let_def size_said_def FinishOk_def fs_view)

lemma session_step_size:
  assumes "session_step G y y'" "res_inv (ss_fs y)" "size_said (ss_fs y)" shows "size_said (ss_fs y')"
proof (cases "fs_completed (ss_fs y)")
  case True
  show ?thesis using assms(1) True assms(3)
    by (induction rule: session_step.induct) (simp_all add: late_calls size_said_def fs_view)
next
  case False
  then have n: "\<not> fr_ok (fs_result (ss_fs y))" using assms(2) by (simp add: res_inv_def)
  show ?thesis using assms(1) n False assms(3)
    by (induction rule: session_step.induct) (simp_all add: calls_not_ok OnClose_size size_said_def [of "OnOpen _ _ _ _ _"]
        size_said_def [of "OnStat _ _ _ _ _"] size_said_def [of "OnRead _ _ _ _ _"] size_said_def [of "RequestWallTimeout _ _"]
        size_said_def [of "IssueNextFromEngine _ _ _"] size_said_def [of "CloseNow _ _"])
qed

lemma reach_size: "session_reach G opts paced prepaid y \<Longrightarrow> size_said (ss_fs y)"
proof (induction rule: session_reach.induct)
  case (start env)
  then show ?case
    by (simp add: session_start_def Let_def fs_Start_def size_said_def new_FileSession_def new_FileSessionResult_def fs_view)
next
  case (step y y')
  then show ?case using session_step_size reach_res by blast
qed

text \<open>\<^verbatim>\<open>RunFileSession\<close>: \<^verbatim>\<open>fut.get\<close> returns the result the session's \<^verbatim>\<open>on_done\<close> puts into the promise.\<close>

definition RunFileSession :: "'r rng_api \<Rightarrow> FileSessionOptions \<Rightarrow> FileSessionResult \<Rightarrow> bool" where
  "RunFileSession G opts r \<longleftrightarrow> (\<exists>y. session_reach G opts False 0 y \<and> results (fs_log (ss_fs y)) = [r])"

text \<open>It does not wait for nothing: until the promise is set, a handler of XrdCl is still to run.\<close>

lemma RunFileSession_waits:
  assumes "session_reach G opts False 0 y" "rng_bounded G" "op_cap opts < 2 ^ 32" "results (fs_log (ss_fs y)) = []"
  shows "\<exists>h. 0 < owed h (fs_log (ss_fs y))"
proof -
  have c: "\<not> fs_completed (ss_fs y)" using reach_res [OF assms(1)] assms(4) by (auto simp: res_inv_def)
  have "in_hand (ss_hand y) = 0" using reach_plain [OF assms(1-3)] by (simp add: in_hand_def)
  then have "0 < owed FnOpen (fs_log (ss_fs y)) \<or> 0 < owed FnStat (fs_log (ss_fs y)) \<or> 0 < owed FnRead (fs_log (ss_fs y))
      \<or> 0 < owed FnClose (fs_log (ss_fs y))"
    using ctl_live [OF reach_ctl [OF assms(1)] c] by linarith
  then show ?thesis by blast
qed

text \<open>C12. Reads stay where they may, for operations below 4 GiB (chunk size times chunks, \<open>op_cap\<close>): every read a session
  submits, paced by the engine or not, lies in the file as the server described it and fits the buffer, and the bytes
  read never exceed the file or the session's byte cap. From 4 GiB on the buffer's size wraps in the code, and a read
  can be larger than it (\<open>buffer_wraps\<close>).\<close>

theorem session_reads_bounded:
  assumes "session_reach G opts paced prepaid y" "rng_bounded G" "op_cap opts < 2 ^ 32"
    and "paced \<longrightarrow> prepaid = SessionOpBytes opts"
  shows "list_all (\<lambda>op. op_inside (fs_file_size (ss_fs y)) op \<and> op_bytes op \<le> fs_buffer (ss_fs y)) (reads (fs_log (ss_fs y)))
    \<and> unat (fs_bytes_read (ss_fs y)) \<le> (if 0 < fo_max_bytes opts
         then min (unat (fs_file_size (ss_fs y))) (unat (fo_max_bytes opts)) else unat (fs_file_size (ss_fs y)))"
proof -
  have d: "span_ok (ss_fs y) \<and> reads_ok (ss_fs y) \<and> fs_opts (ss_fs y) = opts"
  proof (cases paced)
    case True
    then show ?thesis using reach_data [of G opts prepaid y] assms by (simp add: data_inv_def)
  next
    case False
    then show ?thesis using reach_plain [of G opts prepaid y] assms(1-3) by (simp add: plain_inv_def)
  qed
  then have r: "reads_ok (ss_fs y)" and o: "fs_opts (ss_fs y) = opts" by blast+
  have "unat (fs_bytes_read (ss_fs y)) \<le> budget_of (ss_fs y)"
    using d by (cases "fs_budget_set (ss_fs y)") (simp_all add: span_ok_def)
  then show ?thesis using r [unfolded reads_ok_def, THEN conjunct2] unfolding budget_of_def o by (intro conjI)
qed

lemma session_reads_bounded_witness:
  "unat (fs_bytes_read (ss_fs demo_session)) \<le> unat (fs_file_size (ss_fs demo_session))"
  using session_reads_bounded [OF demo_reach counter_rng_bounded demo_fits(1)] demo_fits(2)
  by (simp add: demo_opts_def default_FileSessionOptions_def)

text \<open>C24. The \<^verbatim>\<open>read\<close> command says how its session ended: whatever its options, it exits with 0 exactly if the session's result
  has no error text, and then prints the result, else it prints that text and exits with 1; for operations below 4 GiB
  (\<open>--chunk-size\<close> times \<open>--vector\<close>; beyond, the session's buffer wraps) the bytes it reports never exceed the size it
  reports for the file, nor the limit it was given.\<close>

theorem read_command_result:
  assumes "RunFileSession G (read_session_opts o1) r" "RunReadCommand (\<lambda>_. r) o1 = Inr (code, out)" "rng_bounded G"
  shows "code = (if fr_error r = [] then 0 else 1)
    \<and> (if fr_error r = [] then PrintResult r (rd_json o1) = Inr out else out = [''error: '' @ fr_error r])
    \<and> (fr_error r = [] \<longrightarrow> op_cap (read_session_opts o1) < 2 ^ 32 \<longrightarrow>
         unat (fr_bytes_read r) \<le> unat (fr_file_size r) \<and> (rd_max_bytes o1 = 0 \<or> fr_bytes_read r \<le> rd_max_bytes o1))"
proof -
  obtain y where y: "session_reach G (read_session_opts o1) False 0 y" "results (fs_log (ss_fs y)) = [r]"
    using assms(1) unfolding RunFileSession_def by blast
  let ?s = "ss_fs y"
  have r: "fs_completed ?s" "fs_result ?s = r" "fr_ok r = (fr_error r = [])"
    "fr_ok r \<Longrightarrow> fr_bytes_read r = fs_bytes_read ?s"
    using reach_res [OF y(1)] y(2) by (auto simp: res_inv_def split: if_splits)
  have b: "unat (fs_bytes_read ?s) \<le> unat (fs_file_size ?s)" "rd_max_bytes o1 = 0 \<or> fs_bytes_read ?s \<le> rd_max_bytes o1"
    if o: "op_cap (read_session_opts o1) < 2 ^ 32"
  proof -
    have p: "span_ok ?s" "fs_opts ?s = read_session_opts o1"
      using reach_plain [OF y(1) assms(3) o] by (simp_all add: plain_inv_def)
    have "unat (fs_bytes_read ?s) \<le> budget_of ?s"
      using p(1) by (cases "fs_budget_set ?s") (simp_all add: span_ok_def)
    moreover have "fo_max_bytes (fs_opts ?s) = rd_max_bytes o1" using p(2) by (simp add: read_session_opts_def)
    ultimately show "unat (fs_bytes_read ?s) \<le> unat (fs_file_size ?s)" "rd_max_bytes o1 = 0 \<or> fs_bytes_read ?s \<le> rd_max_bytes o1"
      by (auto simp: budget_of_def word_le_nat_alt word_gt_0 split: if_splits)
  qed
  moreover have "fr_ok r \<Longrightarrow> fr_file_size r = fs_file_size ?s"
    using reach_size [OF y(1)] r(2) by (simp add: size_said_def)
  ultimately show ?thesis using assms(2) r(3,4)
    by (auto simp: RunReadCommand_def res_bind_def split: if_splits sum.splits)
qed

text \<open>A file of ten bytes, read in one operation.\<close>

definition demo_read :: ReadOptions where
  "demo_read = default_ReadOptions \<lparr> rd_url := ''root://h//f'', rd_chunk_size := 100, rd_max_bytes := 50, rd_json := True \<rparr>"

definition demo_read_start :: "u64 session_sys" where
  "demo_read_start = session_start counter_rng (read_session_opts demo_read) False 0 demo_env"

definition demo_ok :: xrd_status where
  "demo_ok = ev_submit demo_env"

definition demo_opened :: "u64 FileSession" where
  "demo_opened = OnOpen demo_env demo_ok (Some 1) ''ds'' (ss_fs demo_read_start)"

definition demo_stated :: "u64 FileSession" where
  "demo_stated = OnStat counter_rng demo_env demo_ok 10 demo_opened"

definition demo_read_done :: "u64 FileSession" where
  "demo_read_done = OnRead counter_rng demo_env demo_ok (Some 10) demo_stated"

definition demo_closed :: "u64 FileSession" where
  "demo_closed = OnClose demo_env demo_ok demo_read_done"

lemma demo_read_submits:
  "0 < owed FnOpen (fs_log (ss_fs demo_read_start))" "0 < owed FnStat (fs_log demo_opened)"
  by code_simp+

lemma demo_read_reads: "0 < owed FnRead (fs_log demo_stated) \<and> 10 \<le> fs_requested demo_stated"
  by code_simp

lemma demo_read_closes: "0 < owed FnClose (fs_log demo_read_done) \<and> fs_completed demo_closed"
  by code_simp

lemma demo_read_good: "fr_ok (fs_result demo_closed) \<and> fr_error (fs_result demo_closed) = []"
  by code_simp

lemma demo_read_fits: "op_cap (read_session_opts demo_read) < 2 ^ 32"
  by (simp add: demo_read_def read_session_opts_def default_ReadOptions_def default_FileSessionOptions_def op_cap_def)

lemma demo_read_reach:
  "session_reach counter_rng (read_session_opts demo_read) False 0 (demo_read_start \<lparr> ss_fs := demo_closed \<rparr>)"
proof -
  let ?R = "session_reach counter_rng (read_session_opts demo_read) False 0"
  have 0: "?R demo_read_start" unfolding demo_read_start_def by (rule session_reach.start)
  have 1: "?R (demo_read_start \<lparr> ss_fs := demo_opened \<rparr>)"
    unfolding demo_opened_def by (rule session_reach.step [OF 0 session_step.cb_open [OF demo_read_submits(1)]])
  have 2: "?R (demo_read_start \<lparr> ss_fs := demo_stated \<rparr>)"
    using session_reach.step [OF 1 session_step.cb_stat [of "demo_read_start \<lparr> ss_fs := demo_opened \<rparr>"]] demo_read_submits(2)
    by (simp add: demo_stated_def)
  have 3: "?R (demo_read_start \<lparr> ss_fs := demo_read_done \<rparr>)"
  proof -
    have n: "\<not> fs_paced demo_stated" and h: "demo_read_start \<lparr> ss_fs := s, ss_hand := NotReady \<rparr> = demo_read_start \<lparr> ss_fs := s \<rparr>" for s
      using reach_plain [OF 2 counter_rng_bounded demo_read_fits] by (simp_all add: plain_inv_def)
    show ?thesis
      using session_reach.step [OF 2 session_step.cb_read [of "demo_read_start \<lparr> ss_fs := demo_stated \<rparr>" "Some 10" demo_read_done
          counter_rng demo_env demo_ok]] demo_read_reads OnRead_unpaced [OF n] h
      by (simp add: demo_read_done_def)
  qed
  show ?thesis
    using session_reach.step [OF 3 session_step.cb_close [of "demo_read_start \<lparr> ss_fs := demo_read_done \<rparr>"]] demo_read_closes
    by (simp add: demo_closed_def)
qed

lemma demo_read_runs: "RunFileSession counter_rng (read_session_opts demo_read) (fs_result demo_closed)"
  using demo_read_reach reach_res [OF demo_read_reach] demo_read_closes unfolding RunFileSession_def
  by (intro exI [of _ "demo_read_start \<lparr> ss_fs := demo_closed \<rparr>"]) (simp add: res_inv_def)

lemma read_command_result_witness:
  "RunReadCommand (\<lambda>_. fs_result demo_closed) demo_read = Inr (0, [result_json_line (fs_result demo_closed)])
    \<and> unat (fr_bytes_read (fs_result demo_closed)) \<le> unat (fr_file_size (fs_result demo_closed))"
proof -
  have "RunReadCommand (\<lambda>_. fs_result demo_closed) demo_read = Inr (0, [result_json_line (fs_result demo_closed)])"
    using demo_read_good by (simp add: RunReadCommand_def PrintResult_def demo_read_def)
  with read_command_result [OF demo_read_runs this counter_rng_bounded] demo_read_fits demo_read_good
  show ?thesis by simp
qed

end
