(* ===== verification/LogLine.thy ===== *)
theory LogLine
  imports Printf "HOL-Library.Signed_Division"
begin

text \<open>
  \<^verbatim>\<open>src/log.cc\<close>: the time stamp every line of the program's log starts with, and the line. The system clock is an
  argument, in nanoseconds since 1970; \<^verbatim>\<open>gmtime_r\<close> is the Gregorian calendar, counted off year by year and month by
  month.
\<close>

section \<open>The calendar\<close>

definition leap_year :: "int \<Rightarrow> bool" where
  "leap_year y \<longleftrightarrow> 4 dvd y \<and> (\<not> 100 dvd y \<or> 400 dvd y)"

definition year_days :: "int \<Rightarrow> int" where
  "year_days y = (if leap_year y then 366 else 365)"

definition month_days :: "int \<Rightarrow> int list" where
  "month_days y = [31, if leap_year y then 29 else 28, 31, 30, 31, 30, 31, 31, 30, 31, 30, 31]"

lemma year_days_bounds: "365 \<le> year_days y" "year_days y \<le> 366"
  by (simp_all add: year_days_def)

lemma month_days_facts: "sum_list (month_days y) = year_days y" "length (month_days y) = 12"
    "list_all (\<lambda>n. n \<le> 31) (month_days y)"
  by (simp_all add: month_days_def year_days_def)

text \<open>The year of a day counted from the first of January of year \<open>y\<close>, and the day within that year.\<close>

function civil_year :: "int \<Rightarrow> int \<Rightarrow> int \<times> int" where
  "civil_year y d =
     (if d < 0 then civil_year (y - 1) (d + year_days (y - 1))
      else if year_days y \<le> d then civil_year (y + 1) (d - year_days y)
      else (y, d))"
  by pat_completeness auto
termination
proof (relation "measure (\<lambda>(y, d). nat (if d < 0 then 366 - d else d))", goal_cases)
  case (2 y d)
  then show ?case using year_days_bounds [of "y - 1"] by simp
next
  case (3 y d)
  then show ?case using year_days_bounds [of y] by simp
qed simp

declare civil_year.simps [simp del]

fun civil_month :: "int list \<Rightarrow> int \<Rightarrow> nat \<times> int" where
  "civil_month [] d = (0, d)"
| "civil_month (n # ns) d = (if d < n then (0, d) else (case civil_month ns (d - n) of (m, r) \<Rightarrow> (Suc m, r)))"

text \<open>\<^verbatim>\<open>struct tm\<close> with its conventions: years from 1900, months from 0, days of the month from 1.\<close>

record tm =
  tm_sec :: int
  tm_min :: int
  tm_hour :: int
  tm_mday :: int
  tm_mon :: nat
  tm_year :: int

definition gmtime_r :: "int \<Rightarrow> tm" where
  "gmtime_r secs =
     (let (y, yday) = civil_year 1970 (secs div 86400);
          (m, mday) = civil_month (month_days y) yday;
          s = secs mod 86400
      in \<lparr> tm_sec = s mod 60, tm_min = s div 60 mod 60, tm_hour = s div 3600,
           tm_mday = mday + 1, tm_mon = m, tm_year = y - 1900 \<rparr>)"

section \<open>The stamp and the line\<close>

definition pad2 :: "int \<Rightarrow> string" where
  "pad2 n = zero_pad 2 (int_to_dec n)"

text \<open>\<^verbatim>\<open>strftime\<close> of \<^verbatim>\<open>%Y-%m-%dT%H:%M:%S\<close>.\<close>

definition stamp_date :: "tm \<Rightarrow> string" where
  "stamp_date tm = zero_pad 4 (int_dec (tm_year tm + 1900)) @ ''-'' @ pad2 (int (tm_mon tm) + 1) @ ''-'' @ pad2 (tm_mday tm)
     @ ''T'' @ pad2 (tm_hour tm) @ '':'' @ pad2 (tm_min tm) @ '':'' @ pad2 (tm_sec tm)"

text \<open>\<^verbatim>\<open>%03d\<close>: the sign counts for the width.\<close>

definition fmt_03d :: "int \<Rightarrow> string" where
  "fmt_03d n = (if n < 0 then ''-'' @ zero_pad 2 (int_to_dec (- n)) else zero_pad 3 (int_to_dec n))"

text \<open>The casts of the clock to seconds and to milliseconds round towards 0; \<^verbatim>\<open>strftime\<close> returns 0 if the text does
  not fit the 64 bytes of the buffer.\<close>

definition UtcStamp :: "int \<Rightarrow> string" where
  "UtcStamp now =
     (let secs = now sdiv 10 ^ 9;
          ms = (now sdiv 10 ^ 6) smod 1000;
          buf = stamp_date (gmtime_r secs);
          n = (if length buf < 64 then length buf else 0)
      in if n = 0 \<or> 64 \<le> n + 5 then ''1970-01-01T00:00:00.000Z''
         else buf @ ''.'' @ fmt_03d ms @ ''Z'')"

text \<open>A null stream or format prints nothing; what the stream holds is its text.\<close>

definition LogTo :: "int \<Rightarrow> string option \<Rightarrow> string option \<Rightarrow> string option" where
  "LogTo now stream message =
     (case (stream, message) of
        (Some out, Some line) \<Rightarrow> Some (out @ UtcStamp now @ '' '' @ line @ newline)
      | _ \<Rightarrow> stream)"

lemma UtcStamp_samples:
  "UtcStamp 0 = ''1970-01-01T00:00:00.000Z''"
  "UtcStamp 951782400123456789 = ''2000-02-29T00:00:00.123Z''"
  "UtcStamp 1785665730999999999 = ''2026-08-02T10:15:30.999Z''"
  by code_simp+

section \<open>Reading a stamp back\<close>

text \<open>Days from 1970 to the first of January of a year, in closed form.\<close>

definition days_before :: "int \<Rightarrow> int" where
  "days_before y = 365 * (y - 1970) + (y - 1) div 4 - (y - 1) div 100 + (y - 1) div 400 - 477"

lemma div_step: "0 < k \<Longrightarrow> y div k = (y - 1) div k + of_bool (k dvd y)" for y k :: int
proof (cases "k dvd y")
  case True
  assume k: "0 < k"
  from True obtain m where m: "y = k * m" by blast
  have "(y - 1) div k = m - 1" by (rule int_div_pos_eq [of _ _ _ "k - 1"]) (use k in \<open>simp_all add: m algebra_simps\<close>)
  then show ?thesis using k m by simp
next
  case False
  assume k: "0 < k"
  have "y mod k \<noteq> 0" using False by (simp add: dvd_eq_mod_eq_0)
  moreover have "0 \<le> y mod k" "y mod k < k" using k by simp_all
  ultimately have "0 \<le> y mod k - 1" "y mod k - 1 < k" by linarith+
  then have "(y - 1) div k = y div k"
    by (intro int_div_pos_eq [of _ _ _ "y mod k - 1"]) (simp_all add: algebra_simps)
  then show ?thesis using False by simp
qed

lemma days_before_step: "days_before (y + 1) = days_before y + year_days y"
proof -
  have "4 dvd y" if "100 dvd y" using dvd_trans [OF _ that, of 4] by simp
  moreover have "100 dvd y" if "400 dvd y" using dvd_trans [OF _ that, of 100] by simp
  moreover define f g where "f k = y div k" and "g k = (y - 1) div k" for k
  have "f 4 = g 4 + of_bool (4 dvd y)" "f 100 = g 100 + of_bool (100 dvd y)" "f 400 = g 400 + of_bool (400 dvd y)"
    using div_step [of _ y] by (simp_all only: f_def g_def)
  moreover have "days_before (y + 1) = 365 * (y + 1 - 1970) + f 4 - f 100 + f 400 - 477"
    "days_before y = 365 * (y - 1970) + g 4 - g 100 + g 400 - 477"
    by (simp_all only: days_before_def f_def g_def add_diff_cancel)
  ultimately show ?thesis
    by (cases "4 dvd y"; cases "100 dvd y"; cases "400 dvd y") (simp_all only: year_days_def leap_year_def, simp_all)
qed

text \<open>The calendar that is counted off agrees with the closed form.\<close>

lemma civil_year_days:
  "civil_year y d = (y', d') \<Longrightarrow> days_before y' + d' = days_before y + d \<and> 0 \<le> d' \<and> d' < year_days y'"
proof (induction y d rule: civil_year.induct)
  case (1 y d)
  show ?case
    using 1 days_before_step [of y] days_before_step [of "y - 1"]
    by (cases "d < 0"; cases "year_days y \<le> d") (simp_all add: civil_year.simps [of y d])
qed

lemma civil_year_after: "0 \<le> d \<Longrightarrow> y \<le> fst (civil_year y d)"
proof (induction y d rule: civil_year.induct)
  case (1 y d)
  then show ?case by (cases "year_days y \<le> d") (simp_all add: civil_year.simps [of y d])
qed

lemma civil_month_days:
  "civil_month ns d = (m, r) \<Longrightarrow> 0 \<le> d \<Longrightarrow> d < sum_list ns \<Longrightarrow>
     m < length ns \<and> sum_list (take m ns) + r = d \<and> 0 \<le> r \<and> r < ns ! m"
proof (induction ns d arbitrary: m r rule: civil_month.induct)
  case (2 n ns d)
  show ?case
  proof (cases "d < n")
    case False
    obtain m' r' where c: "civil_month ns (d - n) = (m', r')" by (cases "civil_month ns (d - n)")
    from 2(1) [OF False c] 2(2-4) False c show ?thesis by auto
  qed (use 2 in auto)
qed simp

lemma days_before_lower: "1 \<le> y \<Longrightarrow> 365 * (y - 1970) - 477 \<le> days_before y"
  using zdiv_mono2 [of "y - 1" 4 100] pos_imp_zdiv_nonneg_iff [of 400 "y - 1"] by (simp add: days_before_def)

lemma days_before_1970: "days_before 1970 = 0"
  by (simp add: days_before_def)

text \<open>Digits of a fixed width.\<close>

lemma int_to_dec_width: "0 < k \<Longrightarrow> n < 10 ^ k \<Longrightarrow> length (int_to_dec n) \<le> k"
proof (induction k arbitrary: n)
  case (Suc k)
  show ?case
  proof (cases "n < 10")
    case False
    then have "0 < k" using Suc.prems by (cases k) auto
    moreover have "n div 10 < 10 ^ k" using Suc.prems(2) by simp
    ultimately show ?thesis using Suc.IH False by (simp add: int_to_dec.simps [of n])
  qed (simp add: int_to_dec.simps [of n])
qed simp

lemma length_zero_pad: "0 < k \<Longrightarrow> n < 10 ^ k \<Longrightarrow> length (zero_pad k (int_to_dec n)) = k"
  using int_to_dec_width [of k n] by (simp add: zero_pad_def)

lemma dec_leading_zeros: "dec_to_int (replicate k (CHR ''0'') @ s) = dec_to_int s"
proof -
  have "foldl (\<lambda>a c. 10 * a + digit_val c) 0 (replicate k (CHR ''0'')) = 0"
    by (induction k) (simp_all add: digit_val_def code_of_def)
  then show ?thesis by (simp add: dec_to_int_def)
qed

lemma dec_zero_pad: "0 \<le> n \<Longrightarrow> dec_to_int (zero_pad k (int_to_dec n)) = n"
  by (simp add: zero_pad_def dec_leading_zeros dec_to_int_to_dec)

text \<open>The milliseconds since 1970 a stamp stands for.\<close>

definition read_stamp :: "string \<Rightarrow> int" where
  "read_stamp s =
     (let num = (\<lambda>i n. dec_to_int (take n (drop i s)));
          y = num 0 4;
          days = days_before y + sum_list (take (nat (num 5 2) - 1) (month_days y)) + num 8 2 - 1
      in ((days * 24 + num 11 2) * 60 + num 14 2) * 60000 + num 17 2 * 1000 + num 20 3)"

lemma towards_zero: "0 \<le> a \<Longrightarrow> 0 < b \<Longrightarrow> a sdiv b = a div b" "0 \<le> a \<Longrightarrow> 0 < b \<Longrightarrow> a smod b = a mod b" for a b :: int
  by (auto simp: signed_divide_int_def signed_modulo_int_def sgn_if)

lemma clock_digits: "(s div 3600 * 60 + s div 60 mod 60) * 60 + s mod 60 = s" for s :: int
proof -
  have "s div 3600 = s div 60 div 60" using zdiv_zmult2_eq [of 60 s 60] by simp
  then have "s div 3600 * 60 + s div 60 mod 60 = s div 60" by (simp only: div_mult_mod_eq)
  then show ?thesis by (simp only: div_mult_mod_eq)
qed

text \<open>The fields of the broken-down time, and the range they print in.\<close>

lemma gmtime_fields:
  assumes "0 \<le> secs" "secs < 2 ^ 34"
  defines "tm \<equiv> gmtime_r secs"
  defines "y \<equiv> tm_year tm + 1900"
  shows "days_before y + sum_list (take (tm_mon tm) (month_days y)) + tm_mday tm - 1 = secs div 86400"
    "0 \<le> y" "y < 10 ^ 4" "tm_mon tm < 12" "1 \<le> tm_mday tm" "tm_mday tm \<le> 31"
    "0 \<le> tm_hour tm" "tm_hour tm < 24" "0 \<le> tm_min tm" "tm_min tm < 60" "0 \<le> tm_sec tm" "tm_sec tm < 60"
    "(tm_hour tm * 60 + tm_min tm) * 60 + tm_sec tm = secs mod 86400"
proof -
  obtain y' d where c: "civil_year 1970 (secs div 86400) = (y', d)" by fastforce
  obtain m r where n: "civil_month (month_days y') d = (m, r)" by fastforce
  have t: "tm = \<lparr> tm_sec = secs mod 86400 mod 60, tm_min = secs mod 86400 div 60 mod 60, tm_hour = secs mod 86400 div 3600,
      tm_mday = r + 1, tm_mon = m, tm_year = y' - 1900 \<rparr>"
    by (simp add: tm_def gmtime_r_def Let_def c n)
  have D: "0 \<le> secs div 86400" "secs div 86400 < 200000" using assms(1,2) by simp_all
  have Y: "days_before y' + d = secs div 86400" "0 \<le> d" "d < year_days y'"
    using civil_year_days [OF c] days_before_1970 by simp_all
  have y: "y = y'" by (simp add: y_def t)
  have M: "m < 12" "sum_list (take m (month_days y')) + r = d" "0 \<le> r" "r < month_days y' ! m"
    using civil_month_days [OF n Y(2)] Y(3) by (simp_all add: month_days_facts(1,2))
  have "month_days y' ! m \<le> 31" using M(1) month_days_facts(2,3) [of y'] by (simp add: list_all_length)
  moreover have G: "1970 \<le> y'" using civil_year_after [OF D(1), of 1970] c by simp
  moreover have "y' < 10 ^ 4" using days_before_lower [of y'] G Y D by simp
  ultimately show "days_before y + sum_list (take (tm_mon tm) (month_days y)) + tm_mday tm - 1 = secs div 86400"
      "0 \<le> y" "y < 10 ^ 4" "tm_mon tm < 12" "1 \<le> tm_mday tm" "tm_mday tm \<le> 31"
    using M Y unfolding y by (simp_all add: t)
  show "0 \<le> tm_hour tm" "tm_hour tm < 24" "0 \<le> tm_min tm" "tm_min tm < 60" "0 \<le> tm_sec tm" "tm_sec tm < 60"
    by (simp_all add: t)
  show "(tm_hour tm * 60 + tm_min tm) * 60 + tm_sec tm = secs mod 86400"
    by (simp only: t tm.simps clock_digits)
qed

lemma read_stamp_fields:
  assumes "length A = 4" "length B = 2" "length C = 2" "length D = 2" "length E = 2" "length F = 2" "length G = 3"
  shows "read_stamp (A @ ''-'' @ B @ ''-'' @ C @ ''T'' @ D @ '':'' @ E @ '':'' @ F @ ''.'' @ G @ ''Z'')
    = (((days_before (dec_to_int A) + sum_list (take (nat (dec_to_int B) - 1) (month_days (dec_to_int A))) + dec_to_int C - 1) * 24
        + dec_to_int D) * 60 + dec_to_int E) * 60000 + dec_to_int F * 1000 + dec_to_int G"
  using assms by (simp add: read_stamp_def Let_def)

text \<open>What a stamp says is the time it was taken, to the millisecond, for any reading of a clock of 64-bit nanoseconds
  that is not before 1970; all stamps have the same width.\<close>

lemma UtcStamp_reads_back:
  assumes "0 \<le> now" "now < 2 ^ 63"
  shows "length (UtcStamp now) = 24 \<and> read_stamp (UtcStamp now) = now div 10 ^ 6"
proof -
  define secs where "secs = now div 10 ^ 9"
  define ms where "ms = now div 10 ^ 6 mod 1000"
  define tm where "tm = gmtime_r secs"
  have s: "0 \<le> secs" "secs < 2 ^ 34" using assms by (simp_all add: secs_def)
  note f = gmtime_fields [OF s, folded tm_def]
  have m: "0 \<le> ms" "ms < 10 ^ 3" by (simp_all add: ms_def)
  have w: "length (zero_pad 4 (int_to_dec (tm_year tm + 1900))) = 4" "length (pad2 (int (tm_mon tm) + 1)) = 2"
    "length (pad2 (tm_mday tm)) = 2" "length (pad2 (tm_hour tm)) = 2" "length (pad2 (tm_min tm)) = 2"
    "length (pad2 (tm_sec tm)) = 2" "length (zero_pad 3 (int_to_dec ms)) = 3"
    unfolding pad2_def using f m by (simp_all add: length_zero_pad)
  have l: "length (stamp_date tm) = 19" using w f(2) by (simp add: stamp_date_def int_dec_def)
  have c: "now sdiv 10 ^ 9 = secs" "(now sdiv 10 ^ 6) smod 1000 = ms"
    unfolding secs_def ms_def using assms(1) by (simp_all add: towards_zero)
  have u: "UtcStamp now = zero_pad 4 (int_to_dec (tm_year tm + 1900)) @ ''-'' @ pad2 (int (tm_mon tm) + 1) @ ''-''
      @ pad2 (tm_mday tm) @ ''T'' @ pad2 (tm_hour tm) @ '':'' @ pad2 (tm_min tm) @ '':'' @ pad2 (tm_sec tm)
      @ ''.'' @ zero_pad 3 (int_to_dec ms) @ ''Z''"
    unfolding UtcStamp_def Let_def c tm_def [symmetric] using l m f(2) by (simp add: fmt_03d_def stamp_date_def int_dec_def)
  have d: "dec_to_int (zero_pad 4 (int_to_dec (tm_year tm + 1900))) = tm_year tm + 1900"
    "dec_to_int (pad2 (int (tm_mon tm) + 1)) = int (tm_mon tm) + 1" "dec_to_int (pad2 (tm_mday tm)) = tm_mday tm"
    "dec_to_int (pad2 (tm_hour tm)) = tm_hour tm" "dec_to_int (pad2 (tm_min tm)) = tm_min tm"
    "dec_to_int (pad2 (tm_sec tm)) = tm_sec tm" "dec_to_int (zero_pad 3 (int_to_dec ms)) = ms"
    "nat (int (tm_mon tm) + 1) - 1 = tm_mon tm"
    unfolding pad2_def using f m by (simp_all add: dec_zero_pad)
  have "read_stamp (UtcStamp now) = ((secs div 86400 * 24 + tm_hour tm) * 60 + tm_min tm) * 60000 + tm_sec tm * 1000 + ms"
    unfolding u read_stamp_fields [OF w] d f(1) ..
  also have "\<dots> = secs div 86400 * 86400000 + ((tm_hour tm * 60 + tm_min tm) * 60 + tm_sec tm) * 1000 + ms"
    by (simp add: algebra_simps)
  also have "\<dots> = (secs div 86400 * 86400 + secs mod 86400) * 1000 + ms" unfolding f(13)
    by (simp only: distrib_right mult.assoc)
  also have "\<dots> = secs * 1000 + ms" by (simp only: div_mult_mod_eq)
  also have "\<dots> = now div 10 ^ 6" by (simp add: secs_def ms_def zdiv_zmult2_eq [of 1000 now 1000000, simplified])
  finally show ?thesis using w by (simp add: u)
qed

end
