(* ===== verification/SessionEnds.thy ===== *)
theory SessionEnds
  imports ReadRun
begin

text \<open>
  A session ends. Every read but the last takes a full operation off what is left to read, and a short one takes
  all of it, so the number of reads is bounded by the session's byte budget; the other operations are done
  at most once each. The number of XrdCl's callbacks follows, for every order of them, of timeouts and of the
  engine's calls.
\<close>

section \<open>The size of the next read\<close>

text \<open>The words wrap, the size does not: this holds wherever the offset is.\<close>

lemma seq_chunks_end: "snd (seq_chunks n c off left) = off + of_nat (min (n * unat c) (unat left))"
proof (induction n c off left rule: seq_chunks.induct)
  case (2 n c off left)
  let ?l = "ucast (chunk_len c left) :: u64"
  show ?case
  proof (cases "left = 0")
    case False
    have l: "unat ?l = min (unat c) (unat left)" by (rule unat_chunk_len_u64)
    have u: "of_nat (unat ?l) = ?l" by (simp only: of_nat_unat ucast_id)
    have "snd (seq_chunks (Suc n) c off left) = off + ?l + of_nat (min (n * unat c) (unat (left - ?l)))"
      using False 2 [OF False refl] by (simp add: Let_def case_prod_beta)
    also have "\<dots> = off + of_nat (unat ?l + min (n * unat c) (unat (left - ?l)))"
      by (simp only: of_nat_add u add.assoc)
    also have "unat ?l + min (n * unat c) (unat (left - ?l)) = min (Suc n * unat c) (unat left)"
      unfolding l unat_left using min_step [of "unat c" "unat left" "n * unat c"] by simp
    finally show ?thesis .
  qed simp
qed simp

lemma rand_chunks_size: "unat (fst (snd (rand_chunks G file_size n c left r))) = min (n * unat c) (unat left)"
proof (induction n arbitrary: left r)
  case (Suc n)
  let ?l = "ucast (chunk_len c left) :: u64"
  show ?case
  proof (cases "left = 0")
    case False
    obtain o1 r1 where p: "SampleRandomReadOffset G r file_size (chunk_len c left) = (o1, r1)"
      by (cases "SampleRandomReadOffset G r file_size (chunk_len c left)")
    obtain cs req r2 where q: "rand_chunks G file_size n c (left - ?l) r1 = (cs, req, r2)"
      by (cases "rand_chunks G file_size n c (left - ?l) r1")
    have l: "unat ?l = min (unat c) (unat left)" by (rule unat_chunk_len_u64)
    have a: "unat ?l + unat req = min (Suc n * unat c) (unat left)"
      using Suc.IH [of "left - ?l" r1] q min_step [of "unat c" "unat left" "n * unat c"] unfolding l unat_left by simp
    then have "unat ?l + unat req < 2 ^ 64" using unat_u64_less [of left] by linarith
    then have "unat (?l + req) = min (Suc n * unat c) (unat left)" by (simp only: unat_add_u64 a)
    then show ?thesis using False by (simp add: p q Let_def)
  qed simp
qed simp

lemma next_size_unat: "unat (next_size G s) = min (op_cap (fs_opts s)) (unat (fs_remaining s))"
proof -
  let ?n = "unat (fo_vector_chunks (fs_opts s))" and ?c = "fo_chunk_size (fs_opts s)" and ?left = "fs_remaining s"
  have "min (?n * unat ?c) (unat ?left) < 2 ^ 64" using unat_u64_less [of ?left] by simp
  then have w: "unat (of_nat (min (?n * unat ?c) (unat ?left)) :: u64) = min (?n * unat ?c) (unat ?left)"
    by (simp add: unat_of_nat)
  show ?thesis
  proof (cases "0 < fo_vector_chunks (fs_opts s) \<and> \<not> fo_random_offset (fs_opts s)")
    case True
    let ?e = "snd (seq_chunks ?n ?c (fs_next_offset s) ?left)"
    have "next_size G s = (if fs_next_offset s = ?e then 0 else ?e - fs_next_offset s)"
      using True by (simp add: next_size_def next_read_def Let_def case_prod_beta)
    also have "\<dots> = of_nat (min (?n * unat ?c) (unat ?left))" by (simp add: seq_chunks_end)
    finally show ?thesis using w True by (simp add: op_cap_def mult.commute)
  qed (use rand_chunks_size [of G "fs_file_size s" ?n ?c ?left "fs_rng s"] unat_chunk_len_u64 [of ?c ?left]
      in \<open>auto simp: next_size_def next_read_def Let_def op_cap_def case_prod_beta mult.commute\<close>)
qed

section \<open>How many reads\<close>

definition nreads :: "'r FileSession \<Rightarrow> nat" where
  "nreads s = length (reads (fs_log s))"

text \<open>Before a read is issued, and while one is in flight.\<close>

definition pace_idle :: "'r FileSession \<Rightarrow> bool" where
  "pace_idle s \<longleftrightarrow> fs_budget_set s \<and> nreads s * op_cap (fs_opts s) < budget_of s + op_cap (fs_opts s)
     \<and> (fs_remaining s = 0 \<or> nreads s * op_cap (fs_opts s) + unat (fs_remaining s) \<le> budget_of s)"

definition pace_busy :: "'r FileSession \<Rightarrow> bool" where
  "pace_busy s \<longleftrightarrow> fs_budget_set s \<and> unat (fs_requested s) = min (op_cap (fs_opts s)) (unat (fs_remaining s)) \<and> fs_remaining s \<noteq> 0
     \<and> nreads s * op_cap (fs_opts s) + unat (fs_remaining s) \<le> budget_of s + op_cap (fs_opts s)"

definition pace_inv :: "FileSessionOptions \<Rightarrow> 'r FileSession \<Rightarrow> bool" where
  "pace_inv opts s \<longleftrightarrow> fs_opts s = opts
     \<and> (if fs_budget_set s then nreads s * op_cap opts < budget_of s + op_cap opts else nreads s = 0)
     \<and> (\<not> fs_completed s \<longrightarrow> (0 < owed FnOpen (fs_log s) + owed FnStat (fs_log s) \<longrightarrow> \<not> fs_budget_set s)
          \<and> (0 < owed FnRead (fs_log s) \<longrightarrow> pace_busy s) \<and> (owed FnRead (fs_log s) = 0 \<and> fs_budget_set s \<longrightarrow> pace_idle s))"

lemma pace_completedI:
  "fs_completed s \<Longrightarrow> fs_opts s = opts \<Longrightarrow>
     (if fs_budget_set s then nreads s * op_cap opts < budget_of s + op_cap opts else nreads s = 0) \<Longrightarrow> pace_inv opts s"
  by (simp add: pace_inv_def)

lemma pace_idleI: "pace_idle s \<Longrightarrow> idle s \<Longrightarrow> fs_opts s = opts \<Longrightarrow> pace_inv opts s"
  by (auto simp: pace_inv_def idle_def pace_idle_def)

lemma pace_idle_frame:
  assumes "pace_idle s" "fs_budget_set t = fs_budget_set s" "reads (fs_log t) = reads (fs_log s)" "fs_opts t = fs_opts s"
    "fs_file_size t = fs_file_size s" "fs_remaining t = 0 \<or> fs_remaining t = fs_remaining s"
  shows "pace_idle t"
  using assms by (auto simp: pace_idle_def nreads_def budget_of_def)

lemma issue_pace:
  assumes "pace_idle s" "ctl_pre s" "fs_opts s = opts"
  shows "pace_inv opts (ReleaseIfIdle (IssueNext G env s))"
proof (cases "fs_timed_out s \<or> fs_remaining s = 0")
  case True
  let ?t = "ReleaseIfIdle (SubmitClose env (RefundPrepaid (s \<lparr> fs_remaining := 0, fs_t_last_byte := ev_clock env AtLastByte \<rparr>)))"
  have "pace_idle ?t" by (rule pace_idle_frame [OF assms(1)]) (simp_all add: fs_view)
  moreover have "idle ?t" using ctl_pre_idle [OF assms(2)] by (simp add: idle_def fs_view)
  ultimately have "pace_inv opts ?t" using assms(3) by (intro pace_idleI) (simp_all add: fs_view)
  then show ?thesis using True assms(2) by (simp add: IssueNext_close ctl_pre_def)
next
  case go: False
  let ?i = "issued G env s" and ?c = "op_cap opts"
  have nc: "\<not> fs_completed s" "idle s" using ctl_pre_idle [OF assms(2)] by simp_all
  have b: "budget_of ?i = budget_of s" "nreads ?i = Suc (nreads s)" "fs_budget_set ?i" "fs_opts ?i = opts"
    using assms(1,3) by (simp_all add: budget_of_def nreads_def issued_view issued_reads pace_idle_def)
  have le: "nreads ?i * ?c + unat (fs_remaining s) \<le> budget_of s + ?c" "0 < unat (fs_remaining s)"
    using assms(1,3) go b by (simp_all add: pace_idle_def unat_gt_0)
  then have lt: "nreads ?i * ?c < budget_of s + ?c" by linarith
  show ?thesis
  proof (cases "xs_ok (ev_submit env)")
    case True
    have "pace_busy ?i" using le go b assms(3) next_size_unat [of G s] by (simp add: pace_busy_def issued_view)
    then have "pace_inv opts ?i" using b lt nc issued_owed [OF nc(2) True] by (simp add: pace_inv_def issued_view)
    moreover have "ReleaseIfIdle ?i = ?i" using nc(1) by (simp add: ReleaseIfIdle_def issued_view)
    ultimately show ?thesis using go nc(1) True by (simp add: IssueNext_read)
  next
    case False
    have "pace_inv opts (ReleaseIfIdle (Complete ((RefundBytes n t) \<lparr> fs_requested := 0 \<rparr>)))" (is "pace_inv opts ?u")
      if "t = set_error a b' c' (CapturePartialCounters env (?i \<lparr> fs_pending_cbs := m \<rparr>))" for n t a b' c' m
    proof -
      have "budget_of ?u = budget_of s" "nreads ?u = nreads ?i" "fs_budget_set ?u" "fs_opts ?u = opts"
        unfolding b(1) [symmetric] using b(3,4) by (simp_all add: that fs_view nreads_def budget_of_def)
      then show ?thesis using lt by (intro pace_completedI) (simp_all add: fs_view)
    qed
    then show ?thesis using go nc(1) False by (simp add: IssueNext_read Let_def)
  qed
qed

lemma pace_frame:
  assumes "pace_inv opts s" "fs_completed t \<or> \<not> fs_completed s \<and> owed FnOpen (fs_log t) = owed FnOpen (fs_log s)
       \<and> owed FnStat (fs_log t) = owed FnStat (fs_log s) \<and> owed FnRead (fs_log t) = owed FnRead (fs_log s)"
    "fs_completed t \<or> fs_requested t = fs_requested s" "fs_remaining t = fs_remaining s" "fs_budget_set t = fs_budget_set s"
    "fs_opts t = fs_opts s" "fs_file_size t = fs_file_size s" "reads (fs_log t) = reads (fs_log s)"
  shows "pace_inv opts t"
proof -
  have "budget_of t = budget_of s" "nreads t = nreads s" unfolding budget_of_def nreads_def assms(6-8) by (rule refl)+
  then show ?thesis using assms(1-3) unfolding pace_inv_def pace_busy_def pace_idle_def assms(4-6) by auto
qed

lemma late_pace: "pace_inv opts s \<Longrightarrow> fs_completed s \<Longrightarrow> pace_inv opts (ReleaseIfIdle (enter f s))"
  by (rule pace_frame) (simp_all add: fs_view enter_reads)

lemma pace_unsetI:
  "\<not> fs_budget_set s \<Longrightarrow> nreads s = 0 \<Longrightarrow> owed FnRead (fs_log s) = 0 \<Longrightarrow> fs_opts s = opts \<Longrightarrow> pace_inv opts s"
  by (simp add: pace_inv_def)

text \<open>Before the session knows what it may read.\<close>

lemma unset_facts:
  assumes "pace_inv opts s" "ctl_inv h s" "0 < owed f (fs_log s)" "f = FnOpen \<or> f = FnStat" "\<not> fs_completed s"
  shows "\<not> fs_budget_set s" "reads (fs_log s) = []" "owed FnRead (fs_log s) = 0" "fs_opts s = opts"
    "ctl_pre (enter f s)"
proof -
  show "ctl_pre (enter f s)" using take_token [OF assms(2,3) _ assms(5)] assms(4) by auto
  have o: "0 < owed FnOpen (fs_log s) + owed FnStat (fs_log s)" "owed FnRead (fs_log s) = 0"
    using ctl_owed [OF assms(2)] assms(3,4) by (auto simp: in_hand_def split: if_splits)
  then show "\<not> fs_budget_set s" "reads (fs_log s) = []" "owed FnRead (fs_log s) = 0" "fs_opts s = opts"
    using assms(1,5) by (auto simp: pace_inv_def nreads_def)
qed

lemma OnOpen_pace:
  assumes "pace_inv opts s" "ctl_inv h s" "0 < owed FnOpen (fs_log s)"
  shows "pace_inv opts (OnOpen env st hosts server s)"
proof (cases "fs_completed s")
  case True
  then show ?thesis using late_pace [OF assms(1) True] by (simp add: late_calls)
next
  case False
  note u = unset_facts [OF assms _ False, simplified]
  show ?thesis
    by (rule pace_unsetI) (use u False in \<open>simp_all add: OnOpen_def Let_def nreads_def fs_view enter_reads\<close>)
qed

lemma OnStat_pace:
  assumes "pace_inv opts s" "ctl_inv h s" "0 < owed FnStat (fs_log s)" "0 < op_cap opts"
  shows "pace_inv opts (OnStat G env st fsize s)"
proof (cases "fs_completed s")
  case True
  then show ?thesis using late_pace [OF assms(1) True] by (simp add: late_calls)
next
  case False
  note u = unset_facts [OF assms(1-3) _ False, simplified]
  let ?cap = "if 0 < fo_max_bytes opts then min fsize (fo_max_bytes opts) else fsize"
  have go: "pace_inv opts (ReleaseIfIdle (IssueNext G env t))"
    if "t = (enter FnStat s) \<lparr> fs_file_size := fsize, fs_rng := r, fs_remaining := n, fs_next_offset := k, fs_budget_set := True \<rparr>"
      "unat n \<le> unat ?cap" for t r n k
  proof (rule issue_pace)
    have "budget_of t = unat ?cap" using u(4) by (simp add: that(1) budget_of_def enter_view unat_min_word)
    then show "pace_idle t" using u that assms(4)
      by (cases "n = 0") (auto simp: pace_idle_def nreads_def enter_view enter_reads word_unat_eq_iff)
  qed (use u that in \<open>simp_all add: ctl_pre_def enter_view\<close>)
  have r: "(enter FnStat s) \<lparr> fs_rng := fs_rng (enter FnStat s) \<rparr> = enter FnStat s" by simp
  consider "\<not> xs_ok st" | "xs_ok st" "fo_random_offset opts" | "xs_ok st" "\<not> fo_random_offset opts" "fsize \<le> fo_offset opts"
    | "xs_ok st" "\<not> fo_random_offset opts" "\<not> fsize \<le> fo_offset opts" by blast
  then show ?thesis
  proof cases
    case 2
    have "OnStat G env st fsize s = ReleaseIfIdle (IssueNext G env ((enter FnStat s)
        \<lparr> fs_file_size := fsize, fs_rng := rng_seed G (fo_offset_seed opts), fs_remaining := ?cap, fs_next_offset := 0,
           fs_budget_set := True \<rparr>))"
      using False 2 u(4) by (simp add: OnStat_def Let_def enter_view)
    then show ?thesis using go [OF refl, of ?cap] by simp
  next
    case 4
    have "OnStat G env st fsize s = ReleaseIfIdle (IssueNext G env ((enter FnStat s)
        \<lparr> fs_file_size := fsize, fs_rng := fs_rng (enter FnStat s), fs_remaining := min (fsize - fo_offset opts) ?cap,
           fs_next_offset := fo_offset opts, fs_budget_set := True \<rparr>))"
      using False 4 u(4) by (simp add: OnStat_def Let_def enter_view)
    moreover have "unat (min (fsize - fo_offset opts) ?cap) \<le> unat ?cap" by (simp only: unat_min_word min.cobounded2)
    ultimately show ?thesis using go [OF refl] by metis
  qed (rule pace_completedI; use u False in \<open>simp add: OnStat_def Let_def nreads_def fs_view enter_reads\<close>)+
qed

lemma read_done_pace:
  assumes "pace_busy s" "\<forall>n. info = Some n \<longrightarrow> n \<le> fs_requested s"
  shows "pace_idle (read_done env info (enter FnRead s))"
proof -
  let ?t = "read_done env info (enter FnRead s)" and ?g = "got_bytes info (enter FnRead s)"
    and ?c = "op_cap (fs_opts s)"
  note b = assms(1) [unfolded pace_busy_def]
  have g: "?g \<le> fs_requested s" using assms(2) by (auto simp: got_bytes_def enter_view split: option.split)
  have f: "budget_of ?t = budget_of s" "nreads ?t = nreads s" "fs_budget_set ?t" "fs_opts ?t = fs_opts s"
    using b by (simp_all add: budget_of_def nreads_def fs_view read_reads enter_reads)
  have r: "0 < unat (fs_remaining s)" using b by (simp add: unat_gt_0)
  have lt: "nreads s * ?c < budget_of s + ?c" using b r by linarith
  have "fs_remaining ?t = 0 \<or> nreads s * ?c + unat (fs_remaining ?t) \<le> budget_of s"
  proof (cases "?g < fs_requested s")
    case False
    then have e: "?g = fs_requested s" using g by simp
    have "fs_requested s \<le> fs_remaining s" using b by (simp add: word_le_nat_alt)
    then have "unat (fs_remaining ?t) = unat (fs_remaining s) - min ?c (unat (fs_remaining s))"
      using b by (simp add: fs_view e unat_sub_u64)
    then show ?thesis using b by (cases "?c \<le> unat (fs_remaining s)") (auto simp: word_unat_eq_iff)
  qed (simp add: fs_view)
  then show ?thesis using f lt by (simp add: pace_idle_def)
qed

lemma OnRead_pace:
  assumes "pace_inv opts s" "ctl_inv h s" "0 < owed FnRead (fs_log s)" "\<forall>n. info = Some n \<longrightarrow> n \<le> fs_requested s"
  shows "pace_inv opts (OnRead G env st info s)"
proof (cases "fs_completed s")
  case True
  then show ?thesis using late_pace [OF assms(1) True] by (simp add: late_calls)
next
  case live: False
  have b: "pace_busy s" "fs_opts s = opts" using assms(1,3) live by (simp_all add: pace_inv_def)
  have t: "ctl_pre (enter FnRead s)" using take_token [OF assms(2,3) _ live] by simp
  show ?thesis
  proof (cases "xs_ok st")
    case False
    then show ?thesis using live assms(1) unfolding OnRead_err [OF live False]
      by (intro pace_frame [OF assms(1)]) (simp_all add: fs_view enter_reads)
  next
    case True
    let ?s = "read_done env info (enter FnRead s)"
    note p = read_done_pace [OF b(1) assms(4), of env]
    have c: "ctl_pre ?s" "fs_opts ?s = opts" using t b(2) by (simp_all add: ctl_pre_def fs_view)
    have "pace_inv opts (emit Ready (emit DisarmDeadline ?s))"
    proof (rule pace_idleI)
      show "pace_idle (emit Ready (emit DisarmDeadline ?s))"
        by (rule pace_idle_frame [OF p]) (simp_all add: emit_view measure_emit)
    qed (use c ctl_pre_idle [OF c(1)] in \<open>simp_all add: emit_view measure_emit idle_def\<close>)
    then show ?thesis unfolding OnRead_ok [OF live True] using issue_pace [OF p c] by (simp add: Let_def)
  qed
qed

lemma OnClose_pace:
  assumes "pace_inv opts s" shows "pace_inv opts (OnClose env st s)"
proof (cases "fs_completed s")
  case True
  then show ?thesis using late_pace [OF assms True] by (simp add: late_calls)
next
  case False
  then show ?thesis by (intro pace_frame [OF assms]) (simp_all add: OnClose_def Let_def fs_view enter_reads)
qed

lemma RequestWallTimeout_pace:
  assumes "pace_inv opts s" shows "pace_inv opts (RequestWallTimeout env s)"
proof (cases "fs_completed s \<or> fs_close_requested s")
  case False
  then show ?thesis by (intro pace_frame [OF assms]) (simp_all add: RequestWallTimeout_def fs_view)
qed (use assms in \<open>auto simp: RequestWallTimeout_def\<close>)

lemma hand_pace:
  assumes "pace_inv opts s" "ctl_inv h s" "h \<noteq> NotReady" "\<not> fs_completed s" "fs_budget_set s"
  shows "pace_idle s" "ctl_pre s" "fs_opts s = opts"
  using assms take_hand [OF assms(2-4)] by (simp_all add: pace_inv_def ctl_pre_def)

text \<open>A session in the engine's hands has its budget.\<close>

lemma IssueNext_budget: "fs_budget_set (IssueNext G env s) = fs_budget_set s"
proof (cases "fs_completed s")
  case False
  then show ?thesis by (cases "fs_timed_out s \<or> fs_remaining s = 0")
    (simp_all add: IssueNext_close IssueNext_read Let_def issued_view fs_view)
qed (simp add: IssueNext_def)

lemma budget_kept:
  "fs_budget_set s \<Longrightarrow> fs_budget_set (OnOpen env st hosts server s)" "fs_budget_set s \<Longrightarrow> fs_budget_set (OnStat G env st n s)"
  "fs_budget_set s \<Longrightarrow> fs_budget_set (OnRead G env st info s)" "fs_budget_set s \<Longrightarrow> fs_budget_set (OnClose env st s)"
  "fs_budget_set s \<Longrightarrow> fs_budget_set (RequestWallTimeout env s)" "fs_budget_set s \<Longrightarrow> fs_budget_set (IssueNextFromEngine G env s)"
  "fs_budget_set s \<Longrightarrow> fs_budget_set (CloseNow env s)"
  by (simp_all add: OnOpen_def OnStat_def OnRead_def OnClose_def RequestWallTimeout_def IssueNextFromEngine_def CloseNow_def
      Let_def fs_view IssueNext_budget)

definition pace_sys :: "FileSessionOptions \<Rightarrow> 'r session_sys \<Rightarrow> bool" where
  "pace_sys opts y \<longleftrightarrow> pace_inv opts (ss_fs y) \<and> (ss_hand y \<noteq> NotReady \<longrightarrow> fs_budget_set (ss_fs y))"

lemma ready_budget:
  assumes "pace_inv opts s" "0 < owed FnRead (fs_log s)" "readies (fs_log s) < readies (fs_log (OnRead G env st info s))"
  shows "fs_budget_set (OnRead G env st info s)"
proof (cases "fs_completed s")
  case True
  then show ?thesis using assms(3) by (simp add: late_calls fs_view)
next
  case False
  then show ?thesis using assms(1,2) by (intro budget_kept) (simp add: pace_inv_def pace_busy_def)
qed

lemma step_pace:
  assumes "session_step G y y'" "ctl_inv (ss_hand y) (ss_fs y)" "pace_sys opts y" "0 < op_cap opts"
  shows "pace_sys opts y'"
  using assms
proof (induction rule: session_step.induct)
  case (cb_open y env st hosts server)
  then show ?case using OnOpen_pace budget_kept(1) by (auto simp: pace_sys_def)
next
  case (cb_stat y env st fsize)
  then show ?case using OnStat_pace budget_kept(2) by (auto simp: pace_sys_def)
next
  case (cb_read y info s' env st)
  then show ?case
    using OnRead_pace [of opts "ss_fs y" "ss_hand y" info G env st] ready_budget [of opts "ss_fs y" G env st info]
      budget_kept(3) [of "ss_fs y" G env st info]
    by (auto simp: pace_sys_def)
next
  case (cb_close y env st)
  then show ?case using OnClose_pace budget_kept(4) by (auto simp: pace_sys_def)
next
  case (timeout y env)
  then show ?case using RequestWallTimeout_pace budget_kept(5) by (auto simp: pace_sys_def)
next
  case (issue y n env)
  have "pace_inv opts (IssueNextFromEngine G env (ss_fs y))"
  proof (cases "fs_completed (ss_fs y)")
    case True
    then show ?thesis using issue
      by (simp add: late_calls pace_sys_def) (rule pace_frame, simp_all add: fs_view)
  next
    case False
    then show ?thesis using issue hand_pace [of opts "ss_fs y" "ss_hand y"] issue_pace
      by (simp add: pace_sys_def IssueNextFromEngine_def)
  qed
  then show ?case by (simp add: pace_sys_def)
next
  case (close y env)
  let ?s = "ss_fs y"
  have "pace_inv opts (CloseNow env ?s)"
  proof (cases "fs_completed ?s")
    case True
    then show ?thesis using close
      by (simp add: late_calls pace_sys_def) (rule pace_frame, simp_all add: fs_view)
  next
    case False
    have h: "pace_idle ?s" "ctl_pre ?s" "fs_opts ?s = opts"
      using close False hand_pace [of opts ?s "ss_hand y"] by (simp_all add: pace_sys_def)
    have "pace_idle (ReleaseIfIdle (SubmitClose env (?s \<lparr> fs_remaining := 0 \<rparr>)))"
      by (rule pace_idle_frame [OF h(1)]) (simp_all add: fs_view)
    then show ?thesis using False h ctl_pre_idle [OF h(2)]
      by (simp add: CloseNow_def) (rule pace_idleI, simp_all add: idle_def fs_view)
  qed
  then show ?case by (simp add: pace_sys_def)
qed (simp_all add: pace_sys_def)

lemma start_pace: "pace_inv opts (fs_Start env (new_FileSession G opts True paced n a b c))"
  by (rule pace_unsetI) (simp_all add: fs_Start_def new_FileSession_def Let_def nreads_def fs_view)

lemma reach_pace:
  assumes "session_reach G opts paced prepaid y" "0 < op_cap opts" shows "pace_sys opts y"
  using assms(1)
proof (induction rule: session_reach.induct)
  case (start env)
  then show ?case by (simp add: pace_sys_def session_start_def Let_def start_pace)
next
  case (step y y')
  then show ?case using step_pace reach_ctl assms(2) by blast
qed

section \<open>How many callbacks\<close>

fun accepted_by :: "fn_handler \<Rightarrow> effect \<Rightarrow> nat" where
  "accepted_by h (Submit op accepted) = (if accepted \<and> handler_of op = h then 1 else 0)"
| "accepted_by h _ = 0"

definition accepted :: "fn_handler \<Rightarrow> effect list \<Rightarrow> nat" where
  "accepted h L = sum_list (map (accepted_by h) L)"

fun is_Callback :: "effect \<Rightarrow> bool" where
  "is_Callback (Callback h) = True"
| "is_Callback _ = False"

definition callbacks :: "effect list \<Rightarrow> nat" where
  "callbacks L = length (filter is_Callback L)"

text \<open>Every callback answers an accepted operation, and every read accepted was submitted.\<close>

lemma callbacks_owed:
  "int (callbacks L) + owed FnOpen L + owed FnStat L + owed FnRead L + owed FnClose L
   = int (accepted FnOpen L + accepted FnStat L + accepted FnRead L + accepted FnClose L)"
proof (induction L)
  case (Cons e L)
  moreover have "handler_of op = FnOpen \<or> handler_of op = FnStat \<or> handler_of op = FnRead \<or> handler_of op = FnClose" for op
    by (cases op) simp_all
  moreover have "h = FnOpen \<or> h = FnStat \<or> h = FnRead \<or> h = FnClose" for h by (cases h) simp_all
  ultimately show ?case by (cases e) (auto simp: callbacks_def accepted_def measure_emit)
qed (simp add: callbacks_def accepted_def measure_emit)

lemma accepted_reads: "accepted FnRead L \<le> length (reads L)"
proof (induction L)
  case (Cons e L)
  have "accepted_by FnRead e \<le> length (read_of e)"
  proof (cases e)
    case (Submit op ok)
    then show ?thesis by (cases op) simp_all
  qed simp_all
  then show ?case using Cons by (simp add: accepted_def measure_emit)
qed (simp add: accepted_def)

named_theorems acc_view \<open>what the session's operations submit\<close>

lemma accepted_emit [acc_view]:
  "accepted h (L @ M) = accepted h L + accepted h M" "accepted h (e # M) = accepted_by h e + accepted h M" "accepted h [] = 0"
  by (simp_all add: accepted_def)

lemma accepted_quiet [acc_view]:
  "accepted h (fs_log (CapturePartialCounters env s)) = accepted h (fs_log s)"
  "accepted h (fs_log (set_error a b c s)) = accepted h (fs_log s)"
  "accepted h (fs_log (read_account env got s)) = accepted h (fs_log s)"
  by (simp_all add: CapturePartialCounters_def set_error_def read_account_def Let_def)

lemma accepted_small [acc_view]:
  "accepted h (fs_log (ArmOpDeadline s)) = accepted h (fs_log s)"
  "accepted h (fs_log (RefundBytes n s)) = accepted h (fs_log s)"
  "accepted h (fs_log (Complete s)) = accepted h (fs_log s)"
  "accepted h (fs_log (ReleaseIfIdle s)) = accepted h (fs_log s)"
  "accepted h (fs_log (read_notify env s)) = accepted h (fs_log s)"
  "accepted h (fs_log (enter f s)) = accepted h (fs_log s)"
  by (simp_all add: ArmOpDeadline_def RefundBytes_def Complete_def ReleaseIfIdle_def read_notify_def enter_def Let_def emit_view acc_view)

lemma accepted_prepaid [acc_view]: "accepted h (fs_log (RefundPrepaid s)) = accepted h (fs_log s)"
  by (simp add: RefundPrepaid_def acc_view)

lemma accepted_parts [acc_view]:
  "accepted h (fs_log (SubmitClose env s)) = accepted h (fs_log s)
     + (if \<not> fs_close_requested s \<and> xs_ok (ev_submit env) \<and> h = FnClose then 1 else 0)"
  "accepted h (fs_log (Fail env stage st s)) = accepted h (fs_log s)"
  "accepted h (fs_log (FinishOk s)) = accepted h (fs_log s)"
  "accepted h (fs_log (issued G env s)) = accepted h (fs_log s) + (if xs_ok (ev_submit env) \<and> h = FnRead then 1 else 0)"
  "accepted h (fs_log (read_done env info s)) = accepted h (fs_log s)"
  using handler_next_op [of G s]
  by (auto simp: SubmitClose_def Fail_def FinishOk_def issued_def read_done_def Let_def emit_view acc_view)

text \<open>The file is opened and its size asked for once, and a close that was accepted is the only one.\<close>

definition acc_inv :: "'r FileSession \<Rightarrow> bool" where
  "acc_inv s \<longleftrightarrow> accepted FnOpen (fs_log s) \<le> 1 \<and> int (accepted FnStat (fs_log s)) + owed FnOpen (fs_log s) \<le> 1
     \<and> accepted FnClose (fs_log s) \<le> (if fs_close_requested s then 1 else 0)"

lemma IssueNext_acc: "acc_inv s \<Longrightarrow> acc_inv (IssueNext G env s)"
proof (cases "fs_completed s")
  case False
  assume "acc_inv s"
  then show ?thesis using False by (cases "fs_timed_out s \<or> fs_remaining s = 0")
    (auto simp: acc_inv_def IssueNext_close IssueNext_read Let_def acc_view issued_view fs_view)
qed (simp add: IssueNext_def)

lemma small_acc:
  "acc_inv (ReleaseIfIdle s) = acc_inv s" "acc_inv (Complete s) = acc_inv s" "acc_inv (RefundPrepaid s) = acc_inv s"
  "acc_inv (Fail env stage st s) = acc_inv s" "acc_inv (FinishOk s) = acc_inv s" "acc_inv (read_done env info s) = acc_inv s"
  "acc_inv (set_error a b c s) = acc_inv s" "acc_inv (CapturePartialCounters env s) = acc_inv s"
  by (simp_all add: acc_inv_def acc_view fs_view)

lemma close_acc: "acc_inv s \<Longrightarrow> acc_inv (SubmitClose env s)"
  by (auto simp: acc_inv_def acc_view fs_view)

lemma enter_acc: "acc_inv s \<Longrightarrow> acc_inv (enter f s)"
  by (auto simp: acc_inv_def acc_view enter_view)

lemma update_acc:
  "acc_inv (fs_file_size_update f s) = acc_inv s" "acc_inv (fs_rng_update g s) = acc_inv s"
  "acc_inv (fs_remaining_update h s) = acc_inv s" "acc_inv (fs_next_offset_update h s) = acc_inv s"
  "acc_inv (fs_budget_set_update b s) = acc_inv s" "acc_inv (fs_timed_out_update b s) = acc_inv s"
  "acc_inv (fs_result_update r s) = acc_inv s" "acc_inv (fs_t_end_update t s) = acc_inv s"
  by (simp_all add: acc_inv_def)

lemma calls_acc:
  assumes "acc_inv s"
  shows "acc_inv (OnStat G env st n s)" "acc_inv (OnRead G env st info s)" "acc_inv (OnClose env st s)"
    "acc_inv (RequestWallTimeout env s)" "acc_inv (IssueNextFromEngine G env s)" "acc_inv (CloseNow env s)"
proof -
  have e: "acc_inv (enter f s)" for f by (rule enter_acc [OF assms])
  show "acc_inv (OnStat G env st n s)" unfolding OnStat_def Let_def
    by (simp add: small_acc update_acc e IssueNext_acc)
  have "acc_inv (emit Ready (emit DisarmDeadline t)) = acc_inv t" for t :: "'a FileSession"
    by (simp add: acc_inv_def acc_view emit_view measure_emit)
  then show "acc_inv (OnRead G env st info s)" unfolding OnRead_def Let_def
    by (simp add: small_acc update_acc e IssueNext_acc)
  show "acc_inv (OnClose env st s)" unfolding OnClose_def Let_def
    by (simp add: small_acc update_acc e)
  show "acc_inv (RequestWallTimeout env s)" "acc_inv (IssueNextFromEngine G env s)" "acc_inv (CloseNow env s)"
    unfolding RequestWallTimeout_def IssueNextFromEngine_def CloseNow_def
    by (simp_all add: small_acc update_acc assms close_acc IssueNext_acc)
qed

lemma OnOpen_acc:
  assumes "acc_inv s" "0 < owed FnOpen (fs_log s)" shows "acc_inv (OnOpen env st hosts server s)"
  using assms by (auto simp: acc_inv_def OnOpen_def Let_def acc_view fs_view)

lemma step_acc:
  assumes "session_step G y y'" "acc_inv (ss_fs y)" shows "acc_inv (ss_fs y')"
  using assms by (induction rule: session_step.induct) (simp_all add: OnOpen_acc calls_acc)

lemma reach_acc: "session_reach G opts paced prepaid y \<Longrightarrow> acc_inv (ss_fs y)"
proof (induction rule: session_reach.induct)
  case (start env)
  have "fs_log (new_FileSession G opts True paced n a b c) = []" for n a b c by (simp add: new_FileSession_def)
  then show ?case
    by (auto simp: acc_inv_def session_start_def fs_Start_def Let_def acc_view fs_view accepted_def [of _ "[]"])
next
  case (step y y')
  then show ?case using step_acc by blast
qed

section \<open>The end\<close>

text \<open>C13. Every session comes to its end: whatever the order of callbacks, timeouts and the engine's calls, a session
  whose operations are not empty submits no more reads than its byte budget has operations, rounded up,
  and XrdCl calls it back at most three times more than that, for the open, the size and the close. With \<open>B\<close> the bytes
  the size of the file and the limit allow, as far as the session knows them, and operations of \<open>c\<close> bytes this reads:\<close>

theorem session_ends:
  assumes "session_reach G opts paced prepaid y" "0 < op_cap opts"
  shows "let s = ss_fs y; c = op_cap opts; B = budget_of s; most = (if fs_budget_set s then (B + c - 1) div c else 0)
    in length (reads (fs_log s)) \<le> most \<and> callbacks (fs_log s) \<le> 3 + most"
proof -
  let ?s = "ss_fs y" and ?c = "op_cap opts"
  define most where "most = (if fs_budget_set ?s then (budget_of ?s + ?c - 1) div ?c else 0)"
  have "nreads ?s \<le> most"
  proof (cases "fs_budget_set ?s")
    case True
    then have "nreads ?s * ?c < budget_of ?s + ?c"
      using reach_pace [OF assms] by (simp add: pace_sys_def pace_inv_def)
    then have "nreads ?s * ?c \<le> budget_of ?s + ?c - 1" by linarith
    then show ?thesis using True assms(2) by (simp add: most_def less_eq_div_iff_mult_less_eq)
  qed (use reach_pace [OF assms] in \<open>simp add: pace_sys_def pace_inv_def most_def\<close>)
  moreover have "callbacks (fs_log ?s) \<le> 3 + nreads ?s"
  proof -
    note o = ctl_owed [OF reach_ctl [OF assms(1)]] and a = reach_acc [OF assms(1), unfolded acc_inv_def]
    have "accepted FnClose (fs_log ?s) \<le> 1" using a by (simp split: if_splits)
    then show ?thesis
      using callbacks_owed [of "fs_log ?s"] accepted_reads [of "fs_log ?s"] a o unfolding nreads_def by linarith
  qed
  ultimately show ?thesis unfolding Let_def most_def [symmetric] nreads_def by linarith
qed

lemma demo_read_budget: "fs_budget_set demo_closed \<and> budget_of demo_closed = 10"
  by code_simp

lemma session_ends_witness: "length (reads (fs_log demo_closed)) \<le> 1 \<and> callbacks (fs_log demo_closed) \<le> 4"
proof -
  have c: "op_cap (read_session_opts demo_read) = 100"
    by (simp add: demo_read_def read_session_opts_def default_ReadOptions_def default_FileSessionOptions_def op_cap_def)
  from session_ends [OF demo_read_reach] show ?thesis using demo_read_budget by (simp add: c Let_def)
qed

section \<open>Empty operations\<close>

text \<open>With operations of no bytes nothing is ever read off: \<^verbatim>\<open>read --chunk-size 0\<close> submits reads of length 0 for as long as the
  server answers them. Each turn arms a new deadline, so a wall timeout would not end it.\<close>

definition reading_nothing :: "'r FileSession \<Rightarrow> bool" where
  "reading_nothing s \<longleftrightarrow> \<not> fs_completed s \<and> fs_budget_set s \<and> fs_remaining s \<noteq> 0 \<and> \<not> fs_timed_out s \<and> \<not> fs_paced s
     \<and> fs_requested s = 0 \<and> op_cap (fs_opts s) = 0 \<and> 0 < owed FnRead (fs_log s)"

lemma empty_read_again:
  fixes G :: "'r rng_api"
  assumes "reading_nothing s"
  defines "t \<equiv> OnRead G demo_env demo_ok (Some 0) s"
  shows "reading_nothing t" "nreads t = Suc (nreads s)"
proof -
  note r = assms(1) [unfolded reading_nothing_def]
  have ok: "xs_ok demo_ok" "xs_ok (ev_submit demo_env)" by (simp_all add: demo_ok_def demo_env_def)
  let ?d = "read_done demo_env (Some 0) (enter FnRead s)"
  have d: "\<not> fs_completed ?d" "\<not> fs_timed_out ?d" "fs_remaining ?d = fs_remaining s" "\<not> fs_paced ?d" "fs_opts ?d = fs_opts s"
    "fs_budget_set ?d" "owed FnRead (fs_log ?d) = owed FnRead (fs_log s) - 1" "reads (fs_log ?d) = reads (fs_log s)"
    using r by (simp_all add: fs_view read_reads enter_reads got_bytes_def)
  have "unat (next_size G ?d) = 0" using r by (simp only: next_size_unat d min_0L)
  then have z: "next_size G ?d = 0" by (simp add: word_unat_eq_iff)
  have t: "t = issued G demo_env ?d"
  proof -
    have "\<not> fs_completed s" "fs_remaining ?d \<noteq> 0" using r d by simp_all
    then have "t = ReleaseIfIdle (IssueNext G demo_env ?d)" using ok d(4) by (simp add: t_def OnRead_ok Let_def)
    also have "IssueNext G demo_env ?d = issued G demo_env ?d"
      using d \<open>fs_remaining ?d \<noteq> 0\<close> ok by (simp add: IssueNext_read)
    also have "ReleaseIfIdle (issued G demo_env ?d) = issued G demo_env ?d"
      using d(1) by (simp add: ReleaseIfIdle_def issued_view)
    finally show ?thesis .
  qed
  show "nreads t = Suc (nreads s)" unfolding t nreads_def issued_reads d by simp
  show "reading_nothing t" using r d z ok by (simp add: t reading_nothing_def issued_view)
qed

definition zero_read :: ReadOptions where
  "zero_read = default_ReadOptions \<lparr> rd_url := ''root://h//f'', rd_chunk_size := 0 \<rparr>"

definition zero_start :: "u64 session_sys" where
  "zero_start = session_start counter_rng (read_session_opts zero_read) False 0 demo_env"

definition zero_opened :: "u64 FileSession" where
  "zero_opened = OnOpen demo_env demo_ok (Some 1) ''ds'' (ss_fs zero_start)"

definition zero_stated :: "u64 FileSession" where
  "zero_stated = OnStat counter_rng demo_env demo_ok 10 zero_opened"

lemma zero_states:
  "0 < owed FnOpen (fs_log (ss_fs zero_start)) \<and> 0 < owed FnStat (fs_log zero_opened) \<and> ss_hand zero_start = NotReady"
  by code_simp

lemma zero_stated_reads: "reading_nothing zero_stated \<and> nreads zero_stated = 1"
  by code_simp

lemma empty_reads_never_end:
  "\<exists>y. session_reach counter_rng (read_session_opts zero_read) False 0 y \<and> ss_hand y = NotReady
     \<and> reading_nothing (ss_fs y) \<and> nreads (ss_fs y) = Suc n"
proof (induction n)
  case 0
  let ?R = "session_reach counter_rng (read_session_opts zero_read) False 0"
  have 0: "?R zero_start" unfolding zero_start_def by (rule session_reach.start)
  have 1: "?R (zero_start \<lparr> ss_fs := zero_opened \<rparr>)"
    using session_reach.step [OF 0 session_step.cb_open [of zero_start]] zero_states by (simp add: zero_opened_def)
  have "?R (zero_start \<lparr> ss_fs := zero_stated \<rparr>)"
    using session_reach.step [OF 1 session_step.cb_stat [of "zero_start \<lparr> ss_fs := zero_opened \<rparr>"]] zero_states
    by (simp add: zero_stated_def)
  then show ?case using zero_states zero_stated_reads by (intro exI [of _ "zero_start \<lparr> ss_fs := zero_stated \<rparr>"]) simp
next
  case (Suc n)
  then obtain y where y: "session_reach counter_rng (read_session_opts zero_read) False 0 y" "ss_hand y = NotReady"
    "reading_nothing (ss_fs y)" "nreads (ss_fs y) = Suc n" by blast
  let ?t = "OnRead counter_rng demo_env demo_ok (Some 0) (ss_fs y)"
  have "0 < owed FnRead (fs_log (ss_fs y))" "\<not> fs_paced (ss_fs y)" using y(3) by (simp_all add: reading_nothing_def)
  then have "session_step counter_rng y (y \<lparr> ss_fs := ?t, ss_hand := NotReady \<rparr>)"
    using session_step.cb_read [of y "Some 0" ?t counter_rng demo_env demo_ok] y(2) by (simp add: OnRead_unpaced)
  then show ?case using session_reach.step [OF y(1)] empty_read_again [OF y(3)] y(4)
    by (intro exI [of _ "y \<lparr> ss_fs := ?t, ss_hand := NotReady \<rparr>"]) simp
qed

end
