(* ===== verification/SessionDeadline.thy ===== *)
theory SessionDeadline
  imports SessionEnds
begin

text \<open>
  The deadline of a session. With a wall timeout, a session is armed with the watchdog from the submission of an
  operation on; it is disarmed when it is handed to the engine, so that waiting for tokens is never
  counted as a stalled server, and armed again when the engine acts.
\<close>

fun arms :: "effect \<Rightarrow> bool \<Rightarrow> bool" where
  "arms ArmDeadline a = True"
| "arms DisarmDeadline a = False"
| "arms _ a = a"

definition armed :: "effect list \<Rightarrow> bool" where
  "armed L = fold arms L False"

definition wall :: "'r FileSession \<Rightarrow> bool" where
  "wall s \<longleftrightarrow> dlt (Fin 0) (fo_wall_timeout_s (fs_opts s))"

named_theorems arm_view \<open>what the session's operations do to its deadline\<close>

lemma armed_append [arm_view]: "armed (L @ M) = fold arms M (armed L)"
  by (simp add: armed_def)

lemma armed_quiet [arm_view]:
  "armed (fs_log (CapturePartialCounters env s)) = armed (fs_log s)"
  "armed (fs_log (set_error a b c s)) = armed (fs_log s)"
  "armed (fs_log (read_account env got s)) = armed (fs_log s)"
  by (simp_all add: CapturePartialCounters_def set_error_def read_account_def Let_def)

lemma armed_small [arm_view]:
  "armed (fs_log (ArmOpDeadline s)) = (wall s \<or> armed (fs_log s))"
  "armed (fs_log (RefundBytes n s)) = armed (fs_log s)"
  "armed (fs_log (Complete s)) = armed (fs_log s)"
  "armed (fs_log (ReleaseIfIdle s)) = armed (fs_log s)"
  "armed (fs_log (read_notify env s)) = armed (fs_log s)"
  "armed (fs_log (enter f s)) = armed (fs_log s)"
  by (simp_all add: ArmOpDeadline_def RefundBytes_def Complete_def ReleaseIfIdle_def read_notify_def enter_def wall_def
      Let_def emit_view arm_view)

lemma armed_prepaid [arm_view]: "armed (fs_log (RefundPrepaid s)) = armed (fs_log s)"
  by (simp add: RefundPrepaid_def arm_view)

lemma armed_parts [arm_view]:
  "armed (fs_log (SubmitClose env s)) = (armed (fs_log s) \<or> \<not> fs_close_requested s \<and> wall s)"
  "armed (fs_log (Fail env stage st s)) = armed (fs_log s)"
  "armed (fs_log (FinishOk s)) = armed (fs_log s)"
  "armed (fs_log (issued G env s)) = (wall s \<or> armed (fs_log s))"
  "armed (fs_log (read_done env info s)) = armed (fs_log s)"
  by (auto simp: SubmitClose_def Fail_def FinishOk_def issued_def read_done_def wall_def Let_def emit_view arm_view)

text \<open>The invariant, and a state in which the next call has to arm.\<close>

definition arm_inv :: "hand \<Rightarrow> 'r FileSession \<Rightarrow> bool" where
  "arm_inv h s \<longleftrightarrow> (wall s \<and> \<not> fs_completed s \<and> \<not> fs_close_requested s \<longrightarrow> armed (fs_log s) = (h = NotReady))"

lemma wall_view:
  "wall (ReleaseIfIdle s) = wall s" "wall (enter f s) = wall s" "wall (SubmitClose env s) = wall s"
  "wall (read_done env info s) = wall s" "wall (RefundPrepaid s) = wall s" "wall (issued G env s) = wall s"
  by (simp_all add: wall_def fs_view issued_view)

lemma close_arm: "arm_inv NotReady (ReleaseIfIdle (SubmitClose env s))"
  by (auto simp: arm_inv_def arm_view fs_view wall_view)

lemma issue_arm: "arm_inv NotReady (ReleaseIfIdle (IssueNext G env s))"
proof (cases "fs_completed s")
  case False
  show ?thesis
  proof (cases "fs_timed_out s \<or> fs_remaining s = 0")
    case True
    then show ?thesis using False by (simp add: IssueNext_close close_arm)
  next
    case go: False
    then show ?thesis using False
      by (auto simp: arm_inv_def arm_view fs_view issued_view wall_view IssueNext_read Let_def)
  qed
qed (simp add: IssueNext_def arm_inv_def fs_view)

lemma arm_completedI: "fs_completed s \<Longrightarrow> arm_inv h s"
  by (simp add: arm_inv_def)

lemma OnOpen_arm: "arm_inv NotReady s \<Longrightarrow> arm_inv NotReady (OnOpen env st hosts server s)"
  by (auto simp: arm_inv_def OnOpen_def Let_def arm_view fs_view wall_def)

lemma OnStat_arm: "arm_inv NotReady (OnStat G env st n s)"
proof (cases "fs_completed s")
  case True
  then show ?thesis by (simp add: late_calls arm_inv_def fs_view)
next
  case False
  then show ?thesis
    by (simp add: OnStat_def Let_def enter_view issue_arm) (auto intro!: arm_completedI simp: fs_view)
qed

lemma OnRead_arm:
  "arm_inv (if readies (fs_log s) < readies (fs_log (OnRead G env st info s)) then Queued else NotReady) (OnRead G env st info s)"
proof (cases "fs_completed s \<or> \<not> xs_ok st")
  case True
  then show ?thesis by (intro arm_completedI) (auto simp: OnRead_def Let_def fs_view)
next
  case False
  let ?s = "read_done env info (enter FnRead s)"
  have o: "OnRead G env st info s = (if fs_paced ?s \<and> 0 < fs_remaining ?s \<and> fs_has_ready ?s
      then emit Ready (emit DisarmDeadline ?s) else ReleaseIfIdle (IssueNext G env ?s))"
    using False by (simp add: OnRead_ok Let_def)
  have "readies (fs_log (emit Ready (emit DisarmDeadline ?s))) = readies (fs_log s) + 1"
    "readies (fs_log (ReleaseIfIdle (IssueNext G env ?s))) = readies (fs_log s)" by (simp_all add: fs_view)
  moreover have "arm_inv Queued (emit Ready (emit DisarmDeadline ?s))"
    by (simp add: arm_inv_def emit_view arm_view)
  ultimately show ?thesis unfolding o using issue_arm by auto
qed

text \<open>A timeout that finds the session in the engine's hands closes it: no other operation is under way that could make
  XrdCl reject the close for now.\<close>

lemma RequestWallTimeout_arm:
  assumes "arm_inv h s" "ctl_inv h s" shows "arm_inv h (RequestWallTimeout env s)"
proof (cases "fs_completed s \<or> fs_close_requested s")
  case False
  show ?thesis
  proof (cases "h = NotReady")
    case True
    then show ?thesis using False close_arm by (simp add: RequestWallTimeout_def)
  next
    case hand: False
    have "ctl_pre s" using take_hand [OF assms(2) hand] False by simp
    then have "fs_pending_cbs s \<le> 0" using False by (simp add: ctl_pre_def)
    then show ?thesis using False by (auto simp: RequestWallTimeout_def arm_inv_def fs_view)
  qed
qed (use assms(1) in \<open>auto simp: RequestWallTimeout_def\<close>)

lemma token_hand:
  assumes "ctl_inv h s" "0 < owed f (fs_log s)" "f \<noteq> FnClose" shows "fs_completed s \<or> h = NotReady"
  using take_token [OF assms] by auto

lemma step_arm:
  assumes "session_step G y y'" "ctl_inv (ss_hand y) (ss_fs y)" "arm_inv (ss_hand y) (ss_fs y)"
  shows "arm_inv (ss_hand y') (ss_fs y')"
  using assms
proof (induction rule: session_step.induct)
  case (cb_open y env st hosts server)
  then show ?case using token_hand [of "ss_hand y" "ss_fs y" FnOpen] OnOpen_arm
    by (auto simp: late_calls arm_inv_def [of _ "ReleaseIfIdle _"] fs_view)
next
  case (cb_stat y env st fsize)
  then show ?case using token_hand [of "ss_hand y" "ss_fs y" FnStat] OnStat_arm
    by (auto simp: late_calls arm_inv_def [of _ "ReleaseIfIdle _"] fs_view)
next
  case (cb_read y info s' env st)
  then show ?case using token_hand [of "ss_hand y" "ss_fs y" FnRead] OnRead_arm [of "ss_fs y" G env st info]
    by (auto simp: late_calls arm_inv_def [of _ "ReleaseIfIdle _"] fs_view split: if_splits)
next
  case (cb_close y env st)
  then show ?case by (intro arm_completedI) (auto simp: OnClose_def Let_def fs_view)
next
  case (issue y n env)
  then show ?case using issue_arm by (auto simp: IssueNextFromEngine_def arm_inv_def [of _ "ReleaseIfIdle (ss_fs y)"] fs_view)
next
  case (close y env)
  then show ?case using close_arm by (auto simp: CloseNow_def arm_inv_def [of _ "ReleaseIfIdle (ss_fs y)"] fs_view)
next
  case (timeout y env)
  then show ?case using RequestWallTimeout_arm by simp
qed (simp_all add: arm_inv_def)

lemma start_arm: "arm_inv NotReady (fs_Start env (new_FileSession G opts True paced n a b c))"
  by (auto simp: fs_Start_def Let_def arm_inv_def arm_view fs_view wall_def)

lemma IssueNext_opts: "fs_opts (IssueNext G env s) = fs_opts s"
proof (cases "fs_completed s")
  case False
  then show ?thesis by (cases "fs_timed_out s \<or> fs_remaining s = 0")
    (simp_all add: IssueNext_close IssueNext_read Let_def issued_view fs_view)
qed (simp add: IssueNext_def)

lemma opts_kept:
  "fs_opts (OnOpen env st hosts server s) = fs_opts s" "fs_opts (OnStat G env st n s) = fs_opts s"
  "fs_opts (OnRead G env st info s) = fs_opts s" "fs_opts (OnClose env st s) = fs_opts s"
  "fs_opts (RequestWallTimeout env s) = fs_opts s" "fs_opts (IssueNextFromEngine G env s) = fs_opts s"
  "fs_opts (CloseNow env s) = fs_opts s"
  by (simp_all add: OnOpen_def OnStat_def OnRead_def OnClose_def RequestWallTimeout_def IssueNextFromEngine_def CloseNow_def
      Let_def fs_view IssueNext_opts)

lemma reach_arm: "session_reach G opts paced prepaid y \<Longrightarrow> arm_inv (ss_hand y) (ss_fs y) \<and> fs_opts (ss_fs y) = opts"
proof (induction rule: session_reach.induct)
  case (start env)
  then show ?case by (simp add: session_start_def Let_def start_arm) (simp add: fs_Start_def Let_def new_FileSession_def fs_view)
next
  case (step y y')
  have "fs_opts (ss_fs y') = fs_opts (ss_fs y)" using step(2)
    by (induction rule: session_step.induct) (simp_all add: opts_kept)
  then show ?case using step step_arm reach_ctl by metis
qed

text \<open>C14. A stalled server is always under a deadline and a waiting engine never is: with a wall timeout, a session that
  is neither completed nor closing is armed with the watchdog exactly while it is not in the engine's hands, and
  then a callback of XrdCl is what it waits for.\<close>

theorem session_under_deadline:
  assumes "session_reach G opts paced prepaid y" "dlt (Fin 0) (fo_wall_timeout_s opts)"
    "\<not> fs_completed (ss_fs y)" "\<not> fs_close_requested (ss_fs y)"
  shows "armed (fs_log (ss_fs y)) = (ss_hand y = NotReady)
    \<and> (if armed (fs_log (ss_fs y)) then \<exists>h. 0 < owed h (fs_log (ss_fs y)) else fs_pending_cbs (ss_fs y) = 0)"
proof -
  let ?s = "ss_fs y"
  note c = reach_ctl [OF assms(1)]
  have a: "armed (fs_log ?s) = (ss_hand y = NotReady)"
    using reach_arm [OF assms(1)] assms(2-4) by (simp add: arm_inv_def wall_def)
  show ?thesis
  proof (cases "ss_hand y = NotReady")
    case True
    have "owed FnClose (fs_log ?s) \<noteq> 1" using c assms(3,4) by (simp add: ctl_inv_def)
    then have "owed FnOpen (fs_log ?s) + owed FnStat (fs_log ?s) + owed FnRead (fs_log ?s) = 1"
      using ctl_live [OF c assms(3)] True by (simp add: in_hand_def)
    then have "0 < owed FnOpen (fs_log ?s) \<or> 0 < owed FnStat (fs_log ?s) \<or> 0 < owed FnRead (fs_log ?s)" by linarith
    then show ?thesis using a True by auto
  next
    case False
    then show ?thesis using a take_hand [OF c False assms(3)] assms(4) by (simp add: ctl_pre_def)
  qed
qed

lemma session_under_deadline_witness: "armed (fs_log (ss_fs demo_session))"
proof -
  have "dlt (Fin 0) (fo_wall_timeout_s demo_opts)" "\<not> fs_close_requested (ss_fs demo_session)" by code_simp+
  from session_under_deadline [OF demo_reach this(1) demo_open(1) this(2)] show ?thesis using demo_open(2) by simp
qed

text \<open>The deadline armed for a close is not acted on: a close that XrdCl accepted and never answers has no timeout of its
  own.\<close>

lemma close_deadline_ignored: "fs_close_requested s \<Longrightarrow> RequestWallTimeout env s = s"
  by (simp add: RequestWallTimeout_def)

end
