(* ===== verification/Spec2Isabelle.thy ===== *)
theory Spec2Isabelle
  imports Units RunConfig TokenBucket Inflight Registry SessionLedger SessionResults AuthCheck EngineRuns ReportBack
    PromEncode Pushgateway Chirp Watchdog SoftFaultLog ProcStat RunReport CommandLine ReadRun LogLine SessionDeadline
begin

text \<open>
  A verification library for xrdhover, a generator of remote-read traffic: it opens files on XRootD servers and reads
  them at a byte rate it holds, from many concurrent sessions, and says what it did in a result file, on a
  Pushgateway and through HTCondor. The theories model the C++ code under \<^verbatim>\<open>src/\<close> and \<^verbatim>\<open>include/xrdhover/\<close>.

  The program. \<^verbatim>\<open>main.cc\<close> reads the command line and calls one of six commands. \<^verbatim>\<open>run\<close> takes its configuration from flags
  (\<^verbatim>\<open>run_config.cc\<close>, \<^verbatim>\<open>units.cc\<close>) or from a workload document (\<^verbatim>\<open>workload_spec.cc\<close>, \<^verbatim>\<open>workload_run_command.cc\<close>, which also checks the
  x509 proxy, \<^verbatim>\<open>auth_check.cc\<close>) and starts the engine (\<^verbatim>\<open>run_command.cc\<close>): a main thread admits sessions through the in-flight
  semaphore (\<^verbatim>\<open>inflight.cc\<close>), draws them from the scheduler (\<^verbatim>\<open>scheduler.cc\<close>), pays for every read from the token bucket
  (\<^verbatim>\<open>token_bucket.cc\<close>) and starts or continues them (\<^verbatim>\<open>file_session.cc\<close>); XrdCl's threads run the sessions' callbacks, a watchdog
  their timeouts, a timer the snapshots and a site thread the sitename queries (\<^verbatim>\<open>sitename_resolver.cc\<close>, \<^verbatim>\<open>site_map.cc\<close>). All
  of them report to the metrics registry (\<^verbatim>\<open>metrics.cc\<close>, with \<^verbatim>\<open>error_classifier.cc\<close> and \<^verbatim>\<open>soft_fault_log.cc\<close>), whose snapshots go to the
  sinks: files (\<^verbatim>\<open>file_sink.cc\<close>), a Pushgateway (\<^verbatim>\<open>prom_encode.cc\<close>, \<^verbatim>\<open>pushgateway_sink.cc\<close>) and condor_chirp (\<^verbatim>\<open>chirp_sink.cc\<close>).
  \<^verbatim>\<open>report\<close> (\<^verbatim>\<open>report_command.cc\<close>) reads the result file back; \<^verbatim>\<open>probe\<close>, \<^verbatim>\<open>read\<close>, \<^verbatim>\<open>validate\<close> and \<^verbatim>\<open>version\<close> are smaller.

  Vocabulary.
  \<open>Prelude\<close>: widths, the faults an expression can end in (an exception with its text, or undefined behaviour), results
  \<open>fault + 'a\<close>, the string operations. \<open>Binary64\<close>: the program's \<^verbatim>\<open>double\<close> as exact rationals with infinities and NaN,
  rounded to nearest even at every operation; the conversion to \<^verbatim>\<open>uint64_t\<close> is undefined out of range. \<open>Printf\<close>: the
  conversions of the printing code. \<open>OrdMap\<close>: \<^verbatim>\<open>std::map\<close> as sorted entries. \<open>Json\<close>: the JSON library as a record of functions.
  \<open>Machines\<close>: the contracts of the stateful components as locales, interpreted by each of them on its own steps.

  Components, each with its state, its operations and their properties.
  \<open>Units\<close>, \<open>RunConfig\<close>: a whole number with a unit is exactly what it says, the automatic byte budget has its bounds, which configurations are
  turned down. \<open>TokenBucket\<close>, \<open>Inflight\<close>: the level stays between 0 and the capacity, what is granted in a time is bounded by
  what the time is worth, the blocking acquire returns at its deadline, the semaphore never exceeds its cap.
  \<open>ErrorClassifier\<close>, \<open>SoftFaultLog\<close>, \<open>SiteMap\<close>: classification and attribution. \<open>Metrics\<close>, \<open>Registry\<close>, \<open>RegistryShape\<close>: the books of
  the registry balance per server and per site, and every snapshot is well-formed. \<open>ProcStat\<close>: what is read from the process'
  own records. \<open>Scheduler\<close>: the work items, their distinct seeds, that they can be paid for.
  \<open>FileSession\<close> has one function per call of a session, each a critical section of its mutex; \<open>SessionView\<close>, \<open>SessionReads\<close>,
  \<open>SessionProtocol\<close>, \<open>SessionLedger\<close> and \<open>SessionResults\<close> show, of every order of the calls, callbacks and timeouts, how long a session
  lives, that it is never stuck, that its tokens add up, that its reads stay in the file and the buffer, and that it
  gives one result. \<open>SessionEnds\<close>: that it ends, after at most as many reads as its bytes have operations and three more
  callbacks, and that with empty operations it does not; \<open>SessionDeadline\<close>: that it is armed with the watchdog exactly while
  it waits for XrdCl. \<open>Watchdog\<close>: the list of deadlines implements what was armed
  and disarmed, and each fires when due. \<open>Workload\<close>, \<open>WorkloadSound\<close>, \<open>AuthCheck\<close>: an accepted document
  gives only configurations the run does not turn down, when credentials are accepted.
  \<open>Engine\<close> has the steps of all threads of a run (\<open>engine_act\<close>); \<open>EngineCalls\<close>, \<open>EngineOwn\<close>, \<open>EngineSlots\<close>, \<open>EngineLedger\<close>, \<open>EngineBooks\<close>
  are its invariants and \<open>EngineRuns\<close> what they give of every interleaving: the rate is held end to end, no more sessions
  than the cap, each session as its protocol asks, counted once, no slot leaks, and the main thread never waits in vain.
  \<open>RunCommand\<close> is the run around the engine: checks, dry run, sinks, snapshots, final writes and pushes, summary (\<open>RunEngine\<close>,
  \<open>RunRunCommand\<close>); \<open>RunEnd\<close> shows that its exit code and counts are true, \<open>RunReport\<close> that the report of its result file
  agrees with it. \<open>FileSink\<close>, \<open>Report\<close>, \<open>ReportBack\<close>: the documents, written, read back and added up. \<open>PromEncode\<close>,
  \<open>Pushgateway\<close>, \<open>Chirp\<close>: the exposition text, the requests and the commands, and what is left when a run ends.
  \<open>ReadCommand\<close>, \<open>ReadRun\<close>: the \<^verbatim>\<open>read\<close> command and its unpaced session, whose reads stay in bounds without the ledger's
  tokens. \<open>Probe\<close>: the probe with its callbacks interleaved. \<open>MainCli\<close>, \<open>CommandLine\<close>: the commands of \<^verbatim>\<open>main\<close>, and the options it
  declares with what they set: no option of a workload run is dropped in silence. \<open>LogLine\<close>: the time stamps of the log,
  which read back as the times they were taken.

  State and steps. Records have the fields of the classes, integers their width (\<^verbatim>\<open>uint64_t\<close> is \<open>u64\<close>, arithmetic wraps),
  times are nanoseconds of the steady clock. A step is a critical section, or one atomic operation where the code
  has no lock; the order of the steps of a run is a list of actions, and the properties hold for every such
  list. A step that is not enabled is \<open>None\<close>, an exception or undefined behaviour is \<open>Inl\<close>.

  Bounds. The rate of a run, a session's tokens and its reads are bounded for operations (chunk size times chunks) below
  4 GiB, as \<^verbatim>\<open>OpBytes\<close> wraps there; an accepted workload resolves for rates up to 2^60 bytes per second. The rounding terms are those of
  53-bit arithmetic, one per call. The report agrees with the run for fewer than \<open>2 ^ 52\<close> steps, since it reads counts as a
  \<^verbatim>\<open>double\<close>. Loops are recursive on their data or have a measure; the blocking acquire, \<open>AcquireUntil_loop\<close>, has fuel and the
  clock as a function of the number of readings, and is shown to return with as much fuel as there are turns before the clock
  reaches the deadline.

  Parameters, with what is used of them as hypotheses: XrdCl (any submission may be accepted or rejected, a handler
  runs at most once per accepted operation, a read reports no more bytes than asked), the random engine and the
  distributions (they stay in their range), the JSON library (its observers see what its constructors were given, and a
  document printed and parsed looks the same), OpenSSL, libcurl, the file system, processes, the environment
  (their results are arguments) and CLI11 (it splits the command line, converts the texts and keeps its range checks, \<open>range_law\<close>).

  Not modelled: the constants of \<^verbatim>\<open>build_info.hh\<close>; memory and data races below the level of critical sections; the sign of a zero; a NUL
  byte inside a name printed with \<^verbatim>\<open>%s\<close>; a write that fails after its file was opened. In \<open>RunEngine\<close> the cached sitenames
  and the query's answers are arguments, as their thread runs beside the engine; what it records is the engine's
  \<open>FoundSite\<close> step. The lines a run sends to the error stream are collected as texts; the stamp \<^verbatim>\<open>LogTo\<close> puts before them is
  \<open>UtcStamp\<close> of the wall clock, which the run's own state does not have.
\<close>

end
